(* ===== verification/Prelude.thy ===== *)
theory Prelude
  imports Main "HOL-Library.Word"
begin

text \<open>
  Prelude of the development: the vocabulary every component shares.

  \<^item> machine integers of the C code (\<open>uint8_t\<close>, \<open>uint16_t\<close>, \<open>uint32_t\<close>) as words;
  \<^item> \<open>c_fault\<close> and \<open>c_result\<close>: an operation of the C code that would run into
    undefined behaviour (a NULL dereference, a read of freed or uninitialised memory, ...)
    is a value \<open>Inl fault\<close>; an operation that returns is \<open>Inr result\<close>. So \<open>the code is
    memory safe here\<close> is a theorem \<open>f x = Inr y\<close> and not an assumption of the model;
  \<^item> \<open>struct timeval\<close> with the arithmetic of \<open>timeradd\<close>, \<open>timersub\<close> and \<open>timercmp\<close>
    (\<open>src/compatibility/timer.h\<close> spells the first two out), ordered by \<open>timercmp\<close>;
  \<^item> generic lemmas on lists used by several components.
\<close>

named_theorems tv_simps \<open>reduce timeval arithmetic to integers\<close>
named_theorems fault_simps \<open>evaluate results that may be a fault\<close>

type_synonym u8 = "8 word"
type_synonym u16 = "16 word"
type_synonym u32 = "32 word"
type_synonym bytes = "8 word list"

section \<open>Faults\<close>

datatype c_fault =
    Null_Deref
  | Uninit_Read
  | Out_Of_Bounds
  | Use_After_Free
  | Invalid_Free
  | Div_By_Zero

type_synonym 'a c_result = "c_fault + 'a"

definition c_bind :: "'a c_result \<Rightarrow> ('a \<Rightarrow> 'b c_result) \<Rightarrow> 'b c_result" where
  "c_bind r f = (case r of Inl e \<Rightarrow> Inl e | Inr x \<Rightarrow> f x)"

lemma c_bind_simps [simp, fault_simps]:
  "c_bind (Inl e) f = Inl e"
  "c_bind (Inr x) f = f x"
  by (simp_all add: c_bind_def)

lemma c_bind_Inr_conv: "c_bind r f = Inr y \<longleftrightarrow> (\<exists>x. r = Inr x \<and> f x = Inr y)"
  by (cases r) simp_all

lemma c_bind_InrE:
  assumes "c_bind r f = Inr y"
  obtains x where "r = Inr x" and "f x = Inr y"
  using assms by (auto simp: c_bind_Inr_conv)

section \<open>Time values\<close>

text \<open>\<open>struct timeval\<close>: seconds and microseconds. \<open>timercmp(a,b,<)\<close> compares seconds first.\<close>

datatype timeval = Timeval (tv_sec: int) (tv_usec: int)

instantiation timeval :: linorder
begin

definition less_timeval :: "timeval \<Rightarrow> timeval \<Rightarrow> bool" where
  "less_timeval a b =
     (if tv_sec a = tv_sec b then tv_usec a < tv_usec b else tv_sec a < tv_sec b)"

definition less_eq_timeval :: "timeval \<Rightarrow> timeval \<Rightarrow> bool" where
  "less_eq_timeval a b \<longleftrightarrow> a = b \<or> a < b"

instance
proof
  fix a b c :: timeval
  show "(a < b) = (a \<le> b \<and> \<not> b \<le> a)"
    by (cases a; cases b) (auto simp: less_timeval_def less_eq_timeval_def split: if_splits)
  show "a \<le> a" by (simp add: less_eq_timeval_def)
  show "a \<le> b \<Longrightarrow> b \<le> c \<Longrightarrow> a \<le> c"
    by (cases a; cases b; cases c)
      (auto simp: less_timeval_def less_eq_timeval_def split: if_splits)
  show "a \<le> b \<Longrightarrow> b \<le> a \<Longrightarrow> a = b"
    by (cases a; cases b) (auto simp: less_timeval_def less_eq_timeval_def split: if_splits)
  show "a \<le> b \<or> b \<le> a"
    by (cases a; cases b) (auto simp: less_timeval_def less_eq_timeval_def split: if_splits)
qed

end

definition timeradd :: "timeval \<Rightarrow> timeval \<Rightarrow> timeval" where
  "timeradd a b =
     (let s = tv_sec a + tv_sec b; u = tv_usec a + tv_usec b
      in if u \<ge> 1000000 then Timeval (s + 1) (u - 1000000) else Timeval s u)"

definition timersub :: "timeval \<Rightarrow> timeval \<Rightarrow> timeval" where
  "timersub a b =
     (let s = tv_sec a - tv_sec b; u = tv_usec a - tv_usec b
      in if u < 0 then Timeval (s - 1) (u + 1000000) else Timeval s u)"

definition timerisset :: "timeval \<Rightarrow> bool" where
  "timerisset t \<longleftrightarrow> tv_sec t \<noteq> 0 \<or> tv_usec t \<noteq> 0"

text \<open>The abstract meaning: a number of microseconds; a value is normalised when the
  microsecond field is a proper fraction of a second.\<close>

definition tv_us :: "timeval \<Rightarrow> int" where
  "tv_us t = tv_sec t * 1000000 + tv_usec t"

definition tv_norm :: "timeval \<Rightarrow> bool" where
  "tv_norm t \<longleftrightarrow> 0 \<le> tv_usec t \<and> tv_usec t < 1000000"

lemma tv_us_timeradd [tv_simps]: "tv_us (timeradd a b) = tv_us a + tv_us b"
  by (simp add: tv_us_def timeradd_def Let_def)

lemma tv_us_timersub [tv_simps]: "tv_us (timersub a b) = tv_us a - tv_us b"
  by (simp add: tv_us_def timersub_def Let_def)

lemma tv_us_Timeval [tv_simps]: "tv_us (Timeval s u) = s * 1000000 + u"
  by (simp add: tv_us_def)

lemma tv_norm_Timeval [tv_simps]: "tv_norm (Timeval s u) \<longleftrightarrow> 0 \<le> u \<and> u < 1000000"
  by (simp add: tv_norm_def)

lemma tv_norm_timeradd [intro, tv_simps]:
  "tv_norm a \<Longrightarrow> tv_norm b \<Longrightarrow> tv_norm (timeradd a b)"
  by (auto simp: tv_norm_def timeradd_def Let_def)

lemma tv_norm_timersub [intro, tv_simps]:
  "tv_norm a \<Longrightarrow> tv_norm b \<Longrightarrow> tv_norm (timersub a b)"
  by (auto simp: tv_norm_def timersub_def Let_def)

lemma tv_less_us: "tv_norm a \<Longrightarrow> tv_norm b \<Longrightarrow> a < b \<longleftrightarrow> tv_us a < tv_us b"
  by (auto simp: less_timeval_def tv_norm_def tv_us_def)

lemma tv_le_us: "tv_norm a \<Longrightarrow> tv_norm b \<Longrightarrow> a \<le> b \<longleftrightarrow> tv_us a \<le> tv_us b"
  using tv_less_us [of b a] by (simp add: linorder_not_less [symmetric])

lemma tv_norm_eq_us: "tv_norm a \<Longrightarrow> tv_norm b \<Longrightarrow> tv_us a = tv_us b \<Longrightarrow> a = b"
  using tv_le_us [of a b] tv_le_us [of b a] by simp

section \<open>Lists\<close>

lemma takeWhile_length_index:
  "j < length (takeWhile P xs) \<Longrightarrow> P (xs ! j)"
  by (metis nth_mem set_takeWhileD takeWhile_nth)

lemma length_takeWhile_eqI:
  assumes "p \<le> length xs" and "\<And>j. j < p \<Longrightarrow> P (xs ! j)"
    and "p < length xs \<Longrightarrow> \<not> P (xs ! p)"
  shows "length (takeWhile P xs) = p"
proof (cases "p < length xs")
  case True
  then show ?thesis
    using assms takeWhile_eq_take_P_nth [of p xs P] by simp
next
  case False
  with assms(1) have "p = length xs" by simp
  with assms(2) have "takeWhile P xs = xs"
    by (auto simp: takeWhile_eq_all_conv in_set_conv_nth)
  then have "length (takeWhile P xs) = length xs" by (simp only:)
  with \<open>p = length xs\<close> show ?thesis by (simp only:)
qed

lemma filter_eq_take_drop:
  assumes "i < length xs" and "\<And>j. j < length xs \<Longrightarrow> P (xs ! j) \<longleftrightarrow> j \<noteq> i"
  shows "filter P xs = take i xs @ drop (Suc i) xs"
proof -
  have t: "filter P (take i xs) = take i xs"
    using assms by (auto simp: filter_id_conv in_set_conv_nth)
  have d: "filter P (drop (Suc i) xs) = drop (Suc i) xs"
    using assms by (auto simp: filter_id_conv in_set_conv_nth)
  have "filter P xs = filter P (take i xs @ xs ! i # drop (Suc i) xs)"
    using assms(1) by (simp only: id_take_nth_drop [symmetric])
  also have "\<dots> = take i xs @ drop (Suc i) xs"
    using t d assms(2) [OF assms(1)] by simp
  finally show ?thesis .
qed

lemma find_filter_keep:
  "(\<And>x. x \<in> set xs \<Longrightarrow> P x \<Longrightarrow> Q x) \<Longrightarrow> find P (filter Q xs) = find P xs"
  by (induction xs) auto

lemma takeWhile_stop:
  "(\<forall>x \<in> set xs. P x) \<Longrightarrow> \<not> P y \<Longrightarrow> takeWhile P (xs @ y # ys) = xs"
  by (induction xs) auto

lemma in_dropWhile: "x \<in> set xs \<Longrightarrow> \<not> P x \<Longrightarrow> x \<in> set (dropWhile P xs)"
  by (induction xs) auto

end
