(* ===== verification/Intrusive_List.thy ===== *)
theory Intrusive_List
  imports Prelude
begin

text \<open>
  \<open>Lib/net_helper/nhx/list.h\<close>: the circular doubly linked lists of the Linux kernel, with the
  list head embedded in the element.

  The store is explicit: \<open>links\<close> holds the \<open>next\<close> and \<open>prev\<close> fields of every \<open>list_head\<close> by
  address, address 0 is NULL, and each operation performs the assignments of the C function in
  their order.  \<open>dlist s h xs\<close> says that the list with head \<open>h\<close> has the elements \<open>xs\<close>, forward
  and backward.  The lemmas show what each operation does to that list of elements and that
  nodes outside it are not touched; they justify that the packet layer models its queues as
  lists of references.
\<close>

section \<open>The store and the operations\<close>

type_synonym addr = nat

record links =
  nxt :: "addr \<Rightarrow> addr"
  prv :: "addr \<Rightarrow> addr"

abbreviation set_next :: "addr \<Rightarrow> addr \<Rightarrow> links \<Rightarrow> links" where
  "set_next a v s \<equiv> s\<lparr>nxt := (nxt s)(a := v)\<rparr>"

abbreviation set_prev :: "addr \<Rightarrow> addr \<Rightarrow> links \<Rightarrow> links" where
  "set_prev a v s \<equiv> s\<lparr>prv := (prv s)(a := v)\<rparr>"

definition INIT_LIST_HEAD :: "addr \<Rightarrow> links \<Rightarrow> links" where
  "INIT_LIST_HEAD p s = set_prev p p (set_next p p s)"

definition list_add_between :: "addr \<Rightarrow> addr \<Rightarrow> addr \<Rightarrow> links \<Rightarrow> links" where
  "list_add_between new prev next s =
     (let s1 = set_prev next new s;
          s2 = set_next new next s1;
          s3 = set_prev new prev s2
      in set_next prev new s3)"

definition list_add :: "addr \<Rightarrow> addr \<Rightarrow> links \<Rightarrow> links" where
  "list_add new head s = list_add_between new head (nxt s head) s"

definition list_add_tail :: "addr \<Rightarrow> addr \<Rightarrow> links \<Rightarrow> links" where
  "list_add_tail new head s = list_add_between new (prv s head) head s"

definition list_del_between :: "addr \<Rightarrow> addr \<Rightarrow> links \<Rightarrow> links" where
  "list_del_between prev next s = set_next prev next (set_prev next prev s)"

definition list_del :: "addr \<Rightarrow> links \<Rightarrow> links" where
  "list_del entry s =
     (let s1 = (if prv s entry \<noteq> 0 \<and> nxt s entry \<noteq> 0
                then list_del_between (prv s entry) (nxt s entry) s else s)
      in set_prev entry 0 (set_next entry 0 s1))"

definition list_del_init :: "addr \<Rightarrow> links \<Rightarrow> links" where
  "list_del_init entry s =
     INIT_LIST_HEAD entry (list_del_between (prv s entry) (nxt s entry) s)"

definition list_move :: "addr \<Rightarrow> addr \<Rightarrow> links \<Rightarrow> links" where
  "list_move l head s = list_add l head (list_del_between (prv s l) (nxt s l) s)"

definition list_move_tail :: "addr \<Rightarrow> addr \<Rightarrow> links \<Rightarrow> links" where
  "list_move_tail l head s = list_add_tail l head (list_del_between (prv s l) (nxt s l) s)"

definition list_empty :: "addr \<Rightarrow> links \<Rightarrow> bool" where
  "list_empty head s \<longleftrightarrow> nxt s head = head"

definition list_merge :: "addr \<Rightarrow> addr \<Rightarrow> links \<Rightarrow> links" where
  "list_merge dst src s =
     (let dst_last = prv s dst;
          src_last = prv s src;
          s1 = set_next src_last (nxt s dst_last) s;
          s2 = set_next dst_last (nxt s1 src) s1
      in set_prev (nxt s2 src) dst_last s2)"

definition list_splice_nonempty :: "addr \<Rightarrow> addr \<Rightarrow> links \<Rightarrow> links" where
  "list_splice_nonempty l head s =
     (let first = nxt s l;
          lst = prv s l;
          at = nxt s head;
          s1 = set_prev first head s;
          s2 = set_next head first s1;
          s3 = set_next lst at s2
      in set_prev at lst s3)"

definition list_splice :: "addr \<Rightarrow> addr \<Rightarrow> links \<Rightarrow> links" where
  "list_splice l head s = (if \<not> list_empty l s then list_splice_nonempty l head s else s)"

definition list_splice_init :: "addr \<Rightarrow> addr \<Rightarrow> links \<Rightarrow> links" where
  "list_splice_init l head s =
     (if \<not> list_empty l s then INIT_LIST_HEAD l (list_splice_nonempty l head s) else s)"

definition list_pop :: "addr \<Rightarrow> links \<Rightarrow> addr \<times> links" where
  "list_pop head s =
     (if head \<noteq> 0 \<and> \<not> list_empty head s
      then (nxt s head, list_del (nxt s head) s) else (0, s))"

definition list_element_notadded :: "addr \<Rightarrow> links \<Rightarrow> bool" where
  "list_element_notadded el s \<longleftrightarrow> nxt s el = 0"

text \<open>\<open>list_for_each\<close>: the addresses met from \<open>head\<close> until \<open>head\<close> again; the fuel bounds the
  length of the walk.\<close>

fun list_for_each :: "nat \<Rightarrow> addr \<Rightarrow> addr \<Rightarrow> links \<Rightarrow> addr list option" where
  "list_for_each 0 pos head s = None"
| "list_for_each (Suc fuel) pos head s =
     (if pos = head then Some []
      else map_option (Cons pos) (list_for_each fuel (nxt s pos) head s))"

section \<open>The list a head represents\<close>

text \<open>\<open>chain s p xs q\<close>: from \<open>p\<close> the \<open>next\<close> fields run through \<open>xs\<close> to \<open>q\<close>, and the \<open>prev\<close>
  fields run back.\<close>

fun chain :: "links \<Rightarrow> addr \<Rightarrow> addr list \<Rightarrow> addr \<Rightarrow> bool" where
  "chain s p [] q \<longleftrightarrow> nxt s p = q \<and> prv s q = p"
| "chain s p (x # xs) q \<longleftrightarrow> nxt s p = x \<and> prv s x = p \<and> chain s x xs q"

definition dlist :: "links \<Rightarrow> addr \<Rightarrow> addr list \<Rightarrow> bool" where
  "dlist s h xs \<longleftrightarrow> 0 \<notin> set (h # xs) \<and> distinct (h # xs) \<and> chain s h xs h"

lemma chain_append: "chain s p (xs @ y # ys) q \<longleftrightarrow> chain s p xs y \<and> chain s y ys q"
  by (induction xs arbitrary: p) auto

lemma chain_last: "chain s p xs q \<Longrightarrow> prv s q = last (p # xs)"
  by (induction xs arbitrary: p) auto

lemma chain_first: "chain s p xs q \<Longrightarrow> nxt s p = hd (xs @ [q])"
  by (cases xs) auto

text \<open>A chain reads \<open>next\<close> of its start and its elements and \<open>prev\<close> of its elements and its end.\<close>

lemma chain_cong:
  "chain s p xs q \<Longrightarrow> (\<And>a. a \<in> set (p # xs) \<Longrightarrow> nxt s' a = nxt s a) \<Longrightarrow>
   (\<And>a. a \<in> set (xs @ [q]) \<Longrightarrow> prv s' a = prv s a) \<Longrightarrow> chain s' p xs q"
  by (induction xs arbitrary: p) auto

lemma chain_relink:
  "chain s p ys q \<Longrightarrow> ys \<noteq> [] \<Longrightarrow> nxt s' p' = hd ys \<Longrightarrow> prv s' (hd ys) = p' \<Longrightarrow>
   nxt s' (last ys) = q' \<Longrightarrow> prv s' q' = last ys \<Longrightarrow>
   (\<And>a. a \<in> set (butlast ys) \<Longrightarrow> nxt s' a = nxt s a) \<Longrightarrow>
   (\<And>a. a \<in> set (tl ys) \<Longrightarrow> prv s' a = prv s a) \<Longrightarrow> chain s' p' ys q'"
proof (induction ys arbitrary: p p')
  case (Cons y ys)
  then show ?case by (cases ys) auto
qed simp

lemma dlist_empty_iff: "dlist s h xs \<Longrightarrow> list_empty h s \<longleftrightarrow> xs = []"
  by (cases xs) (auto simp: dlist_def list_empty_def)

lemma dlist_init: "h \<noteq> 0 \<Longrightarrow> dlist (INIT_LIST_HEAD h s) h []"
  by (simp add: dlist_def INIT_LIST_HEAD_def)

lemma dlist_nonzero: "dlist s h xs \<Longrightarrow> a \<in> set (h # xs) \<Longrightarrow> a \<noteq> 0 \<and> nxt s a \<noteq> 0 \<and> prv s a \<noteq> 0"
proof -
  assume d: "dlist s h xs" and a: "a \<in> set (h # xs)"
  have n: "chain s p ys q \<Longrightarrow> 0 \<notin> set (ys @ [q]) \<Longrightarrow> b \<in> set (p # ys) \<Longrightarrow> nxt s b \<noteq> 0" for p ys q b
    by (induction ys arbitrary: p) auto
  have p: "chain s p ys q \<Longrightarrow> 0 \<notin> set (p # ys) \<Longrightarrow> b \<in> set (ys @ [q]) \<Longrightarrow> prv s b \<noteq> 0" for p ys q b
    by (induction ys arbitrary: p) auto
  have "a \<noteq> 0" using d a by (metis dlist_def)
  moreover have "nxt s a \<noteq> 0" "prv s a \<noteq> 0"
    using d a n [of h xs h a] p [of h xs h a] by (auto simp: dlist_def)
  ultimately show ?thesis by simp
qed

section \<open>What the operations do to it\<close>

text \<open>Adding between two neighbours.\<close>

lemma chain_add_between:
  assumes "chain s p ys q" and "ys = as @ bs" and "new \<notin> set (p # q # ys)"
    and "distinct (p # ys)" and "q \<notin> set ys"
  shows "chain (list_add_between new (last (p # as)) (hd (bs @ [q])) s) p (as @ new # bs) q"
proof -
  let ?l = "last (p # as)" and ?r = "hd (bs @ [q])"
  let ?s = "list_add_between new ?l ?r s"
  have c: "chain s p as ?r" "chain s ?l bs q"
  proof -
    show "chain s p as ?r"
      using assms(1,2) chain_append [of s p as "hd bs" "tl bs" q] by (cases bs) auto
    show "chain s ?l bs q"
      using assms(1,2) chain_append [of s p "butlast as" "last as" bs q] by (cases as rule: rev_cases) auto
  qed
  have nl: "nxt ?s = (nxt s)(new := ?r, ?l := new)" "prv ?s = (prv s)(?r := new, new := ?l)"
    by (simp_all add: list_add_between_def Let_def)
  have "chain ?s p as new"
  proof (cases as rule: rev_cases)
    case Nil
    then show ?thesis using nl assms(3) by auto
  next
    case (snoc as' a)
    have "chain s p as' a" using assms(1,2) snoc chain_append by auto
    then have "chain ?s p as' a"
      by (rule chain_cong) (use snoc assms nl in \<open>auto simp: hd_append split: if_splits\<close>)
    then show ?thesis using snoc nl assms chain_append [of ?s p as' a "[]" new] by auto
  qed
  moreover have "chain ?s new bs q"
  proof (cases bs)
    case Nil
    then have "new \<noteq> last (p # as)" using assms(2,3) last_in_set [of "p # as"] by auto
    then show ?thesis using nl Nil assms(3) by auto
  next
    case (Cons b bs')
    have lb: "last (p # as) \<notin> set bs" using assms(2,4) last_in_set [of "p # as"] by auto
    have "chain s b bs' q" using assms(1,2) Cons chain_append by auto
    then have "chain ?s b bs' q"
      by (rule chain_cong) (use Cons assms lb nl in \<open>auto simp del: last.simps\<close>)
    moreover have "last (p # as) \<noteq> new" using assms(2,3) last_in_set [of "p # as"] by auto
    ultimately show ?thesis using Cons nl assms by (auto simp del: last.simps)
  qed
  ultimately show ?thesis by (simp add: chain_append)
qed

lemma dlist_add:
  assumes "dlist s h xs" and "new \<notin> set (h # xs)" and "new \<noteq> 0"
  shows "dlist (list_add new h s) h (new # xs)"
proof -
  have c: "chain s h xs h" using assms(1) by (simp add: dlist_def)
  have "chain (list_add new h s) h ([] @ new # xs) h"
    unfolding list_add_def chain_first [OF c]
    using chain_add_between [OF c, of "[]" xs new] assms by (simp add: dlist_def)
  then show ?thesis using assms by (auto simp: dlist_def)
qed

lemma dlist_add_tail:
  assumes "dlist s h xs" and "new \<notin> set (h # xs)" and "new \<noteq> 0"
  shows "dlist (list_add_tail new h s) h (xs @ [new])"
proof -
  have c: "chain s h xs h" using assms(1) by (simp add: dlist_def)
  have "chain (list_add_tail new h s) h (xs @ [new]) h"
    unfolding list_add_tail_def chain_last [OF c]
    using chain_add_between [OF c, of xs "[]" new] assms by (auto simp: dlist_def)
  then show ?thesis using assms by (auto simp: dlist_def)
qed

text \<open>Unlinking an element.\<close>

lemma chain_del_between:
  assumes "chain s p (as @ x # bs) q" and "distinct (p # as @ x # bs)" and "q \<notin> set (as @ x # bs)"
  shows "chain (list_del_between (prv s x) (nxt s x) s) p (as @ bs) q"
proof -
  let ?s = "list_del_between (prv s x) (nxt s x) s"
  have c: "chain s p as x" "chain s x bs q" using assms(1) by (simp_all add: chain_append)
  have e: "prv s x = last (p # as)" "nxt s x = hd (bs @ [q])"
    using chain_last [OF c(1)] chain_first [OF c(2)] by simp_all
  have nl: "nxt ?s = (nxt s)(last (p # as) := hd (bs @ [q]))"
    "prv ?s = (prv s)(hd (bs @ [q]) := last (p # as))"
    by (simp_all add: list_del_between_def e)
  show ?thesis
  proof (cases as rule: rev_cases)
    case Nil
    show ?thesis
    proof (cases bs)
      case Nil
      with \<open>as = []\<close> nl show ?thesis by simp
    next
      case (Cons b bs')
      have "chain s b bs' q" using c(2) Cons by simp
      then have "chain ?s b bs' q"
        by (rule chain_cong) (use Cons Nil assms nl in \<open>auto split: if_splits\<close>)
      then show ?thesis using Cons \<open>as = []\<close> nl by simp
    qed
  next
    case (snoc as' a)
    have ca: "chain s p as' a" using c(1) snoc chain_append by auto
    then have ca': "chain ?s p as' a"
      by (rule chain_cong) (use snoc assms nl in \<open>auto simp: hd_append split: if_splits\<close>)
    show ?thesis
    proof (cases bs)
      case Nil
      with snoc nl ca' show ?thesis by (simp add: chain_append)
    next
      case (Cons b bs')
      have "chain s b bs' q" using c(2) Cons by simp
      then have "chain ?s b bs' q"
        by (rule chain_cong) (use Cons snoc assms nl in \<open>auto split: if_splits\<close>)
      then show ?thesis using Cons snoc nl ca' chain_append [of ?s p as' a "b # bs'" q] by simp
    qed
  qed
qed

lemma dlist_del_between:
  assumes "dlist s h (as @ x # bs)"
  shows "dlist (list_del_between (prv s x) (nxt s x) s) h (as @ bs)"
  using assms chain_del_between [of s h as x bs h] by (auto simp: dlist_def)

lemma dlist_cong_unlinked:
  assumes "dlist s h xs" and "\<And>a. a \<in> set (h # xs) \<Longrightarrow> nxt s' a = nxt s a \<and> prv s' a = prv s a"
  shows "dlist s' h xs"
  using assms chain_cong [of s h xs h s'] by (auto simp: dlist_def)

lemma dlist_del:
  assumes "dlist s h (as @ x # bs)"
  shows "dlist (list_del x s) h (as @ bs) \<and> list_element_notadded x (list_del x s)"
proof -
  let ?s1 = "list_del_between (prv s x) (nxt s x) s"
  have nz: "prv s x \<noteq> 0 \<and> nxt s x \<noteq> 0" using dlist_nonzero [OF assms, of x] by simp
  have d: "dlist ?s1 h (as @ bs)" by (rule dlist_del_between [OF assms])
  have x: "x \<notin> set (h # as @ bs)" using assms by (auto simp: dlist_def)
  have "dlist (list_del x s) h (as @ bs)"
    by (rule dlist_cong_unlinked [OF d]) (use x nz in \<open>auto simp: list_del_def Let_def\<close>)
  then show ?thesis by (simp add: list_element_notadded_def list_del_def Let_def)
qed

text \<open>Deleting an element that is in no list only clears its own links.\<close>

lemma list_del_unlinked:
  "nxt s x = 0 \<Longrightarrow> prv s x = 0 \<Longrightarrow> list_del x s = s"
  by (simp add: list_del_def Let_def fun_upd_idem)

lemma dlist_pop_Nil: "dlist s h [] \<Longrightarrow> list_pop h s = (0, s)"
  by (simp add: list_pop_def dlist_empty_iff)

lemma dlist_pop_Cons:
  assumes "dlist s h (x # xs)"
  shows "fst (list_pop h s) = x \<and> dlist (snd (list_pop h s)) h xs
    \<and> list_element_notadded x (snd (list_pop h s))"
proof -
  have "nxt s h = x" "h \<noteq> 0" using assms by (auto simp: dlist_def)
  then show ?thesis
    using dlist_del [of s h "[]" x xs] assms dlist_empty_iff [OF assms] by (simp add: list_pop_def)
qed

text \<open>An element is in a list exactly if its \<open>next\<close> field is set.\<close>

lemma dlist_element_added: "dlist s h xs \<Longrightarrow> x \<in> set xs \<Longrightarrow> \<not> list_element_notadded x s"
  using dlist_nonzero [of s h xs x] by (simp add: list_element_notadded_def)

text \<open>Splicing puts the whole source list in front of the destination list.\<close>

text \<open>The four links the splicing sets; the elements of the source list keep the others, and so do those of the destination.\<close>

lemma splice_links:
  assumes "chain s l ys l" and "chain s h xs h" and "ys \<noteq> []"
  shows "nxt (list_splice_nonempty l h s) = (nxt s)(h := hd ys, last ys := hd (xs @ [h]))"
    and "prv (list_splice_nonempty l h s) = (prv s)(hd ys := h, hd (xs @ [h]) := last ys)"
  using chain_first [OF assms(1)] chain_last [OF assms(1)] chain_first [OF assms(2)] assms(3)
  by (simp_all add: list_splice_nonempty_def Let_def)

lemma splice_front:
  assumes "dlist s l ys" and "dlist s h xs" and "set (l # ys) \<inter> set (h # xs) = {}" and ne: "ys \<noteq> []"
  shows "chain (list_splice_nonempty l h s) h ys (hd (xs @ [h]))"
proof -
  have c: "chain s l ys l" "chain s h xs h" and d: "distinct ys" using assms(1,2) by (simp_all add: dlist_def)
  note nl = splice_links [OF c ne]
  have in1: "hd ys \<in> set ys" "last ys \<in> set ys" using ne by simp_all
  have hy: "hd (xs @ [h]) \<notin> set ys" using assms(3) by (cases xs) auto
  have neq: "h \<noteq> hd ys" "h \<noteq> last ys" "hd (xs @ [h]) \<noteq> hd ys" using in1 hy assms(3) by auto
  have "ys = butlast ys @ [last ys]" using ne by simp
  then have ly: "last ys \<notin> set (butlast ys)" using d distinct_append [of "butlast ys" "[last ys]"] by simp
  have hd: "hd ys \<notin> set (tl ys)" using d ne by (cases ys) simp_all
  show ?thesis
  proof (rule chain_relink [OF c(1) ne])
    fix a
    show "nxt (list_splice_nonempty l h s) a = nxt s a" if "a \<in> set (butlast ys)"
    proof -
      have "a \<noteq> h" "a \<noteq> last ys" using that ly in_set_butlastD [of a ys] assms(3) by auto
      then show ?thesis unfolding nl by simp
    qed
    show "prv (list_splice_nonempty l h s) a = prv s a" if "a \<in> set (tl ys)"
    proof -
      have "a \<noteq> hd ys" "a \<noteq> hd (xs @ [h])" using that hy hd list.set_sel(2) [OF ne, of a] by auto
      then show ?thesis unfolding nl by simp
    qed
  qed (use neq in \<open>simp_all add: nl\<close>)
qed

lemma splice_rest:
  assumes "dlist s l ys" and "dlist s h xs" and "set (l # ys) \<inter> set (h # xs) = {}" and ne: "ys \<noteq> []" "xs \<noteq> []"
  shows "chain (list_splice_nonempty l h s) (hd xs) (tl xs) h"
proof -
  have c: "chain s l ys l" "chain s h xs h" and d: "distinct (h # xs)" using assms(1,2) by (simp_all add: dlist_def)
  note nl = splice_links [OF c ne(1)]
  have ends: "hd ys \<notin> set (h # xs)" "last ys \<notin> set (h # xs)" using hd_in_set [OF ne(1)] last_in_set [OF ne(1)] assms(3) by auto
  obtain x xs' where xs: "xs = x # xs'" using ne(2) by (cases xs) auto
  have "chain s x xs' h" using c(2) by (simp add: xs)
  then have "chain (list_splice_nonempty l h s) x xs' h"
    by (rule chain_cong) (use ends d in \<open>auto simp: nl xs\<close>)
  then show ?thesis by (simp add: xs)
qed

lemma dlist_splice:
  assumes "dlist s l ys" and "dlist s h xs" and "set (l # ys) \<inter> set (h # xs) = {}"
  shows "dlist (list_splice l h s) h (ys @ xs)"
proof (cases "ys = []")
  case True
  then show ?thesis using assms dlist_empty_iff [OF assms(1)] by (simp add: list_splice_def)
next
  case False
  let ?s = "list_splice_nonempty l h s"
  have "chain ?s h (ys @ xs) h"
    using splice_front [OF assms False] splice_rest [OF assms False] chain_append [of ?s h ys "hd xs" "tl xs" h]
    by (cases xs) auto
  then have "dlist ?s h (ys @ xs)" using assms by (auto simp: dlist_def)
  then show ?thesis using False dlist_empty_iff [OF assms(1)] by (simp add: list_splice_def)
qed

lemma dlist_for_each:
  assumes "dlist s h xs" and "length xs < fuel"
  shows "list_for_each fuel (nxt s h) h s = Some xs"
proof -
  have "chain s p ys h \<Longrightarrow> h \<notin> set ys \<Longrightarrow> length ys < n \<Longrightarrow>
      list_for_each n (nxt s p) h s = Some ys" for p ys n
  proof (induction ys arbitrary: p n)
    case Nil
    then show ?case by (cases n) auto
  next
    case (Cons y ys)
    then show ?case by (cases n) auto
  qed
  then show ?thesis using assms by (simp add: dlist_def)
qed

section \<open>The queue interface\<close>

text \<open>
  What the packet layer does with its send queue: append a message, append it only if it is in no
  list, unlink it wherever it is, take the first one.  \<open>queue_run\<close> performs a sequence of such calls
  with given operations and lists what was taken; \<open>list_run\<close> is the same on a plain list.
\<close>

datatype 'a queue_op = Enqueue 'a | Enqueue_if 'a | Unlink 'a | Dequeue

fun queue_run ::
  "('a \<Rightarrow> 's \<Rightarrow> 's) \<Rightarrow> ('a \<Rightarrow> 's \<Rightarrow> bool) \<Rightarrow> ('a \<Rightarrow> 's \<Rightarrow> 's) \<Rightarrow> ('s \<Rightarrow> 'a \<times> 's) \<Rightarrow>
   's \<Rightarrow> 'a queue_op list \<Rightarrow> 'a list \<times> 's" where
  "queue_run add notadded del pop s [] = ([], s)"
| "queue_run add notadded del pop s (Enqueue a # ops) = queue_run add notadded del pop (add a s) ops"
| "queue_run add notadded del pop s (Enqueue_if a # ops) =
     queue_run add notadded del pop (if notadded a s then add a s else s) ops"
| "queue_run add notadded del pop s (Unlink a # ops) = queue_run add notadded del pop (del a s) ops"
| "queue_run add notadded del pop s (Dequeue # ops) =
     (case pop s of (a, s') \<Rightarrow> case queue_run add notadded del pop s' ops of (as, s'') \<Rightarrow> (a # as, s''))"

abbreviation list_run :: "'a \<Rightarrow> 'a list \<Rightarrow> 'a queue_op list \<Rightarrow> 'a list \<times> 'a list" where
  "list_run null \<equiv> queue_run (\<lambda>a q. q @ [a]) (\<lambda>a q. a \<notin> set q) remove1
     (\<lambda>q. case q of [] \<Rightarrow> (null, []) | a # q' \<Rightarrow> (a, q'))"

text \<open>The calls are legal when they name elements of \<open>U\<close> and \<open>Enqueue\<close> is called for elements that are
  in no list.\<close>

fun ops_ok :: "'a set \<Rightarrow> 'a list \<Rightarrow> 'a queue_op list \<Rightarrow> bool" where
  "ops_ok U q [] = True"
| "ops_ok U q (Enqueue a # ops) = (a \<in> U \<and> a \<notin> set q \<and> ops_ok U (q @ [a]) ops)"
| "ops_ok U q (Enqueue_if a # ops) = (a \<in> U \<and> ops_ok U (if a \<notin> set q then q @ [a] else q) ops)"
| "ops_ok U q (Unlink a # ops) = (a \<in> U \<and> ops_ok U (remove1 a q) ops)"
| "ops_ok U q (Dequeue # ops) = ops_ok U (tl q) ops"

locale linked_queue =
  fixes repr :: "'s \<Rightarrow> 'a list \<Rightarrow> bool"
    and U :: "'a set" and null :: 'a
    and add :: "'a \<Rightarrow> 's \<Rightarrow> 's" and notadded :: "'a \<Rightarrow> 's \<Rightarrow> bool"
    and del :: "'a \<Rightarrow> 's \<Rightarrow> 's" and pop :: "'s \<Rightarrow> 'a \<times> 's"
  assumes repr_add: "repr s q \<Longrightarrow> a \<in> U \<Longrightarrow> a \<notin> set q \<Longrightarrow> repr (add a s) (q @ [a])"
    and notadded_iff: "repr s q \<Longrightarrow> a \<in> U \<Longrightarrow> notadded a s \<longleftrightarrow> a \<notin> set q"
    and repr_del: "repr s q \<Longrightarrow> a \<in> U \<Longrightarrow> repr (del a s) (remove1 a q)"
    and pop_empty: "repr s [] \<Longrightarrow> pop s = (null, s)"
    and repr_pop: "repr s (a # q) \<Longrightarrow> fst (pop s) = a \<and> repr (snd (pop s)) q"
begin

lemma run_refines:
  "repr s q \<Longrightarrow> ops_ok U q ops \<Longrightarrow>
   fst (queue_run add notadded del pop s ops) = fst (list_run null q ops) \<and>
   repr (snd (queue_run add notadded del pop s ops)) (snd (list_run null q ops))"
proof (induction ops arbitrary: s q)
  case (Cons op ops)
  show ?case
  proof (cases op)
    case (Enqueue a)
    then show ?thesis using Cons.IH [OF repr_add] Cons.prems by simp
  next
    case (Enqueue_if a)
    then show ?thesis
      using Cons.IH [OF repr_add] Cons.IH [OF Cons.prems(1)] Cons.prems notadded_iff [of s q a]
      by (cases "a \<in> set q") simp_all
  next
    case (Unlink a)
    then show ?thesis using Cons.IH [OF repr_del] Cons.prems by simp
  next
    case Dequeue
    show ?thesis
    proof (cases q)
      case Nil
      then show ?thesis
        using Dequeue Cons.IH [of s "[]"] Cons.prems pop_empty [of s] by (simp add: case_prod_unfold)
    next
      case (Cons a q')
      then show ?thesis
        using Dequeue Cons.IH [of "snd (pop s)" q'] Cons.prems repr_pop [of s a q']
        by (simp add: case_prod_unfold)
    qed
  qed
qed simp

end

text \<open>The intrusive list with head \<open>h\<close> over the elements \<open>U\<close>, those in no list having cleared links.\<close>

definition linked :: "addr \<Rightarrow> addr set \<Rightarrow> links \<Rightarrow> addr list \<Rightarrow> bool" where
  "linked h U s q \<longleftrightarrow> dlist s h q \<and> set q \<subseteq> U \<and> 0 \<notin> U \<and> h \<notin> U \<and>
     (\<forall>a \<in> U - set q. nxt s a = 0 \<and> prv s a = 0)"

lemma linked_neighbours:
  assumes "linked h U s (as @ a # bs)"
  shows "nxt s a \<in> set (h # as @ bs)" and "prv s a \<in> set (h # as @ bs)"
proof -
  have c: "chain s h as a" "chain s a bs h" using assms by (simp_all add: linked_def dlist_def chain_append)
  show "nxt s a \<in> set (h # as @ bs)" using chain_first [OF c(2)] by (cases bs) auto
  show "prv s a \<in> set (h # as @ bs)"
    using chain_last [OF c(1)] last_in_set [of "h # as"] by (auto split: if_splits)
qed

lemma linked_add_tail:
  assumes "linked h U s q" and "a \<in> U" and "a \<notin> set q"
  shows "linked h U (list_add_tail a h s) (q @ [a])"
proof -
  have d: "dlist s h q" "a \<notin> set (h # q)" "a \<noteq> 0" using assms by (auto simp: linked_def intro!: gr0I)
  have l: "prv s h \<in> set (h # q)"
    using chain_last [of s h q h] last_in_set [of "h # q"] d(1) by (auto simp: dlist_def)
  have "nxt (list_add_tail a h s) b = 0 \<and> prv (list_add_tail a h s) b = 0" if "b \<in> U - set (q @ [a])" for b
  proof -
    have "b \<noteq> a" "b \<noteq> h" "b \<noteq> prv s h" "nxt s b = 0" "prv s b = 0"
      using that assms(1) l by (auto simp: linked_def)
    then show ?thesis by (simp add: list_add_tail_def list_add_between_def Let_def)
  qed
  then show ?thesis using dlist_add_tail [OF d] assms by (auto simp: linked_def)
qed

lemma linked_del_at:
  assumes "linked h U s (as @ a # bs)"
  shows "linked h U (list_del a s) (as @ bs)"
proof -
  have d: "dlist s h (as @ a # bs)" "a \<in> U" using assms by (simp_all add: linked_def)
  have dis: "a \<notin> set (as @ bs)" using d(1) by (simp add: dlist_def)
  note nb = linked_neighbours [OF assms]
  have "nxt (list_del a s) b = 0 \<and> prv (list_del a s) b = 0" if "b \<in> U - set (as @ bs)" for b
  proof (cases "b = a")
    case True
    then show ?thesis by (simp add: list_del_def Let_def)
  next
    case False
    then have "b \<noteq> nxt s a" "b \<noteq> prv s a" "nxt s b = 0" "prv s b = 0"
      using that nb assms by (auto simp: linked_def)
    then show ?thesis using False by (simp add: list_del_def list_del_between_def Let_def)
  qed
  then show ?thesis using dlist_del [OF d(1)] assms dis by (auto simp: linked_def)
qed

lemma linked_del:
  assumes "linked h U s q" and "a \<in> U"
  shows "linked h U (list_del a s) (remove1 a q)"
proof (cases "a \<in> set q")
  case True
  then obtain as bs where q: "q = as @ a # bs" "a \<notin> set as" by (meson split_list_first)
  then show ?thesis using linked_del_at [of h U s as a bs] assms(1) by (simp add: remove1_append)
next
  case False
  then have "list_del a s = s" using assms list_del_unlinked by (auto simp: linked_def)
  then show ?thesis using False assms(1) by (simp add: remove1_idem)
qed

interpretation intrusive: linked_queue "linked h U" U 0 "\<lambda>a. list_add_tail a h" list_element_notadded
  list_del "list_pop h" for h :: addr and U :: "addr set"
proof
  fix s q a
  show "linked h U s q \<Longrightarrow> a \<in> U \<Longrightarrow> a \<notin> set q \<Longrightarrow> linked h U (list_add_tail a h s) (q @ [a])"
    by (rule linked_add_tail)
  show "linked h U s q \<Longrightarrow> a \<in> U \<Longrightarrow> list_element_notadded a s \<longleftrightarrow> a \<notin> set q"
    using dlist_element_added [of s h q a] by (auto simp: linked_def list_element_notadded_def)
  show "linked h U s q \<Longrightarrow> a \<in> U \<Longrightarrow> linked h U (list_del a s) (remove1 a q)"
    by (rule linked_del)
  show "linked h U s [] \<Longrightarrow> list_pop h s = (0, s)"
    by (simp add: linked_def dlist_pop_Nil)
  show "linked h U s (a # q) \<Longrightarrow> fst (list_pop h s) = a \<and> linked h U (snd (list_pop h s)) q"
  proof -
    assume l: "linked h U s (a # q)"
    then have "dlist s h (a # q)" "h \<noteq> 0" "nxt s h = a" by (auto simp: linked_def dlist_def)
    then show ?thesis
      using linked_del_at [of h U s "[]" a q] l dlist_empty_iff [of s h "a # q"] by (simp add: list_pop_def)
  qed
qed

section \<open>Properties\<close>

text \<open>C30: The intrusive list implements a queue: for every sequence of \<open>list_add_tail\<close>, \<open>list_add_tail\<close> guarded
  by \<open>list_element_notadded\<close>, \<open>list_del\<close> of an element wherever it is (also in no list) and \<open>list_pop\<close>, the
  elements popped are those of a plain list, and the links represent that list again.\<close>

theorem list_implements_queue:
  assumes "linked h U s q" and "ops_ok U q ops"
  shows "fst (queue_run (\<lambda>a. list_add_tail a h) list_element_notadded list_del (list_pop h) s ops) =
      fst (list_run 0 q ops) \<and>
    linked h U (snd (queue_run (\<lambda>a. list_add_tail a h) list_element_notadded list_del (list_pop h) s ops))
      (snd (list_run 0 q ops))"
  using assms by (rule intrusive.run_refines)

theorem list_implements_queue_witness:
  "fst (queue_run (\<lambda>a. list_add_tail a 1) list_element_notadded list_del (list_pop 1)
     (INIT_LIST_HEAD 1 \<lparr>nxt = \<lambda>_. 0, prv = \<lambda>_. 0\<rparr>)
     [Enqueue 2, Enqueue 3, Enqueue_if 2, Enqueue 4, Unlink 3, Unlink 3, Dequeue, Enqueue_if 2, Dequeue, Dequeue, Dequeue])
   = [2, 4, 2, 0]"
proof -
  have l: "linked 1 {2, 3, 4} (INIT_LIST_HEAD 1 \<lparr>nxt = \<lambda>_. 0, prv = \<lambda>_. 0\<rparr>) []"
    by (simp add: linked_def dlist_def INIT_LIST_HEAD_def)
  show ?thesis
    by (rule trans [OF conjunct1 [OF list_implements_queue [OF l]]]) simp_all
qed

text \<open>\<open>list_splice\<close> puts all elements of one list in front of those of another, both in their order:
  the result is again a doubly linked list, and walking it with \<open>list_for_each\<close> ends and visits them all.\<close>

lemma list_splice_puts_in_front:
  assumes "dlist s l ys" and "dlist s h xs" and "set (l # ys) \<inter> set (h # xs) = {}"
  shows "dlist (list_splice l h s) h (ys @ xs) \<and>
    list_for_each (length (ys @ xs) + 1) (nxt (list_splice l h s) h) h (list_splice l h s) = Some (ys @ xs)"
  using dlist_splice [OF assms] dlist_for_each [OF dlist_splice [OF assms], of "length (ys @ xs) + 1"] by simp

text \<open>\<open>list_merge\<close>, as written, does not merge: after it the \<open>prev\<close> field of the destination head still
  names the old last element, so the result is not the doubly linked list of both lists' elements.\<close>

lemma list_merge_leaves_prev:
  assumes "dlist s d xs" and "dlist s e ys" and "set (d # xs) \<inter> set (e # ys) = {}" and "ys \<noteq> []"
  shows "prv (list_merge d e s) d = last (d # xs) \<and> \<not> dlist (list_merge d e s) d (xs @ ys)"
proof -
  have c: "chain s d xs d" "chain s e ys e" using assms(1,2) by (simp_all add: dlist_def)
  have src: "nxt s e = hd ys" "hd ys \<in> set ys" "last ys \<in> set ys"
    using chain_first [OF c(2)] assms(4) by simp_all
  have n: "e \<noteq> last ys" "e \<noteq> last (d # xs)" "hd ys \<noteq> d"
    using assms src by (auto simp: dlist_def split: if_splits)
  have p: "prv (list_merge d e s) d = last (d # xs)"
    using n chain_last [OF c(1)] chain_last [OF c(2)] assms(4) src(1)
    by (simp add: list_merge_def Let_def)
  moreover have "\<not> dlist (list_merge d e s) d (xs @ ys)"
  proof
    assume "dlist (list_merge d e s) d (xs @ ys)"
    then have "prv (list_merge d e s) d = last (d # xs @ ys)"
      by (auto simp: dlist_def dest: chain_last)
    with p have "last (d # xs) = last ys" using assms(4) by simp
    moreover have "last (d # xs) \<in> set (d # xs)" by (rule last_in_set) simp
    ultimately show False using src(3) assms(3) by auto
  qed
  ultimately show ?thesis by simp
qed

end
