(* ===== verification/Ord_Set.thy ===== *)
theory Ord_Set
  imports Prelude
begin

text \<open>
  \<open>Lib/net_helper/nhx/ord_set.c\<close>: an array of pointers kept sorted by a comparison
  function, searched by bisection.

  The record \<open>ord_set\<close> holds the capacity and the used part of the array, so
  \<open>n_elements\<close> is the length of \<open>os_elements\<close>; the comparison function of the C struct
  is passed to each operation.  \<open>os_find\<close>, \<open>os_insert\<close>, \<open>os_remove\<close> are the bodies of the C
  functions behind their NULL checks, \<open>ord_set_find\<close>, \<open>ord_set_insert\<close>, \<open>ord_set_remove\<close> add
  the checks (\<open>None\<close> is NULL).  Positions are natural numbers here;
  \<open>pos_loop32\<close> is the same bisection on \<open>uint32_t\<close> values, and the two agree as long as
  the set holds at most $2^{31}$ elements.

  The locale \<open>cmp_order\<close> states what the comparison function must promise; inside it every
  operation is shown equal to its specification on lists (linear search, sorted insertion,
  filtering) and to keep the set well formed.  The locale \<open>keyed_store\<close> is the resulting
  interface for clients; \<open>cmp_key\<close> (a comparison by a key) provides it.
\<close>

section \<open>The operations\<close>

record 'a ord_set =
  os_size :: nat
  os_elements :: "'a list"

abbreviation n_elements :: "'a ord_set \<Rightarrow> nat" where
  "n_elements os \<equiv> length (os_elements os)"

type_synonym 'a cmp_func = "'a \<Rightarrow> 'a \<Rightarrow> int"

definition ORD_SET_INC_SIZE :: nat where
  "ORD_SET_INC_SIZE = 10"

text \<open>The loop of \<open>ord_set_check_pos\<close>: three tests in a row on the same middle element.\<close>

function pos_loop :: "'a cmp_func \<Rightarrow> 'a \<Rightarrow> 'a list \<Rightarrow> nat \<Rightarrow> nat \<Rightarrow> nat" where
  "pos_loop cmp n xs a b =
     (let i = (b + a) div 2 in
      if a < b then
        (let a1 = (if cmp n (xs ! i) > 0 then i + 1 else a);
             b1 = (if cmp n (xs ! i) < 0 then (if i \<noteq> 0 then i - 1 else 0) else b);
             a2 = (if cmp n (xs ! i) = 0 then i else a1);
             b2 = (if cmp n (xs ! i) = 0 then i else b1)
         in pos_loop cmp n xs a2 b2)
      else i)"
  by pat_completeness auto
termination
  by (relation "measure (\<lambda>(cmp, n, xs, a, b). b - a)") (auto simp: Let_def)

declare pos_loop.simps [simp del]

definition ord_set_check_pos :: "'a cmp_func \<Rightarrow> 'a ord_set \<Rightarrow> 'a \<Rightarrow> nat" where
  "ord_set_check_pos cmp os n =
     (if n_elements os > 0 then
        let i = pos_loop cmp n (os_elements os) 0 (n_elements os - 1)
        in if cmp n (os_elements os ! i) > 0 then i + 1 else i
      else 0)"

definition ord_set_new :: "nat \<Rightarrow> 'a cmp_func option \<Rightarrow> 'a ord_set option" where
  "ord_set_new sz cmp =
     (if sz \<noteq> 0 \<and> cmp \<noteq> None then Some \<lparr>os_size = sz, os_elements = []\<rparr> else None)"

definition os_find :: "'a cmp_func \<Rightarrow> 'a ord_set \<Rightarrow> 'a \<Rightarrow> 'a option" where
  "os_find cmp os el =
     (let i = ord_set_check_pos cmp os el in
      if i < n_elements os \<and> cmp (os_elements os ! i) el = 0 then Some (os_elements os ! i)
      else None)"

definition os_remove :: "'a cmp_func \<Rightarrow> 'a ord_set \<Rightarrow> 'a \<Rightarrow> 'a ord_set \<times> nat" where
  "os_remove cmp os el =
     (let i = ord_set_check_pos cmp os el in
      if i < n_elements os \<and> cmp (os_elements os ! i) el = 0
      then (os\<lparr>os_elements := take i (os_elements os) @ drop (Suc i) (os_elements os)\<rparr>, 0)
      else (os, 1))"

definition os_insert :: "'a cmp_func \<Rightarrow> 'a ord_set \<Rightarrow> 'a \<Rightarrow> bool \<Rightarrow> 'a ord_set \<times> 'a" where
  "os_insert cmp os el override =
     (let i = ord_set_check_pos cmp os el;
          os' = (if i \<ge> n_elements os \<or> cmp (os_elements os ! i) el \<noteq> 0 then
                   os\<lparr>os_size := (if n_elements os + 1 \<ge> os_size os
                                    then os_size os + ORD_SET_INC_SIZE else os_size os),
                      os_elements := take i (os_elements os) @ el # drop i (os_elements os)\<rparr>
                 else if override then os\<lparr>os_elements := (os_elements os)[i := el]\<rparr>
                 else os)
      in (os', os_elements os' ! i))"

definition ord_set_find :: "'a cmp_func \<Rightarrow> 'a ord_set option \<Rightarrow> 'a option \<Rightarrow> 'a option" where
  "ord_set_find cmp os el =
     (case (os, el) of (Some s, Some e) \<Rightarrow> os_find cmp s e | _ \<Rightarrow> None)"

definition ord_set_remove ::
  "'a cmp_func \<Rightarrow> 'a ord_set option \<Rightarrow> 'a option \<Rightarrow> 'a ord_set option \<times> nat" where
  "ord_set_remove cmp os el =
     (case (os, el) of
        (Some s, Some e) \<Rightarrow> (case os_remove cmp s e of (s', r) \<Rightarrow> (Some s', r))
      | _ \<Rightarrow> (os, 1))"

definition ord_set_insert ::
  "'a cmp_func \<Rightarrow> 'a ord_set option \<Rightarrow> 'a option \<Rightarrow> bool \<Rightarrow> 'a ord_set option \<times> 'a option" where
  "ord_set_insert cmp os el override =
     (case (os, el) of
        (Some s, Some e) \<Rightarrow> (case os_insert cmp s e override of (s', r) \<Rightarrow> (Some s', Some r))
      | _ \<Rightarrow> (os, None))"

text \<open>
  \<open>ord_set_iter\<close>: with an iterator the test is \<open>i < n_elements-1\<close> on unsigned values, so on
  an empty set the bound wraps to $2^{32}-1$ and the read is out of bounds.
\<close>

definition ord_set_iter ::
  "'a cmp_func \<Rightarrow> 'a ord_set option \<Rightarrow> 'a option \<Rightarrow> 'a option c_result" where
  "ord_set_iter cmp os iter =
     (case os of
        None \<Rightarrow> Inr None
      | Some s \<Rightarrow>
          (case iter of
             Some it \<Rightarrow>
               (let i = ord_set_check_pos cmp s it in
                if n_elements s = 0 then Inl Out_Of_Bounds
                else if i < n_elements s - 1 then Inr (Some (os_elements s ! (i + 1)))
                else Inr None)
           | None \<Rightarrow> Inr (if n_elements s > 0 then Some (os_elements s ! 0) else None)))"

text \<open>\<open>ord_set_iter_safe\<close> walks backwards and reads its next element ahead (\<open>tmp\<close>), so that the
  current one may be removed.\<close>

definition ord_set_iter_safe ::
  "'a cmp_func \<Rightarrow> 'a ord_set \<Rightarrow> 'a option \<Rightarrow> 'a option \<Rightarrow> 'a option \<times> 'a option" where
  "ord_set_iter_safe cmp os iter tmp =
     (case iter of
        Some _ \<Rightarrow>
          (case tmp of
             None \<Rightarrow> (None, None)
           | Some t \<Rightarrow>
               (let i = ord_set_check_pos cmp os t in
                (Some t, if i > 0 then Some (os_elements os ! (i - 1)) else None)))
      | None \<Rightarrow>
          (if n_elements os > 0 then Some (os_elements os ! (n_elements os - 1)) else None,
           if n_elements os > 1 then Some (os_elements os ! (n_elements os - 2)) else None))"

definition ord_set_length :: "'a ord_set option \<Rightarrow> nat" where
  "ord_set_length os = (case os of Some s \<Rightarrow> n_elements s | None \<Rightarrow> 0)"

definition ord_set_dummy_cmp :: "nat \<Rightarrow> nat \<Rightarrow> int" where
  "ord_set_dummy_cmp p1 p2 = (if p1 = p2 then 0 else if p1 < p2 then -1 else 1)"

text \<open>A client that holds the pointer to an element writes through it; the array of pointers
  does not change.  \<open>os_update\<close> is such a write: the element of the same class is replaced.\<close>

definition os_update :: "'a cmp_func \<Rightarrow> 'a ord_set \<Rightarrow> 'a \<Rightarrow> 'a ord_set" where
  "os_update cmp os el =
     os\<lparr>os_elements := map (\<lambda>x. if cmp x el = 0 then el else x) (os_elements os)\<rparr>"

section \<open>The bisection on 32 bit indices\<close>

partial_function (option) pos_loop32 ::
  "'a cmp_func \<Rightarrow> 'a \<Rightarrow> 'a list \<Rightarrow> u32 \<Rightarrow> u32 \<Rightarrow> u32 option" where
  "pos_loop32 cmp n xs a b =
     (let i = (b + a) div 2 in
      if a < b then
        (let a1 = (if cmp n (xs ! unat i) > 0 then i + 1 else a);
             b1 = (if cmp n (xs ! unat i) < 0 then (if i \<noteq> 0 then i - 1 else 0) else b);
             a2 = (if cmp n (xs ! unat i) = 0 then i else a1);
             b2 = (if cmp n (xs ! unat i) = 0 then i else b1)
         in pos_loop32 cmp n xs a2 b2)
      else Some i)"

lemma mid32:
  fixes a b :: u32
  assumes "unat a < 2 ^ 31" and "unat b < 2 ^ 31"
  shows "unat ((b + a) div 2) = (unat b + unat a) div 2"
  using assms by (simp add: unat_div unat_add_lem [THEN iffD1])

lemma pos_loop32_eq:
  assumes "unat a < 2 ^ 31" and "unat b < 2 ^ 31"
  shows "\<exists>r. pos_loop32 cmp n xs a b = Some r \<and> unat r = pos_loop cmp n xs (unat a) (unat b)"
  using assms
proof (induction "unat b - unat a" arbitrary: a b rule: less_induct)
  case less
  let ?i = "(b + a) div 2"
  have i: "unat ?i = (unat b + unat a) div 2" by (rule mid32) (use less.prems in auto)
  show ?case
  proof (cases "a < b")
    case False
    then show ?thesis
      by (subst pos_loop32.simps, subst pos_loop.simps) (simp add: Let_def i word_less_nat_alt)
  next
    case True
    then have ab: "unat a < unat b" by (simp add: word_less_nat_alt)
    then have ib: "unat ?i < unat b" "unat a \<le> unat ?i" using i by auto
    then have i1: "unat (?i + 1) = unat ?i + 1"
      using less.prems by (subst unat_add_lem [THEN iffD1]) auto
    have i0: "?i \<noteq> 0 \<Longrightarrow> unat (?i - 1) = unat ?i - 1" by (simp add: unat_minus_one)
    have z: "?i = 0 \<longleftrightarrow> unat ?i = 0" by (simp add: unat_eq_0)
    define a2 where "a2 = (if cmp n (xs ! unat ?i) = 0 then ?i
      else if cmp n (xs ! unat ?i) > 0 then ?i + 1 else a)"
    define b2 where "b2 = (if cmp n (xs ! unat ?i) = 0 then ?i
      else if cmp n (xs ! unat ?i) < 0 then (if ?i \<noteq> 0 then ?i - 1 else 0) else b)"
    have m: "unat b2 - unat a2 < unat b - unat a" "unat a2 < 2 ^ 31" "unat b2 < 2 ^ 31"
      using ib ab less.prems i1 i0 z by (auto simp: a2_def b2_def)
    have l32: "pos_loop32 cmp n xs a b = pos_loop32 cmp n xs a2 b2"
      using True by (subst pos_loop32.simps) (simp add: Let_def a2_def b2_def)
    have l: "pos_loop cmp n xs (unat a) (unat b) = pos_loop cmp n xs (unat a2) (unat b2)"
      using ab i i1 i0 z
      by (subst pos_loop.simps) (auto simp: Let_def a2_def b2_def)
    show ?thesis using less.hyps [OF m] l32 l by simp
  qed
qed

section \<open>What a comparison function must promise\<close>

locale cmp_order =
  fixes cmp :: "'a \<Rightarrow> 'a \<Rightarrow> int"
  assumes cmp_refl: "cmp x x = 0"
    and cmp_flip: "cmp x y < 0 \<longleftrightarrow> cmp y x > 0"
    and cmp_trans: "cmp x y \<le> 0 \<Longrightarrow> cmp y z \<le> 0 \<Longrightarrow> cmp x z \<le> 0"
begin

lemma cmp_sym0: "cmp x y = 0 \<longleftrightarrow> cmp y x = 0"
  using cmp_flip [of x y] cmp_flip [of y x] by linarith

lemma cmp_le_flip: "cmp x y \<le> 0 \<longleftrightarrow> cmp y x \<ge> 0"
  using cmp_flip [of y x] by linarith

lemma cmp_less_trans: "cmp x y < 0 \<Longrightarrow> cmp y z \<le> 0 \<Longrightarrow> cmp x z < 0"
  using cmp_trans [of y z x] cmp_trans [of x y z] cmp_flip [of x y] cmp_le_flip [of x z]
    cmp_flip [of x z] by linarith

lemma cmp_le_less_trans: "cmp x y \<le> 0 \<Longrightarrow> cmp y z < 0 \<Longrightarrow> cmp x z < 0"
  using cmp_trans [of z x y] cmp_trans [of x y z] cmp_flip [of y z] cmp_le_flip [of x z]
    cmp_flip [of x z] by linarith

lemma cmp_eq_less: "cmp x y = 0 \<Longrightarrow> cmp x z < 0 \<longleftrightarrow> cmp y z < 0"
  using cmp_le_less_trans [of x y z] cmp_le_less_trans [of y x z] cmp_sym0 [of x y] by auto

lemma cmp_eq_greater: "cmp x y = 0 \<Longrightarrow> cmp z x < 0 \<longleftrightarrow> cmp z y < 0"
  using cmp_less_trans [of z x y] cmp_less_trans [of z y x] cmp_sym0 [of x y] by auto

lemma cmp_eq_eq: "cmp x y = 0 \<Longrightarrow> cmp x z = 0 \<longleftrightarrow> cmp y z = 0"
  using cmp_eq_less [of x y z] cmp_eq_greater [of x y z] cmp_flip [of z x] cmp_flip [of z y]
  by linarith

text \<open>The array is strictly increasing.\<close>

definition sorted_set :: "'a list \<Rightarrow> bool" where
  "sorted_set xs \<longleftrightarrow> sorted_wrt (\<lambda>x y. cmp x y < 0) xs"

lemma sorted_nth: "sorted_set xs \<Longrightarrow> i < j \<Longrightarrow> j < length xs \<Longrightarrow> cmp (xs ! i) (xs ! j) < 0"
  by (simp add: sorted_set_def sorted_wrt_iff_nth_less)

text \<open>The search invariant: everything left of the window is smaller than the key and everything
  right of it larger; the window may be empty by one.\<close>

lemma pos_loop_bounds:
  assumes "sorted_set xs" and "b < length xs" and "a \<le> b + 1"
    and "\<And>j. j < a \<Longrightarrow> cmp n (xs ! j) > 0"
    and "\<And>j. b < j \<Longrightarrow> j < length xs \<Longrightarrow> cmp n (xs ! j) < 0"
  defines "i \<equiv> pos_loop cmp n xs a b"
  shows "i < length xs \<and> (\<forall>j < i. cmp n (xs ! j) > 0)
    \<and> (\<forall>j. i < j \<longrightarrow> j < length xs \<longrightarrow> cmp n (xs ! j) < 0)"
  unfolding i_def using assms(1-5)
proof (induction "b - a" arbitrary: a b rule: less_induct)
  case less
  let ?i = "(b + a) div 2"
  show ?case
  proof (cases "a < b")
    case False
    with less.prems(3) have "a = b \<or> a = b + 1" by auto
    then show ?thesis
    proof
      assume "a = b"
      then have "pos_loop cmp n xs a b = b" by (subst pos_loop.simps) (simp add: Let_def)
      with less.prems \<open>a = b\<close> show ?thesis by simp
    next
      assume "a = b + 1"
      then have "pos_loop cmp n xs a b = b" by (subst pos_loop.simps) (simp add: Let_def)
      with less.prems \<open>a = b + 1\<close> show ?thesis by simp
    qed
  next
    case True
    then have i: "a \<le> ?i" "?i < b" "?i < length xs" using less.prems(2) by auto
    then have ne: "xs \<noteq> []" by auto
    have below: "cmp n (xs ! j) > 0" if "cmp n (xs ! ?i) \<ge> 0" "j < ?i" for j
      using cmp_less_trans [of "xs ! j" "xs ! ?i" n] sorted_nth [OF less.prems(1) that(2) i(3)]
        that(1) cmp_le_flip [of "xs ! ?i" n] cmp_flip [of "xs ! j" n] by linarith
    have above: "cmp n (xs ! j) < 0" if "cmp n (xs ! ?i) \<le> 0" "?i < j" "j < length xs" for j
      using cmp_le_less_trans [OF that(1) sorted_nth [OF less.prems(1) that(2,3)]] .
    consider (gt) "cmp n (xs ! ?i) > 0" | (lt) "cmp n (xs ! ?i) < 0" | (eq) "cmp n (xs ! ?i) = 0"
      by linarith
    then show ?thesis
    proof cases
      case gt
      then have e: "pos_loop cmp n xs a b = pos_loop cmp n xs (?i + 1) b"
        using True by (subst pos_loop.simps) (simp add: Let_def)
      have "cmp n (xs ! j) > 0" if "j < ?i + 1" for j
        using gt below that by (cases "j = ?i") auto
      then show ?thesis unfolding e
        using less.hyps [of b "?i + 1"] less.prems True i by auto
    next
      case lt
      then have e: "pos_loop cmp n xs a b = pos_loop cmp n xs a (if ?i \<noteq> 0 then ?i - 1 else 0)"
        using True by (subst pos_loop.simps) (simp add: Let_def)
      have ab: "cmp n (xs ! j) < 0" if "(if ?i \<noteq> 0 then ?i - 1 else 0) < j" "j < length xs" for j
        using lt above that by (cases "j = ?i") (auto split: if_splits)
      show ?thesis unfolding e
        using less.hyps [of "if ?i \<noteq> 0 then ?i - 1 else 0" a] less.prems True i ab ne by auto
    next
      case eq
      then have e: "pos_loop cmp n xs a b = pos_loop cmp n xs ?i ?i"
        using True by (subst pos_loop.simps) (simp add: Let_def)
      show ?thesis unfolding e
        using less.hyps [of ?i ?i] less.prems True i below above eq by auto
    qed
  qed
qed

text \<open>The position found is the number of elements smaller than the key.\<close>

lemma check_pos_eq:
  assumes "sorted_set (os_elements os)"
  shows "ord_set_check_pos cmp os n = length (takeWhile (\<lambda>x. cmp x n < 0) (os_elements os))"
proof (cases "os_elements os = []")
  case True
  then show ?thesis by (simp add: ord_set_check_pos_def)
next
  case False
  let ?xs = "os_elements os" and ?i = "pos_loop cmp n (os_elements os) 0 (n_elements os - 1)"
  have i: "?i < length ?xs" "\<And>j. j < ?i \<Longrightarrow> cmp n (?xs ! j) > 0"
    "\<And>j. ?i < j \<Longrightarrow> j < length ?xs \<Longrightarrow> cmp n (?xs ! j) < 0"
    using pos_loop_bounds [OF assms, of "length ?xs - 1" 0 n] False by auto
  let ?p = "if cmp n (?xs ! ?i) > 0 then ?i + 1 else ?i"
  have "length (takeWhile (\<lambda>x. cmp x n < 0) ?xs) = ?p"
  proof (rule length_takeWhile_eqI)
    show "?p \<le> length ?xs" using i(1) by simp
    fix j assume "j < ?p"
    then have "cmp n (?xs ! j) > 0" using i(2) [of j] by (cases "j = ?i") (auto split: if_splits)
    then show "cmp (?xs ! j) n < 0" by (simp add: cmp_flip)
  next
    assume "?p < length ?xs"
    then have "\<not> cmp n (?xs ! ?p) > 0" using i(3) [of ?p] by (auto split: if_splits)
    then show "\<not> cmp (?xs ! ?p) n < 0" by (simp add: cmp_flip)
  qed
  then show ?thesis using False by (simp add: ord_set_check_pos_def Let_def)
qed

section \<open>Each operation against its specification on lists\<close>

definition same_key :: "'a \<Rightarrow> 'a \<Rightarrow> bool" where
  "same_key el x \<longleftrightarrow> cmp x el = 0"

lemma sorted_same_key_unique:
  assumes "sorted_set xs" and "i < length xs" and "j < length xs"
    and "same_key el (xs ! i)" and "same_key el (xs ! j)"
  shows "i = j"
proof (rule ccontr)
  assume "i \<noteq> j"
  then have "cmp (xs ! i) (xs ! j) \<noteq> 0"
    using assms(1-3) sorted_nth cmp_sym0 by (cases "i < j") (force simp: not_less_iff_gr_or_eq)+
  then show False
    using assms(4,5) cmp_eq_eq [of "xs ! i" el "xs ! j"] cmp_sym0 [of el "xs ! j"]
    by (simp add: same_key_def)
qed

lemma sorted_key_eq:
  assumes "sorted_set xs" and "x \<in> set xs" and "y \<in> set xs" and "same_key el x" and "same_key el y"
  shows "x = y"
proof -
  obtain i j where ij: "i < length xs" "xs ! i = x" "j < length xs" "xs ! j = y"
    using assms(2,3) by (auto simp: in_set_conv_nth)
  then have "i = j"
    using sorted_same_key_unique [OF assms(1), of i j el] assms(4,5) by simp
  with ij show ?thesis by simp
qed

text \<open>At the position found there is the element of the key's class, if the set has one.\<close>

lemma check_pos_hit:
  fixes el :: 'a
  assumes "sorted_set (os_elements os)"
  defines "p \<equiv> ord_set_check_pos cmp os el"
  shows "(p < n_elements os \<and> same_key el (os_elements os ! p))
    \<longleftrightarrow> (\<exists>x \<in> set (os_elements os). same_key el x)"
proof
  assume "p < n_elements os \<and> same_key el (os_elements os ! p)"
  then show "\<exists>x \<in> set (os_elements os). same_key el x" by auto
next
  assume "\<exists>x \<in> set (os_elements os). same_key el x"
  then obtain j where j: "j < n_elements os" "same_key el (os_elements os ! j)"
    by (auto simp: in_set_conv_nth)
  have "length (takeWhile (\<lambda>x. cmp x el < 0) (os_elements os)) = j"
  proof (rule length_takeWhile_eqI)
    show "j \<le> n_elements os" using j by simp
    show "\<not> cmp (os_elements os ! j) el < 0" using j by (simp add: same_key_def)
    fix i assume "i < j"
    then have "cmp (os_elements os ! i) (os_elements os ! j) < 0"
      using assms(1) j(1) sorted_nth by blast
    then show "cmp (os_elements os ! i) el < 0"
      using j(2) cmp_eq_greater by (simp add: same_key_def)
  qed
  then have "p = j" using assms by (simp add: check_pos_eq)
  then show "p < n_elements os \<and> same_key el (os_elements os ! p)" using j by simp
qed

lemma os_find_eq_find:
  assumes "sorted_set (os_elements os)"
  shows "os_find cmp os el = find (same_key el) (os_elements os)"
proof (cases "\<exists>x \<in> set (os_elements os). same_key el x")
  case True
  define p where "p = ord_set_check_pos cmp os el"
  have p: "p < n_elements os" "same_key el (os_elements os ! p)"
    using True check_pos_hit [OF assms] by (auto simp: p_def)
  have "find (same_key el) (os_elements os) = Some (os_elements os ! p)"
    unfolding find_Some_iff
  proof (intro exI conjI allI impI)
    show "p < length (os_elements os)" "same_key el (os_elements os ! p)"
      "os_elements os ! p = os_elements os ! p" using p by simp_all
    fix j assume "j < p"
    then show "\<not> same_key el (os_elements os ! j)"
      using p sorted_same_key_unique [OF assms, of j p el] by auto
  qed
  then show ?thesis using p by (simp add: os_find_def Let_def p_def same_key_def)
next
  case False
  then have "find (same_key el) (os_elements os) = None" by (auto simp: find_None_iff)
  moreover have "os_find cmp os el = None"
    using False check_pos_hit [OF assms, of el] by (auto simp: os_find_def Let_def same_key_def)
  ultimately show ?thesis by simp
qed

lemma os_find_Some:
  assumes "sorted_set (os_elements os)"
  shows "os_find cmp os el = Some x \<longleftrightarrow> x \<in> set (os_elements os) \<and> same_key el x"
proof
  assume "os_find cmp os el = Some x"
  then show "x \<in> set (os_elements os) \<and> same_key el x"
    using assms by (auto simp: os_find_eq_find find_Some_iff)
next
  assume x: "x \<in> set (os_elements os) \<and> same_key el x"
  then obtain y where y: "os_find cmp os el = Some y"
    using assms by (cases "os_find cmp os el") (auto simp: os_find_eq_find find_None_iff)
  then have "y \<in> set (os_elements os)" "same_key el y"
    using assms by (auto simp: os_find_eq_find find_Some_iff)
  with x have "y = x" using sorted_key_eq [OF assms] by blast
  with y show "os_find cmp os el = Some x" by simp
qed

lemma os_find_None:
  assumes "sorted_set (os_elements os)"
  shows "os_find cmp os el = None \<longleftrightarrow> (\<forall>x \<in> set (os_elements os). \<not> same_key el x)"
  using assms by (auto simp: os_find_eq_find find_None_iff)

lemma os_remove_eq_filter:
  assumes "sorted_set (os_elements os)"
  shows "os_remove cmp os el =
    (os\<lparr>os_elements := filter (\<lambda>x. \<not> same_key el x) (os_elements os)\<rparr>,
     if \<exists>x \<in> set (os_elements os). same_key el x then 0 else 1)"
proof (cases "\<exists>x \<in> set (os_elements os). same_key el x")
  case True
  define p where "p = ord_set_check_pos cmp os el"
  have p: "p < n_elements os" "same_key el (os_elements os ! p)"
    using True check_pos_hit [OF assms] by (auto simp: p_def)
  have "filter (\<lambda>x. \<not> same_key el x) (os_elements os)
      = take p (os_elements os) @ drop (Suc p) (os_elements os)"
    using p sorted_same_key_unique [OF assms] by (intro filter_eq_take_drop) auto
  then show ?thesis using True p by (simp add: os_remove_def Let_def p_def same_key_def)
next
  case False
  then have "filter (\<lambda>x. \<not> same_key el x) (os_elements os) = os_elements os"
    by (auto simp: filter_id_conv)
  then show ?thesis
    using False check_pos_hit [OF assms, of el] by (auto simp: os_remove_def Let_def same_key_def)
qed

lemma sorted_insert_middle:
  assumes "sorted_set xs" and "\<forall>x \<in> set xs. \<not> same_key el x"
  defines "p \<equiv> length (takeWhile (\<lambda>x. cmp x el < 0) xs)"
  shows "sorted_set (take p xs @ el # drop p xs)"
proof -
  have p: "p \<le> length xs" by (simp add: p_def length_takeWhile_le)
  have l: "cmp x el < 0" if "x \<in> set (take p xs)" for x
    using that unfolding p_def takeWhile_eq_take [symmetric] by (rule set_takeWhileD [THEN conjunct2])
  have r: "cmp el x < 0" if "x \<in> set (drop p xs)" for x
  proof -
    from that obtain j where j: "p \<le> j" "j < length xs" "x = xs ! j"
      by (auto simp: in_set_conv_nth) (metis add.commute le_add2 less_diff_conv nth_drop p)
    have "\<not> cmp (xs ! p) el < 0" using j nth_length_takeWhile [of "\<lambda>x. cmp x el < 0" xs]
      by (simp add: p_def)
    then have "\<not> cmp x el < 0"
      using j sorted_nth [OF assms(1), of p j] cmp_less_trans [of "xs ! p" x el]
      by (cases "p = j") auto
    moreover have "cmp x el \<noteq> 0" using assms(2) j by (auto simp: same_key_def)
    ultimately show ?thesis using cmp_flip [of el x] by linarith
  qed
  have lr: "cmp x y < 0" if "x \<in> set (take p xs)" "y \<in> set (drop p xs)" for x y
    using l [OF that(1)] r [OF that(2)] cmp_less_trans [of x el y] by simp
  have "sorted_wrt (\<lambda>x y. cmp x y < 0) (take p xs)" "sorted_wrt (\<lambda>x y. cmp x y < 0) (drop p xs)"
    using assms(1) by (simp_all add: sorted_set_def sorted_wrt_take sorted_wrt_drop)
  then show ?thesis using l r lr by (auto simp: sorted_set_def sorted_wrt_append)
qed

text \<open>Insertion of a new class: the element goes between the smaller and the larger ones.\<close>

lemma os_insert_new:
  assumes "sorted_set (os_elements os)" and "\<forall>x \<in> set (os_elements os). \<not> same_key el x"
  defines "p \<equiv> length (takeWhile (\<lambda>x. cmp x el < 0) (os_elements os))"
  shows "os_insert cmp os el override =
    (os\<lparr>os_size := (if n_elements os + 1 \<ge> os_size os then os_size os + ORD_SET_INC_SIZE
                    else os_size os),
        os_elements := take p (os_elements os) @ el # drop p (os_elements os)\<rparr>, el)"
proof -
  have p: "p = ord_set_check_pos cmp os el" "p \<le> n_elements os"
    using assms(1) by (simp_all add: p_def check_pos_eq length_takeWhile_le)
  moreover have "p \<ge> n_elements os \<or> cmp (os_elements os ! p) el \<noteq> 0"
    using assms(2) p(2) by (auto simp: same_key_def not_le)
  ultimately show ?thesis by (simp add: os_insert_def Let_def nth_append)
qed

lemma os_insert_old:
  assumes "sorted_set (os_elements os)" and "x \<in> set (os_elements os)" and "same_key el x"
  shows "os_insert cmp os el override =
    (if override then (os_update cmp os el, el) else (os, x))"
proof -
  define p where "p = ord_set_check_pos cmp os el"
  have p: "p < n_elements os" "same_key el (os_elements os ! p)"
    using assms check_pos_hit [OF assms(1)] by (auto simp: p_def)
  have x: "os_elements os ! p = x"
    using sorted_key_eq [OF assms(1) _ assms(2) _ assms(3), of "os_elements os ! p"] p by simp
  have "map (\<lambda>y. if cmp y el = 0 then el else y) (os_elements os) = (os_elements os)[p := el]"
    using p sorted_same_key_unique [OF assms(1)]
    by (intro nth_equalityI) (auto simp: nth_list_update same_key_def)
  then show ?thesis
    using p x by (simp add: os_insert_def Let_def p_def [symmetric] os_update_def same_key_def)
qed

lemma set_os_update:
  assumes "sorted_set (os_elements os)" and "x \<in> set (os_elements os)" and "same_key el x"
  shows "set (os_elements (os_update cmp os el)) = insert el (set (os_elements os) - {x})"
proof -
  have "(if cmp y el = 0 then el else y) = (if y = x then el else y)"
    if y: "y \<in> set (os_elements os)" for y
  proof (cases "y = x")
    case True
    then show ?thesis using assms(3) by (simp add: same_key_def)
  next
    case False
    then have "\<not> same_key el y" using sorted_key_eq [OF assms(1) y assms(2) _ assms(3)] by blast
    with False show ?thesis by (simp add: same_key_def)
  qed
  then have "set (os_elements (os_update cmp os el))
      = (\<lambda>y. if y = x then el else y) ` set (os_elements os)"
    by (simp add: os_update_def)
  also have "\<dots> = insert el (set (os_elements os) - {x})" using assms(2) by auto
  finally show ?thesis .
qed

lemma sorted_os_update:
  assumes "sorted_set (os_elements os)"
  shows "sorted_set (os_elements (os_update cmp os el))"
proof -
  define f where "f x = (if cmp x el = 0 then el else x)" for x
  have less: "cmp (f x) (f y) < 0" if "cmp x y < 0" for x y
    using that cmp_eq_less [of x el y] cmp_eq_greater [of y el x] cmp_eq_eq [of x el y]
      cmp_sym0 [of el y] by (auto simp: f_def)
  have "sorted_wrt (\<lambda>x y. cmp (f x) (f y) < 0) (os_elements os)"
    by (rule sorted_wrt_mono_rel [OF _ assms [unfolded sorted_set_def]]) (rule less)
  then have "sorted_set (map f (os_elements os))" by (simp add: sorted_set_def sorted_wrt_map)
  then show ?thesis by (simp add: os_update_def f_def [abs_def])
qed

section \<open>Well-formedness\<close>

definition os_wf :: "'a ord_set \<Rightarrow> bool" where
  "os_wf os \<longleftrightarrow> sorted_set (os_elements os) \<and> n_elements os \<le> os_size os"

lemma os_wf_new: "ord_set_new sz f = Some os \<Longrightarrow> os_wf os \<and> os_elements os = []"
  by (auto simp: ord_set_new_def os_wf_def sorted_set_def split: if_splits)

lemma os_wf_remove: "os_wf os \<Longrightarrow> os_wf (fst (os_remove cmp os el))"
  by (auto simp: os_wf_def os_remove_eq_filter sorted_set_def sorted_wrt_filter
      intro: le_trans [OF length_filter_le])

lemma os_wf_update: "os_wf os \<Longrightarrow> os_wf (os_update cmp os el)"
  by (simp add: os_wf_def sorted_os_update) (simp add: os_update_def)

lemma os_wf_insert: "os_wf os \<Longrightarrow> os_wf (fst (os_insert cmp os el override))"
proof (cases "\<exists>x \<in> set (os_elements os). same_key el x")
  case True
  assume "os_wf os"
  with True show ?thesis by (auto simp: os_wf_def os_insert_old os_wf_update [unfolded os_wf_def])
next
  case False
  assume "os_wf os"
  with False show ?thesis
    using sorted_insert_middle [of "os_elements os" el]
    by (auto simp: os_wf_def os_insert_new ORD_SET_INC_SIZE_def)
qed

end

section \<open>The interface for clients: a keyed store\<close>

text \<open>The content of a set, seen as a map from keys to elements.\<close>

definition os_content :: "('a \<Rightarrow> 'k) \<Rightarrow> 'a ord_set \<Rightarrow> 'k \<Rightarrow> 'a option" where
  "os_content key os k = find (\<lambda>x. key x = k) (os_elements os)"

text \<open>What a client may rely on: a store of elements under keys, where an element is found
  under its key, insertion adds under a free key, an element may be overwritten in place by one
  of the same key, and removal frees the key.\<close>

locale keyed_store =
  fixes key :: "'a \<Rightarrow> 'k"
    and content :: "'s \<Rightarrow> 'k \<Rightarrow> 'a option"
    and lookup :: "'s \<Rightarrow> 'a \<Rightarrow> 'a option"
    and insert_el :: "'s \<Rightarrow> 'a \<Rightarrow> 's"
    and overwrite :: "'s \<Rightarrow> 'a \<Rightarrow> 's"
    and remove_el :: "'s \<Rightarrow> 'a \<Rightarrow> 's"
    and wf :: "'s \<Rightarrow> bool"
  assumes lookup_content: "wf s \<Longrightarrow> lookup s x = content s (key x)"
    and content_key: "wf s \<Longrightarrow> content s k = Some x \<Longrightarrow> key x = k"
    and content_insert:
      "wf s \<Longrightarrow> content s (key x) = None \<Longrightarrow> content (insert_el s x) = (content s)(key x \<mapsto> x)"
    and content_overwrite:
      "wf s \<Longrightarrow> content s (key x) = Some y \<Longrightarrow> content (overwrite s x) = (content s)(key x \<mapsto> x)"
    and content_remove: "wf s \<Longrightarrow> content (remove_el s x) = (content s)(key x := None)"
    and wf_insert: "wf s \<Longrightarrow> wf (insert_el s x)"
    and wf_overwrite: "wf s \<Longrightarrow> wf (overwrite s x)"
    and wf_remove: "wf s \<Longrightarrow> wf (remove_el s x)"
begin

lemmas wf_ops = wf_insert wf_overwrite wf_remove

lemma lookup_insert:
  "wf s \<Longrightarrow> lookup s x = None \<Longrightarrow>
   lookup (insert_el s x) y = (if key y = key x then Some x else lookup s y)"
  by (simp add: lookup_content content_insert wf_insert)

lemma lookup_overwrite:
  "wf s \<Longrightarrow> lookup s x \<noteq> None \<Longrightarrow>
   lookup (overwrite s x) y = (if key y = key x then Some x else lookup s y)"
  by (auto simp: lookup_content content_overwrite wf_overwrite)

lemma lookup_remove:
  "wf s \<Longrightarrow> lookup (remove_el s x) y = (if key y = key x then None else lookup s y)"
  by (simp add: lookup_content content_remove wf_remove)

text \<open>An update that does not change the key can be undone by looking elsewhere: the other
  elements are not affected.\<close>

lemma insert_then_overwrite:
  assumes "wf s" and "lookup s x = None" and "key z = key x"
  shows "content (overwrite (insert_el s x) z) = (content s)(key x \<mapsto> z)"
proof -
  have "content (insert_el s x) = (content s)(key x \<mapsto> x)"
    using assms by (simp add: lookup_content content_insert)
  then show ?thesis
    using assms content_overwrite [of "insert_el s x" z x] by (simp add: wf_insert)
qed

end

locale cmp_key = cmp_order cmp for cmp :: "'a \<Rightarrow> 'a \<Rightarrow> int" +
  fixes key :: "'a \<Rightarrow> 'k"
  assumes cmp_key: "cmp x y = 0 \<longleftrightarrow> key x = key y"
begin

lemma same_key_key: "same_key el x \<longleftrightarrow> key x = key el"
  by (simp add: same_key_def cmp_key)

lemma same_key_fun: "same_key el = (\<lambda>x. key x = key el)"
  by (rule ext) (rule same_key_key)

lemma sorted_distinct_keys: "sorted_set xs \<Longrightarrow> distinct (map key xs)"
  using sorted_same_key_unique [of xs] by (auto simp: distinct_conv_nth same_key_key)

lemma os_content_Some:
  assumes "os_wf os"
  shows "os_content key os k = Some x \<longleftrightarrow> x \<in> set (os_elements os) \<and> key x = k"
proof
  assume "os_content key os k = Some x"
  then show "x \<in> set (os_elements os) \<and> key x = k"
    by (auto simp: os_content_def find_Some_iff)
next
  assume x: "x \<in> set (os_elements os) \<and> key x = k"
  have "find (\<lambda>y. key y = k) (os_elements os) = find (same_key x) (os_elements os)"
    using x by (intro find_cong) (auto simp: same_key_key)
  also have "\<dots> = Some x"
    using assms x os_find_Some [of os x x] by (simp add: os_wf_def os_find_eq_find same_key_key)
  finally show "os_content key os k = Some x" by (simp add: os_content_def)
qed

lemma os_content_None:
  "os_content key os k = None \<longleftrightarrow> (\<forall>x \<in> set (os_elements os). key x \<noteq> k)"
  by (auto simp: os_content_def find_None_iff)

lemma os_content_eqI:
  assumes "os_wf os" and "os_wf os'"
    and "set (os_elements os') = insert el {x \<in> set (os_elements os). key x \<noteq> key el}"
  shows "os_content key os' = (os_content key os)(key el \<mapsto> el)"
proof
  fix k
  show "os_content key os' k = ((os_content key os)(key el \<mapsto> el)) k"
  proof (cases "os_content key os' k")
    case None
    then have "\<forall>x \<in> set (os_elements os'). key x \<noteq> k" by (simp add: os_content_None)
    then have "k \<noteq> key el" "\<forall>x \<in> set (os_elements os). key x \<noteq> k" using assms(3) by auto
    then have "((os_content key os)(key el \<mapsto> el)) k = None" by (simp add: os_content_None)
    with None show ?thesis by simp
  next
    case (Some x)
    then have x: "x \<in> set (os_elements os')" "key x = k"
      by (simp_all add: os_content_Some [OF assms(2)])
    show ?thesis
    proof (cases "x = el")
      case True
      with Some x show ?thesis by simp
    next
      case False
      with x assms(3) have "x \<in> set (os_elements os)" "key x \<noteq> key el" by auto
      with x Some show ?thesis using os_content_Some [OF assms(1), of k x] by simp
    qed
  qed
qed

sublocale store: keyed_store key "os_content key" "os_find cmp"
  "\<lambda>os el. fst (os_insert cmp os el False)" "os_update cmp"
  "\<lambda>os el. fst (os_remove cmp os el)" os_wf
proof
  fix s :: "'a ord_set" and x y k
  assume wf: "os_wf s"
  then have srt: "sorted_set (os_elements s)" by (simp add: os_wf_def)
  show "os_find cmp s x = os_content key s (key x)"
    by (simp add: os_find_eq_find [OF srt] os_content_def same_key_fun)
  show "os_content key s k = Some x \<Longrightarrow> key x = k"
    using wf by (simp add: os_content_Some)
  show ins: "os_wf (fst (os_insert cmp s x False))"
    and upd: "os_wf (os_update cmp s x)" and rem: "os_wf (fst (os_remove cmp s x))"
    using wf by (simp_all add: os_wf_insert os_wf_update os_wf_remove)
  show "os_content key (fst (os_insert cmp s x False)) = (os_content key s)(key x \<mapsto> x)"
    if none: "os_content key s (key x) = None"
  proof (rule os_content_eqI [OF wf ins])
    let ?p = "length (takeWhile (\<lambda>y. cmp y x < 0) (os_elements s))"
    have "set (os_elements s) = set (take ?p (os_elements s)) \<union> set (drop ?p (os_elements s))"
      by (metis append_take_drop_id set_append)
    then show "set (os_elements (fst (os_insert cmp s x False)))
        = insert x {y \<in> set (os_elements s). key y \<noteq> key x}"
      using none by (auto simp: os_content_None os_insert_new [OF srt] same_key_key)
  qed
  show "os_content key (os_update cmp s x) = (os_content key s)(key x \<mapsto> x)"
    if "os_content key s (key x) = Some y"
  proof (rule os_content_eqI [OF wf upd])
    have y: "y \<in> set (os_elements s)" "same_key x y"
      using that wf by (simp_all add: os_content_Some same_key_key)
    show "set (os_elements (os_update cmp s x))
        = insert x {z \<in> set (os_elements s). key z \<noteq> key x}"
    proof -
      have "z = y \<longleftrightarrow> key z = key x" if "z \<in> set (os_elements s)" for z
        using sorted_key_eq [OF srt that y(1) _ y(2)] y(2) unfolding same_key_key by metis
      then have "set (os_elements s) - {y} = {z \<in> set (os_elements s). key z \<noteq> key x}" by blast
      then show ?thesis using set_os_update [OF srt y] by simp
    qed
  qed
  show "os_content key (fst (os_remove cmp s x)) = (os_content key s)(key x := None)"
  proof
    fix k
    have e: "os_content key (fst (os_remove cmp s x)) k
        = find (\<lambda>y. key y = k) (filter (\<lambda>y. key y \<noteq> key x) (os_elements s))"
      by (simp add: os_content_def os_remove_eq_filter [OF srt] same_key_fun)
    show "os_content key (fst (os_remove cmp s x)) k = ((os_content key s)(key x := None)) k"
    proof (cases "k = key x")
      case True
      then have "find (\<lambda>y. key y = k) (filter (\<lambda>y. key y \<noteq> key x) (os_elements s)) = None"
        unfolding find_None_iff by simp
      with True show ?thesis unfolding e by simp
    next
      case False
      then have "find (\<lambda>y. key y = k) (filter (\<lambda>y. key y \<noteq> key x) (os_elements s))
          = find (\<lambda>y. key y = k) (os_elements s)"
        by (intro find_filter_keep) blast
      with False show ?thesis unfolding e by (simp add: os_content_def)
    qed
  qed
qed

end

section \<open>Properties\<close>

lemma cmp_order_dummy: "cmp_order ord_set_dummy_cmp"
  by unfold_locales (auto simp: ord_set_dummy_cmp_def split: if_splits)

lemma os_wf_dummy:
  "cmp_order.os_wf ord_set_dummy_cmp \<lparr>os_size = 10, os_elements = [2, 5, 9]\<rparr>"
  by (simp add: cmp_order.os_wf_def [OF cmp_order_dummy] cmp_order.sorted_set_def [OF cmp_order_dummy]
      ord_set_dummy_cmp_def)

text \<open>In a well-formed set, \<open>ord_set_find\<close> (bisection) returns exactly what a linear search for an
  element of the same class returns: that element, or NULL when there is none.\<close>

lemma ord_set_find_is_search:
  assumes "cmp_order cmp" and "cmp_order.os_wf cmp os"
  shows "ord_set_find cmp (Some os) (Some el) = find (\<lambda>x. cmp x el = 0) (os_elements os)"
proof -
  have "cmp_order.same_key cmp el = (\<lambda>x. cmp x el = 0)"
    by (simp add: cmp_order.same_key_def [OF assms(1)] fun_eq_iff)
  then show ?thesis
    using assms(2) by (simp add: ord_set_find_def cmp_order.os_find_eq_find [OF assms(1)]
        cmp_order.os_wf_def [OF assms(1)])
qed

text \<open>C31: \<open>ord_set_insert\<close> keeps the set sorted, without duplicates and within its allocation.  A new
  element is added and returned; when one of its class is there, it is replaced if the caller asks
  for overriding, and otherwise the set is unchanged and the old element is returned.\<close>

theorem ord_set_insert_spec:
  assumes "cmp_order cmp" and "cmp_order.os_wf cmp os"
  shows "\<exists>os' r. ord_set_insert cmp (Some os) (Some el) override = (Some os', Some r) \<and>
    cmp_order.os_wf cmp os' \<and>
    (case find (\<lambda>x. cmp x el = 0) (os_elements os) of
       None \<Rightarrow> r = el \<and> set (os_elements os') = insert el (set (os_elements os)) \<and>
               n_elements os' = n_elements os + 1
     | Some x \<Rightarrow> if override then r = el \<and> set (os_elements os') = insert el (set (os_elements os) - {x})
                 else r = x \<and> os' = os)"
proof -
  have k: "cmp_order.same_key cmp el x \<longleftrightarrow> cmp x el = 0" for x
    by (simp add: cmp_order.same_key_def [OF assms(1)])
  have s: "cmp_order.sorted_set cmp (os_elements os)"
    using assms(2) by (simp add: cmp_order.os_wf_def [OF assms(1)])
  obtain os' r where r: "os_insert cmp os el override = (os', r)" by fastforce
  have wf: "cmp_order.os_wf cmp os'" using cmp_order.os_wf_insert [OF assms, of el override] r by simp
  show ?thesis
  proof (cases "find (\<lambda>x. cmp x el = 0) (os_elements os)")
    case None
    then have n: "\<forall>x \<in> set (os_elements os). \<not> cmp_order.same_key cmp el x"
      by (simp add: find_None_iff k)
    let ?p = "length (takeWhile (\<lambda>x. cmp x el < 0) (os_elements os))"
    have e: "r = el" "os_elements os' = take ?p (os_elements os) @ el # drop ?p (os_elements os)"
      using cmp_order.os_insert_new [OF assms(1) s n, of override] r by auto
    have "set (os_elements os') = insert el (set (take ?p (os_elements os) @ drop ?p (os_elements os)))"
      unfolding e(2) by (simp del: append_take_drop_id)
    then have "set (os_elements os') = insert el (set (os_elements os))" by (simp only: append_take_drop_id)
    moreover have "n_elements os' = n_elements os + 1" unfolding e(2) by (simp add: length_takeWhile_le)
    ultimately show ?thesis using None r wf e(1) by (simp add: ord_set_insert_def)
  next
    case (Some x)
    then have x: "x \<in> set (os_elements os)" "cmp_order.same_key cmp el x"
      by (auto simp: find_Some_iff k)
    show ?thesis
      using cmp_order.os_insert_old [OF assms(1) s x, of override] cmp_order.set_os_update [OF assms(1) s x]
        Some r wf by (auto simp: ord_set_insert_def)
  qed
qed

theorem ord_set_insert_spec_witness:
  "\<exists>os'. ord_set_insert ord_set_dummy_cmp (Some \<lparr>os_size = 10, os_elements = [2, 5, 9]\<rparr>) (Some 7) False
     = (Some os', Some 7) \<and> set (os_elements os') = {2, 5, 7, 9}"
  using ord_set_insert_spec [OF cmp_order_dummy os_wf_dummy, of 7 False]
  by (auto simp: ord_set_dummy_cmp_def)

text \<open>\<open>ord_set_remove\<close> removes exactly the elements of the given class (there is at most one), returns 0
  if there was one and 1 otherwise, and keeps the set well formed.\<close>

lemma ord_set_remove_spec:
  assumes "cmp_order cmp" and "cmp_order.os_wf cmp os"
  shows "\<exists>os'. ord_set_remove cmp (Some os) (Some el) =
      (Some os', if \<exists>x \<in> set (os_elements os). cmp x el = 0 then 0 else 1) \<and>
    cmp_order.os_wf cmp os' \<and> os_size os' = os_size os \<and>
    os_elements os' = filter (\<lambda>x. cmp x el \<noteq> 0) (os_elements os)"
proof -
  have k: "cmp_order.same_key cmp el x \<longleftrightarrow> cmp x el = 0" for x
    by (simp add: cmp_order.same_key_def [OF assms(1)])
  have s: "cmp_order.sorted_set cmp (os_elements os)"
    using assms(2) by (simp add: cmp_order.os_wf_def [OF assms(1)])
  show ?thesis
    using cmp_order.os_remove_eq_filter [OF assms(1) s, of el] cmp_order.os_wf_remove [OF assms, of el]
    by (simp add: ord_set_remove_def k)
qed

text \<open>The bisection of \<open>ord_set_check_pos\<close> on \<open>uint32_t\<close> indices terminates and computes, without
  wrap-around, the number of smaller elements, in every sorted set of at most $2^{31}$ elements.\<close>

lemma ord_set_bisection_32:
  assumes "cmp_order cmp" and "cmp_order.os_wf cmp os" and "0 < n_elements os" and "n_elements os \<le> 2 ^ 31"
  shows "\<exists>i. pos_loop32 cmp el (os_elements os) 0 (of_nat (n_elements os - 1)) = Some i \<and>
    unat i < n_elements os \<and>
    (if cmp el (os_elements os ! unat i) > 0 then unat i + 1 else unat i) =
      length (takeWhile (\<lambda>x. cmp x el < 0) (os_elements os))"
proof -
  have s: "cmp_order.sorted_set cmp (os_elements os)"
    using assms(2) by (simp add: cmp_order.os_wf_def [OF assms(1)])
  have u: "unat (of_nat (n_elements os - 1) :: u32) = n_elements os - 1"
    using assms(4) by (simp add: unat_of_nat take_bit_nat_eq_self)
  have lt: "unat (of_nat (n_elements os - 1) :: u32) < 2 ^ 31" unfolding u using assms(3,4) by linarith
  have "unat (0 :: u32) < 2 ^ 31" by simp
  from pos_loop32_eq [OF this lt, of cmp el "os_elements os", unfolded u]
  obtain i where i: "pos_loop32 cmp el (os_elements os) 0 (of_nat (n_elements os - 1)) = Some i"
    "unat i = pos_loop cmp el (os_elements os) 0 (n_elements os - 1)"
    by auto
  have "pos_loop cmp el (os_elements os) 0 (n_elements os - 1) < n_elements os"
    using cmp_order.pos_loop_bounds [OF assms(1) s, of "n_elements os - 1" 0 el] assms(3) by simp
  then show ?thesis
    using i cmp_order.check_pos_eq [OF assms(1) s, of el] assms(3)
    by (simp add: ord_set_check_pos_def Let_def split: if_splits)
qed

end
