(* ===== verification/Node_Id.thy ===== *)
theory Node_Id
  imports Ord_Set
begin

text \<open>
  Node identifiers (\<open>struct nodeID\<close>) of \<open>Lib/net_helper/net_helper-x.c\<close>: comparison, printing,
  parsing, and the reference counter.

  A socket address is given by its family, the text \<open>inet_ntop\<close> prints for it and its port: the
  code reads addresses only through \<open>node_ip\<close> and \<open>node_port\<close>, and hands them to \<open>sendto\<close>.
  \<open>getaddrinfo\<close> together with \<open>inet_pton\<close> is the parameter \<open>numeric_host\<close>: the family and
  canonical text of a numeric address, if the text is one.  A NULL pointer is \<open>None\<close>.
\<close>

section \<open>Addresses and comparison\<close>

datatype sock_addr =
    AF_INET string u16
  | AF_INET6 string u16
  | AF_UNSPEC

record nodeID =
  nd_addr :: sock_addr
  nd_fd :: int

definition empty_node :: nodeID where
  "empty_node = \<lparr>nd_addr = AF_UNSPEC, nd_fd = -1\<rparr>"

text \<open>\<open>node_ip\<close> fills the buffer and returns 0, or empties it and returns -1.\<close>

definition node_ip :: "nodeID option \<Rightarrow> string \<times> int" where
  "node_ip s =
     (case s of
        None \<Rightarrow> ('''', -1)
      | Some n \<Rightarrow>
          (case nd_addr n of
             AF_INET ip port \<Rightarrow> (ip, 0)
           | AF_INET6 ip port \<Rightarrow> (ip, 0)
           | AF_UNSPEC \<Rightarrow> ('''', -1)))"

definition node_port :: "nodeID option \<Rightarrow> int" where
  "node_port s =
     (case s of
        None \<Rightarrow> -1
      | Some n \<Rightarrow>
          (case nd_addr n of
             AF_INET ip port \<Rightarrow> int (unat port)
           | AF_INET6 ip port \<Rightarrow> int (unat port)
           | AF_UNSPEC \<Rightarrow> -1))"

text \<open>C fixes only the sign of \<open>strcmp\<close>.\<close>

fun strcmp :: "string \<Rightarrow> string \<Rightarrow> int" where
  "strcmp [] [] = 0"
| "strcmp [] (y # ys) = -1"
| "strcmp (x # xs) [] = 1"
| "strcmp (x # xs) (y # ys) =
     (if x = y then strcmp xs ys else if (of_char x :: nat) < of_char y then -1 else 1)"

text \<open>The pointer test \<open>s1 != s2\<close> is only a shortcut: equal pointers have equal addresses.\<close>

definition nodeid_cmp :: "nodeID option \<Rightarrow> nodeID option \<Rightarrow> int" where
  "nodeid_cmp s1 s2 =
     (case (s1, s2) of
        (Some n1, Some n2) \<Rightarrow>
          (let res = strcmp (fst (node_ip s1)) (fst (node_ip s2))
           in if res = 0 then node_port s1 - node_port s2 else res)
      | (Some _, None) \<Rightarrow> 1
      | (None, Some _) \<Rightarrow> -1
      | (None, None) \<Rightarrow> 0)"

definition nodeid_equal :: "nodeID option \<Rightarrow> nodeID option \<Rightarrow> int" where
  "nodeid_equal s1 s2 =
     (if s1 \<noteq> None \<and> s2 \<noteq> None then (if nodeid_cmp s1 s2 = 0 then 1 else 0) else 0)"

text \<open>What two nodes are compared by.\<close>

definition node_key :: "nodeID \<Rightarrow> string \<times> int" where
  "node_key n = (fst (node_ip (Some n)), node_port (Some n))"

lemma strcmp_zero: "strcmp xs ys = 0 \<longleftrightarrow> xs = ys"
  by (induction xs ys rule: strcmp.induct) auto

lemma strcmp_flip: "strcmp xs ys < 0 \<longleftrightarrow> strcmp ys xs > 0"
proof (induction xs ys rule: strcmp.induct)
  case (4 x xs y ys)
  have "x \<noteq> y \<Longrightarrow> (of_char x :: nat) \<noteq> of_char y" by simp
  with 4 show ?case by auto
qed auto

lemma strcmp_trans: "strcmp xs ys < 0 \<Longrightarrow> strcmp ys zs < 0 \<Longrightarrow> strcmp xs zs < 0"
proof (induction xs ys arbitrary: zs rule: strcmp.induct)
  case (2 y ys)
  then show ?case by (cases zs) auto
next
  case (4 x xs y ys)
  then show ?case by (cases zs) (auto split: if_splits)
qed auto

text \<open>On nodes, the comparison is a total preorder that identifies exactly equal keys.\<close>

lemma nodeid_cmp_zero: "nodeid_cmp (Some a) (Some b) = 0 \<longleftrightarrow> node_key a = node_key b"
  by (auto simp: nodeid_cmp_def node_key_def Let_def strcmp_zero)

lemma nodeid_cmp_flip: "nodeid_cmp (Some a) (Some b) < 0 \<longleftrightarrow> nodeid_cmp (Some b) (Some a) > 0"
  using strcmp_flip [of "fst (node_ip (Some a))" "fst (node_ip (Some b))"]
    strcmp_zero [of "fst (node_ip (Some a))" "fst (node_ip (Some b))"]
    strcmp_zero [of "fst (node_ip (Some b))" "fst (node_ip (Some a))"]
  by (auto simp: nodeid_cmp_def Let_def)

lemma nodeid_cmp_trans:
  assumes "nodeid_cmp (Some a) (Some b) \<le> 0" and "nodeid_cmp (Some b) (Some c) \<le> 0"
  shows "nodeid_cmp (Some a) (Some c) \<le> 0"
proof -
  let ?a = "fst (node_ip (Some a))" and ?b = "fst (node_ip (Some b))" and ?c = "fst (node_ip (Some c))"
  have ab: "strcmp ?a ?b < 0 \<or> ?a = ?b \<and> node_port (Some a) \<le> node_port (Some b)"
    and bc: "strcmp ?b ?c < 0 \<or> ?b = ?c \<and> node_port (Some b) \<le> node_port (Some c)"
    using assms strcmp_zero [of ?a ?b] strcmp_zero [of ?b ?c]
    by (auto simp: nodeid_cmp_def Let_def split: if_splits)
  then have "strcmp ?a ?c < 0 \<or> ?a = ?c \<and> node_port (Some a) \<le> node_port (Some c)"
    using strcmp_trans [of ?a ?b ?c] by auto
  then show ?thesis
    using strcmp_zero [of ?a ?c] by (auto simp: nodeid_cmp_def Let_def)
qed

text \<open>So node pointers can be kept in an ordered set.\<close>

interpretation node_order: cmp_key "\<lambda>a b. nodeid_cmp (Some a) (Some b)" node_key
proof
  fix x y z
  show "nodeid_cmp (Some x) (Some x) = 0" by (simp add: nodeid_cmp_zero)
  show "nodeid_cmp (Some x) (Some y) < 0 \<longleftrightarrow> nodeid_cmp (Some y) (Some x) > 0"
    by (rule nodeid_cmp_flip)
  show "nodeid_cmp (Some x) (Some y) \<le> 0 \<Longrightarrow> nodeid_cmp (Some y) (Some z) \<le> 0 \<Longrightarrow>
      nodeid_cmp (Some x) (Some z) \<le> 0"
    by (rule nodeid_cmp_trans)
  show "nodeid_cmp (Some x) (Some y) = 0 \<longleftrightarrow> node_key x = node_key y"
    by (rule nodeid_cmp_zero)
qed

section \<open>Printing and parsing\<close>

text \<open>\<open>%d\<close> and \<open>atoi\<close>.\<close>

definition digit_char :: "nat \<Rightarrow> char" where
  "digit_char d = char_of (48 + d)"

fun nat_dec :: "nat \<Rightarrow> string" where
  "nat_dec n = (if n < 10 then [digit_char n] else nat_dec (n div 10) @ [digit_char (n mod 10)])"

declare nat_dec.simps [simp del]

definition int_dec :: "int \<Rightarrow> string" where
  "int_dec i = (if i < 0 then CHR ''-'' # nat_dec (nat (- i)) else nat_dec (nat i))"

definition is_digit :: "char \<Rightarrow> bool" where
  "is_digit c \<longleftrightarrow> 48 \<le> (of_char c :: nat) \<and> (of_char c :: nat) \<le> 57"

fun atoi_digits :: "nat \<Rightarrow> string \<Rightarrow> nat" where
  "atoi_digits acc [] = acc"
| "atoi_digits acc (c # cs) =
     (if is_digit c then atoi_digits (acc * 10 + (of_char c - 48)) cs else acc)"

definition atoi :: "string \<Rightarrow> int" where
  "atoi s =
     (case s of
        [] \<Rightarrow> 0
      | c # cs \<Rightarrow> if c = CHR ''-'' then - int (atoi_digits 0 cs) else int (atoi_digits 0 s))"

text \<open>\<open>nodeid_dump\<close> returns -1 or the number of characters \<open>sprintf\<close> produced; \<open>sprintf\<close> also
  writes the terminating NUL.\<close>

definition nodeid_dump :: "nodeID option \<Rightarrow> nat \<Rightarrow> int \<times> string option" where
  "nodeid_dump s max_write_size =
     (case s of
        None \<Rightarrow> (-1, None)
      | Some n \<Rightarrow>
          (let ip = fst (node_ip s); port = node_port s in
           if max_write_size \<ge> length ip + 1 + 5
           then (let out = ip @ CHR '':'' # int_dec port @ [CHR ''-''] in (int (length out), Some out))
           else (-1, None)))"

definition node_addr :: "nodeID option \<Rightarrow> nat \<Rightarrow> int \<times> string option" where
  "node_addr s len =
     (if len > 0 then
        (case s of
           Some _ \<Rightarrow>
             (case nodeid_dump s len of
                (n, Some out) \<Rightarrow> (n, Some (butlast out))
              | (n, None) \<Rightarrow> (n, None))
         | None \<Rightarrow> (4, Some (take (len - 1) ''None'')))
      else (-1, None))"

datatype family = Fam_inet | Fam_inet6

definition create_node ::
  "(string \<Rightarrow> (family \<times> string) option) \<Rightarrow> string option \<Rightarrow> int \<Rightarrow> nodeID option" where
  "create_node numeric_host IPaddr port =
     (case IPaddr of
        None \<Rightarrow> None
      | Some txt \<Rightarrow>
          if port \<ge> 0 then
            (case numeric_host txt of
               None \<Rightarrow> None
             | Some (Fam_inet, ip) \<Rightarrow> Some (empty_node\<lparr>nd_addr := AF_INET ip (word_of_int port)\<rparr>)
             | Some (Fam_inet6, ip) \<Rightarrow> Some (empty_node\<lparr>nd_addr := AF_INET6 ip (word_of_int port)\<rparr>))
          else None)"

text \<open>\<open>strchr(b, '-')\<close> or \<open>strrchr(socket, ':')\<close> may return NULL, which the code then uses.\<close>

definition nodeid_undump ::
  "(string \<Rightarrow> (family \<times> string) option) \<Rightarrow> string \<Rightarrow> (nodeID option \<times> nat) c_result" where
  "nodeid_undump numeric_host b =
     (if CHR ''-'' \<in> set b then
        let socket = takeWhile (\<lambda>c. c \<noteq> CHR ''-'') b;
            len = length socket + 1;
            rport = takeWhile (\<lambda>c. c \<noteq> CHR '':'') (rev socket)
        in if CHR '':'' \<in> set socket then
             Inr (create_node numeric_host (Some (rev (drop (length rport + 1) (rev socket))))
                    (atoi (rev rport)), len)
           else Inl Null_Deref
      else Inl Null_Deref)"

text \<open>The library reads back the numeric text it prints.\<close>

definition reads_back :: "(string \<Rightarrow> (family \<times> string) option) \<Rightarrow> sock_addr \<Rightarrow> bool" where
  "reads_back numeric_host a \<longleftrightarrow>
     (case a of
        AF_INET ip p \<Rightarrow> numeric_host ip = Some (Fam_inet, ip)
      | AF_INET6 ip p \<Rightarrow> numeric_host ip = Some (Fam_inet6, ip)
      | AF_UNSPEC \<Rightarrow> False)"

lemma is_digit_digit_char: "d < 10 \<Longrightarrow> is_digit (digit_char d) \<and> (of_char (digit_char d) :: nat) = 48 + d"
  by (simp add: is_digit_def digit_char_def of_char_of)

lemma atoi_digits_snoc:
  "(\<forall>c \<in> set cs. is_digit c) \<Longrightarrow> is_digit d \<Longrightarrow>
   atoi_digits acc (cs @ [d]) = atoi_digits acc cs * 10 + (of_char d - 48)"
  by (induction acc cs rule: atoi_digits.induct) auto

lemma nat_dec_digits: "\<forall>c \<in> set (nat_dec n). is_digit c"
proof (induction n rule: nat_dec.induct)
  case (1 n)
  then show ?case
    by (cases "n < 10")
      (simp_all add: nat_dec.simps [of n] is_digit_digit_char)
qed

lemma atoi_nat_dec: "atoi_digits 0 (nat_dec n) = n"
proof (induction n rule: nat_dec.induct)
  case (1 n)
  show ?case
  proof (cases "n < 10")
    case True
    then show ?thesis by (simp add: nat_dec.simps [of n] is_digit_digit_char)
  next
    case False
    then show ?thesis
      using 1 nat_dec_digits [of "n div 10"]
      by (simp add: nat_dec.simps [of n] atoi_digits_snoc is_digit_digit_char)
  qed
qed

lemma nat_dec_nonempty: "nat_dec n \<noteq> []"
  by (simp add: nat_dec.simps [of n])

lemma not_digit: "\<not> is_digit CHR ''-''" "\<not> is_digit CHR '':''"
  by (simp_all add: is_digit_def)

lemma atoi_int_dec: "0 \<le> i \<Longrightarrow> atoi (int_dec i) = i"
proof -
  assume i: "0 \<le> i"
  obtain c cs where c: "nat_dec (nat i) = c # cs" using nat_dec_nonempty by (cases "nat_dec (nat i)") auto
  then have "is_digit c" using nat_dec_digits [of "nat i"] by simp
  then have "c \<noteq> CHR ''-''" using not_digit by auto
  then show ?thesis using i c atoi_nat_dec [of "nat i"] by (simp add: int_dec_def atoi_def)
qed

lemma int_dec_chars: "0 \<le> i \<Longrightarrow> CHR ''-'' \<notin> set (int_dec i) \<and> CHR '':'' \<notin> set (int_dec i)"
  using nat_dec_digits [of "nat i"] not_digit by (auto simp: int_dec_def)

lemma length_nat_dec: "n < 10 ^ k \<Longrightarrow> 0 < k \<Longrightarrow> length (nat_dec n) \<le> k"
proof (induction k arbitrary: n)
  case (Suc k)
  show ?case
  proof (cases "n < 10")
    case True
    then show ?thesis by (simp add: nat_dec.simps [of n])
  next
    case False
    then have "n div 10 < 10 ^ k" "0 < k" using Suc.prems by (auto intro: gr0I)
    then show ?thesis using Suc.IH [of "n div 10"] False by (simp add: nat_dec.simps [of n])
  qed
qed simp

text \<open>A text without dashes, then a dash: \<open>strchr\<close> finds that dash; without colons after the
  last colon: \<open>strrchr\<close> finds that one.\<close>

lemma undump_parts:
  assumes "CHR ''-'' \<notin> set ip" and "CHR ''-'' \<notin> set dec" and "CHR '':'' \<notin> set dec"
  shows "nodeid_undump numeric_host (ip @ CHR '':'' # dec @ CHR ''-'' # rest) =
    Inr (create_node numeric_host (Some ip) (atoi dec), length ip + length dec + 2)"
proof -
  let ?b = "ip @ CHR '':'' # dec @ CHR ''-'' # rest"
  let ?sock = "takeWhile (\<lambda>c. c \<noteq> CHR ''-'') ?b"
  have sock: "?sock = ip @ CHR '':'' # dec"
    using assms takeWhile_stop [of "ip @ CHR '':'' # dec" "\<lambda>c. c \<noteq> CHR ''-''" "CHR ''-''" rest]
    by fastforce
  have rport: "takeWhile (\<lambda>c. c \<noteq> CHR '':'') (rev ?sock) = rev dec"
    unfolding sock
    using assms(3) takeWhile_stop [of "rev dec" "\<lambda>c. c \<noteq> CHR '':''" "CHR '':''" "rev ip"]
    by fastforce
  show ?thesis
    unfolding nodeid_undump_def Let_def rport unfolding sock by simp
qed

lemma nodeid_dump_some:
  "nodeid_dump (Some n) sz = (r, Some out) \<Longrightarrow>
   r = int (length out) \<and>
   out = fst (node_ip (Some n)) @ CHR '':'' # int_dec (node_port (Some n)) @ [CHR ''-'']"
  by (auto simp: nodeid_dump_def Let_def split: if_splits)

lemma length_nat_dec_ge: "10 ^ k \<le> n \<Longrightarrow> k < length (nat_dec n)"
proof (induction k arbitrary: n)
  case (Suc k)
  then have "10 ^ k \<le> n div 10" by (simp add: less_eq_div_iff_mult_less_eq mult.commute)
  moreover have "\<not> n < 10" using Suc.prems by (auto simp: not_less intro: order_trans [rotated])
  ultimately show ?case using Suc.IH [of "n div 10"] by (simp add: nat_dec.simps [of n])
qed (simp add: nat_dec_nonempty)

section \<open>The reference counter\<close>

text \<open>\<open>occurrences\<close> is a \<open>uint16_t\<close>; \<open>nodeid_free\<close> releases the node when it reaches 0.\<close>

definition nodeid_dup_count :: "u16 \<Rightarrow> u16" where
  "nodeid_dup_count occurrences = occurrences + 1"

definition nodeid_free_count :: "u16 \<Rightarrow> u16 \<times> bool" where
  "nodeid_free_count occurrences = (occurrences - 1, occurrences - 1 = 0)"

text \<open>A run of \<open>nodeid_dup\<close> and \<open>nodeid_free\<close> calls on one node, until it is released.\<close>

datatype ref_op = Dup | Free

fun ref_run :: "u16 \<Rightarrow> ref_op list \<Rightarrow> u16 option" where
  "ref_run c [] = Some c"
| "ref_run c (Dup # ops) = ref_run (nodeid_dup_count c) ops"
| "ref_run c (Free # ops) =
     (case nodeid_free_count c of (c', released) \<Rightarrow> if released then None else ref_run c' ops)"

text \<open>The number of references held after each operation, started with \<open>k\<close>.\<close>

fun refs_held :: "nat \<Rightarrow> ref_op list \<Rightarrow> nat list" where
  "refs_held k [] = []"
| "refs_held k (Dup # ops) = (k + 1) # refs_held (k + 1) ops"
| "refs_held k (Free # ops) = (k - 1) # refs_held (k - 1) ops"

lemma ref_run_live:
  assumes "unat c = k" and "0 < k" and "\<forall>h \<in> set (refs_held k ops). 0 < h \<and> h < 2 ^ 16"
  shows "\<exists>c'. ref_run c ops = Some c' \<and> unat c' = last (k # refs_held k ops)"
  using assms
proof (induction ops arbitrary: c k)
  case (Cons op ops)
  show ?case
  proof (cases op)
    case Dup
    with Cons.prems have "unat (c + 1) = k + 1" by (subst unat_add_lem [THEN iffD1]) auto
    then show ?thesis
      using Cons.IH [of "c + 1" "k + 1"] Cons.prems Dup by (simp add: nodeid_dup_count_def)
  next
    case Free
    have "c \<noteq> 0" using Cons.prems by auto
    with Free Cons.prems have u: "unat (c - 1) = k - 1" "0 < k - 1"
      by (auto simp: unat_minus_one)
    then have "c - 1 \<noteq> 0" by auto
    then show ?thesis
      using Cons.IH [OF u] Cons.prems Free by (auto simp: nodeid_free_count_def)
  qed
qed auto

lemma ref_run_append:
  "ref_run c (ops @ ops') = (case ref_run c ops of None \<Rightarrow> None | Some c' \<Rightarrow> ref_run c' ops')"
  by (induction c ops rule: ref_run.induct) (auto split: prod.splits)

lemma ref_run_dups: "ref_run c (replicate n Dup) = Some (c + of_nat n)"
  by (induction n arbitrary: c) (auto simp: nodeid_dup_count_def algebra_simps)

section \<open>Properties\<close>

text \<open>C39: What \<open>nodeid_dump\<close> prints for a node with a numeric address, followed by anything, is read back
  by \<open>nodeid_undump\<close> as a node with the same address and port (equal to it for \<open>nodeid_equal\<close>), and the length
  consumed is the length that was printed.\<close>

theorem nodeid_dump_undump:
  assumes "nodeid_dump (Some n) sz = (r, Some out)" and "reads_back numeric_host (nd_addr n)"
    and "CHR ''-'' \<notin> set (fst (node_ip (Some n)))"
  shows "nodeid_undump numeric_host (out @ rest) = Inr (Some (empty_node\<lparr>nd_addr := nd_addr n\<rparr>), nat r) \<and>
    nodeid_equal (Some n) (Some (empty_node\<lparr>nd_addr := nd_addr n\<rparr>)) = 1"
proof -
  let ?ip = "fst (node_ip (Some n))" and ?port = "node_port (Some n)"
  have r: "r = int (length out)" and out: "out = ?ip @ CHR '':'' # int_dec ?port @ [CHR ''-'']"
    using nodeid_dump_some [OF assms(1)] by simp_all
  have p: "0 \<le> ?port" using assms(2) by (auto simp: reads_back_def node_port_def split: sock_addr.splits)
  have "nodeid_undump numeric_host (?ip @ CHR '':'' # int_dec ?port @ CHR ''-'' # rest) =
      Inr (create_node numeric_host (Some ?ip) (atoi (int_dec ?port)), length ?ip + length (int_dec ?port) + 2)"
    using assms(3) int_dec_chars [OF p] by (intro undump_parts) simp_all
  moreover have "create_node numeric_host (Some ?ip) ?port = Some (empty_node\<lparr>nd_addr := nd_addr n\<rparr>)"
    using assms(2)
    by (auto simp: create_node_def reads_back_def node_port_def node_ip_def split: sock_addr.splits)
  moreover have "nodeid_equal (Some n) (Some (empty_node\<lparr>nd_addr := nd_addr n\<rparr>)) = 1"
    by (simp add: nodeid_equal_def nodeid_cmp_zero node_key_def node_ip_def node_port_def)
  ultimately show ?thesis using out r atoi_int_dec [OF p] by simp
qed

theorem nodeid_dump_undump_witness:
  "nodeid_undump (\<lambda>t. Some (Fam_inet, t)) (''10.0.0.1:6000-'' @ ''tail'') =
     Inr (Some \<lparr>nd_addr = AF_INET ''10.0.0.1'' 6000, nd_fd = -1\<rparr>, 14)"
proof -
  let ?n = "\<lparr>nd_addr = AF_INET ''10.0.0.1'' 6000, nd_fd = 3\<rparr>"
  have d: "nodeid_dump (Some ?n) 64 = (14, Some ''10.0.0.1:6000-'')"
    by (simp add: nodeid_dump_def node_ip_def node_port_def int_dec_def nat_dec.simps digit_char_def
        Let_def char_of_def bit_0)
  show ?thesis
    using conjunct1 [OF nodeid_dump_undump [OF d, of "\<lambda>t. Some (Fam_inet, t)" "''tail''"]]
    by (simp add: reads_back_def node_ip_def empty_node_def)
qed

text \<open>\<open>nodeid_dump\<close> returns the number of characters printed, but its size test does not count the
  final dash and the terminating NUL: with them it stays within two bytes of the size it was given, and a
  five-digit port in a buffer of exactly the tested size does overrun it by two.\<close>

lemma nodeid_dump_overrun:
  assumes "nodeid_dump (Some n) sz = (r, Some out)"
  shows "r = int (length out) \<and> length out + 1 \<le> sz + 2 \<and>
    (10000 \<le> node_port (Some n) \<and> sz = length (fst (node_ip (Some n))) + 6 \<longrightarrow> length out + 1 = sz + 2)"
proof -
  let ?ip = "fst (node_ip (Some n))" and ?port = "node_port (Some n)"
  have r: "r = int (length out)" and out: "out = ?ip @ CHR '':'' # int_dec ?port @ [CHR ''-'']"
    using nodeid_dump_some [OF assms] by simp_all
  have sz: "length ?ip + 6 \<le> sz"
    using assms by (auto simp: nodeid_dump_def Let_def split: if_splits)
  have u: "uint w < 65536 \<and> -1 \<le> uint w" for w :: u16 using uint_bounded [of w] order_trans [of "-1" 0 "uint w"] by simp
  have pr: "?port < 65536" "-1 \<le> ?port" using u by (auto simp: node_port_def split: sock_addr.splits)
  have up: "length (int_dec ?port) \<le> 5"
  proof (cases "0 \<le> ?port")
    case True
    then show ?thesis using pr length_nat_dec [of "nat ?port" 5] by (simp add: int_dec_def)
  next
    case False
    with pr have "?port = -1" by simp
    then show ?thesis by (simp add: int_dec_def nat_dec.simps)
  qed
  have low: "5 \<le> length (int_dec ?port)" if "10000 \<le> ?port"
  proof -
    have "4 < length (nat_dec (nat ?port))" using length_nat_dec_ge [of 4 "nat ?port"] that by simp
    then show ?thesis using that by (simp add: int_dec_def)
  qed
  have len: "length out + 1 = length ?ip + length (int_dec ?port) + 3" unfolding out by simp
  show ?thesis using r sz up low len by (cases "10000 \<le> ?port") auto
qed

text \<open>As long as the number of references stays between 1 and 65535, the node is not released, the 16
  bit counter equals that number, and the next \<open>nodeid_free\<close> releases it exactly if one reference is left.\<close>

lemma nodeid_references:
  assumes "unat c = k" and "0 < k" and "\<forall>h \<in> set (refs_held k ops). 0 < h \<and> h < 2 ^ 16"
  shows "\<exists>c'. ref_run c ops = Some c' \<and> unat c' = last (k # refs_held k ops) \<and>
    (ref_run c (ops @ [Free]) = None \<longleftrightarrow> last (k # refs_held k ops) = 1)"
proof -
  obtain c' where c': "ref_run c ops = Some c'" "unat c' = last (k # refs_held k ops)"
    using ref_run_live [OF assms] by auto
  have "c' - 1 = 0 \<longleftrightarrow> c' = 1" by (metis eq_iff_diff_eq_0)
  also have "\<dots> \<longleftrightarrow> unat c' = 1" by (simp add: word_unat_eq_iff)
  finally show ?thesis using c' by (simp add: ref_run_append nodeid_free_count_def)
qed

text \<open>The counter wraps: after 65536 \<open>nodeid_dup\<close> calls on a fresh node a single \<open>nodeid_free\<close> releases
  it, with 65536 references still held.\<close>

lemma nodeid_references_wrap:
  "ref_run 1 (replicate 65536 Dup @ [Free]) = None"
  by (simp only: ref_run_append ref_run_dups) (simp add: nodeid_free_count_def)

end
