(* ===== verification/Net_Msg.thy ===== *)
theory Net_Msg
  imports Node_Id
begin

unbundle bit_operations_syntax

text \<open>
  \<open>Lib/net_helper/nhx/net_msg.c\<close>, \<open>fragment.c\<close>, \<open>frag_request.c\<close>: the two datagrams of the
  packet layer, a fragment of a packet and a request to resend one, with their wire format.

  The integer codings \<open>int16_cpy\<close>, \<open>int_cpy\<close> and their readers come from the GRAPES library and
  are the parameter \<open>int_coding\<close>; what the code relies on is \<open>int_coding_ok\<close>: a value takes 2
  or 4 bytes and is read back.  A buffer is the list of its bytes, and writing replaces its
  front.  \<open>sendto\<close> is a \<open>datagram\<close> record: the socket it leaves from, the address it goes to, the
  bytes.  The embedded list head of a message is not part of the record: see
  \<open>Network_Manager\<close>, where the send queue lists references to messages.
\<close>

section \<open>Messages\<close>

record int_coding =
  int16_cpy :: "u16 \<Rightarrow> bytes"
  int16_rcpy :: "bytes \<Rightarrow> u16"
  int_cpy :: "u32 \<Rightarrow> bytes"
  int_rcpy :: "bytes \<Rightarrow> u32"

definition int_coding_ok :: "int_coding \<Rightarrow> bool" where
  "int_coding_ok ic \<longleftrightarrow>
     (\<forall>v. length (int16_cpy ic v) = 2) \<and> (\<forall>v. length (int_cpy ic v) = 4) \<and>
     (\<forall>v rest. int16_rcpy ic (int16_cpy ic v @ rest) = v) \<and>
     (\<forall>v rest. int_rcpy ic (int_cpy ic v @ rest) = v)"

definition NET_FRAGMENT :: u8 where
  "NET_FRAGMENT = 0"

definition NET_FRAGMENT_REQ :: u8 where
  "NET_FRAGMENT_REQ = 1"

text \<open>\<open>struct fragment\<close>; \<open>f_data = None\<close> is a NULL data pointer: nothing received yet.\<close>

record fragment =
  f_from :: nodeID
  f_to :: nodeID
  f_id :: u16
  f_frag_num :: u16
  f_pid :: u16
  f_data_size :: nat
  f_data :: "bytes option"

record frag_request =
  fr_from :: nodeID
  fr_to :: nodeID
  fr_id :: u16
  fr_pid :: u16

datatype net_msg =
    Fragment_msg fragment
  | Request_msg frag_request

record datagram =
  dg_fd :: int
  dg_to :: sock_addr
  dg_bytes :: bytes

section \<open>Fragments\<close>

definition FRAGMENT_HEADER_LEN :: nat where
  "FRAGMENT_HEADER_LEN = 1 + 2 + 2 + 2 + 4"

text \<open>\<open>fragment_init\<close> with the NULL checks of \<open>net_msg_init\<close>; it copies \<open>data_size\<close> bytes of the
  data.\<close>

definition fragment_init ::
  "nodeID option \<Rightarrow> nodeID option \<Rightarrow> u16 \<Rightarrow> u16 \<Rightarrow> u16 \<Rightarrow> bytes option \<Rightarrow> nat \<Rightarrow> fragment option" where
  "fragment_init from to pid frag_num fid data data_size =
     (case (from, to) of
        (Some fr, Some t) \<Rightarrow>
          Some \<lparr>f_from = fr, f_to = t, f_id = fid, f_frag_num = frag_num, f_pid = pid,
                f_data_size = data_size, f_data = map_option (take data_size) data\<rparr>
      | _ \<Rightarrow> None)"

definition fragment_encode ::
  "int_coding \<Rightarrow> fragment option \<Rightarrow> bytes option \<Rightarrow> (int \<times> bytes option) c_result" where
  "fragment_encode ic frag buff =
     (case (frag, buff) of
        (Some f, Some b) \<Rightarrow>
          if length b \<ge> FRAGMENT_HEADER_LEN + f_data_size f then
            (case f_data f of
               None \<Rightarrow> if f_data_size f = 0
                       then Inr (0, Some ([NET_FRAGMENT] @ int16_cpy ic (f_pid f) @
                              int16_cpy ic (f_frag_num f) @ int16_cpy ic (f_id f) @
                              int_cpy ic (of_nat (f_data_size f)) @ drop FRAGMENT_HEADER_LEN b))
                       else Inl Null_Deref
             | Some d \<Rightarrow>
                 Inr (0, Some ([NET_FRAGMENT] @ int16_cpy ic (f_pid f) @
                        int16_cpy ic (f_frag_num f) @ int16_cpy ic (f_id f) @
                        int_cpy ic (of_nat (f_data_size f)) @ take (f_data_size f) d @
                        drop (FRAGMENT_HEADER_LEN + f_data_size f) b)))
          else Inr (-1, buff)
      | _ \<Rightarrow> Inr (-1, buff))"

definition fragment_send ::
  "int_coding \<Rightarrow> int \<Rightarrow> sock_addr \<Rightarrow> fragment \<Rightarrow> bytes \<Rightarrow> datagram option c_result" where
  "fragment_send ic sockfd dest frag buff =
     (if length buff \<ge> FRAGMENT_HEADER_LEN + f_data_size frag then
        let msg_len = FRAGMENT_HEADER_LEN + f_data_size frag in
        c_bind (fragment_encode ic (Some frag) (Some buff)) (\<lambda>(res, out).
          Inr (case out of
                 Some b \<Rightarrow> Some \<lparr>dg_fd = sockfd, dg_to = dest, dg_bytes = take msg_len b\<rparr>
               | None \<Rightarrow> None))
      else Inr None)"

definition fragment_decode ::
  "int_coding \<Rightarrow> nodeID option \<Rightarrow> nodeID option \<Rightarrow> bytes \<Rightarrow> fragment option" where
  "fragment_decode ic dst src buff =
     (if dst \<noteq> None \<and> src \<noteq> None \<and> length buff \<ge> FRAGMENT_HEADER_LEN then
        let pid = int16_rcpy ic (drop 1 buff);
            frag_num = int16_rcpy ic (drop 3 buff);
            fid = int16_rcpy ic (drop 5 buff);
            data_len = unat (int_rcpy ic (drop 7 buff))
        in if length buff \<ge> FRAGMENT_HEADER_LEN + data_len
           then fragment_init src dst pid frag_num fid (Some (drop FRAGMENT_HEADER_LEN buff)) data_len
           else None
      else None)"

section \<open>Fragment requests\<close>

definition FRAG_REQUEST_HEADER_LEN :: nat where
  "FRAG_REQUEST_HEADER_LEN = 1 + 2 + 2"

definition frag_request_create :: "nodeID \<Rightarrow> nodeID \<Rightarrow> u16 \<Rightarrow> u16 \<Rightarrow> frag_request" where
  "frag_request_create from to pid fid = \<lparr>fr_from = from, fr_to = to, fr_id = fid, fr_pid = pid\<rparr>"

definition frag_request_encode ::
  "int_coding \<Rightarrow> frag_request option \<Rightarrow> bytes option \<Rightarrow> int \<times> bytes option" where
  "frag_request_encode ic fr buff =
     (case (fr, buff) of
        (Some r, Some b) \<Rightarrow>
          if length b \<ge> FRAG_REQUEST_HEADER_LEN
          then (0, Some ([NET_FRAGMENT_REQ] @ int16_cpy ic (fr_pid r) @ int16_cpy ic (fr_id r) @
                  drop FRAG_REQUEST_HEADER_LEN b))
          else (-1, buff)
      | _ \<Rightarrow> (-1, buff))"

definition frag_request_send ::
  "int_coding \<Rightarrow> int \<Rightarrow> sock_addr \<Rightarrow> frag_request \<Rightarrow> bytes \<Rightarrow> datagram option" where
  "frag_request_send ic sockfd dest fr buff =
     (if length buff \<ge> FRAG_REQUEST_HEADER_LEN then
        (case frag_request_encode ic (Some fr) (Some buff) of
           (res, Some b) \<Rightarrow>
             Some \<lparr>dg_fd = sockfd, dg_to = dest, dg_bytes = take FRAG_REQUEST_HEADER_LEN b\<rparr>
         | (res, None) \<Rightarrow> None)
      else None)"

text \<open>\<open>msg\<close> is not initialised: when a check fails the function returns an indeterminate pointer.\<close>

definition frag_request_decode ::
  "int_coding \<Rightarrow> nodeID option \<Rightarrow> nodeID option \<Rightarrow> bytes \<Rightarrow> frag_request c_result" where
  "frag_request_decode ic dst src buff =
     (case (dst, src) of
        (Some d, Some s) \<Rightarrow>
          if length buff \<ge> FRAG_REQUEST_HEADER_LEN
          then Inr (frag_request_create s d (int16_rcpy ic (drop 1 buff)) (int16_rcpy ic (drop 3 buff)))
          else Inl Uninit_Read
      | _ \<Rightarrow> Inl Uninit_Read)"

section \<open>Dispatch on the message type\<close>

definition net_msg_send ::
  "int_coding \<Rightarrow> int \<Rightarrow> sock_addr \<Rightarrow> net_msg \<Rightarrow> bytes \<Rightarrow> datagram option c_result" where
  "net_msg_send ic sockfd dest msg buff =
     (case msg of
        Fragment_msg f \<Rightarrow> fragment_send ic sockfd dest f buff
      | Request_msg r \<Rightarrow> Inr (frag_request_send ic sockfd dest r buff))"

definition net_msg_decode ::
  "int_coding \<Rightarrow> nodeID option \<Rightarrow> nodeID option \<Rightarrow> bytes \<Rightarrow> net_msg option c_result" where
  "net_msg_decode ic dst src buff =
     (case buff of
        [] \<Rightarrow> Inl Out_Of_Bounds
      | t # rest \<Rightarrow>
          if t = NET_FRAGMENT then Inr (map_option Fragment_msg (fragment_decode ic dst src buff))
          else if t = NET_FRAGMENT_REQ
          then c_bind (frag_request_decode ic dst src buff) (\<lambda>r. Inr (Some (Request_msg r)))
          else Inr None)"

section \<open>Round trips\<close>

lemma int_coding_lengths [simp]:
  "int_coding_ok ic \<Longrightarrow> length (int16_cpy ic v) = 2"
  "int_coding_ok ic \<Longrightarrow> length (int_cpy ic w) = 4"
  by (simp_all add: int_coding_ok_def)

lemma int_coding_reads [simp]:
  "int_coding_ok ic \<Longrightarrow> int16_rcpy ic (int16_cpy ic v @ rest) = v"
  "int_coding_ok ic \<Longrightarrow> int_rcpy ic (int_cpy ic w @ rest) = w"
  unfolding int_coding_ok_def by blast+

definition fragment_wf :: "fragment \<Rightarrow> bool" where
  "fragment_wf f \<longleftrightarrow>
     (case f_data f of None \<Rightarrow> f_data_size f = 0 | Some d \<Rightarrow> length d = f_data_size f)"

text \<open>The bytes of a fragment's datagram.\<close>

definition fragment_bytes :: "int_coding \<Rightarrow> fragment \<Rightarrow> bytes" where
  "fragment_bytes ic f =
     [NET_FRAGMENT] @ int16_cpy ic (f_pid f) @ int16_cpy ic (f_frag_num f) @ int16_cpy ic (f_id f) @
     int_cpy ic (of_nat (f_data_size f)) @ (case f_data f of None \<Rightarrow> [] | Some d \<Rightarrow> d)"

lemma length_fragment_bytes:
  "int_coding_ok ic \<Longrightarrow> fragment_wf f \<Longrightarrow>
   length (fragment_bytes ic f) = FRAGMENT_HEADER_LEN + f_data_size f"
  by (auto simp: fragment_bytes_def fragment_wf_def FRAGMENT_HEADER_LEN_def split: option.splits)

lemma fragment_encode_bytes:
  assumes "fragment_wf f" and "FRAGMENT_HEADER_LEN + f_data_size f \<le> length b"
  shows "fragment_encode ic (Some f) (Some b) =
    Inr (0, Some (fragment_bytes ic f @ drop (FRAGMENT_HEADER_LEN + f_data_size f) b))"
  using assms by (auto simp: fragment_encode_def fragment_bytes_def fragment_wf_def split: option.splits)

lemma fragment_send_bytes:
  assumes "int_coding_ok ic" and "fragment_wf f"
  shows "fragment_send ic fd dest f b =
    Inr (if FRAGMENT_HEADER_LEN + f_data_size f \<le> length b
         then Some \<lparr>dg_fd = fd, dg_to = dest, dg_bytes = fragment_bytes ic f\<rparr> else None)"
  using assms by (simp add: fragment_send_def Let_def fragment_encode_bytes length_fragment_bytes)

lemma fragment_decode_bytes:
  assumes "int_coding_ok ic" and "fragment_wf f" and "f_data f = Some d" and "f_data_size f < 2 ^ 32"
  shows "fragment_decode ic (Some dst) (Some src) (fragment_bytes ic f @ rest) =
    Some (f\<lparr>f_from := src, f_to := dst\<rparr>)"
proof -
  let ?b = "fragment_bytes ic f @ rest"
  have l: "length (int16_cpy ic v) = 2" "length (int_cpy ic w) = 4" for v w
    using assms(1) by simp_all
  have drops: "drop (Suc 0) ?b = int16_cpy ic (f_pid f) @ int16_cpy ic (f_frag_num f) @
      int16_cpy ic (f_id f) @ int_cpy ic (of_nat (f_data_size f)) @ d @ rest"
    "drop 3 ?b = int16_cpy ic (f_frag_num f) @ int16_cpy ic (f_id f) @
      int_cpy ic (of_nat (f_data_size f)) @ d @ rest"
    "drop 5 ?b = int16_cpy ic (f_id f) @ int_cpy ic (of_nat (f_data_size f)) @ d @ rest"
    "drop 7 ?b = int_cpy ic (of_nat (f_data_size f)) @ d @ rest"
    "drop FRAGMENT_HEADER_LEN ?b = d @ rest"
    using assms(3) l by (simp_all add: fragment_bytes_def FRAGMENT_HEADER_LEN_def)
  have sz: "unat (of_nat (f_data_size f) :: u32) = f_data_size f" "length d = f_data_size f"
    using assms(2-4) by (simp_all add: unat_of_nat take_bit_nat_eq_self fragment_wf_def)
  have "length ?b \<ge> FRAGMENT_HEADER_LEN + f_data_size f"
    using length_fragment_bytes [OF assms(1,2)] by simp
  then show ?thesis
    using assms(1,3) sz by (simp add: fragment_decode_def drops Let_def fragment_init_def del: drop_append)
qed

definition request_bytes :: "int_coding \<Rightarrow> frag_request \<Rightarrow> bytes" where
  "request_bytes ic r = [NET_FRAGMENT_REQ] @ int16_cpy ic (fr_pid r) @ int16_cpy ic (fr_id r)"

lemma frag_request_send_bytes:
  assumes "int_coding_ok ic"
  shows "frag_request_send ic fd dest r b =
    (if FRAG_REQUEST_HEADER_LEN \<le> length b
     then Some \<lparr>dg_fd = fd, dg_to = dest, dg_bytes = request_bytes ic r\<rparr> else None)"
  using assms
  by (simp add: frag_request_send_def frag_request_encode_def request_bytes_def FRAG_REQUEST_HEADER_LEN_def)

lemma frag_request_decode_bytes:
  assumes "int_coding_ok ic"
  shows "frag_request_decode ic (Some dst) (Some src) (request_bytes ic r @ rest) =
    Inr (r\<lparr>fr_from := src, fr_to := dst\<rparr>)"
proof -
  let ?b = "request_bytes ic r @ rest"
  have drops: "drop (Suc 0) ?b = int16_cpy ic (fr_pid r) @ int16_cpy ic (fr_id r) @ rest"
    "drop 3 ?b = int16_cpy ic (fr_id r) @ rest"
    using assms by (simp_all add: request_bytes_def)
  have "length ?b \<ge> FRAG_REQUEST_HEADER_LEN"
    using assms by (simp add: request_bytes_def FRAG_REQUEST_HEADER_LEN_def)
  then show ?thesis
    using assms by (simp add: frag_request_decode_def drops frag_request_create_def del: drop_append)
qed

text \<open>A concrete coding, big endian, as used on the wire.\<close>

definition big_endian :: int_coding where
  "big_endian =
     \<lparr>int16_cpy = (\<lambda>v. [ucast (drop_bit 8 v), ucast v]),
      int16_rcpy = (\<lambda>b. case b of x # y # _ \<Rightarrow> push_bit 8 (ucast x) OR ucast y | _ \<Rightarrow> 0),
      int_cpy = (\<lambda>v. [ucast (drop_bit 24 v), ucast (drop_bit 16 v), ucast (drop_bit 8 v), ucast v]),
      int_rcpy = (\<lambda>b. case b of
         x # y # z # w # _ \<Rightarrow>
           push_bit 24 (ucast x) OR push_bit 16 (ucast y) OR push_bit 8 (ucast z) OR ucast w
       | _ \<Rightarrow> 0)\<rparr>"

lemma split16:
  "push_bit 8 (ucast (ucast (drop_bit 8 v) :: u8)) OR ucast (ucast v :: u8) = (v :: u16)"
  by (rule bit_word_eqI) (auto simp: bit_simps)

lemma split32:
  "push_bit 24 (ucast (ucast (drop_bit 24 v) :: u8)) OR push_bit 16 (ucast (ucast (drop_bit 16 v) :: u8)) OR
   push_bit 8 (ucast (ucast (drop_bit 8 v) :: u8)) OR ucast (ucast v :: u8) = (v :: u32)" (is "?l = v")
proof (rule bit_word_eqI)
  fix n assume "n < LENGTH(32)"
  then consider "n < 8" | "8 \<le> n" "n < 16" | "16 \<le> n" "n < 24" | "24 \<le> n" "n < 32"
    by fastforce
  then show "bit ?l n \<longleftrightarrow> bit v n"
    by cases (auto simp: bit_simps)
qed

lemma int_coding_ok_big_endian: "int_coding_ok big_endian"
  by (simp add: int_coding_ok_def big_endian_def split16 split32)

section \<open>Properties\<close>

text \<open>C37: A fragment with its data sent with \<open>fragment_send\<close> from a buffer large enough gives a datagram of exactly header and
  data, from the given descriptor to the given address; decoding those bytes (whatever follows them in the receive
  buffer) gives the same fragment, now from the sender's node to the receiver's.\<close>

theorem fragment_wire_roundtrip:
  assumes "int_coding_ok ic" and "fragment_wf f" and "f_data f = Some d" and "f_data_size f < 2 ^ 32"
    and "FRAGMENT_HEADER_LEN + f_data_size f \<le> length buff"
  shows "\<exists>dg. net_msg_send ic fd dest (Fragment_msg f) buff = Inr (Some dg) \<and> dg_fd dg = fd \<and> dg_to dg = dest \<and>
    length (dg_bytes dg) = FRAGMENT_HEADER_LEN + f_data_size f \<and>
    net_msg_decode ic (Some dst) (Some src) (dg_bytes dg @ rest) =
      Inr (Some (Fragment_msg (f\<lparr>f_from := src, f_to := dst\<rparr>)))"
proof -
  have h: "\<exists>bs. fragment_bytes ic f @ rest = NET_FRAGMENT # bs" by (simp add: fragment_bytes_def)
  then have "net_msg_decode ic (Some dst) (Some src) (fragment_bytes ic f @ rest) =
      Inr (map_option Fragment_msg (fragment_decode ic (Some dst) (Some src) (fragment_bytes ic f @ rest)))"
    by (auto simp: net_msg_decode_def)
  then show ?thesis
    using assms by (simp add: net_msg_send_def fragment_send_bytes fragment_decode_bytes length_fragment_bytes)
qed

theorem fragment_wire_roundtrip_witness:
  defines "f \<equiv> \<lparr>f_from = empty_node, f_to = empty_node, f_id = 1, f_frag_num = 2, f_pid = 7, f_data_size = 3, f_data = Some [1, 2, 3]\<rparr>"
  shows "\<exists>dg. net_msg_send big_endian 5 AF_UNSPEC (Fragment_msg f) (replicate 20 0) = Inr (Some dg) \<and>
    net_msg_decode big_endian (Some empty_node) (Some empty_node) (dg_bytes dg) = Inr (Some (Fragment_msg f))"
proof -
  have f: "fragment_wf f" "f_data f = Some [1, 2, 3]" "f_data_size f < 2 ^ 32"
    "FRAGMENT_HEADER_LEN + f_data_size f \<le> length (replicate 20 (0 :: u8))"
    by (simp_all add: f_def fragment_wf_def FRAGMENT_HEADER_LEN_def)
  show ?thesis
    using fragment_wire_roundtrip [OF int_coding_ok_big_endian f, of 5 AF_UNSPEC empty_node empty_node "[]"]
    by (auto simp: f_def)
qed

text \<open>A fragment request sent with \<open>frag_request_send\<close> is a datagram of 5 bytes, and decoding it gives
  the request of the same packet and fragment number, from the sender's node to the receiver's.\<close>

lemma request_wire_roundtrip:
  assumes "int_coding_ok ic" and "FRAG_REQUEST_HEADER_LEN \<le> length buff"
  shows "\<exists>dg. net_msg_send ic fd dest (Request_msg r) buff = Inr (Some dg) \<and> dg_fd dg = fd \<and> dg_to dg = dest \<and>
    length (dg_bytes dg) = 5 \<and>
    net_msg_decode ic (Some dst) (Some src) (dg_bytes dg @ rest) =
      Inr (Some (Request_msg (r\<lparr>fr_from := src, fr_to := dst\<rparr>)))"
proof -
  have h: "\<exists>bs. request_bytes ic r @ rest = NET_FRAGMENT_REQ # bs" by (simp add: request_bytes_def)
  then have "net_msg_decode ic (Some dst) (Some src) (request_bytes ic r @ rest) =
      c_bind (frag_request_decode ic (Some dst) (Some src) (request_bytes ic r @ rest)) (\<lambda>r. Inr (Some (Request_msg r)))"
    by (auto simp: net_msg_decode_def NET_FRAGMENT_def NET_FRAGMENT_REQ_def)
  moreover have "length (request_bytes ic r) = 5" using assms(1) by (simp add: request_bytes_def)
  ultimately show ?thesis
    using assms by (simp add: net_msg_send_def frag_request_send_bytes frag_request_decode_bytes)
qed

text \<open>C38: What \<open>net_msg_decode\<close> does on any datagram: a fragment whose header or announced data does not fit
  is rejected (so a decoded fragment has exactly its announced data, all of it inside the datagram), an unknown type is
  rejected, and a request shorter than its header makes the code return an uninitialised pointer.\<close>

theorem net_msg_decode_cases:
  assumes "buff = t # body"
  shows "(case net_msg_decode ic (Some dst) (Some src) buff of
      Inr (Some (Fragment_msg f)) \<Rightarrow> t = NET_FRAGMENT \<and> f_from f = src \<and> f_to f = dst \<and>
        FRAGMENT_HEADER_LEN + f_data_size f \<le> length buff \<and>
        f_data f = Some (take (f_data_size f) (drop FRAGMENT_HEADER_LEN buff)) \<and>
        f_data_size f = unat (int_rcpy ic (drop 7 buff))
    | Inr (Some (Request_msg r)) \<Rightarrow> t = NET_FRAGMENT_REQ \<and> fr_from r = src \<and> fr_to r = dst \<and>
        FRAG_REQUEST_HEADER_LEN \<le> length buff
    | Inr None \<Rightarrow> t \<notin> {NET_FRAGMENT, NET_FRAGMENT_REQ} \<or>
        t = NET_FRAGMENT \<and> (length buff < FRAGMENT_HEADER_LEN \<or>
          length buff < FRAGMENT_HEADER_LEN + unat (int_rcpy ic (drop 7 buff)))
    | Inl e \<Rightarrow> e = Uninit_Read \<and> t = NET_FRAGMENT_REQ \<and> length buff < FRAG_REQUEST_HEADER_LEN)"
proof (cases "t = NET_FRAGMENT")
  case True
  then show ?thesis
    unfolding assms by (auto simp: net_msg_decode_def fragment_decode_def fragment_init_def Let_def)
next
  case False
  then show ?thesis
    unfolding assms
    by (auto simp: net_msg_decode_def frag_request_decode_def frag_request_create_def NET_FRAGMENT_def NET_FRAGMENT_REQ_def)
qed

theorem net_msg_decode_cases_witness:
  "\<exists>e. net_msg_decode big_endian (Some empty_node) (Some empty_node) [NET_FRAGMENT_REQ, 0, 1] = Inl e \<and> e = Uninit_Read"
proof -
  have "net_msg_decode big_endian (Some empty_node) (Some empty_node) [NET_FRAGMENT_REQ, 0, 1] \<noteq> Inr x" for x
    by (simp add: net_msg_decode_def frag_request_decode_def NET_FRAGMENT_def NET_FRAGMENT_REQ_def FRAG_REQUEST_HEADER_LEN_def)
  then show ?thesis
    using net_msg_decode_cases [of "[NET_FRAGMENT_REQ, 0, 1]" NET_FRAGMENT_REQ "[0, 1]" big_endian empty_node empty_node]
    by (cases "net_msg_decode big_endian (Some empty_node) (Some empty_node) [NET_FRAGMENT_REQ, 0, 1]") auto
qed

end
