(* ===== verification/Fragmented_Packet.thy ===== *)
theory Fragmented_Packet
  imports Net_Msg
begin

text \<open>
  \<open>Lib/net_helper/nhx/fragmented_packet.c\<close>: a packet split into fragments for sending, or being
  put together from received ones.

  The array \<open>frags\<close> is allocated with exactly \<open>frag_num\<close> elements, so \<open>frag_num\<close> is the length
  of \<open>fp_frags\<close>; it is computed in 16 bits.  The clock (\<open>time(NULL)\<close>) is an argument.
  The lemmas characterise the fragments made of a data block, the requests a write produces,
  and what a sequence of writes in any order leaves in the packet.
\<close>

section \<open>The operations\<close>

datatype packet_state = PKT_READY | PKT_LOADING | PKT_ERROR

record fragmented_packet =
  fp_creation_timestamp :: int
  fp_frags :: "fragment list"
  fp_packet_id :: u16

abbreviation fp_frag_num :: "fragmented_packet \<Rightarrow> nat" where
  "fp_frag_num fp \<equiv> length (fp_frags fp)"

definition fragmented_packet_creation_timestamp :: "fragmented_packet option \<Rightarrow> int" where
  "fragmented_packet_creation_timestamp fp =
     (case fp of Some p \<Rightarrow> fp_creation_timestamp p | None \<Rightarrow> 0)"

definition fragmented_packet_id :: "fragmented_packet option \<Rightarrow> u16" where
  "fragmented_packet_id fp = (case fp of Some p \<Rightarrow> fp_packet_id p | None \<Rightarrow> 0)"

text \<open>What \<open>fragment_init\<close> stores when both nodes are given.\<close>

abbreviation fragment_fill :: "nodeID \<Rightarrow> nodeID \<Rightarrow> u16 \<Rightarrow> u16 \<Rightarrow> u16 \<Rightarrow> bytes option \<Rightarrow> nat \<Rightarrow> fragment" where
  "fragment_fill from to pid num fid data sz \<equiv>
     the (fragment_init (Some from) (Some to) pid num fid data sz)"

text \<open>The number of fragments, a \<open>frag_id_t\<close>.\<close>

definition frag_count :: "nat \<Rightarrow> nat \<Rightarrow> u16" where
  "frag_count data_size frag_size =
     (let n = of_nat (data_size div frag_size) in if data_size mod frag_size \<noteq> 0 then n + 1 else n)"

text \<open>The loop of \<open>fragmented_packet_create\<close>: \<open>k\<close> fragments to go, the next one is number \<open>i\<close>,
  \<open>data_size\<close> bytes are left.\<close>

fun make_frags ::
  "nodeID \<Rightarrow> nodeID \<Rightarrow> u16 \<Rightarrow> u16 \<Rightarrow> bytes \<Rightarrow> nat \<Rightarrow> nat \<Rightarrow> nat \<Rightarrow> nat \<Rightarrow> fragment list" where
  "make_frags from to pid num data frag_size data_size i 0 = []"
| "make_frags from to pid num data frag_size data_size i (Suc k) =
     fragment_fill from to pid num (of_nat i) (Some (drop (i * frag_size) data)) (min frag_size data_size)
     # make_frags from to pid num data frag_size (data_size - frag_size) (Suc i) k"

definition fragmented_packet_create ::
  "int \<Rightarrow> u16 \<Rightarrow> nodeID \<Rightarrow> nodeID \<Rightarrow> bytes option \<Rightarrow> nat \<Rightarrow> fragmented_packet option" where
  "fragmented_packet_create now pid from to data frag_size =
     (case data of
        None \<Rightarrow> None
      | Some d \<Rightarrow>
          if length d > 0 \<and> frag_size > 0 then
            let num = frag_count (length d) frag_size in
            Some \<lparr>fp_creation_timestamp = now,
                  fp_frags = make_frags from to pid num d frag_size (length d) 0 (unat num),
                  fp_packet_id = pid\<rparr>
          else None)"

definition fragmented_packet_empty ::
  "int \<Rightarrow> u16 \<Rightarrow> nodeID \<Rightarrow> nodeID \<Rightarrow> u16 \<Rightarrow> fragmented_packet" where
  "fragmented_packet_empty now pid from to num_frags =
     \<lparr>fp_creation_timestamp = now,
      fp_frags = map (\<lambda>i. fragment_fill from to pid num_frags (of_nat i) None 0) [0..<unat num_frags],
      fp_packet_id = pid\<rparr>"

text \<open>\<open>fragmented_packet_state\<close> runs through the fragments from the last to the first; \<open>lst\<close> (\<open>last\<close> in C) is
  the highest number received (0 while none is known).\<close>

fun state_loop ::
  "fragmented_packet \<Rightarrow> nodeID \<Rightarrow> nodeID \<Rightarrow> nat \<Rightarrow> packet_state \<Rightarrow> nat \<Rightarrow> frag_request list \<Rightarrow>
   packet_state \<times> frag_request list" where
  "state_loop fp from to 0 res lst requests = (res, requests)"
| "state_loop fp from to (Suc k) res lst requests =
     (if f_data (fp_frags fp ! k) = None
      then state_loop fp from to k (if res = PKT_READY then PKT_LOADING else res) lst
             (if lst \<noteq> 0 \<or> k = 0
              then requests @ [frag_request_create from to (fp_packet_id fp) (of_nat k)] else requests)
      else state_loop fp from to k res (if lst = 0 then k else lst) requests)"

definition fragmented_packet_state ::
  "fragmented_packet \<Rightarrow> nodeID \<Rightarrow> nodeID \<Rightarrow> frag_request list \<Rightarrow> packet_state \<times> frag_request list" where
  "fragmented_packet_state fp from to requests =
     state_loop fp from to (fp_frag_num fp) PKT_READY 0 requests"

definition fragmented_packet_write_fragment ::
  "fragmented_packet \<Rightarrow> fragment \<Rightarrow> frag_request list \<Rightarrow>
   packet_state \<times> fragmented_packet \<times> frag_request list" where
  "fragmented_packet_write_fragment fp f requests =
     (if unat (f_id f) < fp_frag_num fp then
        let nf = fragment_fill (f_from f) (f_to f) (f_pid f) (f_frag_num f) (f_id f) (f_data f) (f_data_size f);
            fp' = fp\<lparr>fp_frags := (fp_frags fp)[unat (f_id f) := nf]\<rparr>;
            (res, requests') = fragmented_packet_state fp' (f_from f) (f_to f) requests
        in (res, fp', requests')
      else (PKT_ERROR, fp, requests))"

text \<open>The loop of \<open>fragmented_packet_dump_data\<close>: result code, bytes written at the start of the
  buffer, number of bytes.  A NULL data pointer comes with size 0.\<close>

fun dump_frags :: "fragment list \<Rightarrow> nat \<Rightarrow> bytes \<Rightarrow> nat \<Rightarrow> int \<times> bytes \<times> nat" where
  "dump_frags [] sz out datasize = (0, out, datasize)"
| "dump_frags (f # fs) sz out datasize =
     (if f_data_size f + datasize < sz
      then dump_frags fs sz
             (out @ (case f_data f of Some d \<Rightarrow> take (f_data_size f) d | None \<Rightarrow> []))
             (datasize + f_data_size f)
      else (1, out, datasize))"

definition fragmented_packet_dump_data :: "fragmented_packet \<Rightarrow> nat \<Rightarrow> int \<times> bytes \<times> nat" where
  "fragmented_packet_dump_data fp sz = dump_frags (fp_frags fp) sz [] 0"

definition fragmented_packet_fragment :: "fragmented_packet \<Rightarrow> u16 \<Rightarrow> fragment option" where
  "fragmented_packet_fragment fp fid =
     (if unat fid < fp_frag_num fp then Some (fp_frags fp ! unat fid) else None)"

section \<open>The fragments of a data block\<close>

lemma fragment_fill_simps [simp]:
  "fragment_fill from to pid num fid data sz =
   \<lparr>f_from = from, f_to = to, f_id = fid, f_frag_num = num, f_pid = pid, f_data_size = sz,
    f_data = map_option (take sz) data\<rparr>"
  by (simp add: fragment_init_def)

lemma length_make_frags [simp]: "length (make_frags from to pid num data fs ds i k) = k"
  by (induction k arbitrary: ds i) auto

lemma nth_make_frags:
  "j < k \<Longrightarrow> make_frags from to pid num data fs ds i k ! j =
   \<lparr>f_from = from, f_to = to, f_id = of_nat (i + j), f_frag_num = num, f_pid = pid,
    f_data_size = min fs (ds - j * fs),
    f_data = Some (take (min fs (ds - j * fs)) (drop ((i + j) * fs) data))\<rparr>"
proof (induction k arbitrary: ds i j)
  case (Suc k)
  then show ?case
    by (cases j) (auto simp: algebra_simps)
qed simp

text \<open>Without overflow of the 16 bit counter, the count is the number of fragments needed.\<close>

lemma unat_frag_count:
  assumes "0 < fs" and "ds \<le> 65535 * fs"
  shows "unat (frag_count ds fs) = (ds + fs - 1) div fs"
proof -
  have d: "ds div fs \<le> 65535"
    using assms div_le_mono [OF assms(2), of fs] by simp
  show ?thesis
  proof (cases "ds mod fs = 0")
    case True
    then obtain q where q: "ds = fs * q" by auto
    then have "(ds + fs - 1) div fs = q"
      using assms(1) by (simp add: div_nat_eqI algebra_simps)
    then show ?thesis
      using True d q assms(1) by (simp add: frag_count_def unat_of_nat take_bit_nat_eq_self)
  next
    case False
    have r: "ds = ds div fs * fs + ds mod fs" "ds mod fs < fs" "0 < ds mod fs"
      using assms(1) False by simp_all
    have "ds div fs \<noteq> 65535"
    proof
      assume "ds div fs = 65535"
      then have "ds = 65535 * fs + ds mod fs" using r(1) by simp
      with r(3) assms(2) show False by linarith
    qed
    with d have d': "ds div fs < 65535" by simp
    have "(ds + fs - 1) div fs = Suc (ds div fs)"
    proof (rule div_nat_eqI)
      have e: "fs * (ds div fs) + ds mod fs = ds" by simp
      show "fs * Suc (ds div fs) \<le> ds + fs - 1" unfolding mult_Suc_right using e r(3) by linarith
      show "ds + fs - 1 < fs * Suc (Suc (ds div fs))" unfolding mult_Suc_right using e r(2) by linarith
    qed
    moreover have "unat (of_nat (ds div fs) + 1 :: u16) = Suc (ds div fs)"
    proof -
      have "(of_nat (ds div fs) + 1 :: u16) = of_nat (Suc (ds div fs))" by simp
      then show ?thesis using d' by (simp only: unat_of_nat) (simp add: take_bit_nat_eq_self)
    qed
    ultimately show ?thesis using False by (simp add: frag_count_def)
  qed
qed

definition frag_payload :: "fragment \<Rightarrow> bytes" where
  "frag_payload f = (case f_data f of Some d \<Rightarrow> d | None \<Rightarrow> [])"

lemma frag_payload_simps [simp]:
  "f_data f = Some d \<Longrightarrow> frag_payload f = d"
  "f_data f = None \<Longrightarrow> frag_payload f = []"
  by (simp_all add: frag_payload_def)

lemma concat_make_frags:
  "ds = length data - i * fs \<Longrightarrow> ds \<le> k * fs \<Longrightarrow>
   concat (map frag_payload (make_frags from to pid num data fs ds i k)) = drop (i * fs) data"
proof (induction k arbitrary: ds i)
  case (Suc k)
  have "take (min fs ds) (drop (i * fs) data) = take fs (drop (i * fs) data)"
    using Suc.prems(1) by (simp add: min_def)
  moreover have "concat (map frag_payload (make_frags from to pid num data fs (ds - fs) (Suc i) k))
      = drop (Suc i * fs) data"
    using Suc.prems by (intro Suc.IH) auto
  moreover have "drop (Suc i * fs) data = drop fs (drop (i * fs) data)" by (simp add: add.commute)
  ultimately show ?case by (simp del: drop_drop mult_Suc)
qed simp

section \<open>The requests a packet asks for\<close>

text \<open>A fragment is asked for when it is missing and a later one has arrived, or it is the first.\<close>

definition wanted :: "fragmented_packet \<Rightarrow> nat \<Rightarrow> bool" where
  "wanted fp k \<longleftrightarrow> f_data (fp_frags fp ! k) = None \<and>
     (k = 0 \<or> (\<exists>j \<in> set [Suc k..<fp_frag_num fp]. f_data (fp_frags fp ! j) \<noteq> None))"

lemma state_loop_requests:
  assumes "k \<le> fp_frag_num fp"
    and "lst \<noteq> 0 \<longleftrightarrow> (\<exists>j. k \<le> j \<and> j < fp_frag_num fp \<and> j \<noteq> 0 \<and> f_data (fp_frags fp ! j) \<noteq> None)"
  shows "snd (state_loop fp from to k res lst reqs) =
    reqs @ map (\<lambda>k. frag_request_create from to (fp_packet_id fp) (of_nat k))
      (rev (filter (wanted fp) [0..<k]))"
  using assms
proof (induction k arbitrary: res lst reqs)
  case (Suc k)
  have ex: "(\<exists>j. k \<le> j \<and> j < fp_frag_num fp \<and> j \<noteq> 0 \<and> f_data (fp_frags fp ! j) \<noteq> None) \<longleftrightarrow>
      k \<noteq> 0 \<and> f_data (fp_frags fp ! k) \<noteq> None \<or>
      (\<exists>j. Suc k \<le> j \<and> j < fp_frag_num fp \<and> j \<noteq> 0 \<and> f_data (fp_frags fp ! j) \<noteq> None)"
  proof -
    have *: "k \<le> j \<longleftrightarrow> j = k \<or> Suc k \<le> j" for j by auto
    show ?thesis unfolding * using Suc.prems(1) by (auto simp: Suc_le_eq)
  qed
  have k: "k \<le> fp_frag_num fp" using Suc.prems(1) by simp
  show ?case
  proof (cases "f_data (fp_frags fp ! k) = None")
    case True
    have w: "wanted fp k \<longleftrightarrow> lst \<noteq> 0 \<or> k = 0"
      using True Suc.prems(2) by (fastforce simp: wanted_def)
    have l: "lst \<noteq> 0 \<longleftrightarrow>
        (\<exists>j. k \<le> j \<and> j < fp_frag_num fp \<and> j \<noteq> 0 \<and> f_data (fp_frags fp ! j) \<noteq> None)"
      unfolding ex using True Suc.prems(2) by blast
    have IH: "snd (state_loop fp from to k res' lst reqs') =
        reqs' @ map (\<lambda>k. frag_request_create from to (fp_packet_id fp) (of_nat k))
          (rev (filter (wanted fp) [0..<k]))" for res' reqs'
      by (rule Suc.IH [OF k l])
    show ?thesis using True w IH by (cases "lst \<noteq> 0 \<or> k = 0") simp_all
  next
    case False
    then have w: "\<not> wanted fp k" by (simp add: wanted_def)
    have l: "(if lst = 0 then k else lst) \<noteq> 0 \<longleftrightarrow>
        (\<exists>j. k \<le> j \<and> j < fp_frag_num fp \<and> j \<noteq> 0 \<and> f_data (fp_frags fp ! j) \<noteq> None)"
      unfolding ex using False Suc.prems(2) by auto
    from False obtain d where "f_data (fp_frags fp ! k) = Some d" by auto
    then show ?thesis using w Suc.IH [OF k l, of res reqs] by simp
  qed
qed simp

lemma state_loop_state:
  "fst (state_loop fp from to k res lst reqs) =
   (if res = PKT_READY \<and> (\<exists>j < k. f_data (fp_frags fp ! j) = None) then PKT_LOADING else res)"
proof (induction k arbitrary: res lst reqs)
  case (Suc k)
  then show ?case by (simp add: less_Suc_eq) blast
qed simp

lemma fragmented_packet_state_eq:
  "fragmented_packet_state fp from to reqs =
   (if \<forall>j < fp_frag_num fp. f_data (fp_frags fp ! j) \<noteq> None then PKT_READY else PKT_LOADING,
    reqs @ map (\<lambda>k. frag_request_create from to (fp_packet_id fp) (of_nat k))
      (rev (filter (wanted fp) [0..<fp_frag_num fp])))"
  using state_loop_requests [of "fp_frag_num fp" fp 0 "from" to PKT_READY reqs]
    state_loop_state [of fp "from" to "fp_frag_num fp" PKT_READY 0 reqs]
  by (auto simp: fragmented_packet_state_def prod_eq_iff)

section \<open>Writing fragments in any order\<close>

lemma write_fragment_id [simp]:
  "fp_packet_id (fst (snd (fragmented_packet_write_fragment fp f reqs))) = fp_packet_id fp"
  "fp_creation_timestamp (fst (snd (fragmented_packet_write_fragment fp f reqs))) = fp_creation_timestamp fp"
  "fp_frag_num (fst (snd (fragmented_packet_write_fragment fp f reqs))) = fp_frag_num fp"
  by (simp_all add: fragmented_packet_write_fragment_def Let_def split: prod.splits)

fun write_all :: "fragmented_packet \<Rightarrow> fragment list \<Rightarrow> fragmented_packet" where
  "write_all fp [] = fp"
| "write_all fp (f # fs) = write_all (fst (snd (fragmented_packet_write_fragment fp f []))) fs"

text \<open>\<open>carries fp fs w\<close>: the fragment \<open>w\<close> has the number and the data of one of the fragments \<open>fs\<close>
  (its nodes may differ, as they do after a transmission).\<close>

definition carries :: "fragment list \<Rightarrow> fragment \<Rightarrow> bool" where
  "carries fs w \<longleftrightarrow> unat (f_id w) < length fs \<and>
     f_data w = f_data (fs ! unat (f_id w)) \<and> f_data_size w = f_data_size (fs ! unat (f_id w))"

definition holds :: "fragmented_packet \<Rightarrow> fragment list \<Rightarrow> nat set \<Rightarrow> bool" where
  "holds fp fs I \<longleftrightarrow> fp_frag_num fp = length fs \<and>
     (\<forall>i < length fs. f_data (fp_frags fp ! i) = (if i \<in> I then f_data (fs ! i) else None) \<and>
        f_data_size (fp_frags fp ! i) = (if i \<in> I then f_data_size (fs ! i) else 0))"

lemma holds_empty:
  "length fs = unat n \<Longrightarrow> holds (fragmented_packet_empty now pid from to n) fs {}"
  by (simp add: holds_def fragmented_packet_empty_def)

lemma holds_write:
  assumes "holds fp fs I" and "carries fs w" and "\<forall>f \<in> set fs. fragment_wf f"
  shows "holds (fst (snd (fragmented_packet_write_fragment fp w reqs))) fs (insert (unat (f_id w)) I)"
proof -
  have w: "unat (f_id w) < length fs" "unat (f_id w) < fp_frag_num fp"
    using assms(1,2) by (simp_all add: carries_def holds_def)
  then have "fragment_wf (fs ! unat (f_id w))" using assms(3) by simp
  then have t: "map_option (take (f_data_size w)) (f_data w) = f_data w"
    using assms(2) by (auto simp: carries_def fragment_wf_def split: option.splits)
  have "fst (snd (fragmented_packet_write_fragment fp w reqs)) =
      fp\<lparr>fp_frags := (fp_frags fp)[unat (f_id w) :=
         fragment_fill (f_from w) (f_to w) (f_pid w) (f_frag_num w) (f_id w) (f_data w) (f_data_size w)]\<rparr>"
    using w by (simp add: fragmented_packet_write_fragment_def Let_def split: prod.splits)
  then show ?thesis
    using assms(1,2) w t by (auto simp: holds_def carries_def nth_list_update)
qed

lemma holds_write_all:
  assumes "holds fp fs I" and "\<forall>w \<in> set ws. carries fs w" and "\<forall>f \<in> set fs. fragment_wf f"
  shows "holds (write_all fp ws) fs (I \<union> (\<lambda>w. unat (f_id w)) ` set ws)"
  using assms
proof (induction ws arbitrary: fp I)
  case (Cons w ws)
  have e: "insert (unat (f_id w)) I \<union> (\<lambda>w. unat (f_id w)) ` set ws
      = I \<union> (\<lambda>w. unat (f_id w)) ` set (w # ws)" by auto
  have "holds (fst (snd (fragmented_packet_write_fragment fp w []))) fs (insert (unat (f_id w)) I)"
    using Cons.prems by (intro holds_write) auto
  then have "holds (write_all (fst (snd (fragmented_packet_write_fragment fp w []))) ws) fs
      (insert (unat (f_id w)) I \<union> (\<lambda>w. unat (f_id w)) ` set ws)"
    using Cons.prems by (intro Cons.IH) auto
  then show ?case unfolding e by simp
qed simp

text \<open>Once everything is held, the packet has the data of all fragments, one after the other.\<close>

lemma dump_frags_all:
  assumes "\<forall>f \<in> set fs. fragment_wf f" and "datasize = length out"
    and "sum_list (map f_data_size fs) + datasize < sz"
  shows "dump_frags fs sz out datasize =
    (0, out @ concat (map frag_payload fs), datasize + sum_list (map f_data_size fs))"
  using assms
proof (induction fs arbitrary: out datasize)
  case (Cons f fs)
  then have "fragment_wf f" by simp
  then show ?case
    using Cons.prems Cons.IH [of datasize out]
      Cons.IH [of "datasize + f_data_size f" "out @ frag_payload f"]
    by (cases "f_data f") (auto simp: fragment_wf_def)
qed simp

lemma holds_all_same_data:
  assumes "holds fp fs I" and "{0..<length fs} \<subseteq> I" and "\<forall>f \<in> set fs. fragment_wf f"
  shows "map f_data (fp_frags fp) = map f_data fs \<and> map f_data_size (fp_frags fp) = map f_data_size fs
    \<and> (\<forall>f \<in> set (fp_frags fp). fragment_wf f)"
proof -
  have e: "f_data (fp_frags fp ! i) = f_data (fs ! i)" "f_data_size (fp_frags fp ! i) = f_data_size (fs ! i)"
    if "i < length fs" for i
    using assms(1,2) that by (auto simp: holds_def subset_iff)
  have l: "fp_frag_num fp = length fs" using assms(1) by (simp add: holds_def)
  have "fragment_wf f" if "f \<in> set (fp_frags fp)" for f
  proof -
    from that obtain i where i: "i < length fs" "f = fp_frags fp ! i"
      using l by (auto simp: in_set_conv_nth)
    then have "fragment_wf (fs ! i)" using assms(3) by simp
    then show ?thesis unfolding i(2) fragment_wf_def e [OF i(1)] .
  qed
  then show ?thesis using e l by (auto intro: nth_equalityI)
qed

section \<open>The packet made of a data block\<close>

text \<open>The fragments of one packet, as \<open>fragmented_packet_create\<close> numbers them.\<close>

definition packet_frags :: "u16 \<Rightarrow> fragment list \<Rightarrow> bool" where
  "packet_frags pid fs \<longleftrightarrow> length fs < 2 ^ 16 \<and>
     (\<forall>i < length fs. fragment_wf (fs ! i) \<and> f_data (fs ! i) \<noteq> None \<and> f_data_size (fs ! i) < 2 ^ 32 \<and>
        f_id (fs ! i) = of_nat i \<and> f_pid (fs ! i) = pid \<and> unat (f_frag_num (fs ! i)) = length fs)"

lemma created_frag_num:
  assumes "fragmented_packet_create now pid s t data fs = Some fp"
  shows "fp_frag_num fp < 2 ^ 16"
proof -
  have "unat w < 2 ^ 16" for w :: u16 using unsigned_less [of w] by simp
  then show ?thesis
    using assms by (auto simp: fragmented_packet_create_def Let_def split: option.splits if_splits)
qed

lemma created_packet_frags:
  assumes fp: "fragmented_packet_create now pid from to (Some d) fs = Some fp"
    and sz: "length d \<le> 65535 * fs" and fs: "fs < 2 ^ 32"
  shows "packet_frags pid (fp_frags fp) \<and> concat (map frag_payload (fp_frags fp)) = d \<and>
    sum_list (map f_data_size (fp_frags fp)) = length d \<and> fp_frags fp \<noteq> []"
proof -
  have d: "0 < length d" "0 < fs" using fp by (auto simp: fragmented_packet_create_def split: if_splits)
  define k where "k = unat (frag_count (length d) fs)"
  have k: "k = (length d + fs - 1) div fs" unfolding k_def by (rule unat_frag_count [OF d(2) sz])
  have e: "fp_frags fp = make_frags from to pid (frag_count (length d) fs) d fs (length d) 0 k"
    using fp d by (simp add: fragmented_packet_create_def Let_def k_def) (auto simp: fragmented_packet.ext_inject)
  have k16: "k < 2 ^ 16" using created_frag_num [OF fp] by (simp add: e)
  have kfs: "length d \<le> k * fs"
  proof -
    have "(length d + fs - 1) div fs * fs + (length d + fs - 1) mod fs = length d + fs - 1" by simp
    moreover have "(length d + fs - 1) mod fs < fs" using d(2) by simp
    ultimately show ?thesis unfolding k using d by linarith
  qed
  have pf: "packet_frags pid (fp_frags fp)"
    unfolding packet_frags_def e using k16 fs
    by (auto simp: nth_make_frags fragment_wf_def k_def)
  have pay: "concat (map frag_payload (fp_frags fp)) = d"
    unfolding e using concat_make_frags [of "length d" d 0 fs k] kfs by simp
  have "fragment_wf f \<Longrightarrow> f_data_size f = length (frag_payload f)" for f
    by (simp add: fragment_wf_def frag_payload_def split: option.splits)
  then have m: "map f_data_size (fp_frags fp) = map (\<lambda>f. length (frag_payload f)) (fp_frags fp)"
    using pf by (auto simp: packet_frags_def in_set_conv_nth)
  have "sum_list (map f_data_size (fp_frags fp)) = length (concat (map frag_payload (fp_frags fp)))"
    unfolding m by (simp add: length_concat o_def)
  moreover have "fp_frags fp \<noteq> []" using pay d(1) by auto
  ultimately show ?thesis using pf pay by simp
qed

text \<open>\<open>fragmented_packet_dump_data\<close> copies the payloads of a prefix of the fragments: all those that end strictly
  before the end of the buffer.\<close>

lemma dump_frags_prefix:
  assumes "\<forall>f \<in> set fs. fragment_wf f" and "dump_frags fs sz out (length out) = (r, out', n)"
  shows "n = length out' \<and> (\<exists>rest. out @ concat (map frag_payload fs) = out' @ rest) \<and>
    (n < sz \<or> out' = out) \<and>
    (r = 0 \<longleftrightarrow> fs = [] \<or> length out + sum_list (map f_data_size fs) < sz) \<and> (r = 0 \<longrightarrow> out' = out @ concat (map frag_payload fs))"
  using assms
proof (induction fs arbitrary: out)
  case (Cons f fs)
  have f: "f_data_size f = length (frag_payload f)" "(case f_data f of Some d \<Rightarrow> take (f_data_size f) d | None \<Rightarrow> []) = frag_payload f"
    using Cons.prems(1) by (cases "f_data f"; simp add: fragment_wf_def)+
  show ?case
  proof (cases "f_data_size f + length out < sz")
    case True
    have d: "dump_frags fs sz (out @ frag_payload f) (length (out @ frag_payload f)) = (r, out', n)"
      using Cons.prems(2) True f by (simp add: add.commute)
    show ?thesis using Cons.IH [OF _ d] Cons.prems(1) True f by (cases fs) auto
  next
    case False
    then show ?thesis using Cons.prems f by auto
  qed
qed simp

section \<open>Properties\<close>

text \<open>Fragmentation loses nothing: a data block of at most 65535 fragments is cut into
  $\lceil n / s \rceil$ fragments of at most $s$ bytes, numbered from 0, all but the last of exactly $s$ bytes, whose
  concatenation is the block.\<close>

lemma fragmentation_complete:
  assumes "d \<noteq> []" and "0 < fs" and "length d \<le> 65535 * fs" and "fs < 2 ^ 32"
  shows "\<exists>fp. fragmented_packet_create now pid from to (Some d) fs = Some fp \<and>
    fp_packet_id fp = pid \<and> fp_creation_timestamp fp = now \<and>
    fp_frag_num fp = (length d + fs - 1) div fs \<and> concat (map frag_payload (fp_frags fp)) = d \<and>
    (\<forall>i < fp_frag_num fp. f_id (fp_frags fp ! i) = of_nat i \<and> f_pid (fp_frags fp ! i) = pid \<and>
       unat (f_frag_num (fp_frags fp ! i)) = fp_frag_num fp \<and> f_from (fp_frags fp ! i) = from \<and> f_to (fp_frags fp ! i) = to \<and>
       f_data_size (fp_frags fp ! i) = min fs (length d - i * fs))"
proof -
  define num where "num = frag_count (length d) fs"
  define fp where "fp = \<lparr>fp_creation_timestamp = now, fp_frags = make_frags from to pid num d fs (length d) 0 (unat num), fp_packet_id = pid\<rparr>"
  have c: "fragmented_packet_create now pid from to (Some d) fs = Some fp"
    using assms(1,2) by (simp add: fragmented_packet_create_def fp_def num_def Let_def)
  have n: "fp_frag_num fp = unat num" by (simp add: fp_def)
  have "unat num = (length d + fs - 1) div fs" unfolding num_def by (rule unat_frag_count [OF assms(2,3)])
  moreover have "concat (map frag_payload (fp_frags fp)) = d" using created_packet_frags [OF c assms(3,4)] by simp
  ultimately show ?thesis unfolding c using n by (auto simp: fp_def nth_make_frags)
qed

text \<open>The number of fragments is computed in 16 bits: a block of exactly 65536 fragments becomes a packet
  with no fragment at all, so its data is lost although the packet is created.\<close>

lemma fragmentation_wraps:
  assumes "0 < fs" and "length d = 65536 * fs"
  shows "\<exists>fp. fragmented_packet_create now pid from to (Some d) fs = Some fp \<and> fp_frags fp = []"
proof -
  have "frag_count (length d) fs = 0" using assms by (simp add: frag_count_def Let_def)
  then show ?thesis using assms by (simp add: fragmented_packet_create_def Let_def)
qed

text \<open>C17: Reassembly in any order, with duplicates: after writing any fragments of a created packet (as they arrive,
  their nodes rewritten) into an empty packet, the state is \<open>PKT_READY\<close> exactly if every fragment number has been
  written, and then \<open>fragmented_packet_dump_data\<close> with a larger buffer gives the data block.\<close>

theorem reassembly_any_order:
  fixes now' :: int and src dst :: nodeID
  assumes "fragmented_packet_create now pid from to (Some d) fs = Some fp" and "length d \<le> 65535 * fs"
    and "fs < 2 ^ 32" and "\<forall>w \<in> set ws. carries (fp_frags fp) w" and "length d < sz"
  defines "p \<equiv> write_all (fragmented_packet_empty now' pid src dst (of_nat (fp_frag_num fp))) ws"
  shows "fst (fragmented_packet_state p src dst []) =
      (if \<forall>i < fp_frag_num fp. \<exists>w \<in> set ws. unat (f_id w) = i then PKT_READY else PKT_LOADING) \<and>
    ((\<forall>i < fp_frag_num fp. \<exists>w \<in> set ws. unat (f_id w) = i) \<longrightarrow>
       fragmented_packet_dump_data p sz = (0, d, length d))"
proof -
  let ?fs = "fp_frags fp" and ?I = "(\<lambda>w. unat (f_id w)) ` set ws"
  have pf: "packet_frags pid ?fs" and pay: "concat (map frag_payload ?fs) = d"
    and sum: "sum_list (map f_data_size ?fs) = length d"
    using created_packet_frags [OF assms(1-3)] by simp_all
  have wf: "\<forall>f \<in> set ?fs. fragment_wf f" and some: "\<forall>i < length ?fs. f_data (?fs ! i) \<noteq> None"
    using pf by (auto simp: packet_frags_def in_set_conv_nth)
  have "length ?fs = unat (of_nat (length ?fs) :: u16)"
    using pf by (simp add: packet_frags_def unat_of_nat take_bit_nat_eq_self)
  then have h: "holds p ?fs ?I"
    unfolding p_def using holds_write_all [OF holds_empty assms(4) wf] by simp
  then have num: "fp_frag_num p = length ?fs" by (simp add: holds_def)
  have "(\<forall>j < fp_frag_num p. f_data (fp_frags p ! j) \<noteq> None) \<longleftrightarrow> (\<forall>i < length ?fs. i \<in> ?I)"
    using h some num by (auto simp: holds_def)
  also have "\<dots> \<longleftrightarrow> (\<forall>i < length ?fs. \<exists>w \<in> set ws. unat (f_id w) = i)" by (metis (mono_tags, lifting) image_iff)
  finally have st: "fst (fragmented_packet_state p src dst []) =
      (if \<forall>i < length ?fs. \<exists>w \<in> set ws. unat (f_id w) = i then PKT_READY else PKT_LOADING)"
    by (simp add: fragmented_packet_state_eq)
  have "fragmented_packet_dump_data p sz = (0, d, length d)"
    if all: "\<forall>i < length ?fs. \<exists>w \<in> set ws. unat (f_id w) = i"
  proof -
    have sub: "{0..<length ?fs} \<subseteq> ?I" using all by (auto simp: image_iff)
    have same: "map f_data (fp_frags p) = map f_data ?fs" "map f_data_size (fp_frags p) = map f_data_size ?fs"
      "\<forall>f \<in> set (fp_frags p). fragment_wf f" using holds_all_same_data [OF h sub wf] by simp_all
    have "map frag_payload (fp_frags p) = map (\<lambda>x. case x of Some d \<Rightarrow> d | None \<Rightarrow> []) (map f_data (fp_frags p))"
      by (simp add: frag_payload_def)
    also have "\<dots> = map frag_payload ?fs" unfolding same(1) by (simp add: frag_payload_def)
    finally show ?thesis
      using dump_frags_all [OF same(3), of 0 "[]" sz] same(2) sum pay assms(5)
      by (simp add: fragmented_packet_dump_data_def)
  qed
  with st show ?thesis by simp
qed

theorem reassembly_any_order_witness:
  fixes w :: "nat \<Rightarrow> fragment"
  defines "w \<equiv> \<lambda>i. [\<lparr>f_from = empty_node, f_to = empty_node, f_id = 0, f_frag_num = 2, f_pid = 7, f_data_size = 2, f_data = Some [1, 2]\<rparr>,
     \<lparr>f_from = empty_node, f_to = empty_node, f_id = 1, f_frag_num = 2, f_pid = 7, f_data_size = 1, f_data = Some [3]\<rparr>] ! i"
  shows "fragmented_packet_dump_data
    (write_all (fragmented_packet_empty 200 7 empty_node empty_node 2) [w 1, w 0, w 1]) 4 = (0, [1, 2, 3], 3)"
proof -
  define fp where "fp = \<lparr>fp_creation_timestamp = 100, fp_frags = [w 0, w 1], fp_packet_id = 7\<rparr>"
  have n: "frag_count (Suc (Suc (Suc 0))) 2 = 2" by (simp add: frag_count_def numeral_3_eq_3 [symmetric])
  have m: "make_frags a b p k dt s ds i 2 = make_frags a b p k dt s ds i (Suc (Suc 0))" for a b p k dt s ds i
    by (simp only: numeral_2_eq_2)
  have c: "fragmented_packet_create 100 7 empty_node empty_node (Some [1, 2, 3]) 2 = Some fp"
    by (simp add: fragmented_packet_create_def Let_def fp_def w_def n m)
  have cs: "\<forall>x \<in> set [w 1, w 0, w 1]. carries (fp_frags fp) x"
    by (simp add: carries_def fp_def w_def)
  have all: "\<forall>i < fp_frag_num fp. \<exists>x \<in> set [w 1, w 0, w 1]. unat (f_id x) = i"
    by (auto simp: fp_def w_def less_Suc_eq)
  show ?thesis
    using reassembly_any_order [OF c _ _ cs, of 4 200 empty_node empty_node] all by (simp add: fp_def)
qed

text \<open>The requests made when a fragment arrives: exactly the missing fragments that have a later one already received,
  and fragment 0 if it is missing, each once and from the highest number down.\<close>

lemma requests_for_missing:
  "snd (fragmented_packet_state fp from to reqs) = reqs @
    map (\<lambda>k. frag_request_create from to (fp_packet_id fp) (of_nat k))
      (rev (filter (\<lambda>k. f_data (fp_frags fp ! k) = None \<and>
          (k = 0 \<or> (\<exists>j \<in> set [Suc k..<fp_frag_num fp]. f_data (fp_frags fp ! j) \<noteq> None))) [0..<fp_frag_num fp]))"
  by (simp add: fragmented_packet_state_eq wanted_def [abs_def])

text \<open>\<open>fragmented_packet_dump_data\<close> never writes beyond the buffer: what it writes is a prefix of the data, shorter than the
  buffer, and its length is the size reported.  It succeeds exactly if the data is strictly shorter than the buffer, so
  a packet that fills the buffer exactly is refused.\<close>

lemma dump_data_bounds:
  assumes "\<forall>f \<in> set (fp_frags fp). fragment_wf f" and "fp_frags fp \<noteq> []"
    and "fragmented_packet_dump_data fp sz = (r, out, n)"
  shows "n = length out \<and> n \<le> sz \<and> (\<exists>rest. concat (map frag_payload (fp_frags fp)) = out @ rest) \<and>
    (r = 0 \<longleftrightarrow> sum_list (map f_data_size (fp_frags fp)) < sz) \<and>
    (r = 0 \<longrightarrow> out = concat (map frag_payload (fp_frags fp)))"
  using dump_frags_prefix [OF assms(1), of sz "[]" r out n] assms(2,3)
  by (auto simp: fragmented_packet_dump_data_def)

end
