(* ===== verification/Packet_Bucket.thy ===== *)
theory Packet_Bucket
  imports Fragmented_Packet
begin

text \<open>
  \<open>Lib/net_helper/nhx/packet_bucket.c\<close>: the packets of one direction of one endpoint, in a set
  ordered by packet number and in a list ordered by age.

  The C objects are packets linked into both.  Here the set holds the packets and the list
  \<open>pb_list\<close> their numbers; following a pointer of the list is looking the number up in the
  content of the set, and a number with no packet is a dangling pointer.  The fragments of a packet
  are also linked into the send queue of the whole manager, which is a list of references:
  \<open>Frag_ref b pid i\<close> is fragment \<open>i\<close> of packet \<open>pid\<close> in bucket \<open>b\<close>.  Every operation takes
  the queue and returns it, because destroying a packet unlinks its fragments.

  The lemmas show that the list and the set stay in step, that refreshing removes exactly the
  packets before the first one young enough, and what each operation does to the map
  from packet numbers to packets.
\<close>

section \<open>References to messages\<close>

type_synonym node_name = "string \<times> int"

datatype bucket_id = Incoming node_name | Outgoing node_name

datatype msg_ref =
    is_frag: Frag_ref bucket_id u16 u16
  | Req_ref frag_request

type_synonym send_queue = "msg_ref list"

definition net_msg_deinit :: "msg_ref \<Rightarrow> send_queue \<Rightarrow> send_queue" where
  "net_msg_deinit r q = remove1 r q"

definition fragment_refs :: "bucket_id \<Rightarrow> u16 \<Rightarrow> nat \<Rightarrow> msg_ref list" where
  "fragment_refs b pid num = map (\<lambda>i. Frag_ref b pid (of_nat i)) [0..<num]"

definition fragmented_packet_destroy :: "bucket_id \<Rightarrow> fragmented_packet \<Rightarrow> send_queue \<Rightarrow> send_queue" where
  "fragmented_packet_destroy b fp q =
     fold net_msg_deinit (fragment_refs b (fp_packet_id fp) (fp_frag_num fp)) q"

section \<open>The operations\<close>

record packet_bucket =
  pb_list :: "u16 list"
  pb_set :: "fragmented_packet ord_set"
  pb_frag_size :: nat
  pb_max_pkt_age :: u16

definition packet_cmp :: "fragmented_packet \<Rightarrow> fragmented_packet \<Rightarrow> int" where
  "packet_cmp p1 p2 =
     (let i1 = fragmented_packet_id (Some p1); i2 = fragmented_packet_id (Some p2)
      in if i1 = i2 then 0 else if i1 > i2 then 1 else -1)"

text \<open>The packet a pointer of the list leads to.\<close>

definition pb_deref :: "packet_bucket \<Rightarrow> u16 \<Rightarrow> fragmented_packet option" where
  "pb_deref pb = os_content fp_packet_id (pb_set pb)"

definition packet_bucket_create :: "nat \<Rightarrow> u16 \<Rightarrow> packet_bucket" where
  "packet_bucket_create frag_size max_pkt_age =
     \<lparr>pb_list = [], pb_set = the (ord_set_new 10 (Some packet_cmp)),
      pb_frag_size = frag_size, pb_max_pkt_age = max_pkt_age\<rparr>"

definition packet_bucket_destroy_packet ::
  "bucket_id \<Rightarrow> packet_bucket \<Rightarrow> fragmented_packet \<Rightarrow> send_queue \<Rightarrow> packet_bucket \<times> send_queue" where
  "packet_bucket_destroy_packet b pb fp q =
     (pb\<lparr>pb_list := remove1 (fp_packet_id fp) (pb_list pb),
         pb_set := fst (os_remove packet_cmp (pb_set pb) fp)\<rparr>,
      fragmented_packet_destroy b fp q)"

text \<open>The loop of \<open>packet_bucket_periodic_refresh\<close>; the list is what remains from \<open>pos\<close> on.\<close>

fun refresh_loop ::
  "int \<Rightarrow> bucket_id \<Rightarrow> u16 list \<Rightarrow> packet_bucket \<Rightarrow> send_queue \<Rightarrow> (packet_bucket \<times> send_queue) c_result" where
  "refresh_loop now b [] pb q = Inr (pb, q)"
| "refresh_loop now b (pid # rest) pb q =
     (case pb_deref pb pid of
        None \<Rightarrow> Inl Use_After_Free
      | Some fp \<Rightarrow>
          if now - fragmented_packet_creation_timestamp (Some fp) \<ge> int (unat (pb_max_pkt_age pb))
          then (case packet_bucket_destroy_packet b pb fp q of (pb', q') \<Rightarrow> refresh_loop now b rest pb' q')
          else Inr (pb, q))"

definition packet_bucket_periodic_refresh ::
  "int \<Rightarrow> bucket_id \<Rightarrow> packet_bucket \<Rightarrow> send_queue \<Rightarrow> (packet_bucket \<times> send_queue) c_result" where
  "packet_bucket_periodic_refresh now b pb q = refresh_loop now b (pb_list pb) pb q"

text \<open>
  \<open>packet_bucket_add_packet\<close> returns the list of the new fragments.  With fragment size 0 there
  is no packet: \<open>ord_set_insert\<close> of NULL returns NULL, which the test takes for success, and
  the list field of NULL is linked.  If the number is taken, the list head is
  freed before the fragments linked to it are unlinked, and the freed head is returned.  The
  pointer comparison \<open>fp == insert_res\<close> holds exactly if no packet of that number was there.
\<close>

definition packet_bucket_add_packet ::
  "int \<Rightarrow> bucket_id \<Rightarrow> packet_bucket \<Rightarrow> nodeID option \<Rightarrow> nodeID option \<Rightarrow> u16 \<Rightarrow> bytes option \<Rightarrow>
   send_queue \<Rightarrow> (packet_bucket \<times> send_queue \<times> msg_ref list option) c_result" where
  "packet_bucket_add_packet now b pb src dst pid data q =
     (case (src, dst, data) of
        (Some s, Some t, Some d) \<Rightarrow>
          if length d > 0 then
            c_bind (packet_bucket_periodic_refresh now b pb q) (\<lambda>(pb', q').
              case fragmented_packet_create now pid s t data (pb_frag_size pb') of
                None \<Rightarrow> Inl Null_Deref
              | Some fp \<Rightarrow>
                  if os_find packet_cmp (pb_set pb') fp = None
                  then Inr (pb'\<lparr>pb_set := fst (os_insert packet_cmp (pb_set pb') fp False),
                                pb_list := pb_list pb' @ [fp_packet_id fp]\<rparr>,
                            q', Some (fragment_refs b pid (fp_frag_num fp)))
                  else Inl Use_After_Free)
          else Inr (pb, q, None)
      | _ \<Rightarrow> Inr (pb, q, None))"

text \<open>The packet a lookup by number uses as its key: only the number counts.\<close>

definition dummy_packet :: "u16 \<Rightarrow> fragmented_packet" where
  "dummy_packet pid = \<lparr>fp_creation_timestamp = 0, fp_frags = [], fp_packet_id = pid\<rparr>"

definition packet_bucket_add_fragment ::
  "int \<Rightarrow> bucket_id \<Rightarrow> packet_bucket \<Rightarrow> fragment \<Rightarrow> send_queue \<Rightarrow> frag_request list \<Rightarrow>
   (packet_state \<times> packet_bucket \<times> send_queue \<times> frag_request list) c_result" where
  "packet_bucket_add_fragment now b pb f q requests =
     c_bind (packet_bucket_periodic_refresh now b pb q) (\<lambda>(pb', q').
       let (fp, pb'') =
             (case os_find packet_cmp (pb_set pb') (dummy_packet (f_pid f)) of
                Some p \<Rightarrow> (p, pb')
              | None \<Rightarrow>
                  let p = fragmented_packet_empty now (f_pid f) (f_from f) (f_to f) (f_frag_num f)
                  in (p, pb'\<lparr>pb_set := fst (os_insert packet_cmp (pb_set pb') p False),
                             pb_list := pb_list pb' @ [fp_packet_id p]\<rparr>));
           (res, fp', requests') = fragmented_packet_write_fragment fp f requests;
           q'' = (if unat (f_id f) < fp_frag_num fp
                  then net_msg_deinit (Frag_ref b (fp_packet_id fp) (f_id f)) q' else q')
       in Inr (res, pb''\<lparr>pb_set := os_update packet_cmp (pb_set pb'') fp'\<rparr>, q'', requests'))"

text \<open>Result code, bytes written to the buffer, and the new value of \<open>*size\<close>.\<close>

definition packet_bucket_pop_packet ::
  "int \<Rightarrow> bucket_id \<Rightarrow> packet_bucket \<Rightarrow> u16 \<Rightarrow> nat \<Rightarrow> send_queue \<Rightarrow>
   (int \<times> bytes \<times> nat \<times> packet_bucket \<times> send_queue) c_result" where
  "packet_bucket_pop_packet now b pb pid sz q =
     c_bind (packet_bucket_periodic_refresh now b pb q) (\<lambda>(pb', q').
       case os_find packet_cmp (pb_set pb') (dummy_packet pid) of
         Some fp \<Rightarrow>
           (case fragmented_packet_dump_data fp sz of (res, out, sz') \<Rightarrow>
             case packet_bucket_destroy_packet b pb' fp q' of (pb'', q'') \<Rightarrow>
               Inr (res, out, sz', pb'', q''))
       | None \<Rightarrow> Inr (-2, [], sz, pb', q'))"

definition packet_bucket_get_fragment ::
  "int \<Rightarrow> bucket_id \<Rightarrow> packet_bucket \<Rightarrow> u16 \<Rightarrow> u16 \<Rightarrow> send_queue \<Rightarrow>
   (msg_ref option \<times> packet_bucket \<times> send_queue) c_result" where
  "packet_bucket_get_fragment now b pb pid fid q =
     c_bind (packet_bucket_periodic_refresh now b pb q) (\<lambda>(pb', q').
       case os_find packet_cmp (pb_set pb') (dummy_packet pid) of
         Some fp \<Rightarrow>
           Inr (map_option (\<lambda>_. Frag_ref b (fp_packet_id fp) fid) (fragmented_packet_fragment fp fid),
                pb', q')
       | None \<Rightarrow> Inr (None, pb', q'))"

text \<open>
  \<open>packet_bucket_destroy\<close>: the loop variable of \<open>ord_set_for_each_safe\<close> is NULL after the packet
  it pointed to is destroyed, so each round starts again from the last element.
\<close>

partial_function (option) destroy_loop ::
  "bucket_id \<Rightarrow> fragmented_packet ord_set \<Rightarrow> send_queue \<Rightarrow> send_queue option" where
  "destroy_loop b os q =
     (case fst (ord_set_iter_safe packet_cmp os None None) of
        None \<Rightarrow> Some q
      | Some fp \<Rightarrow> destroy_loop b (fst (os_remove packet_cmp os fp)) (fragmented_packet_destroy b fp q))"

definition packet_bucket_destroy :: "bucket_id \<Rightarrow> packet_bucket \<Rightarrow> send_queue \<Rightarrow> send_queue option" where
  "packet_bucket_destroy b pb q = destroy_loop b (pb_set pb) q"

section \<open>The set of packets\<close>

interpretation packet_order: cmp_key packet_cmp fp_packet_id
  by unfold_locales (auto simp: packet_cmp_def fragmented_packet_id_def Let_def split: if_splits)

definition pb_wf :: "packet_bucket \<Rightarrow> bool" where
  "pb_wf pb \<longleftrightarrow> packet_order.os_wf (pb_set pb) \<and> distinct (pb_list pb) \<and>
     set (pb_list pb) = fp_packet_id ` set (os_elements (pb_set pb))"

lemma pb_wf_create [simp]: "pb_wf (packet_bucket_create fs age)"
  and pb_list_create [simp]: "pb_list (packet_bucket_create fs age) = []"
  and pb_deref_create [simp]: "pb_deref (packet_bucket_create fs age) = Map.empty"
  and pb_sizes_create [simp]: "pb_frag_size (packet_bucket_create fs age) = fs"
    "pb_max_pkt_age (packet_bucket_create fs age) = age"
  by (auto simp: packet_bucket_create_def ord_set_new_def pb_wf_def pb_deref_def os_content_def
      packet_order.os_wf_def packet_order.sorted_set_def)

lemma pb_deref_list: "pb_wf pb \<Longrightarrow> set (pb_list pb) = dom (pb_deref pb)"
  by (force simp: pb_wf_def pb_deref_def dom_def packet_order.os_content_Some)

lemma pb_deref_id: "pb_wf pb \<Longrightarrow> pb_deref pb pid = Some fp \<Longrightarrow> fp_packet_id fp = pid"
  by (simp add: pb_wf_def pb_deref_def packet_order.os_content_Some)

lemma os_find_dummy:
  "pb_wf pb \<Longrightarrow> os_find packet_cmp (pb_set pb) (dummy_packet pid) = pb_deref pb pid"
  by (simp add: pb_wf_def pb_deref_def packet_order.store.lookup_content dummy_packet_def)

lemma os_find_packet:
  "pb_wf pb \<Longrightarrow> os_find packet_cmp (pb_set pb) fp = pb_deref pb (fp_packet_id fp)"
  by (simp add: pb_wf_def pb_deref_def packet_order.store.lookup_content)

text \<open>A bucket is well formed when its list enumerates its map, and updates keep it so.\<close>

lemma pb_wfI:
  assumes "packet_order.os_wf (pb_set pb)" and "distinct (pb_list pb)"
    and "set (pb_list pb) = dom (pb_deref pb)"
  shows "pb_wf pb"
  using assms by (force simp: pb_wf_def pb_deref_def dom_def packet_order.os_content_Some)

lemma destroy_packet_wf:
  fixes b :: bucket_id and q :: send_queue
  assumes "pb_wf pb" and "pb_deref pb pid = Some fp"
  defines "pb' \<equiv> fst (packet_bucket_destroy_packet b pb fp q)"
  shows "pb_wf pb' \<and> pb_deref pb' = (pb_deref pb)(pid := None) \<and> pb_list pb' = remove1 pid (pb_list pb)
    \<and> pb_frag_size pb' = pb_frag_size pb \<and> pb_max_pkt_age pb' = pb_max_pkt_age pb"
proof -
  have id: "fp_packet_id fp = pid" using assms pb_deref_id by simp
  have wf: "packet_order.os_wf (pb_set pb)" using assms(1) by (simp add: pb_wf_def)
  have c: "pb_deref pb' = (pb_deref pb)(pid := None)"
    using packet_order.store.content_remove [OF wf, of fp] id
    by (simp add: pb'_def packet_bucket_destroy_packet_def pb_deref_def)
  have l: "pb_list pb' = remove1 pid (pb_list pb)"
    by (simp add: pb'_def packet_bucket_destroy_packet_def id)
  have "pb_wf pb'"
  proof (rule pb_wfI)
    show "packet_order.os_wf (pb_set pb')"
      using packet_order.store.wf_remove [OF wf] by (simp add: pb'_def packet_bucket_destroy_packet_def)
    show "distinct (pb_list pb')" "set (pb_list pb') = dom (pb_deref pb')"
      using assms(1) pb_deref_list [OF assms(1)] unfolding l c by (auto simp: pb_wf_def)
  qed
  then show ?thesis using c l by (simp add: pb'_def packet_bucket_destroy_packet_def)
qed

lemma insert_packet_wf:
  assumes "pb_wf pb" and "pb_deref pb (fp_packet_id fp) = None"
  defines "pb' \<equiv> pb\<lparr>pb_set := fst (os_insert packet_cmp (pb_set pb) fp False),
                    pb_list := pb_list pb @ [fp_packet_id fp]\<rparr>"
  shows "pb_wf pb' \<and> pb_deref pb' = (pb_deref pb)(fp_packet_id fp \<mapsto> fp)"
proof -
  have wf: "packet_order.os_wf (pb_set pb)" using assms(1) by (simp add: pb_wf_def)
  have c: "pb_deref pb' = (pb_deref pb)(fp_packet_id fp \<mapsto> fp)"
    using packet_order.store.content_insert [OF wf, of fp] assms(2) by (simp add: pb'_def pb_deref_def)
  have "pb_wf pb'"
  proof (rule pb_wfI)
    show "packet_order.os_wf (pb_set pb')"
      using packet_order.store.wf_insert [OF wf] by (simp add: pb'_def)
    have "fp_packet_id fp \<notin> set (pb_list pb)" using pb_deref_list [OF assms(1)] assms(2) by auto
    then show "distinct (pb_list pb')" using assms(1) by (simp add: pb'_def pb_wf_def)
    show "set (pb_list pb') = dom (pb_deref pb')"
      using pb_deref_list [OF assms(1)] unfolding c by (simp add: pb'_def)
  qed
  with c show ?thesis by simp
qed

lemma update_packet_wf:
  assumes "pb_wf pb" and "pb_deref pb (fp_packet_id fp) = Some p"
  defines "pb' \<equiv> pb\<lparr>pb_set := os_update packet_cmp (pb_set pb) fp\<rparr>"
  shows "pb_wf pb' \<and> pb_deref pb' = (pb_deref pb)(fp_packet_id fp \<mapsto> fp)"
proof -
  have wf: "packet_order.os_wf (pb_set pb)" using assms(1) by (simp add: pb_wf_def)
  have c: "pb_deref pb' = (pb_deref pb)(fp_packet_id fp \<mapsto> fp)"
    using packet_order.store.content_overwrite [OF wf, of fp p] assms(2)
    by (simp add: pb'_def pb_deref_def)
  have "pb_wf pb'"
  proof (rule pb_wfI)
    show "packet_order.os_wf (pb_set pb')"
      using packet_order.store.wf_overwrite [OF wf] by (simp add: pb'_def)
    show "distinct (pb_list pb')" "set (pb_list pb') = dom (pb_deref pb')"
      using assms(1,2) pb_deref_list [OF assms(1)] unfolding c by (auto simp: pb'_def pb_wf_def)
  qed
  with c show ?thesis by simp
qed

section \<open>The send queue\<close>

text \<open>The references of a queue into one bucket are sound if they name fragments the bucket has.\<close>

definition refs_ok :: "bucket_id \<Rightarrow> packet_bucket \<Rightarrow> send_queue \<Rightarrow> bool" where
  "refs_ok b pb q \<longleftrightarrow> (\<forall>pid fid. Frag_ref b pid fid \<in> set q \<longrightarrow>
     (\<exists>fp. pb_deref pb pid = Some fp \<and> unat fid < fp_frag_num fp))"

definition keep_ref :: "bucket_id \<Rightarrow> (u16 \<Rightarrow> bool) \<Rightarrow> msg_ref \<Rightarrow> bool" where
  "keep_ref b P r = (case r of Frag_ref b' pid fid \<Rightarrow> b' = b \<longrightarrow> P pid | Req_ref _ \<Rightarrow> True)"

lemma keep_ref_simps [simp]:
  "keep_ref b P (Frag_ref b' pid fid) \<longleftrightarrow> (b' = b \<longrightarrow> P pid)"
  "keep_ref b P (Req_ref fr)"
  by (simp_all add: keep_ref_def)

text \<open>A fragment is linked at most once.  Requests are separate objects, which may be alike.\<close>

definition frags_distinct :: "send_queue \<Rightarrow> bool" where
  "frags_distinct q \<longleftrightarrow> distinct (filter is_frag q)"

lemma frags_distinct_filter [simp]: "frags_distinct q \<Longrightarrow> frags_distinct (filter P q)"
  by (induction q) (auto simp: frags_distinct_def)

lemma net_msg_deinit_eq:
  "is_frag r \<Longrightarrow> frags_distinct q \<Longrightarrow> net_msg_deinit r q = filter (\<lambda>x. x \<noteq> r) q"
proof (induction q)
  case (Cons a q)
  have "r = a \<Longrightarrow> filter (\<lambda>x. x \<noteq> r) q = q"
    using Cons.prems by (auto simp: frags_distinct_def filter_id_conv)
  moreover have "frags_distinct q" using Cons.prems by (simp add: frags_distinct_def split: if_splits)
  ultimately show ?case using Cons by (auto simp: net_msg_deinit_def)
qed (simp add: net_msg_deinit_def)

lemma fold_deinit:
  "frags_distinct q \<Longrightarrow> \<forall>r \<in> set rs. is_frag r \<Longrightarrow>
   fold net_msg_deinit rs q = filter (\<lambda>r. r \<notin> set rs) q"
proof (induction rs arbitrary: q)
  case (Cons r rs)
  then show ?case by (simp add: net_msg_deinit_eq)
qed simp

lemma in_fragment_refs:
  "r \<in> set (fragment_refs b pid num) \<longleftrightarrow> (\<exists>i < num. r = Frag_ref b pid (of_nat i))"
  by (auto simp: fragment_refs_def)

lemma fragment_refs_frag: "\<forall>r \<in> set (fragment_refs b pid num). is_frag r"
  by (auto simp: fragment_refs_def)

lemma fragmented_packet_destroy_eq:
  assumes "frags_distinct q" and "refs_ok b pb q" and "pb_deref pb pid = Some fp" and "pb_wf pb"
  shows "fragmented_packet_destroy b fp q = filter (keep_ref b (\<lambda>p. p \<noteq> pid)) q"
proof -
  have id: "fp_packet_id fp = pid" using assms pb_deref_id by simp
  have "r \<notin> set (fragment_refs b pid (fp_frag_num fp)) \<longleftrightarrow> keep_ref b (\<lambda>p. p \<noteq> pid) r"
    if r: "r \<in> set q" for r
  proof (cases r)
    case (Frag_ref b' p fid)
    have "b' = b \<and> p = pid \<Longrightarrow> unat fid < fp_frag_num fp"
      using r assms(2,3) Frag_ref by (force simp: refs_ok_def)
    then show ?thesis using Frag_ref by (auto simp: in_fragment_refs intro: exI [of _ "unat fid"])
  qed (auto simp: in_fragment_refs)
  then show ?thesis
    using assms(1) by (simp add: fragmented_packet_destroy_def fold_deinit fragment_refs_frag id cong: filter_cong)
qed

lemma refs_ok_filter:
  "refs_ok b pb q \<Longrightarrow> refs_ok b pb (filter P q)"
  by (simp add: refs_ok_def)

lemma keep_all:
  assumes "pb_wf pb" and "refs_ok b pb q"
  shows "filter (keep_ref b (\<lambda>p. p \<in> set (pb_list pb))) q = q"
proof -
  have "keep_ref b (\<lambda>p. p \<in> set (pb_list pb)) r" if "r \<in> set q" for r
  proof (cases r)
    case (Frag_ref b' pid fid)
    then have "b' = b \<Longrightarrow> pid \<in> dom (pb_deref pb)" using that assms(2) by (auto simp: refs_ok_def dom_def)
    then show ?thesis using Frag_ref pb_deref_list [OF assms(1)] by simp
  qed simp
  then show ?thesis by (simp add: filter_id_conv)
qed

section \<open>Refreshing\<close>

definition expired :: "int \<Rightarrow> packet_bucket \<Rightarrow> u16 \<Rightarrow> bool" where
  "expired now pb pid \<longleftrightarrow>
     now - fragmented_packet_creation_timestamp (pb_deref pb pid) \<ge> int (unat (pb_max_pkt_age pb))"

text \<open>What a bucket is after losing the packets before the first young one.\<close>

definition refreshed :: "int \<Rightarrow> packet_bucket \<Rightarrow> packet_bucket \<Rightarrow> bool" where
  "refreshed now pb pb' \<longleftrightarrow> pb_wf pb' \<and>
     pb_list pb' = dropWhile (expired now pb) (pb_list pb) \<and>
     pb_deref pb' = pb_deref pb |` set (pb_list pb') \<and>
     pb_frag_size pb' = pb_frag_size pb \<and> pb_max_pkt_age pb' = pb_max_pkt_age pb"

lemma refreshed_refl:
  assumes "pb_wf pb" and "dropWhile (expired now pb) (pb_list pb) = pb_list pb"
  shows "refreshed now pb pb"
  using assms unfolding refreshed_def pb_deref_list [OF assms(1)] by (simp add: restrict_map_def fun_eq_iff dom_def)

text \<open>The first packet goes if it has expired, and the rest is refreshed.\<close>

lemma refreshed_step:
  assumes wf: "pb_wf pb" and l: "pb_list pb = pid # rest" and old: "expired now pb pid" and r: "refreshed now pb1 pb'"
    and pb1: "pb_deref pb1 = (pb_deref pb)(pid := None)" "pb_list pb1 = rest"
      "pb_frag_size pb1 = pb_frag_size pb" "pb_max_pkt_age pb1 = pb_max_pkt_age pb"
  shows "refreshed now pb pb'"
    and "filter (keep_ref b (\<lambda>p. p \<in> set (pb_list pb'))) (filter (keep_ref b (\<lambda>p. p \<noteq> pid)) q) = filter (keep_ref b (\<lambda>p. p \<in> set (pb_list pb'))) q"
proof -
  have nin: "pid \<notin> set rest" using wf l by (metis distinct.simps(2) pb_wf_def)
  have dw: "dropWhile (expired now pb1) rest = dropWhile (expired now pb) rest"
    by (rule dropWhile_cong) (use nin in \<open>auto simp: expired_def pb1\<close>)
  have sub: "set (pb_list pb') \<subseteq> set rest" using r by (auto simp: refreshed_def pb1 dest: set_dropWhileD)
  show "refreshed now pb pb'"
    using r old nin sub by (auto simp: refreshed_def pb1 l dw restrict_map_def fun_eq_iff)
  have "keep_ref b (\<lambda>p. p \<in> set (pb_list pb')) r \<Longrightarrow> keep_ref b (\<lambda>p. p \<noteq> pid) r" for r
    using sub nin by (cases r) auto
  then show "filter (keep_ref b (\<lambda>p. p \<in> set (pb_list pb'))) (filter (keep_ref b (\<lambda>p. p \<noteq> pid)) q) =
      filter (keep_ref b (\<lambda>p. p \<in> set (pb_list pb'))) q"
    by (auto intro: filter_cong)
qed

lemma refresh_loop_spec:
  assumes "pb_wf pb" and "pids = pb_list pb" and "frags_distinct q" and "refs_ok b pb q"
  shows "\<exists>pb'. refresh_loop now b pids pb q = Inr (pb', filter (keep_ref b (\<lambda>p. p \<in> set (pb_list pb'))) q)
    \<and> refreshed now pb pb'"
  using assms
proof (induction pids arbitrary: pb q)
  case Nil
  then show ?case using keep_all [OF Nil(1,4)] refreshed_refl [OF Nil(1)] by (intro exI [of _ pb]) simp
next
  case (Cons pid rest)
  note l = Cons.prems(2) [symmetric]
  have "pid \<in> dom (pb_deref pb)" unfolding pb_deref_list [OF Cons.prems(1), symmetric] l by simp
  then obtain fp where fp: "pb_deref pb pid = Some fp" by auto
  show ?case
  proof (cases "expired now pb pid")
    case False
    then have "refresh_loop now b (pid # rest) pb q = Inr (pb, q)" using fp by (simp add: expired_def)
    then show ?thesis
      using keep_all [OF Cons.prems(1,4)] refreshed_refl [OF Cons.prems(1)] False l by (intro exI [of _ pb]) simp
  next
    case True
    obtain pb1 q1 where d: "packet_bucket_destroy_packet b pb fp q = (pb1, q1)" by fastforce
    have q1: "q1 = filter (keep_ref b (\<lambda>p. p \<noteq> pid)) q"
      using d fragmented_packet_destroy_eq [OF Cons.prems(3,4) fp Cons.prems(1)]
      by (simp add: packet_bucket_destroy_packet_def)
    have pb1: "pb_wf pb1" "pb_deref pb1 = (pb_deref pb)(pid := None)" "pb_list pb1 = rest"
      "pb_frag_size pb1 = pb_frag_size pb" "pb_max_pkt_age pb1 = pb_max_pkt_age pb"
      using destroy_packet_wf [OF Cons.prems(1) fp, of b q] d l by simp_all
    have "refs_ok b pb1 q1" using Cons.prems(4) unfolding refs_ok_def q1 pb1(2) by auto
    then obtain pb' where s: "refresh_loop now b rest pb1 q1 = Inr (pb', filter (keep_ref b (\<lambda>p. p \<in> set (pb_list pb'))) q1)"
      and r: "refreshed now pb1 pb'"
      using Cons.IH [of pb1 q1] pb1 Cons.prems(3) by (auto simp: q1)
    note step = refreshed_step(1) [OF Cons.prems(1) l True r pb1(2-5)] refreshed_step(2) [OF Cons.prems(1) l True r pb1(2-5), of b q]
    show ?thesis using s fp True d step by (intro exI [of _ pb']) (simp add: q1 expired_def)
  qed
qed

lemma refresh_spec:
  assumes "pb_wf pb" and "frags_distinct q" and "refs_ok b pb q"
  obtains pb' where "packet_bucket_periodic_refresh now b pb q
      = Inr (pb', filter (keep_ref b (\<lambda>p. p \<in> set (pb_list pb'))) q)" and "refreshed now pb pb'"
  using refresh_loop_spec [OF assms(1) refl assms(2,3)] by (auto simp: packet_bucket_periodic_refresh_def)

lemma refs_ok_refreshed:
  assumes "refs_ok b pb q" and "refreshed now pb pb'"
  shows "refs_ok b pb' (filter (keep_ref b (\<lambda>p. p \<in> set (pb_list pb'))) q)"
  using assms by (auto simp: refs_ok_def refreshed_def)

text \<open>When the list is in the order of the creation times, as it is when the clock does not go
  back, the packets lost are all the expired ones.\<close>

definition by_age :: "int \<Rightarrow> packet_bucket \<Rightarrow> bool" where
  "by_age now pb \<longleftrightarrow>
     sorted (map (\<lambda>pid. fragmented_packet_creation_timestamp (pb_deref pb pid)) (pb_list pb)) \<and>
     (\<forall>pid \<in> set (pb_list pb). fragmented_packet_creation_timestamp (pb_deref pb pid) \<le> now)"

lemma dropWhile_sorted_filter:
  "sorted (map f xs) \<Longrightarrow> dropWhile (\<lambda>x. f x \<le> (c::int)) xs = filter (\<lambda>x. \<not> f x \<le> c) xs"
proof (induction xs)
  case (Cons a xs)
  show ?case
  proof (cases "f a \<le> c")
    case False
    then have "filter (\<lambda>x. \<not> f x \<le> c) xs = xs" using Cons.prems by (fastforce simp: filter_id_conv)
    with False show ?thesis by simp
  qed (use Cons in simp)
qed simp

lemma refreshed_by_age:
  assumes "by_age now0 pb" and "refreshed now pb pb'"
  shows "pb_list pb' = filter (\<lambda>pid. \<not> expired now pb pid) (pb_list pb)"
proof -
  have e: "expired now pb =
      (\<lambda>pid. fragmented_packet_creation_timestamp (pb_deref pb pid) \<le> now - int (unat (pb_max_pkt_age pb)))"
    by (auto simp: expired_def)
  have "sorted (map (\<lambda>pid. fragmented_packet_creation_timestamp (pb_deref pb pid)) (pb_list pb))"
    using assms(1) by (simp add: by_age_def)
  from dropWhile_sorted_filter [OF this] show ?thesis
    using assms(2) unfolding refreshed_def e by simp
qed

lemma by_age_refreshed:
  assumes "by_age now0 pb" and "now0 \<le> now" and "refreshed now pb pb'"
  shows "by_age now pb'"
proof -
  let ?ts = "\<lambda>pb pid. fragmented_packet_creation_timestamp (pb_deref pb pid)"
  have l: "pb_list pb' = dropWhile (expired now pb) (pb_list pb)" "set (pb_list pb') \<subseteq> set (pb_list pb)"
    using assms(3) by (auto simp: refreshed_def dest: set_dropWhileD)
  have e: "?ts pb' pid = ?ts pb pid" if "pid \<in> set (pb_list pb')" for pid
    using that assms(3) by (simp add: refreshed_def)
  then have m: "map (?ts pb') (pb_list pb') = map (?ts pb) (pb_list pb')" by simp
  have "map (?ts pb) (pb_list pb')
      = dropWhile (\<lambda>t. now - t \<ge> int (unat (pb_max_pkt_age pb))) (map (?ts pb) (pb_list pb))"
    by (simp add: l(1) dropWhile_map o_def expired_def [abs_def])
  then have "sorted (map (?ts pb') (pb_list pb'))"
    using assms(1) unfolding m by (simp add: by_age_def sorted_dropWhile)
  moreover have "?ts pb' pid \<le> now" if "pid \<in> set (pb_list pb')" for pid
    using that e assms(1,2) l(2) by (fastforce simp: by_age_def)
  ultimately show ?thesis by (simp add: by_age_def)
qed

section \<open>The operations on a well formed bucket\<close>

lemma fragmented_packet_create_Some:
  assumes "d \<noteq> []" and "0 < fs"
  obtains fp where "fragmented_packet_create now pid s t (Some d) fs = Some fp"
    and "fp_packet_id fp = pid" and "fp_creation_timestamp fp = now"
    and "fp_frag_num fp = unat (frag_count (length d) fs)"
  using assms by (simp add: fragmented_packet_create_def Let_def)

lemma add_packet_spec:
  assumes "pb_wf pb" and "frags_distinct q" and "refs_ok b pb q" and "d \<noteq> []"
    and "0 < pb_frag_size pb" and "pid \<notin> set (dropWhile (expired now pb) (pb_list pb))"
  obtains pb' pb'' fp where
    "packet_bucket_add_packet now b pb (Some s) (Some t) pid (Some d) q =
      Inr (pb'', filter (keep_ref b (\<lambda>p. p \<in> set (pb_list pb'))) q,
           Some (fragment_refs b pid (fp_frag_num fp)))"
    and "refreshed now pb pb'"
    and "fragmented_packet_create now pid s t (Some d) (pb_frag_size pb) = Some fp"
    and "pb_wf pb''" and "pb_deref pb'' = (pb_deref pb')(pid \<mapsto> fp)"
    and "pb_list pb'' = pb_list pb' @ [pid]"
    and "pb_frag_size pb'' = pb_frag_size pb" and "pb_max_pkt_age pb'' = pb_max_pkt_age pb"
proof -
  obtain pb' where r: "packet_bucket_periodic_refresh now b pb q
      = Inr (pb', filter (keep_ref b (\<lambda>p. p \<in> set (pb_list pb'))) q)" "refreshed now pb pb'"
    using refresh_spec assms(1-3) by blast
  have pb': "pb_wf pb'" "pb_frag_size pb' = pb_frag_size pb" "pb_max_pkt_age pb' = pb_max_pkt_age pb"
    "pb_list pb' = dropWhile (expired now pb) (pb_list pb)"
    using r(2) by (simp_all add: refreshed_def)
  have "pid \<notin> dom (pb_deref pb')"
    using assms(6) pb'(4) unfolding pb_deref_list [OF pb'(1), symmetric] by simp
  then have free: "pb_deref pb' pid = None" by auto
  obtain fp where fp: "fragmented_packet_create now pid s t (Some d) (pb_frag_size pb) = Some fp"
    "fp_packet_id fp = pid"
    using fragmented_packet_create_Some [OF assms(4,5)] by metis
  define pb'' where "pb'' = pb'\<lparr>pb_set := fst (os_insert packet_cmp (pb_set pb') fp False),
                                pb_list := pb_list pb' @ [fp_packet_id fp]\<rparr>"
  have "pb_wf pb''" "pb_deref pb'' = (pb_deref pb')(pid \<mapsto> fp)"
    using insert_packet_wf [OF pb'(1), of fp] free fp(2) by (simp_all add: pb''_def)
  moreover have "packet_bucket_add_packet now b pb (Some s) (Some t) pid (Some d) q =
      Inr (pb'', filter (keep_ref b (\<lambda>p. p \<in> set (pb_list pb'))) q,
           Some (fragment_refs b pid (fp_frag_num fp)))"
    using assms(4) r(1) pb' fp free
    by (simp add: packet_bucket_add_packet_def os_find_packet pb''_def)
  ultimately show ?thesis
    using that [of pb'' pb' fp] r(2) fp pb' by (simp add: pb''_def)
qed

text \<open>The two ways in which adding a packet goes wrong.\<close>

lemma add_packet_faults:
  assumes "pb_wf pb" and "frags_distinct q" and "refs_ok b pb q" and "d \<noteq> []"
  shows "pb_frag_size pb = 0 \<Longrightarrow>
      packet_bucket_add_packet now b pb (Some s) (Some t) pid (Some d) q = Inl Null_Deref"
    and "0 < pb_frag_size pb \<Longrightarrow> pid \<in> set (dropWhile (expired now pb) (pb_list pb)) \<Longrightarrow>
      packet_bucket_add_packet now b pb (Some s) (Some t) pid (Some d) q = Inl Use_After_Free"
proof -
  obtain pb' where r: "packet_bucket_periodic_refresh now b pb q
      = Inr (pb', filter (keep_ref b (\<lambda>p. p \<in> set (pb_list pb'))) q)" "refreshed now pb pb'"
    using refresh_spec assms(1-3) by blast
  have pb': "pb_wf pb'" "pb_frag_size pb' = pb_frag_size pb" using r(2) by (simp_all add: refreshed_def)
  show "packet_bucket_add_packet now b pb (Some s) (Some t) pid (Some d) q = Inl Null_Deref"
    if "pb_frag_size pb = 0"
    using that assms(4) r(1) pb'
    by (simp add: packet_bucket_add_packet_def fragmented_packet_create_def)
  show "packet_bucket_add_packet now b pb (Some s) (Some t) pid (Some d) q = Inl Use_After_Free"
    if fs: "0 < pb_frag_size pb" and pid: "pid \<in> set (dropWhile (expired now pb) (pb_list pb))"
  proof -
    obtain fp where fp: "fragmented_packet_create now pid s t (Some d) (pb_frag_size pb) = Some fp"
      "fp_packet_id fp = pid"
      using fragmented_packet_create_Some [OF assms(4) fs] by metis
    have "pid \<in> dom (pb_deref pb')"
      using pid r(2) unfolding pb_deref_list [OF pb'(1), symmetric] by (simp add: refreshed_def)
    then show ?thesis
      using assms(4) r(1) pb' fp by (auto simp: packet_bucket_add_packet_def os_find_packet)
  qed
qed

text \<open>Received fragments are never in the send queue, so an incoming bucket has no references.\<close>

definition no_refs :: "bucket_id \<Rightarrow> send_queue \<Rightarrow> bool" where
  "no_refs b q \<longleftrightarrow> (\<forall>pid fid. Frag_ref b pid fid \<notin> set q)"

lemma no_refs_ok: "no_refs b q \<Longrightarrow> refs_ok b pb q"
  by (simp add: no_refs_def refs_ok_def)

lemma no_refs_keep: "no_refs b q \<Longrightarrow> filter (keep_ref b P) q = q"
  unfolding filter_id_conv no_refs_def keep_ref_def by (auto split: msg_ref.splits)

lemma no_refs_deinit: "no_refs b q \<Longrightarrow> net_msg_deinit (Frag_ref b pid fid) q = q"
  by (simp add: no_refs_def net_msg_deinit_def remove1_idem)

lemma refresh_no_refs:
  assumes "pb_wf pb" and "frags_distinct q" and "no_refs b q"
  obtains pb' where "packet_bucket_periodic_refresh now b pb q = Inr (pb', q)" and "refreshed now pb pb'"
  using refresh_spec [OF assms(1,2) no_refs_ok [OF assms(3)]] no_refs_keep [OF assms(3)] by metis

definition received_packet :: "int \<Rightarrow> packet_bucket \<Rightarrow> fragment \<Rightarrow> fragmented_packet" where
  "received_packet now pb f =
     (case pb_deref pb (f_pid f) of
        Some p \<Rightarrow> p
      | None \<Rightarrow> fragmented_packet_empty now (f_pid f) (f_from f) (f_to f) (f_frag_num f))"

lemma fragmented_packet_empty_simps [simp]:
  "fp_packet_id (fragmented_packet_empty now pid from to num) = pid"
  "fp_creation_timestamp (fragmented_packet_empty now pid from to num) = now"
  "fp_frag_num (fragmented_packet_empty now pid from to num) = unat num"
  by (simp_all add: fragmented_packet_empty_def)

lemma received_packet_id: "pb_wf pb \<Longrightarrow> fp_packet_id (received_packet now pb f) = f_pid f"
  by (auto simp: received_packet_def dest: pb_deref_id split: option.splits)

text \<open>The bucket with the packet of the fragment in it: a new packet is added at the end of the list.\<close>

definition receiving_bucket :: "packet_bucket \<Rightarrow> fragmented_packet \<Rightarrow> packet_bucket" where
  "receiving_bucket pb fp =
     (if fp_packet_id fp \<in> set (pb_list pb) then pb
      else pb\<lparr>pb_set := fst (os_insert packet_cmp (pb_set pb) fp False), pb_list := pb_list pb @ [fp_packet_id fp]\<rparr>)"

lemma receiving_bucket:
  assumes wf: "pb_wf pb" and fp: "fp = received_packet now pb f"
  shows "pb_wf (receiving_bucket pb fp)" and "pb_deref (receiving_bucket pb fp) = (pb_deref pb)(f_pid f \<mapsto> fp)"
proof -
  have id: "fp_packet_id fp = f_pid f" by (simp add: fp received_packet_id [OF wf])
  have dom: "f_pid f \<in> set (pb_list pb) \<longleftrightarrow> pb_deref pb (f_pid f) \<noteq> None" using pb_deref_list [OF wf] by auto
  have "pb_wf (receiving_bucket pb fp) \<and> pb_deref (receiving_bucket pb fp) = (pb_deref pb)(f_pid f \<mapsto> fp)"
  proof (cases "pb_deref pb (f_pid f)")
    case None
    then show ?thesis using insert_packet_wf [OF wf, of fp] dom id by (simp add: receiving_bucket_def)
  next
    case (Some p)
    then have "fp = p" by (simp add: fp received_packet_def)
    then show ?thesis using Some wf dom id by (simp add: receiving_bucket_def fun_upd_idem)
  qed
  then show "pb_wf (receiving_bucket pb fp)" "pb_deref (receiving_bucket pb fp) = (pb_deref pb)(f_pid f \<mapsto> fp)" by auto
qed

lemma add_fragment_spec:
  assumes "pb_wf pb" and "frags_distinct q" and "no_refs b q"
  obtains pb' pb'' where
    "packet_bucket_add_fragment now b pb f q requests =
      (case fragmented_packet_write_fragment (received_packet now pb' f) f requests of
         (res, fp', requests') \<Rightarrow> Inr (res, pb'', q, requests'))"
    and "refreshed now pb pb'" and "pb_wf pb''"
    and "pb_deref pb'' = (pb_deref pb')(f_pid f \<mapsto>
      fst (snd (fragmented_packet_write_fragment (received_packet now pb' f) f requests)))"
    and "pb_list pb'' = (if f_pid f \<in> set (pb_list pb') then pb_list pb' else pb_list pb' @ [f_pid f])"
    and "pb_frag_size pb'' = pb_frag_size pb" and "pb_max_pkt_age pb'' = pb_max_pkt_age pb"
proof -
  obtain pb' where r: "packet_bucket_periodic_refresh now b pb q = Inr (pb', q)" "refreshed now pb pb'"
    using refresh_no_refs [OF assms] .
  have pb': "pb_wf pb'" "pb_frag_size pb' = pb_frag_size pb" "pb_max_pkt_age pb' = pb_max_pkt_age pb"
    using r(2) by (simp_all add: refreshed_def)
  define fp where "fp = received_packet now pb' f"
  obtain res fp' requests' where w: "fragmented_packet_write_fragment fp f requests = (res, fp', requests')"
    by (metis prod_cases3)
  have id: "fp_packet_id fp = f_pid f" "fp_packet_id fp' = f_pid f"
  proof -
    show "fp_packet_id fp = f_pid f" by (simp add: fp_def received_packet_id [OF pb'(1)])
    then show "fp_packet_id fp' = f_pid f" using write_fragment_id(1) [of fp f requests] w by simp
  qed
  define pb1 where "pb1 = receiving_bucket pb' fp"
  have pb1: "pb_wf pb1 \<and> pb_deref pb1 = (pb_deref pb')(f_pid f \<mapsto> fp)"
    using receiving_bucket [OF pb'(1) fp_def] by (simp add: pb1_def)
  define pb'' where "pb'' = pb1\<lparr>pb_set := os_update packet_cmp (pb_set pb1) fp'\<rparr>"
  have "pb_wf pb'' \<and> pb_deref pb'' = (pb_deref pb1)(f_pid f \<mapsto> fp')"
    using update_packet_wf [of pb1 fp' fp] pb1 id by (simp add: pb''_def)
  moreover have "packet_bucket_add_fragment now b pb f q requests = Inr (res, pb'', q, requests')"
  proof -
    have "f_pid f \<in> set (pb_list pb') \<longleftrightarrow> pb_deref pb' (f_pid f) \<noteq> None" using pb_deref_list [OF pb'(1)] by auto
    then show ?thesis
      using r(1) w id no_refs_deinit [OF assms(3)]
      by (cases "pb_deref pb' (f_pid f)") (simp_all add: packet_bucket_add_fragment_def os_find_dummy [OF pb'(1)] pb''_def pb1_def
          receiving_bucket_def fp_def received_packet_def Let_def)
  qed
  ultimately have full: "packet_bucket_add_fragment now b pb f q requests = Inr (res, pb'', q, requests')"
    "pb_wf pb''" "pb_deref pb'' = (pb_deref pb')(f_pid f \<mapsto> fp')"
    using pb1 by simp_all
  show ?thesis
  proof (rule that [of pb'' pb'])
    show "packet_bucket_add_fragment now b pb f q requests =
      (case fragmented_packet_write_fragment (received_packet now pb' f) f requests of
         (res, fp', requests') \<Rightarrow> Inr (res, pb'', q, requests'))"
      unfolding fp_def [symmetric] w full(1) by simp
    show "refreshed now pb pb'" "pb_wf pb''" by (rule r(2), rule full(2))
    show "pb_deref pb'' = (pb_deref pb')(f_pid f \<mapsto>
      fst (snd (fragmented_packet_write_fragment (received_packet now pb' f) f requests)))"
      unfolding fp_def [symmetric] w full(3) by simp
    show "pb_list pb'' = (if f_pid f \<in> set (pb_list pb') then pb_list pb' else pb_list pb' @ [f_pid f])"
      "pb_frag_size pb'' = pb_frag_size pb" "pb_max_pkt_age pb'' = pb_max_pkt_age pb"
      using pb' id by (simp_all add: pb''_def pb1_def receiving_bucket_def)
  qed
qed

lemma pop_packet_spec:
  assumes "pb_wf pb" and "frags_distinct q" and "no_refs b q"
  obtains pb' where "refreshed now pb pb'"
    and "pb_deref pb' pid = None \<Longrightarrow>
      packet_bucket_pop_packet now b pb pid sz q = Inr (-2, [], sz, pb', q)"
    and "\<And>fp. pb_deref pb' pid = Some fp \<Longrightarrow>
      \<exists>pb''. packet_bucket_pop_packet now b pb pid sz q =
        (case fragmented_packet_dump_data fp sz of (res, out, n) \<Rightarrow> Inr (res, out, n, pb'', q)) \<and>
        pb_wf pb'' \<and> pb_deref pb'' = (pb_deref pb')(pid := None) \<and>
        pb_list pb'' = remove1 pid (pb_list pb') \<and>
        pb_frag_size pb'' = pb_frag_size pb \<and> pb_max_pkt_age pb'' = pb_max_pkt_age pb"
proof -
  obtain pb' where r: "packet_bucket_periodic_refresh now b pb q = Inr (pb', q)" "refreshed now pb pb'"
    using refresh_no_refs [OF assms] .
  have pb': "pb_wf pb'" using r(2) by (simp add: refreshed_def)
  show thesis
  proof
    show "refreshed now pb pb'" by (rule r(2))
    show "packet_bucket_pop_packet now b pb pid sz q = Inr (-2, [], sz, pb', q)"
      if "pb_deref pb' pid = None"
      using that r(1) by (simp add: packet_bucket_pop_packet_def os_find_dummy [OF pb'])
    fix fp assume fp: "pb_deref pb' pid = Some fp"
    obtain res out n where d: "fragmented_packet_dump_data fp sz = (res, out, n)" by (metis prod_cases3)
    obtain pb'' q' where k: "packet_bucket_destroy_packet b pb' fp q = (pb'', q')" by fastforce
    have "q' = q"
      using k fragmented_packet_destroy_eq [OF assms(2) no_refs_ok [OF assms(3)] fp pb']
        no_refs_keep [OF assms(3)] by (simp add: packet_bucket_destroy_packet_def)
    then show "\<exists>pb''. packet_bucket_pop_packet now b pb pid sz q =
        (case fragmented_packet_dump_data fp sz of (res, out, n) \<Rightarrow> Inr (res, out, n, pb'', q)) \<and>
        pb_wf pb'' \<and> pb_deref pb'' = (pb_deref pb')(pid := None) \<and>
        pb_list pb'' = remove1 pid (pb_list pb') \<and>
        pb_frag_size pb'' = pb_frag_size pb \<and> pb_max_pkt_age pb'' = pb_max_pkt_age pb"
      using destroy_packet_wf [OF pb' fp, of b q] k d r fp
      by (simp add: packet_bucket_pop_packet_def os_find_dummy [OF pb'] refreshed_def)
  qed
qed

lemma get_fragment_spec:
  assumes "pb_wf pb" and "frags_distinct q" and "refs_ok b pb q"
  obtains pb' where "refreshed now pb pb'"
    and "packet_bucket_get_fragment now b pb pid fid q =
      Inr (case pb_deref pb' pid of
             Some fp \<Rightarrow> if unat fid < fp_frag_num fp then Some (Frag_ref b pid fid) else None
           | None \<Rightarrow> None,
           pb', filter (keep_ref b (\<lambda>p. p \<in> set (pb_list pb'))) q)"
proof -
  obtain pb' where r: "packet_bucket_periodic_refresh now b pb q
      = Inr (pb', filter (keep_ref b (\<lambda>p. p \<in> set (pb_list pb'))) q)" "refreshed now pb pb'"
    using refresh_spec assms(1-3) by blast
  have pb': "pb_wf pb'" using r(2) by (simp add: refreshed_def)
  show thesis
  proof (rule that [OF r(2)])
    show "packet_bucket_get_fragment now b pb pid fid q =
      Inr (case pb_deref pb' pid of
             Some fp \<Rightarrow> if unat fid < fp_frag_num fp then Some (Frag_ref b pid fid) else None
           | None \<Rightarrow> None,
           pb', filter (keep_ref b (\<lambda>p. p \<in> set (pb_list pb'))) q)"
      using r(1) pb_deref_id [OF pb', of pid]
      by (auto simp: packet_bucket_get_fragment_def os_find_dummy [OF pb'] fragmented_packet_fragment_def
          split: option.splits)
  qed
qed

text \<open>Destroying a bucket returns, and leaves no reference into it.\<close>

lemma ord_set_iter_safe_last:
  "fst (ord_set_iter_safe cmp os None None) = (if os_elements os = [] then None else Some (last (os_elements os)))"
  by (simp add: ord_set_iter_safe_def last_conv_nth)

lemma destroy_loop_spec:
  assumes "packet_order.os_wf os" and "frags_distinct q"
    and "\<forall>pid fid. Frag_ref b pid fid \<in> set q \<longrightarrow>
      (\<exists>fp. os_content fp_packet_id os pid = Some fp \<and> unat fid < fp_frag_num fp)"
  shows "destroy_loop b os q = Some (filter (keep_ref b (\<lambda>_. False)) q)"
  using assms
proof (induction "n_elements os" arbitrary: os q rule: less_induct)
  case less
  let ?pb = "\<lparr>pb_list = map fp_packet_id (os_elements os), pb_set = os, pb_frag_size = 0, pb_max_pkt_age = 0\<rparr>"
  have srt: "packet_order.sorted_set (os_elements os)" using less.prems(1) by (simp add: packet_order.os_wf_def)
  have inj: "distinct (map fp_packet_id (os_elements os))"
    by (rule packet_order.sorted_distinct_keys [OF srt])
  have wf: "pb_wf ?pb" using less.prems(1) inj by (simp add: pb_wf_def)
  have refs: "refs_ok b ?pb q" using less.prems(3) by (simp add: refs_ok_def pb_deref_def)
  show ?case
  proof (cases "os_elements os = []")
    case True
    then have "os_content fp_packet_id os = Map.empty" by (auto simp: os_content_def)
    then have "keep_ref b (\<lambda>_. False) r" if "r \<in> set q" for r
      using that less.prems(3) by (cases r) auto
    then show ?thesis
      using True by (subst destroy_loop.simps) (simp add: ord_set_iter_safe_last filter_id_conv)
  next
    case False
    define fp where "fp = last (os_elements os)"
    have fp: "fp \<in> set (os_elements os)" using False by (simp add: fp_def)
    have c: "pb_deref ?pb (fp_packet_id fp) = Some fp"
      using fp less.prems(1) by (simp add: pb_deref_def packet_order.os_content_Some)
    let ?os = "fst (os_remove packet_cmp os fp)" and ?q = "fragmented_packet_destroy b fp q"
    have q: "?q = filter (keep_ref b (\<lambda>p. p \<noteq> fp_packet_id fp)) q"
      by (rule fragmented_packet_destroy_eq [OF less.prems(2) refs c wf])
    have "n_elements ?os < n_elements os"
      using fp by (simp add: packet_order.os_remove_eq_filter [OF srt] length_filter_less
          packet_order.same_key_def packet_order.cmp_refl)
    moreover have "packet_order.os_wf ?os" using less.prems(1) by (rule packet_order.store.wf_remove)
    moreover have "os_content fp_packet_id ?os = (os_content fp_packet_id os)(fp_packet_id fp := None)"
      by (rule packet_order.store.content_remove [OF less.prems(1)])
    ultimately have "destroy_loop b ?os ?q = Some (filter (keep_ref b (\<lambda>_. False)) ?q)"
      using less.prems(2,3) by (intro less.hyps) (auto simp: q)
    moreover have "filter (keep_ref b (\<lambda>_. False)) ?q = filter (keep_ref b (\<lambda>_. False)) q"
    proof -
      have "keep_ref b (\<lambda>_. False) r \<Longrightarrow> keep_ref b (\<lambda>p. p \<noteq> fp_packet_id fp) r" for r
        by (cases r) auto
      then show ?thesis unfolding q by (auto intro: filter_cong)
    qed
    ultimately show ?thesis
      using False by (subst destroy_loop.simps) (simp add: ord_set_iter_safe_last fp_def)
  qed
qed

lemma packet_bucket_destroy_spec:
  assumes "pb_wf pb" and "frags_distinct q" and "refs_ok b pb q"
  shows "packet_bucket_destroy b pb q = Some (filter (keep_ref b (\<lambda>_. False)) q)"
  using destroy_loop_spec assms by (simp add: packet_bucket_destroy_def pb_wf_def refs_ok_def pb_deref_def)

lemma refreshed_deref:
  assumes "pb_wf pb" and "by_age now0 pb" and "refreshed now pb pb'"
  shows "pb_deref pb' p = (if expired now pb p then None else pb_deref pb p)"
proof -
  have "pb_deref pb' = pb_deref pb |` set (pb_list pb')" using assms(3) by (simp add: refreshed_def)
  moreover have "p \<notin> set (pb_list pb) \<Longrightarrow> pb_deref pb p = None" unfolding pb_deref_list [OF assms(1)] by auto
  ultimately show ?thesis using refreshed_by_age [OF assms(2,3)] by (auto simp: restrict_map_def)
qed

section \<open>Properties\<close>

text \<open>A bucket with two packets, for the concrete instances.\<close>

definition sample_packet :: "int \<Rightarrow> u16 \<Rightarrow> fragmented_packet" where
  "sample_packet ts pid =
     \<lparr>fp_creation_timestamp = ts,
      fp_frags = [\<lparr>f_from = empty_node, f_to = empty_node, f_id = 0, f_frag_num = 1, f_pid = pid, f_data_size = 2, f_data = Some [8, 9]\<rparr>],
      fp_packet_id = pid\<rparr>"

definition sample_bucket :: packet_bucket where
  "sample_bucket =
     \<lparr>pb_list = [1, 2], pb_set = \<lparr>os_size = 10, os_elements = [sample_packet 100 1, sample_packet 103 2]\<rparr>,
      pb_frag_size = 1200, pb_max_pkt_age = 4\<rparr>"

lemma sample_bucket_wf [simp]: "pb_wf sample_bucket"
  by (simp add: pb_wf_def sample_bucket_def sample_packet_def packet_order.os_wf_def packet_order.sorted_set_def
      packet_cmp_def fragmented_packet_id_def Let_def)

lemma sample_bucket_deref:
  "pb_deref sample_bucket pid = (if pid = 1 then Some (sample_packet 100 1) else if pid = 2 then Some (sample_packet 103 2) else None)"
  by (simp add: pb_deref_def os_content_def sample_bucket_def sample_packet_def)

lemma sample_bucket_simps [simp]:
  "pb_list sample_bucket = [1, 2]" "pb_max_pkt_age sample_bucket = 4" "pb_frag_size sample_bucket = 1200"
  by (simp_all add: sample_bucket_def)

lemma sample_refs_ok: "refs_ok b sample_bucket [Frag_ref b 1 0, Frag_ref b 2 0]"
  by (auto simp: refs_ok_def sample_bucket_deref sample_packet_def)

text \<open>C28: Refreshing a bucket whose packets are listed in the order of their creation removes exactly the packets
  that reached the maximum age, never touches freed memory, unlinks exactly the fragments of the removed packets from
  the send queue, and leaves the bucket well formed and in order.\<close>

theorem refresh_removes_expired:
  assumes "pb_wf pb" and "frags_distinct q" and "refs_ok b pb q" and "by_age now0 pb" and "now0 \<le> now"
  shows "\<exists>pb'. packet_bucket_periodic_refresh now b pb q =
      Inr (pb', filter (\<lambda>r. case r of Frag_ref b' pid fid \<Rightarrow> b' = b \<longrightarrow> \<not> expired now pb pid | Req_ref fr \<Rightarrow> True) q) \<and>
    pb_wf pb' \<and> pb_list pb' = filter (\<lambda>pid. \<not> expired now pb pid) (pb_list pb) \<and>
    (\<forall>pid. pb_deref pb' pid = (if expired now pb pid then None else pb_deref pb pid)) \<and> by_age now pb'"
proof -
  obtain pb' where r: "packet_bucket_periodic_refresh now b pb q
      = Inr (pb', filter (keep_ref b (\<lambda>p. p \<in> set (pb_list pb'))) q)" and ref: "refreshed now pb pb'"
    by (rule refresh_spec [OF assms(1-3)])
  have l: "pb_list pb' = filter (\<lambda>pid. \<not> expired now pb pid) (pb_list pb)"
    by (rule refreshed_by_age [OF assms(4) ref])
  have dom: "set (pb_list pb) = dom (pb_deref pb)" by (rule pb_deref_list [OF assms(1)])
  have k: "keep_ref b (\<lambda>p. p \<in> set (pb_list pb')) x \<longleftrightarrow>
      (case x of Frag_ref b' pid fid \<Rightarrow> b' = b \<longrightarrow> \<not> expired now pb pid | Req_ref fr \<Rightarrow> True)" if "x \<in> set q" for x
  proof (cases x)
    case (Frag_ref b' pid fid)
    have "b' = b \<Longrightarrow> pid \<in> set (pb_list pb)" using that assms(3) dom Frag_ref by (fastforce simp: refs_ok_def)
    then show ?thesis using Frag_ref l by auto
  qed simp
  have "pb_deref pb' pid = (if expired now pb pid then None else pb_deref pb pid)" for pid
    by (rule refreshed_deref [OF assms(1,4) ref])
  moreover have "filter (keep_ref b (\<lambda>p. p \<in> set (pb_list pb'))) q =
      filter (\<lambda>r. case r of Frag_ref b' pid fid \<Rightarrow> b' = b \<longrightarrow> \<not> expired now pb pid | Req_ref fr \<Rightarrow> True) q"
    using k by (rule filter_cong [OF refl])
  ultimately show ?thesis
    using r l ref by_age_refreshed [OF assms(4,5) ref] by (simp add: refreshed_def)
qed

theorem refresh_removes_expired_witness:
  fixes b :: bucket_id
  defines "b \<equiv> Incoming ('''', 0)"
  shows "\<exists>pb'. packet_bucket_periodic_refresh 104 b sample_bucket [Frag_ref b 1 0, Frag_ref b 2 0] = Inr (pb', [Frag_ref b 2 0])
    \<and> pb_list pb' = [2]"
proof -
  have a: "by_age 103 sample_bucket"
    by (simp add: by_age_def sample_bucket_deref sample_packet_def fragmented_packet_creation_timestamp_def)
  have e: "expired 104 sample_bucket 1" "\<not> expired 104 sample_bucket 2"
    by (simp_all add: expired_def sample_bucket_deref sample_packet_def fragmented_packet_creation_timestamp_def)
  show ?thesis
    using refresh_removes_expired [OF sample_bucket_wf _ sample_refs_ok a, of b 104] e by (auto simp: frags_distinct_def)
qed

text \<open>Popping a packet: an unknown or expired one gives -2 and nothing is written; otherwise the data of its fragments
  is copied, and the packet is removed even if it did not fit.  The other live packets stay, and the queue, which
  holds no incoming fragment, is not touched.\<close>

lemma pop_packet_result:
  assumes "pb_wf pb" and "frags_distinct q" and "no_refs b q" and "by_age now0 pb"
  shows "\<exists>pb'. packet_bucket_pop_packet now b pb pid sz q =
      (if pb_deref pb pid = None \<or> expired now pb pid then Inr (-2, [], sz, pb', q)
       else case fragmented_packet_dump_data (the (pb_deref pb pid)) sz of (res, out, n) \<Rightarrow> Inr (res, out, n, pb', q)) \<and>
    pb_wf pb' \<and> (\<forall>p. pb_deref pb' p = (if p = pid \<or> expired now pb p then None else pb_deref pb p))"
proof (rule pop_packet_spec [OF assms(1-3), of now pid sz])
  fix pb'
  assume ref: "refreshed now pb pb'"
    and none: "pb_deref pb' pid = None \<Longrightarrow> packet_bucket_pop_packet now b pb pid sz q = Inr (-2, [], sz, pb', q)"
    and some: "\<And>fp. pb_deref pb' pid = Some fp \<Longrightarrow>
      \<exists>pb''. packet_bucket_pop_packet now b pb pid sz q =
        (case fragmented_packet_dump_data fp sz of (res, out, n) \<Rightarrow> Inr (res, out, n, pb'', q)) \<and>
        pb_wf pb'' \<and> pb_deref pb'' = (pb_deref pb')(pid := None) \<and>
        pb_list pb'' = remove1 pid (pb_list pb') \<and>
        pb_frag_size pb'' = pb_frag_size pb \<and> pb_max_pkt_age pb'' = pb_max_pkt_age pb"
  have d: "pb_deref pb' p = (if expired now pb p then None else pb_deref pb p)" for p
    by (rule refreshed_deref [OF assms(1,4) ref])
  show ?thesis
  proof (cases "pb_deref pb' pid")
    case None
    then show ?thesis using none ref d by (intro exI [of _ pb']) (auto simp: refreshed_def)
  next
    case (Some fp)
    then have "pb_deref pb pid = Some fp" "\<not> expired now pb pid" using d by (auto split: if_splits)
    then show ?thesis using some [OF Some] d by auto
  qed
qed

text \<open>C32: Adding a packet fails in two ways: with fragment size 0 the code dereferences the NULL packet, and when a live
  packet has the number already, it frees the list head before unlinking the fragments from it; otherwise it succeeds.
  (The maximum age and the 16-bit numbers are all that keeps a number from being reused while live.)\<close>

theorem add_packet_outcome:
  assumes "pb_wf pb" and "frags_distinct q" and "refs_ok b pb q" and "d \<noteq> []" and "by_age now0 pb"
  shows "(case packet_bucket_add_packet now b pb (Some s) (Some t) pid (Some d) q of
      Inl e \<Rightarrow> e = (if pb_frag_size pb = 0 then Null_Deref else Use_After_Free) \<and>
        (pb_frag_size pb = 0 \<or> pb_deref pb pid \<noteq> None \<and> \<not> expired now pb pid)
    | Inr (pb'', q'', l) \<Rightarrow> 0 < pb_frag_size pb \<and> (pb_deref pb pid = None \<or> expired now pb pid) \<and> pb_wf pb'' \<and>
        l = Some (fragment_refs b pid (unat (frag_count (length d) (pb_frag_size pb)))) \<and>
        pb_deref pb'' pid = fragmented_packet_create now pid s t (Some d) (pb_frag_size pb) \<and>
        (\<forall>p. p \<noteq> pid \<longrightarrow> pb_deref pb'' p = (if expired now pb p then None else pb_deref pb p)))"
proof -
  have live: "pid \<in> set (dropWhile (expired now pb) (pb_list pb)) \<longleftrightarrow> pb_deref pb pid \<noteq> None \<and> \<not> expired now pb pid"
  proof -
    obtain pb' where ref: "refreshed now pb pb'" by (rule refresh_spec [OF assms(1-3)])
    have "dropWhile (expired now pb) (pb_list pb) = filter (\<lambda>pid. \<not> expired now pb pid) (pb_list pb)"
      using refreshed_by_age [OF assms(5) ref] ref by (simp add: refreshed_def)
    then show ?thesis using pb_deref_list [OF assms(1)] by auto
  qed
  consider "pb_frag_size pb = 0" | "0 < pb_frag_size pb" "pid \<in> set (dropWhile (expired now pb) (pb_list pb))"
    | "0 < pb_frag_size pb" "pid \<notin> set (dropWhile (expired now pb) (pb_list pb))" by blast
  then show ?thesis
  proof cases
    case 1
    then show ?thesis using add_packet_faults(1) [OF assms(1-4), of now s t pid] by simp
  next
    case 2
    then show ?thesis using add_packet_faults(2) [OF assms(1-4), of pid now s t] live by simp
  next
    case 3
    obtain pb' pb'' fp where
      r: "packet_bucket_add_packet now b pb (Some s) (Some t) pid (Some d) q =
        Inr (pb'', filter (keep_ref b (\<lambda>p. p \<in> set (pb_list pb'))) q, Some (fragment_refs b pid (fp_frag_num fp)))"
      and ref: "refreshed now pb pb'"
      and fp: "fragmented_packet_create now pid s t (Some d) (pb_frag_size pb) = Some fp"
      and wf: "pb_wf pb''" and c: "pb_deref pb'' = (pb_deref pb')(pid \<mapsto> fp)"
      by (rule add_packet_spec [OF assms(1-4) 3])
    have "fp_frag_num fp = unat (frag_count (length d) (pb_frag_size pb))"
      by (rule fragmented_packet_create_Some [OF assms(4) 3(1), of now pid s t]) (use fp in simp)
    moreover have "pb_deref pb' p = (if expired now pb p then None else pb_deref pb p)" for p
      by (rule refreshed_deref [OF assms(1,5) ref])
    ultimately show ?thesis using r fp wf c 3 live by (simp add: fun_upd_apply)
  qed
qed

theorem add_packet_outcome_witness:
  fixes b :: bucket_id
  defines "b \<equiv> Incoming ('''', 0)"
  shows "packet_bucket_add_packet 104 b sample_bucket (Some empty_node) (Some empty_node) 2 (Some [5]) [] = Inl Use_After_Free"
proof -
  have a: "by_age 103 sample_bucket"
    by (simp add: by_age_def sample_bucket_deref sample_packet_def fragmented_packet_creation_timestamp_def)
  have e: "\<not> expired 104 sample_bucket 2" "pb_deref sample_bucket 2 \<noteq> None"
    by (simp_all add: expired_def sample_bucket_deref sample_packet_def fragmented_packet_creation_timestamp_def)
  show ?thesis
    using add_packet_outcome [OF sample_bucket_wf _ _ _ a, where q = "[]" and b = b and d = "[5]" and now = 104 and s = empty_node and t = empty_node and pid = 2] e
    by (auto simp: frags_distinct_def refs_ok_def split: sum.splits)
qed

end
