(* ===== verification/Network_Manager.thy ===== *)
theory Network_Manager
  imports Packet_Bucket
begin

text \<open>
  \<open>Lib/net_helper/nhx/endpoint.c\<close> and \<open>network_manager.c\<close>: one endpoint per remote node with its
  incoming and outgoing packets, and the queue of the messages to send.

  The queue lists references to messages (see \<open>Packet_Bucket\<close>); \<open>nm_message\<close> follows one.
  Objects are passed as non-NULL values; the NULL checks on the other arguments are kept
  (\<open>None\<close>).  The clock is an argument.  What \<open>network_manager\_create\<close> reads from the configuration
  string is a parameter: \<open>None\<close> for no string, otherwise the integer under a name, if any.

  The invariant \<open>nm_inv\<close> says that every reference in the queue leads to a fragment in the
  outgoing packets of an endpoint; the lemmas show that every operation keeps it and
  what it does, also for the expired packets it destroys on the way.
\<close>

section \<open>Endpoints\<close>

record endpoint =
  ep_node :: nodeID
  ep_incoming :: packet_bucket
  ep_outgoing :: packet_bucket
  ep_out_id :: u16

definition ep_key :: "endpoint \<Rightarrow> node_name" where
  "ep_key e = node_key (ep_node e)"

definition endpoint_cmp :: "endpoint \<Rightarrow> endpoint \<Rightarrow> int" where
  "endpoint_cmp e1 e2 =
     (if nodeid_equal (Some (ep_node e1)) (Some (ep_node e2)) \<noteq> 0 then 0
      else if nodeid_cmp (Some (ep_node e1)) (Some (ep_node e2)) > 0 then 1 else -1)"

definition endpoint_create :: "nodeID \<Rightarrow> nat \<Rightarrow> u16 \<Rightarrow> endpoint" where
  "endpoint_create node frag_size max_pkt_age =
     \<lparr>ep_node = node,
      ep_incoming = packet_bucket_create frag_size max_pkt_age,
      ep_outgoing = packet_bucket_create frag_size max_pkt_age,
      ep_out_id = 0\<rparr>"

definition endpoint_destroy :: "endpoint \<Rightarrow> send_queue \<Rightarrow> send_queue option" where
  "endpoint_destroy e q =
     (case packet_bucket_destroy (Incoming (ep_key e)) (ep_incoming e) q of
        None \<Rightarrow> None
      | Some q' \<Rightarrow> packet_bucket_destroy (Outgoing (ep_key e)) (ep_outgoing e) q')"

definition endpoint_enqueue_outgoing_packet ::
  "int \<Rightarrow> endpoint \<Rightarrow> nodeID option \<Rightarrow> bytes option \<Rightarrow> send_queue \<Rightarrow>
   (endpoint \<times> send_queue \<times> msg_ref list option) c_result" where
  "endpoint_enqueue_outgoing_packet now e src data q =
     (if src \<noteq> None \<and> data \<noteq> None \<and> length (the data) > 0 then
        c_bind (packet_bucket_add_packet now (Outgoing (ep_key e)) (ep_outgoing e) src (Some (ep_node e))
                  (ep_out_id e) data q) (\<lambda>(pb, q', l).
          Inr (e\<lparr>ep_outgoing := pb, ep_out_id := ep_out_id e + 1\<rparr>, q', l))
      else Inr (e, q, None))"

definition endpoint_add_incoming_fragment ::
  "int \<Rightarrow> endpoint \<Rightarrow> fragment \<Rightarrow> send_queue \<Rightarrow> frag_request list \<Rightarrow>
   (packet_state \<times> endpoint \<times> send_queue \<times> frag_request list) c_result" where
  "endpoint_add_incoming_fragment now e f q requests =
     c_bind (packet_bucket_add_fragment now (Incoming (ep_key e)) (ep_incoming e) f q requests)
       (\<lambda>(res, pb, q', requests'). Inr (res, e\<lparr>ep_incoming := pb\<rparr>, q', requests'))"

definition endpoint_pop_incoming_packet ::
  "int \<Rightarrow> endpoint \<Rightarrow> u16 \<Rightarrow> nat \<Rightarrow> send_queue \<Rightarrow>
   (int \<times> bytes \<times> nat \<times> endpoint \<times> send_queue) c_result" where
  "endpoint_pop_incoming_packet now e pid sz q =
     c_bind (packet_bucket_pop_packet now (Incoming (ep_key e)) (ep_incoming e) pid sz q)
       (\<lambda>(res, out, sz', pb, q'). Inr (res, out, sz', e\<lparr>ep_incoming := pb\<rparr>, q'))"

definition endpoint_get_outgoing_fragment ::
  "int \<Rightarrow> endpoint \<Rightarrow> u16 \<Rightarrow> u16 \<Rightarrow> send_queue \<Rightarrow> (msg_ref option \<times> endpoint \<times> send_queue) c_result" where
  "endpoint_get_outgoing_fragment now e pid fid q =
     c_bind (packet_bucket_get_fragment now (Outgoing (ep_key e)) (ep_outgoing e) pid fid q)
       (\<lambda>(f, pb, q'). Inr (f, e\<lparr>ep_outgoing := pb\<rparr>, q'))"

section \<open>The manager\<close>

record network_manager =
  nm_outqueue :: send_queue
  nm_endpoints :: "endpoint ord_set"
  nm_frag_size :: nat
  nm_max_pkt_age :: u16

definition DEFAULT_FRAG_SIZE :: int where
  "DEFAULT_FRAG_SIZE = 1200"

definition DEFAULT_PKT_MAX_AGE :: int where
  "DEFAULT_PKT_MAX_AGE = 4"

definition config_int :: "(string \<Rightarrow> int option) option \<Rightarrow> string \<Rightarrow> int \<Rightarrow> int" where
  "config_int config name dflt =
     (case config of None \<Rightarrow> dflt | Some tags \<Rightarrow> (case tags name of None \<Rightarrow> dflt | Some v \<Rightarrow> v))"

text \<open>The assignments convert an \<open>int\<close> to \<open>size_t\<close> (64 bits) and to \<open>uint16_t\<close>.\<close>

definition network_manager_create :: "(string \<Rightarrow> int option) option \<Rightarrow> network_manager" where
  "network_manager_create config =
     \<lparr>nm_outqueue = [],
      nm_endpoints = the (ord_set_new 10 (Some endpoint_cmp)),
      nm_frag_size = nat (config_int config ''frag_size'' DEFAULT_FRAG_SIZE mod 2 ^ 64),
      nm_max_pkt_age = of_int (config_int config ''max_pkt_age'' DEFAULT_PKT_MAX_AGE)\<rparr>"

text \<open>The search key is the address of a node pointer, read as an endpoint whose first field
  that pointer is; only the node counts.\<close>

definition dummy_endpoint :: "nodeID \<Rightarrow> endpoint" where
  "dummy_endpoint node = endpoint_create node 0 0"

definition nm_find :: "network_manager \<Rightarrow> nodeID \<Rightarrow> endpoint option" where
  "nm_find nm node = os_find endpoint_cmp (nm_endpoints nm) (dummy_endpoint node)"

text \<open>\<open>nm_endpoint\<close>: the endpoint of a node, created and inserted when there is none.  \<open>nm_store\<close>
  writes back what an operation did to the endpoint behind its pointer.\<close>

definition nm_endpoint :: "network_manager \<Rightarrow> nodeID \<Rightarrow> endpoint \<times> network_manager" where
  "nm_endpoint nm node =
     (case nm_find nm node of
        Some e \<Rightarrow> (e, nm)
      | None \<Rightarrow>
          let e = endpoint_create node (nm_frag_size nm) (nm_max_pkt_age nm)
          in (e, nm\<lparr>nm_endpoints := fst (os_insert endpoint_cmp (nm_endpoints nm) e False)\<rparr>))"

definition nm_store :: "network_manager \<Rightarrow> endpoint \<Rightarrow> send_queue \<Rightarrow> network_manager" where
  "nm_store nm e q = nm\<lparr>nm_endpoints := os_update endpoint_cmp (nm_endpoints nm) e, nm_outqueue := q\<rparr>"

definition network_manager_enqueue_outgoing_packet ::
  "int \<Rightarrow> network_manager \<Rightarrow> nodeID option \<Rightarrow> nodeID option \<Rightarrow> bytes option \<Rightarrow>
   (int \<times> network_manager) c_result" where
  "network_manager_enqueue_outgoing_packet now nm src dst data =
     (case (dst, data) of
        (Some t, Some d) \<Rightarrow>
          if length d > 0 then
            (case nm_endpoint nm t of (e, nm1) \<Rightarrow>
              c_bind (endpoint_enqueue_outgoing_packet now e src data (nm_outqueue nm1)) (\<lambda>(e', q, frag_list).
                case frag_list of
                  Some l \<Rightarrow> Inr (0, nm_store nm1 e' (l @ q))
                | None \<Rightarrow> Inr (-1, nm_store nm1 e' q)))
          else Inr (-1, nm)
      | _ \<Rightarrow> Inr (-1, nm))"

definition network_manager_pop_outgoing_net_msg :: "network_manager \<Rightarrow> msg_ref option \<times> network_manager" where
  "network_manager_pop_outgoing_net_msg nm =
     (case nm_outqueue nm of
        [] \<Rightarrow> (None, nm)
      | m # q \<Rightarrow> (Some m, nm\<lparr>nm_outqueue := q\<rparr>))"

definition network_manager_add_incoming_fragment ::
  "int \<Rightarrow> network_manager \<Rightarrow> fragment option \<Rightarrow> (packet_state \<times> network_manager) c_result" where
  "network_manager_add_incoming_fragment now nm frag =
     (case frag of
        None \<Rightarrow> Inr (PKT_ERROR, nm)
      | Some f \<Rightarrow>
          (case nm_endpoint nm (f_from f) of (e, nm1) \<Rightarrow>
            c_bind (endpoint_add_incoming_fragment now e f (nm_outqueue nm1) []) (\<lambda>(res, e', q, requests).
              Inr (res, nm_store nm1 e' (map Req_ref requests @ q)))))"

text \<open>Return value, bytes written to the buffer, new value of \<open>*size\<close>.\<close>

definition network_manager_pop_incoming_packet ::
  "int \<Rightarrow> network_manager \<Rightarrow> nodeID option \<Rightarrow> u16 \<Rightarrow> nat \<Rightarrow> (int \<times> bytes \<times> nat \<times> network_manager) c_result" where
  "network_manager_pop_incoming_packet now nm src pid sz =
     (case src of
        None \<Rightarrow> Inr (-1, [], sz, nm)
      | Some s \<Rightarrow>
          (case nm_find nm s of
             Some e \<Rightarrow>
               c_bind (endpoint_pop_incoming_packet now e pid sz (nm_outqueue nm)) (\<lambda>(res, out, sz', e', q).
                 Inr (res, out, sz', nm_store nm e' q))
           | None \<Rightarrow> Inr (-2, [], sz, nm)))"

definition network_manager_enqueue_outgoing_fragment ::
  "int \<Rightarrow> network_manager \<Rightarrow> nodeID option \<Rightarrow> u16 \<Rightarrow> u16 \<Rightarrow> (int \<times> network_manager) c_result" where
  "network_manager_enqueue_outgoing_fragment now nm dst pid fid =
     (case dst of
        None \<Rightarrow> Inr (-1, nm)
      | Some t \<Rightarrow>
          (case nm_find nm t of
             None \<Rightarrow> Inr (-2, nm)
           | Some e \<Rightarrow>
               c_bind (endpoint_get_outgoing_fragment now e pid fid (nm_outqueue nm)) (\<lambda>(f, e', q).
                 case f of
                   None \<Rightarrow> Inr (-2, nm_store nm e' q)
                 | Some r \<Rightarrow> if r \<notin> set q then Inr (0, nm_store nm e' (q @ [r]))
                             else Inr (1, nm_store nm e' q))))"

definition network_manager_outgoing_queue_ready :: "network_manager option \<Rightarrow> int" where
  "network_manager_outgoing_queue_ready nm =
     (case nm of Some m \<Rightarrow> if nm_outqueue m \<noteq> [] then 1 else 0 | None \<Rightarrow> 0)"

text \<open>\<open>network_manager_destroy\<close> destroys the endpoints (the loop restarts from the last, as in
  \<open>packet_bucket_destroy\<close>) and then frees every message left in the queue as a fragment request;
  a fragment there would be an element of an array, which cannot be freed.\<close>

partial_function (option) destroy_endpoints ::
  "endpoint ord_set \<Rightarrow> send_queue \<Rightarrow> send_queue option" where
  "destroy_endpoints os q =
     (case fst (ord_set_iter_safe endpoint_cmp os None None) of
        None \<Rightarrow> Some q
      | Some e \<Rightarrow>
          (case endpoint_destroy e q of
             None \<Rightarrow> None
           | Some q' \<Rightarrow> destroy_endpoints (fst (os_remove endpoint_cmp os e)) q'))"

fun free_requests :: "send_queue \<Rightarrow> unit c_result" where
  "free_requests [] = Inr ()"
| "free_requests (Req_ref fr # q) = free_requests q"
| "free_requests (Frag_ref b pid fid # q) = Inl Invalid_Free"

definition network_manager_destroy :: "network_manager \<Rightarrow> unit c_result option" where
  "network_manager_destroy nm = map_option free_requests (destroy_endpoints (nm_endpoints nm) (nm_outqueue nm))"

text \<open>The message a reference leads to.\<close>

definition nm_content :: "network_manager \<Rightarrow> node_name \<Rightarrow> endpoint option" where
  "nm_content nm = os_content ep_key (nm_endpoints nm)"

definition nm_message :: "network_manager \<Rightarrow> msg_ref \<Rightarrow> net_msg option" where
  "nm_message nm r =
     (case r of
        Req_ref fr \<Rightarrow> Some (Request_msg fr)
      | Frag_ref (Incoming k) pid fid \<Rightarrow> None
      | Frag_ref (Outgoing k) pid fid \<Rightarrow>
          (case nm_content nm k of
             None \<Rightarrow> None
           | Some e \<Rightarrow>
               (case pb_deref (ep_outgoing e) pid of
                  None \<Rightarrow> None
                | Some fp \<Rightarrow> map_option Fragment_msg (fragmented_packet_fragment fp fid))))"

section \<open>The invariant\<close>

interpretation endpoint_order: cmp_key endpoint_cmp ep_key
proof
  fix x y z :: endpoint
  note flip = nodeid_cmp_flip [of "ep_node x" "ep_node y"] nodeid_cmp_flip [of "ep_node y" "ep_node x"]
  have sgn: "(endpoint_cmp a b < 0) = (nodeid_cmp (Some (ep_node a)) (Some (ep_node b)) < 0)"
    "(endpoint_cmp a b > 0) = (nodeid_cmp (Some (ep_node a)) (Some (ep_node b)) > 0)"
    "(endpoint_cmp a b = 0) = (nodeid_cmp (Some (ep_node a)) (Some (ep_node b)) = 0)" for a b
    by (auto simp: endpoint_cmp_def nodeid_equal_def)
  show "endpoint_cmp x y = 0 \<longleftrightarrow> ep_key x = ep_key y"
    by (simp add: sgn nodeid_cmp_zero ep_key_def)
  show "endpoint_cmp x x = 0"
    by (simp add: sgn nodeid_cmp_zero)
  show "endpoint_cmp x y < 0 \<longleftrightarrow> endpoint_cmp y x > 0"
    using flip by (simp add: sgn)
  have le: "endpoint_cmp a b \<le> 0 \<longleftrightarrow> nodeid_cmp (Some (ep_node a)) (Some (ep_node b)) \<le> 0" for a b
    using sgn(2) [of a b] by linarith
  show "endpoint_cmp x y \<le> 0 \<Longrightarrow> endpoint_cmp y z \<le> 0 \<Longrightarrow> endpoint_cmp x z \<le> 0"
    unfolding le by (rule nodeid_cmp_trans)
qed

definition ep_wf :: "network_manager \<Rightarrow> endpoint \<Rightarrow> bool" where
  "ep_wf nm e \<longleftrightarrow> pb_wf (ep_incoming e) \<and> pb_wf (ep_outgoing e) \<and>
     pb_frag_size (ep_outgoing e) = nm_frag_size nm \<and> pb_max_pkt_age (ep_outgoing e) = nm_max_pkt_age nm \<and>
     pb_frag_size (ep_incoming e) = nm_frag_size nm \<and> pb_max_pkt_age (ep_incoming e) = nm_max_pkt_age nm"

definition nm_inv :: "network_manager \<Rightarrow> bool" where
  "nm_inv nm \<longleftrightarrow> endpoint_order.os_wf (nm_endpoints nm) \<and>
     (\<forall>e \<in> set (os_elements (nm_endpoints nm)). ep_wf nm e) \<and>
     frags_distinct (nm_outqueue nm) \<and>
     (\<forall>r \<in> set (nm_outqueue nm). nm_message nm r \<noteq> None)"

lemma nm_message_frag:
  "nm_message nm (Frag_ref b pid fid) \<noteq> None \<longleftrightarrow>
   (\<exists>k e. b = Outgoing k \<and> nm_content nm k = Some e \<and>
      (\<exists>fp. pb_deref (ep_outgoing e) pid = Some fp \<and> unat fid < fp_frag_num fp))"
  by (cases b) (auto simp: nm_message_def fragmented_packet_fragment_def split: option.splits)

lemma nm_message_req [simp]: "nm_message nm (Req_ref fr) = Some (Request_msg fr)"
  by (simp add: nm_message_def)

lemma nm_content_Some:
  "nm_inv nm \<Longrightarrow> nm_content nm k = Some e \<longleftrightarrow> e \<in> set (os_elements (nm_endpoints nm)) \<and> ep_key e = k"
  by (simp add: nm_inv_def nm_content_def endpoint_order.os_content_Some)

lemma nm_inv_ep: "nm_inv nm \<Longrightarrow> nm_content nm k = Some e \<Longrightarrow> ep_wf nm e \<and> ep_key e = k"
  by (simp add: nm_content_Some) (simp add: nm_inv_def)

lemma nm_invI:
  assumes "endpoint_order.os_wf (nm_endpoints nm)"
    and "\<And>k e. nm_content nm k = Some e \<Longrightarrow> ep_wf nm e"
    and "frags_distinct (nm_outqueue nm)"
    and "\<And>b pid fid. Frag_ref b pid fid \<in> set (nm_outqueue nm) \<Longrightarrow> nm_message nm (Frag_ref b pid fid) \<noteq> None"
  shows "nm_inv nm"
proof -
  have "ep_wf nm e" if "e \<in> set (os_elements (nm_endpoints nm))" for e
    using assms(2) [of "ep_key e" e] that assms(1)
    by (simp add: nm_content_def endpoint_order.os_content_Some)
  moreover have "nm_message nm r \<noteq> None" if "r \<in> set (nm_outqueue nm)" for r
    by (cases r) (use that assms(4) in simp_all)
  ultimately show ?thesis using assms(1,3) by (simp add: nm_inv_def)
qed

lemma nm_inv_create [simp]: "nm_inv (network_manager_create config)"
  by (auto simp: nm_inv_def network_manager_create_def ord_set_new_def endpoint_order.os_wf_def
      endpoint_order.sorted_set_def frags_distinct_def)

lemma nm_inv_refs:
  assumes "nm_inv nm" and "nm_content nm k = Some e"
  shows "refs_ok (Outgoing k) (ep_outgoing e) (nm_outqueue nm)" and "no_refs (Incoming k') (nm_outqueue nm)"
proof -
  have r: "Frag_ref b pid fid \<in> set (nm_outqueue nm) \<Longrightarrow> nm_message nm (Frag_ref b pid fid) \<noteq> None"
    for b pid fid using assms(1) by (simp add: nm_inv_def)
  show "refs_ok (Outgoing k) (ep_outgoing e) (nm_outqueue nm)"
    using r assms(2) unfolding nm_message_frag refs_ok_def by fastforce
  show "no_refs (Incoming k') (nm_outqueue nm)"
    using r unfolding nm_message_frag no_refs_def by blast
qed

lemma nm_find_content: "nm_inv nm \<Longrightarrow> nm_find nm node = nm_content nm (node_key node)"
  by (simp add: nm_inv_def nm_find_def nm_content_def endpoint_order.store.lookup_content
      dummy_endpoint_def endpoint_create_def ep_key_def)

text \<open>The endpoint of a node as the operations see it.\<close>

definition the_endpoint :: "network_manager \<Rightarrow> nodeID \<Rightarrow> endpoint" where
  "the_endpoint nm node =
     (case nm_content nm (node_key node) of
        Some e \<Rightarrow> e
      | None \<Rightarrow> endpoint_create node (nm_frag_size nm) (nm_max_pkt_age nm))"

lemma nm_endpoint_spec:
  assumes "nm_inv nm"
  obtains nm1 where "nm_endpoint nm node = (the_endpoint nm node, nm1)" and "nm_inv nm1"
    and "nm_content nm1 = (nm_content nm)(node_key node \<mapsto> the_endpoint nm node)"
    and "nm_outqueue nm1 = nm_outqueue nm" and "nm_frag_size nm1 = nm_frag_size nm"
    and "nm_max_pkt_age nm1 = nm_max_pkt_age nm"
proof (cases "nm_content nm (node_key node)")
  case (Some e)
  then show ?thesis
    using that [of nm] assms
    by (simp add: nm_endpoint_def nm_find_content the_endpoint_def fun_upd_idem)
next
  case None
  define e where "e = endpoint_create node (nm_frag_size nm) (nm_max_pkt_age nm)"
  define nm1 where "nm1 = nm\<lparr>nm_endpoints := fst (os_insert endpoint_cmp (nm_endpoints nm) e False)\<rparr>"
  have k: "ep_key e = node_key node" by (simp add: e_def endpoint_create_def ep_key_def)
  have wf: "endpoint_order.os_wf (nm_endpoints nm)" using assms by (simp add: nm_inv_def)
  have c: "nm_content nm1 = (nm_content nm)(node_key node \<mapsto> e)"
    using endpoint_order.store.content_insert [OF wf, of e] None k by (simp add: nm1_def nm_content_def)
  have "nm_inv nm1"
  proof (rule nm_invI)
    show "endpoint_order.os_wf (nm_endpoints nm1)"
      using endpoint_order.store.wf_insert [OF wf] by (simp add: nm1_def)
    show "frags_distinct (nm_outqueue nm1)" using assms by (simp add: nm1_def nm_inv_def)
    show "ep_wf nm1 e'" if "nm_content nm1 k' = Some e'" for k' e'
    proof (cases "k' = node_key node")
      case True
      then have "e' = e" using that c by simp
      then show ?thesis by (simp add: ep_wf_def nm1_def e_def endpoint_create_def)
    next
      case False
      then show ?thesis using that c nm_inv_ep [OF assms, of k' e'] by (simp add: ep_wf_def nm1_def)
    qed
    show "nm_message nm1 (Frag_ref b pid fid) \<noteq> None" if "Frag_ref b pid fid \<in> set (nm_outqueue nm1)"
      for b pid fid
    proof -
      have "nm_message nm (Frag_ref b pid fid) \<noteq> None" using that assms by (simp add: nm1_def nm_inv_def)
      then show ?thesis unfolding nm_message_frag c using None by fastforce
    qed
  qed
  moreover have "nm_endpoint nm node = (e, nm1)"
    using None assms by (simp add: nm_endpoint_def nm_find_content e_def nm1_def Let_def)
  ultimately show ?thesis
    using that [of nm1] c None by (simp add: the_endpoint_def e_def [symmetric]) (simp add: nm1_def)
qed

text \<open>Writing back an endpoint keeps the invariant if the references into the others are old ones
  and those into its outgoing packets are sound.\<close>

lemma nm_store_spec:
  assumes inv: "nm_inv nm" and e: "nm_content nm k = Some e" and key: "ep_key e' = k" and wf: "ep_wf nm e'"
    and dist: "frags_distinct q" and refs: "refs_ok (Outgoing k) (ep_outgoing e') q"
    and old: "\<And>b pid fid. Frag_ref b pid fid \<in> set q \<Longrightarrow> b \<noteq> Outgoing k \<Longrightarrow>
      Frag_ref b pid fid \<in> set (nm_outqueue nm)"
  shows "nm_inv (nm_store nm e' q) \<and> nm_content (nm_store nm e' q) = (nm_content nm)(k \<mapsto> e')
    \<and> nm_outqueue (nm_store nm e' q) = q"
proof -
  let ?nm = "nm_store nm e' q"
  have os: "endpoint_order.os_wf (nm_endpoints nm)" using inv by (simp add: nm_inv_def)
  have c: "nm_content ?nm = (nm_content nm)(k \<mapsto> e')"
    using endpoint_order.store.content_overwrite [OF os, of e' e] key e
    by (simp add: nm_store_def nm_content_def)
  have "nm_inv ?nm"
  proof (rule nm_invI)
    show "endpoint_order.os_wf (nm_endpoints ?nm)"
      using endpoint_order.store.wf_overwrite [OF os] by (simp add: nm_store_def)
    show "frags_distinct (nm_outqueue ?nm)" using dist by (simp add: nm_store_def)
    show "ep_wf ?nm e2" if "nm_content ?nm k2 = Some e2" for k2 e2
    proof (cases "k2 = k")
      case True
      then show ?thesis using that c wf by (simp add: ep_wf_def nm_store_def)
    next
      case False
      then show ?thesis using that c nm_inv_ep [OF inv, of k2 e2] by (simp add: ep_wf_def nm_store_def)
    qed
    show "nm_message ?nm (Frag_ref b pid fid) \<noteq> None" if "Frag_ref b pid fid \<in> set (nm_outqueue ?nm)"
      for b pid fid
    proof (cases "b = Outgoing k")
      case True
      then show ?thesis using that refs unfolding nm_message_frag c by (force simp: refs_ok_def nm_store_def)
    next
      case False
      with that have "Frag_ref b pid fid \<in> set (nm_outqueue nm)" by (intro old) (auto simp: nm_store_def)
      then have "nm_message nm (Frag_ref b pid fid) \<noteq> None" using inv by (simp add: nm_inv_def)
      then show ?thesis using False unfolding nm_message_frag c by auto
    qed
  qed
  with c show ?thesis by (simp add: nm_store_def)
qed

section \<open>The operations under the invariant\<close>

lemma the_endpoint_wf:
  assumes "nm_inv nm"
  shows "ep_wf nm (the_endpoint nm node)" and "ep_key (the_endpoint nm node) = node_key node"
proof -
  have "ep_wf nm (the_endpoint nm node) \<and> ep_key (the_endpoint nm node) = node_key node"
  proof (cases "nm_content nm (node_key node)")
    case None
    then show ?thesis by (simp add: the_endpoint_def ep_wf_def endpoint_create_def ep_key_def)
  next
    case (Some e)
    then show ?thesis using nm_inv_ep [OF assms] by (simp add: the_endpoint_def)
  qed
  then show "ep_wf nm (the_endpoint nm node)" "ep_key (the_endpoint nm node) = node_key node" by simp_all
qed

lemma filter_frag_refs [simp]: "filter is_frag (fragment_refs b pid num) = fragment_refs b pid num"
  using fragment_refs_frag by (simp add: filter_id_conv)

lemma distinct_fragment_refs: "num \<le> 2 ^ 16 \<Longrightarrow> distinct (fragment_refs b pid num)"
proof -
  assume "num \<le> 2 ^ 16"
  then have "inj_on (\<lambda>i. Frag_ref b pid (of_nat i)) {0..<num}"
    by (auto simp: inj_on_def of_nat_eq_iff take_bit_nat_eq_self
        word_of_nat_eq_iff)
  then show ?thesis by (simp add: fragment_refs_def distinct_map)
qed

lemma filter_map_Req [simp]: "filter is_frag (map Req_ref frs) = []"
  by (induction frs) simp_all

lemma frags_distinct_append:
  "frags_distinct (p @ q) \<longleftrightarrow> frags_distinct p \<and> frags_distinct q \<and> (\<forall>r \<in> set p. is_frag r \<longrightarrow> r \<notin> set q)"
  by (auto simp: frags_distinct_def)

text \<open>The references of a packet just added, in front of those of the bucket before it.\<close>

lemma new_refs:
  assumes q: "refs_ok b pb' q" "frags_distinct q" and new: "pb_deref pb' pid = None"
    and pb: "pb_deref pb'' = (pb_deref pb')(pid \<mapsto> fp)" and n: "fp_frag_num fp \<le> 2 ^ 16"
  shows "frags_distinct (fragment_refs b pid (fp_frag_num fp) @ q)" and "refs_ok b pb'' (fragment_refs b pid (fp_frag_num fp) @ q)"
proof -
  have "Frag_ref b pid i \<notin> set q" for i using q(1) new by (fastforce simp: refs_ok_def)
  then show "frags_distinct (fragment_refs b pid (fp_frag_num fp) @ q)"
    using distinct_fragment_refs [OF n] q(2) unfolding frags_distinct_append
    by (auto simp: frags_distinct_def in_fragment_refs)
  show "refs_ok b pb'' (fragment_refs b pid (fp_frag_num fp) @ q)"
    unfolding refs_ok_def
  proof (intro allI impI)
    fix p fid
    assume "Frag_ref b p fid \<in> set (fragment_refs b pid (fp_frag_num fp) @ q)"
    then consider (new) i where "i < fp_frag_num fp" "p = pid" "fid = of_nat i" | (old) "Frag_ref b p fid \<in> set q"
      by (auto simp: in_fragment_refs)
    then show "\<exists>x. pb_deref pb'' p = Some x \<and> unat fid < fp_frag_num x"
    proof cases
      case old
      then obtain x where "pb_deref pb' p = Some x" "unat fid < fp_frag_num x" using q(1) unfolding refs_ok_def by blast
      then show ?thesis using new by (cases "p = pid") (simp_all add: pb)
    qed (use n in \<open>simp add: pb unat_of_nat take_bit_nat_eq_self\<close>)
  qed
qed

text \<open>Sending a packet: the number is the endpoint's counter, the expired outgoing packets of that
  endpoint go, the fragments of the new one go to the front of the queue.\<close>

lemma enqueue_outgoing_packet_spec:
  fixes nm :: network_manager and dst src :: nodeID
  defines "e \<equiv> the_endpoint nm dst" and "k \<equiv> node_key dst"
  assumes inv: "nm_inv nm" and d: "d \<noteq> []" and fs: "0 < nm_frag_size nm"
    and free: "ep_out_id e \<notin> set (dropWhile (expired now (ep_outgoing e)) (pb_list (ep_outgoing e)))"
  obtains nm' pb' pb'' fp where
    "network_manager_enqueue_outgoing_packet now nm (Some src) (Some dst) (Some d) = Inr (0, nm')"
    and "nm_inv nm'" and "refreshed now (ep_outgoing e) pb'"
    and "fragmented_packet_create now (ep_out_id e) src (ep_node e) (Some d) (nm_frag_size nm) = Some fp"
    and "nm_content nm' = (nm_content nm)(k \<mapsto> e\<lparr>ep_outgoing := pb'', ep_out_id := ep_out_id e + 1\<rparr>)"
    and "pb_wf pb''" and "pb_deref pb'' = (pb_deref pb')(ep_out_id e \<mapsto> fp)"
    and "nm_outqueue nm' = fragment_refs (Outgoing k) (ep_out_id e) (fp_frag_num fp) @
      filter (keep_ref (Outgoing k) (\<lambda>p. p \<in> set (pb_list pb'))) (nm_outqueue nm)"
proof -
  obtain nm1 where nm1: "nm_endpoint nm dst = (e, nm1)" "nm_inv nm1"
    "nm_content nm1 = (nm_content nm)(k \<mapsto> e)" "nm_outqueue nm1 = nm_outqueue nm"
    "nm_frag_size nm1 = nm_frag_size nm" "nm_max_pkt_age nm1 = nm_max_pkt_age nm"
    using nm_endpoint_spec [OF inv, of dst] unfolding e_def k_def by blast
  have c1: "nm_content nm1 k = Some e" by (simp add: nm1(3))
  have e: "ep_wf nm1 e" "ep_key e = k" using nm_inv_ep [OF nm1(2) c1] by auto
  have q: "frags_distinct (nm_outqueue nm)" using inv by (simp add: nm_inv_def)
  have refs: "refs_ok (Outgoing k) (ep_outgoing e) (nm_outqueue nm)"
    using nm_inv_refs(1) [OF nm1(2) c1] by (simp add: nm1(4))
  have pb: "pb_wf (ep_outgoing e)" "pb_frag_size (ep_outgoing e) = nm_frag_size nm"
    using e(1) by (simp_all add: ep_wf_def nm1)
  obtain pb' pb'' fp where add:
    "packet_bucket_add_packet now (Outgoing k) (ep_outgoing e) (Some src) (Some (ep_node e)) (ep_out_id e)
       (Some d) (nm_outqueue nm) = Inr (pb'', filter (keep_ref (Outgoing k) (\<lambda>p. p \<in> set (pb_list pb'))) (nm_outqueue nm),
           Some (fragment_refs (Outgoing k) (ep_out_id e) (fp_frag_num fp)))"
    and r: "refreshed now (ep_outgoing e) pb'"
    and fp0: "fragmented_packet_create now (ep_out_id e) src (ep_node e) (Some d) (pb_frag_size (ep_outgoing e)) = Some fp"
    and wf'': "pb_wf pb''" and deref'': "pb_deref pb'' = (pb_deref pb')(ep_out_id e \<mapsto> fp)"
    and sz: "pb_frag_size pb'' = pb_frag_size (ep_outgoing e)" "pb_max_pkt_age pb'' = pb_max_pkt_age (ep_outgoing e)"
    using add_packet_spec [OF pb(1) q refs d fs [folded pb(2)] free] by blast
  note fp = fp0 [unfolded pb(2)]
  define q' where "q' = filter (keep_ref (Outgoing k) (\<lambda>p. p \<in> set (pb_list pb'))) (nm_outqueue nm)"
  define e' where "e' = e\<lparr>ep_outgoing := pb'', ep_out_id := ep_out_id e + 1\<rparr>"
  define nq where "nq = fragment_refs (Outgoing k) (ep_out_id e) (fp_frag_num fp) @ q'"
  have n: "fp_frag_num fp \<le> 2 ^ 16"
    using created_frag_num [OF fp] by simp
  have "ep_out_id e \<notin> dom (pb_deref pb')"
  proof -
    have "pb_wf pb'" using r by (simp add: refreshed_def)
    from pb_deref_list [OF this] show ?thesis using r free by (simp add: refreshed_def)
  qed
  then have deref': "pb_deref pb' (ep_out_id e) = None" by auto
  have q': "refs_ok (Outgoing k) pb' q'" unfolding q'_def by (rule refs_ok_refreshed [OF refs r])
  have "frags_distinct q'" using q by (simp add: q'_def)
  from new_refs [OF q' this deref' deref'' n] have dist: "frags_distinct nq" and ok: "refs_ok (Outgoing k) (ep_outgoing e') nq"
    by (simp_all add: nq_def e'_def)
  have st: "nm_inv (nm_store nm1 e' nq) \<and> nm_content (nm_store nm1 e' nq) = (nm_content nm1)(k \<mapsto> e')
    \<and> nm_outqueue (nm_store nm1 e' nq) = nq"
  proof (rule nm_store_spec [OF nm1(2) c1 _ _ dist ok])
    show "ep_key e' = k" using e(2) by (simp add: e'_def ep_key_def)
    show "ep_wf nm1 e'" using e(1) wf'' sz by (simp add: ep_wf_def e'_def)
    show "Frag_ref b pid fid \<in> set (nm_outqueue nm1)"
      if "Frag_ref b pid fid \<in> set nq" "b \<noteq> Outgoing k" for b pid fid
      using that by (auto simp: nq_def in_fragment_refs q'_def nm1(4))
  qed
  show ?thesis
  proof (rule that [of "nm_store nm1 e' nq" pb' fp pb''])
    show "network_manager_enqueue_outgoing_packet now nm (Some src) (Some dst) (Some d) = Inr (0, nm_store nm1 e' nq)"
      using d add by (simp add: network_manager_enqueue_outgoing_packet_def nm1(1,4)
          endpoint_enqueue_outgoing_packet_def e(2) e'_def nq_def q'_def)
  qed (use st r fp wf'' deref'' in \<open>simp_all add: e'_def nq_def q'_def nm1(3)\<close>)
qed

text \<open>If the number is still in use, or fragments have size 0, sending goes wrong.\<close>

lemma enqueue_outgoing_packet_faults:
  fixes nm :: network_manager and dst src :: nodeID
  defines "e \<equiv> the_endpoint nm dst"
  assumes inv: "nm_inv nm" and d: "d \<noteq> []"
  shows "nm_frag_size nm = 0 \<Longrightarrow>
      network_manager_enqueue_outgoing_packet now nm (Some src) (Some dst) (Some d) = Inl Null_Deref"
    and "0 < nm_frag_size nm \<Longrightarrow>
      ep_out_id e \<in> set (dropWhile (expired now (ep_outgoing e)) (pb_list (ep_outgoing e))) \<Longrightarrow>
      network_manager_enqueue_outgoing_packet now nm (Some src) (Some dst) (Some d) = Inl Use_After_Free"
proof -
  let ?k = "node_key dst"
  obtain nm1 where nm1: "nm_endpoint nm dst = (e, nm1)" "nm_inv nm1"
    "nm_content nm1 = (nm_content nm)(?k \<mapsto> e)" "nm_outqueue nm1 = nm_outqueue nm"
    "nm_frag_size nm1 = nm_frag_size nm"
    using nm_endpoint_spec [OF inv, of dst] unfolding e_def by blast
  have c1: "nm_content nm1 ?k = Some e" by (simp add: nm1(3))
  have e: "ep_wf nm1 e" "ep_key e = ?k" using nm_inv_ep [OF nm1(2) c1] by auto
  have pre: "pb_wf (ep_outgoing e)" "frags_distinct (nm_outqueue nm)"
    "refs_ok (Outgoing ?k) (ep_outgoing e) (nm_outqueue nm)" "pb_frag_size (ep_outgoing e) = nm_frag_size nm"
    using e(1) inv nm_inv_refs(1) [OF nm1(2) c1] by (simp_all add: ep_wf_def nm_inv_def nm1)
  note faults = add_packet_faults [OF pre(1-3) d]
  show "network_manager_enqueue_outgoing_packet now nm (Some src) (Some dst) (Some d) = Inl Null_Deref"
    if "nm_frag_size nm = 0"
    using faults(1) that pre(4) d by (simp add: network_manager_enqueue_outgoing_packet_def nm1(1,4)
        endpoint_enqueue_outgoing_packet_def e(2))
  show "network_manager_enqueue_outgoing_packet now nm (Some src) (Some dst) (Some d) = Inl Use_After_Free"
    if "0 < nm_frag_size nm"
      "ep_out_id e \<in> set (dropWhile (expired now (ep_outgoing e)) (pb_list (ep_outgoing e)))"
    using faults(2) that pre(4) d by (simp add: network_manager_enqueue_outgoing_packet_def nm1(1,4)
        endpoint_enqueue_outgoing_packet_def e(2))
qed

text \<open>Writing back an endpoint whose outgoing packets did not change.\<close>

lemma nm_store_incoming:
  fixes rs :: "frag_request list"
  assumes inv: "nm_inv nm" and e: "nm_content nm k = Some e" and wf: "pb_wf pb"
    and sz: "pb_frag_size pb = nm_frag_size nm" "pb_max_pkt_age pb = nm_max_pkt_age nm"
  defines "nm' \<equiv> nm_store nm (e\<lparr>ep_incoming := pb\<rparr>) (map Req_ref rs @ nm_outqueue nm)"
  shows "nm_inv nm' \<and> nm_content nm' = (nm_content nm)(k \<mapsto> e\<lparr>ep_incoming := pb\<rparr>)
    \<and> nm_outqueue nm' = map Req_ref rs @ nm_outqueue nm"
  unfolding nm'_def
proof (rule nm_store_spec [OF inv e])
  have ek: "ep_wf nm e \<and> ep_key e = k" by (rule nm_inv_ep [OF inv e])
  then show "ep_key (e\<lparr>ep_incoming := pb\<rparr>) = k" by (simp add: ep_key_def)
  show "ep_wf nm (e\<lparr>ep_incoming := pb\<rparr>)" using ek wf sz by (simp add: ep_wf_def)
  show "frags_distinct (map Req_ref rs @ nm_outqueue nm)"
    using inv by (simp add: nm_inv_def frags_distinct_def)
  show "refs_ok (Outgoing k) (ep_outgoing (e\<lparr>ep_incoming := pb\<rparr>)) (map Req_ref rs @ nm_outqueue nm)"
    using nm_inv_refs(1) [OF inv e] by (auto simp: refs_ok_def)
qed auto

text \<open>Receiving a fragment: it is written into its packet, which is created if need be; the
  requests go to the front of the queue.\<close>

lemma add_incoming_fragment_spec:
  fixes nm :: network_manager and f :: fragment
  defines "e \<equiv> the_endpoint nm (f_from f)" and "k \<equiv> node_key (f_from f)"
  assumes inv: "nm_inv nm"
  obtains nm' pb' pb'' where
    "network_manager_add_incoming_fragment now nm (Some f) =
      Inr (fst (fragmented_packet_write_fragment (received_packet now pb' f) f []), nm')"
    and "nm_inv nm'" and "refreshed now (ep_incoming e) pb'" and "pb_wf pb''"
    and "nm_content nm' = (nm_content nm)(k \<mapsto> e\<lparr>ep_incoming := pb''\<rparr>)"
    and "pb_deref pb'' = (pb_deref pb')(f_pid f \<mapsto>
      fst (snd (fragmented_packet_write_fragment (received_packet now pb' f) f [])))"
    and "nm_outqueue nm' =
      map Req_ref (snd (snd (fragmented_packet_write_fragment (received_packet now pb' f) f []))) @ nm_outqueue nm"
proof -
  obtain nm1 where nm1: "nm_endpoint nm (f_from f) = (e, nm1)" "nm_inv nm1"
    "nm_content nm1 = (nm_content nm)(k \<mapsto> e)" "nm_outqueue nm1 = nm_outqueue nm"
    "nm_frag_size nm1 = nm_frag_size nm" "nm_max_pkt_age nm1 = nm_max_pkt_age nm"
    using nm_endpoint_spec [OF inv, of "f_from f"] unfolding e_def k_def by blast
  have c1: "nm_content nm1 k = Some e" by (simp add: nm1(3))
  have e: "ep_wf nm1 e" "ep_key e = k" using nm_inv_ep [OF nm1(2) c1] by auto
  have pre: "pb_wf (ep_incoming e)" "frags_distinct (nm_outqueue nm)" "no_refs (Incoming k) (nm_outqueue nm)"
    using e(1) inv nm_inv_refs(2) [OF nm1(2) c1] by (simp_all add: ep_wf_def nm_inv_def nm1(4))
  obtain pb' pb'' where add: "packet_bucket_add_fragment now (Incoming k) (ep_incoming e) f (nm_outqueue nm) [] =
      (case fragmented_packet_write_fragment (received_packet now pb' f) f [] of
         (res, fp', requests') \<Rightarrow> Inr (res, pb'', nm_outqueue nm, requests'))"
    and r: "refreshed now (ep_incoming e) pb'" and wf: "pb_wf pb''"
    and deref: "pb_deref pb'' = (pb_deref pb')(f_pid f \<mapsto>
      fst (snd (fragmented_packet_write_fragment (received_packet now pb' f) f [])))"
    and sz: "pb_frag_size pb'' = pb_frag_size (ep_incoming e)" "pb_max_pkt_age pb'' = pb_max_pkt_age (ep_incoming e)"
    using add_fragment_spec [OF pre] by metis
  obtain res fp' rs where w: "fragmented_packet_write_fragment (received_packet now pb' f) f [] = (res, fp', rs)"
    by (metis prod_cases3)
  define nm' where "nm' = nm_store nm1 (e\<lparr>ep_incoming := pb''\<rparr>) (map Req_ref rs @ nm_outqueue nm1)"
  have st: "nm_inv nm' \<and> nm_content nm' = (nm_content nm1)(k \<mapsto> e\<lparr>ep_incoming := pb''\<rparr>)
    \<and> nm_outqueue nm' = map Req_ref rs @ nm_outqueue nm1"
    unfolding nm'_def using e(1) sz by (intro nm_store_incoming [OF nm1(2) c1 wf]) (simp_all add: ep_wf_def)
  have "network_manager_add_incoming_fragment now nm (Some f) = Inr (res, nm')"
    using add w by (simp add: network_manager_add_incoming_fragment_def nm1(1,4)
        endpoint_add_incoming_fragment_def e(2) nm'_def)
  then show ?thesis
    using that [of pb' nm' pb''] r wf deref st w by (simp add: nm1(3,4))
qed

text \<open>Taking a received packet out.\<close>

lemma pop_incoming_packet_spec:
  assumes inv: "nm_inv nm" and e: "nm_content nm (node_key src) = Some e"
  obtains pb' where "refreshed now (ep_incoming e) pb'"
    and "pb_deref pb' pid = None \<Longrightarrow>
      \<exists>nm'. network_manager_pop_incoming_packet now nm (Some src) pid sz = Inr (-2, [], sz, nm') \<and> nm_inv nm' \<and>
        nm_content nm' = (nm_content nm)(node_key src \<mapsto> e\<lparr>ep_incoming := pb'\<rparr>) \<and>
        nm_outqueue nm' = nm_outqueue nm"
    and "\<And>fp. pb_deref pb' pid = Some fp \<Longrightarrow>
      \<exists>nm' pb''. network_manager_pop_incoming_packet now nm (Some src) pid sz =
        (case fragmented_packet_dump_data fp sz of (res, out, n) \<Rightarrow> Inr (res, out, n, nm')) \<and> nm_inv nm' \<and>
        nm_content nm' = (nm_content nm)(node_key src \<mapsto> e\<lparr>ep_incoming := pb''\<rparr>) \<and>
        pb_wf pb'' \<and> pb_deref pb'' = (pb_deref pb')(pid := None) \<and> nm_outqueue nm' = nm_outqueue nm"
proof -
  let ?k = "node_key src"
  have ek: "ep_wf nm e" "ep_key e = ?k" using nm_inv_ep [OF inv e] by auto
  have pre: "pb_wf (ep_incoming e)" "frags_distinct (nm_outqueue nm)" "no_refs (Incoming ?k) (nm_outqueue nm)"
    using ek(1) inv nm_inv_refs(2) [OF inv e] by (simp_all add: ep_wf_def nm_inv_def)
  obtain pb' where r: "refreshed now (ep_incoming e) pb'"
    and none: "pb_deref pb' pid = None \<Longrightarrow>
      packet_bucket_pop_packet now (Incoming ?k) (ep_incoming e) pid sz (nm_outqueue nm) = Inr (-2, [], sz, pb', nm_outqueue nm)"
    and some: "\<And>fp. pb_deref pb' pid = Some fp \<Longrightarrow>
      \<exists>pb''. packet_bucket_pop_packet now (Incoming ?k) (ep_incoming e) pid sz (nm_outqueue nm) =
        (case fragmented_packet_dump_data fp sz of (res, out, n) \<Rightarrow> Inr (res, out, n, pb'', nm_outqueue nm)) \<and>
        pb_wf pb'' \<and> pb_deref pb'' = (pb_deref pb')(pid := None) \<and>
        pb_list pb'' = remove1 pid (pb_list pb') \<and>
        pb_frag_size pb'' = pb_frag_size (ep_incoming e) \<and> pb_max_pkt_age pb'' = pb_max_pkt_age (ep_incoming e)"
    by (rule pop_packet_spec [OF pre, of now pid sz]) (rule that; blast)
  have find: "nm_find nm src = Some e" using e by (simp add: nm_find_content [OF inv])
  have st: "nm_inv nm' \<and> nm_content nm' = (nm_content nm)(?k \<mapsto> e\<lparr>ep_incoming := pb\<rparr>)
      \<and> nm_outqueue nm' = nm_outqueue nm"
    if "nm' = nm_store nm (e\<lparr>ep_incoming := pb\<rparr>) (nm_outqueue nm)" "pb_wf pb"
      "pb_frag_size pb = pb_frag_size (ep_incoming e)" "pb_max_pkt_age pb = pb_max_pkt_age (ep_incoming e)" for pb nm'
    using nm_store_incoming [OF inv e, of pb "[]"] that ek(1) by (simp add: ep_wf_def)
  show thesis
  proof (rule that [OF r])
    assume "pb_deref pb' pid = None"
    with none st [OF refl, of pb'] r
    show "\<exists>nm'. network_manager_pop_incoming_packet now nm (Some src) pid sz = Inr (-2, [], sz, nm') \<and> nm_inv nm' \<and>
        nm_content nm' = (nm_content nm)(?k \<mapsto> e\<lparr>ep_incoming := pb'\<rparr>) \<and> nm_outqueue nm' = nm_outqueue nm"
      by (simp add: network_manager_pop_incoming_packet_def find endpoint_pop_incoming_packet_def ek(2) refreshed_def)
  next
    fix fp assume fp: "pb_deref pb' pid = Some fp"
    obtain res out n where d: "fragmented_packet_dump_data fp sz = (res, out, n)" by (metis prod_cases3)
    from some [OF fp] obtain pb'' where
      p: "packet_bucket_pop_packet now (Incoming ?k) (ep_incoming e) pid sz (nm_outqueue nm) = Inr (res, out, n, pb'', nm_outqueue nm)"
      and w: "pb_wf pb''" "pb_deref pb'' = (pb_deref pb')(pid := None)"
        "pb_frag_size pb'' = pb_frag_size (ep_incoming e)" "pb_max_pkt_age pb'' = pb_max_pkt_age (ep_incoming e)"
      by (auto simp: d)
    have "network_manager_pop_incoming_packet now nm (Some src) pid sz =
        Inr (res, out, n, nm_store nm (e\<lparr>ep_incoming := pb''\<rparr>) (nm_outqueue nm))"
      by (simp add: network_manager_pop_incoming_packet_def find endpoint_pop_incoming_packet_def ek(2) p)
    with st [OF refl w(1,3,4)] w(1,2)
    show "\<exists>nm' pb''. network_manager_pop_incoming_packet now nm (Some src) pid sz =
        (case fragmented_packet_dump_data fp sz of (res, out, n) \<Rightarrow> Inr (res, out, n, nm')) \<and> nm_inv nm' \<and>
        nm_content nm' = (nm_content nm)(?k \<mapsto> e\<lparr>ep_incoming := pb''\<rparr>) \<and>
        pb_wf pb'' \<and> pb_deref pb'' = (pb_deref pb')(pid := None) \<and> nm_outqueue nm' = nm_outqueue nm"
      unfolding d by auto
  qed
qed

text \<open>Asking for a fragment to be sent again.\<close>

lemma enqueue_outgoing_fragment_spec:
  fixes pid fid :: u16
  assumes inv: "nm_inv nm" and e: "nm_content nm (node_key dst) = Some e"
  defines "r \<equiv> Frag_ref (Outgoing (node_key dst)) pid fid"
  obtains pb' nm' where "refreshed now (ep_outgoing e) pb'" and "nm_inv nm'"
    and "nm_content nm' = (nm_content nm)(node_key dst \<mapsto> e\<lparr>ep_outgoing := pb'\<rparr>)"
    and "network_manager_enqueue_outgoing_fragment now nm (Some dst) pid fid =
      Inr (if nm_message nm' r = None then -2 else if r \<in> set (nm_outqueue nm) then 1 else 0, nm')"
    and "nm_outqueue nm' = filter (keep_ref (Outgoing (node_key dst)) (\<lambda>p. p \<in> set (pb_list pb'))) (nm_outqueue nm) @
      (if nm_message nm' r = None \<or> r \<in> set (nm_outqueue nm) then [] else [r])"
proof -
  let ?k = "node_key dst"
  have ek: "ep_wf nm e" "ep_key e = ?k" using nm_inv_ep [OF inv e] by auto
  have pre: "pb_wf (ep_outgoing e)" "frags_distinct (nm_outqueue nm)" "refs_ok (Outgoing ?k) (ep_outgoing e) (nm_outqueue nm)"
    using ek(1) inv nm_inv_refs(1) [OF inv e] by (simp_all add: ep_wf_def nm_inv_def)
  obtain pb' where rf: "refreshed now (ep_outgoing e) pb'"
    and get: "packet_bucket_get_fragment now (Outgoing ?k) (ep_outgoing e) pid fid (nm_outqueue nm) =
      Inr (case pb_deref pb' pid of
             Some fp \<Rightarrow> if unat fid < fp_frag_num fp then Some r else None
           | None \<Rightarrow> None,
           pb', filter (keep_ref (Outgoing ?k) (\<lambda>p. p \<in> set (pb_list pb'))) (nm_outqueue nm))"
    using get_fragment_spec [OF pre] unfolding r_def by metis
  define q where "q = filter (keep_ref (Outgoing ?k) (\<lambda>p. p \<in> set (pb_list pb'))) (nm_outqueue nm)"
  define there where "there \<longleftrightarrow> (\<exists>fp. pb_deref pb' pid = Some fp \<and> unat fid < fp_frag_num fp)"
  define nq where "nq = q @ (if \<not> there \<or> r \<in> set (nm_outqueue nm) then [] else [r])"
  define nm' where "nm' = nm_store nm (e\<lparr>ep_outgoing := pb'\<rparr>) nq"
  have wf': "pb_wf pb'" using rf by (simp add: refreshed_def)
  have st: "nm_inv nm' \<and> nm_content nm' = (nm_content nm)(?k \<mapsto> e\<lparr>ep_outgoing := pb'\<rparr>) \<and> nm_outqueue nm' = nq"
    unfolding nm'_def
  proof (rule nm_store_spec [OF inv e])
    show "ep_key (e\<lparr>ep_outgoing := pb'\<rparr>) = ?k" using ek by (simp add: ep_key_def)
    show "ep_wf nm (e\<lparr>ep_outgoing := pb'\<rparr>)" using ek wf' rf by (simp add: ep_wf_def refreshed_def)
    have "frags_distinct q" using pre(2) by (simp add: q_def)
    then show "frags_distinct nq" by (auto simp: nq_def q_def frags_distinct_append frags_distinct_def)
    have "refs_ok (Outgoing ?k) pb' q" unfolding q_def by (rule refs_ok_refreshed [OF pre(3) rf])
    then show "refs_ok (Outgoing ?k) (ep_outgoing (e\<lparr>ep_outgoing := pb'\<rparr>)) nq"
      by (auto simp: refs_ok_def nq_def there_def r_def)
    show "Frag_ref b p i \<in> set (nm_outqueue nm)" if "Frag_ref b p i \<in> set nq" "b \<noteq> Outgoing ?k" for b p i
      using that by (auto simp: nq_def q_def r_def split: if_splits)
  qed
  have msg: "nm_message nm' r = None \<longleftrightarrow> \<not> there"
    using nm_message_frag [of nm' "Outgoing ?k" pid fid] st by (auto simp: r_def there_def)
  have inq: "r \<in> set q \<longleftrightarrow> r \<in> set (nm_outqueue nm)" if there
    using that pb_deref_list [OF wf'] by (auto simp: q_def r_def there_def)
  have "network_manager_enqueue_outgoing_fragment now nm (Some dst) pid fid =
      Inr (if \<not> there then -2 else if r \<in> set (nm_outqueue nm) then 1 else 0, nm')"
  proof (cases there)
    case True
    then obtain fp where "pb_deref pb' pid = Some fp" "unat fid < fp_frag_num fp" by (auto simp: there_def)
    then show ?thesis
      using get True inq e
      by (cases "r \<in> set (nm_outqueue nm)")
        (simp_all add: network_manager_enqueue_outgoing_fragment_def nm_find_content [OF inv]
          endpoint_get_outgoing_fragment_def ek(2) q_def [symmetric] nm'_def nq_def)
  next
    case False
    then have "(case pb_deref pb' pid of Some fp \<Rightarrow> if unat fid < fp_frag_num fp then Some r else None
           | None \<Rightarrow> None) = None" by (auto simp: there_def split: option.splits)
    then show ?thesis
      using get False e
      by (simp add: network_manager_enqueue_outgoing_fragment_def nm_find_content [OF inv]
          endpoint_get_outgoing_fragment_def ek(2) q_def [symmetric] nm'_def nq_def)
  qed
  then show ?thesis using that [OF rf] st msg by (auto simp: nq_def q_def)
qed

lemma pop_outgoing_spec:
  assumes inv: "nm_inv nm" and q: "nm_outqueue nm = r # q"
  obtains nm' m where "network_manager_pop_outgoing_net_msg nm = (Some r, nm')" and "nm_inv nm'"
    and "nm_outqueue nm' = q" and "nm_content nm' = nm_content nm" and "nm_message nm' r = Some m"
proof -
  let ?nm = "nm\<lparr>nm_outqueue := q\<rparr>"
  have c: "nm_content ?nm = nm_content nm" by (simp add: nm_content_def fun_eq_iff)
  have m: "nm_message ?nm x = nm_message nm x" for x unfolding nm_message_def c ..
  have "frags_distinct q" using inv q by (simp add: nm_inv_def frags_distinct_def split: if_splits)
  moreover have "ep_wf ?nm e = ep_wf nm e" for e by (simp add: ep_wf_def)
  ultimately have "nm_inv ?nm" using inv q m by (simp add: nm_inv_def)
  moreover obtain m where "nm_message nm r = Some m" using inv q by (auto simp: nm_inv_def)
  ultimately show ?thesis
    using that [of ?nm] q c m by (simp add: network_manager_pop_outgoing_net_msg_def)
qed

text \<open>Destroying an endpoint takes its fragments out of the queue, so the requests are all that
  is left at the end.\<close>

lemma endpoint_destroy_spec:
  assumes inv: "nm_inv nm" and e: "nm_content nm k = Some e"
  shows "endpoint_destroy e (nm_outqueue nm) = Some (filter (keep_ref (Outgoing k) (\<lambda>_. False)) (nm_outqueue nm))"
proof -
  have ek: "pb_wf (ep_incoming e)" "pb_wf (ep_outgoing e)" "ep_key e = k"
    using nm_inv_ep [OF inv e] by (auto simp: ep_wf_def)
  have q: "frags_distinct (nm_outqueue nm)" using inv by (simp add: nm_inv_def)
  show ?thesis
    using packet_bucket_destroy_spec [OF ek(1) q no_refs_ok [OF nm_inv_refs(2) [OF inv e]], of k]
      packet_bucket_destroy_spec [OF ek(2) q nm_inv_refs(1) [OF inv e]]
      no_refs_keep [OF nm_inv_refs(2) [OF inv e]]
    by (simp add: endpoint_destroy_def ek(3))
qed

text \<open>A manager without one of its endpoints, and without the references to that endpoint's packets.\<close>

definition nm_without :: "network_manager \<Rightarrow> endpoint \<Rightarrow> network_manager" where
  "nm_without nm e = nm\<lparr>nm_endpoints := fst (os_remove endpoint_cmp (nm_endpoints nm) e),
     nm_outqueue := filter (keep_ref (Outgoing (ep_key e)) (\<lambda>_. False)) (nm_outqueue nm)\<rparr>"

lemma nm_without:
  assumes inv: "nm_inv nm" and mem: "e \<in> set (os_elements (nm_endpoints nm))"
  shows "nm_inv (nm_without nm e)" and "n_elements (nm_endpoints (nm_without nm e)) < n_elements (nm_endpoints nm)"
proof -
  have wf: "endpoint_order.os_wf (nm_endpoints nm)" using inv by (simp add: nm_inv_def)
  then have srt: "endpoint_order.sorted_set (os_elements (nm_endpoints nm))" by (simp add: endpoint_order.os_wf_def)
  have c: "nm_content (nm_without nm e) = (nm_content nm)(ep_key e := None)"
    using endpoint_order.store.content_remove [OF wf, of e] by (simp add: nm_without_def nm_content_def)
  show "nm_inv (nm_without nm e)"
  proof (rule nm_invI)
    show "endpoint_order.os_wf (nm_endpoints (nm_without nm e))"
      using endpoint_order.store.wf_remove [OF wf] by (simp add: nm_without_def)
    show "frags_distinct (nm_outqueue (nm_without nm e))" using inv by (simp add: nm_without_def nm_inv_def)
    show "ep_wf (nm_without nm e) e'" if "nm_content (nm_without nm e) k' = Some e'" for k' e'
      using that nm_inv_ep [OF inv, of k' e'] unfolding c by (simp add: ep_wf_def nm_without_def split: if_splits)
    show "nm_message (nm_without nm e) (Frag_ref b pid fid) \<noteq> None" if "Frag_ref b pid fid \<in> set (nm_outqueue (nm_without nm e))"
      for b pid fid
    proof -
      have "Frag_ref b pid fid \<in> set (nm_outqueue nm)" "b \<noteq> Outgoing (ep_key e)" using that by (auto simp: nm_without_def)
      moreover from this have "nm_message nm (Frag_ref b pid fid) \<noteq> None" using inv by (simp add: nm_inv_def)
      ultimately show ?thesis unfolding nm_message_frag c by auto
    qed
  qed
  show "n_elements (nm_endpoints (nm_without nm e)) < n_elements (nm_endpoints nm)"
    using mem by (simp add: nm_without_def endpoint_order.os_remove_eq_filter [OF srt] length_filter_less
        endpoint_order.same_key_def endpoint_order.cmp_refl)
qed

lemma destroy_endpoints_spec:
  "nm_inv nm \<Longrightarrow>
   destroy_endpoints (nm_endpoints nm) (nm_outqueue nm) = Some (filter (\<lambda>r. \<not> is_frag r) (nm_outqueue nm))"
proof (induction "n_elements (nm_endpoints nm)" arbitrary: nm rule: less_induct)
  case less
  let ?os = "nm_endpoints nm" and ?q = "nm_outqueue nm"
  show ?case
  proof (cases "os_elements ?os = []")
    case True
    then have "nm_content nm = Map.empty" by (auto simp: nm_content_def os_content_def)
    then have "\<not> is_frag r" if "r \<in> set ?q" for r
      using that less.prems nm_message_frag [of nm] by (cases r) (auto simp: nm_inv_def)
    then have "filter (\<lambda>r. \<not> is_frag r) ?q = ?q" by (simp add: filter_id_conv)
    then show ?thesis using True by (subst destroy_endpoints.simps) (simp add: ord_set_iter_safe_last)
  next
    case False
    define e where "e = last (os_elements ?os)"
    let ?k = "ep_key e"
    have mem: "e \<in> set (os_elements ?os)" using False by (simp add: e_def)
    then have c: "nm_content nm ?k = Some e" using less.prems by (simp add: nm_content_Some)
    let ?nm = "nm_without nm e"
    have d: "endpoint_destroy e ?q = Some (nm_outqueue ?nm)"
      unfolding nm_without_def using endpoint_destroy_spec [OF less.prems c] by simp
    have r: "destroy_endpoints (nm_endpoints ?nm) (nm_outqueue ?nm) = Some (filter (\<lambda>r. \<not> is_frag r) (nm_outqueue ?nm))"
      using nm_without [OF less.prems mem] less.hyps [of ?nm] by simp
    have "\<not> is_frag r \<Longrightarrow> keep_ref (Outgoing ?k) (\<lambda>_. False) r" for r by (cases r) simp_all
    then have "filter (\<lambda>r. \<not> is_frag r) (nm_outqueue ?nm) = filter (\<lambda>r. \<not> is_frag r) ?q"
      unfolding nm_without_def by (auto intro: filter_cong)
    moreover have "nm_endpoints ?nm = fst (os_remove endpoint_cmp ?os e)" by (simp add: nm_without_def)
    ultimately show ?thesis
      using False d r by (subst destroy_endpoints.simps) (simp add: ord_set_iter_safe_last e_def)
  qed
qed

lemma free_requests_all: "\<forall>r \<in> set q. \<not> is_frag r \<Longrightarrow> free_requests q = Inr ()"
  by (induction q rule: free_requests.induct) simp_all

lemma network_manager_destroy_spec: "nm_inv nm \<Longrightarrow> network_manager_destroy nm = Some (Inr ())"
  by (simp add: network_manager_destroy_def destroy_endpoints_spec free_requests_all)

section \<open>Properties\<close>

lemma the_endpoint_create [simp]:
  "the_endpoint (network_manager_create config) node =
     endpoint_create node (nm_frag_size (network_manager_create config)) (nm_max_pkt_age (network_manager_create config))"
  by (simp add: the_endpoint_def nm_content_def network_manager_create_def ord_set_new_def os_content_def)

lemma nm_sizes_default [simp]:
  "nm_frag_size (network_manager_create None) = 1200" "nm_max_pkt_age (network_manager_create None) = 4"
  by (simp_all add: network_manager_create_def config_int_def DEFAULT_FRAG_SIZE_def DEFAULT_PKT_MAX_AGE_def)

text \<open>The packets a refresh keeps: those from the first one young enough.\<close>

definition live_packets :: "int \<Rightarrow> packet_bucket \<Rightarrow> u16 set" where
  "live_packets now pb = set (dropWhile (expired now pb) (pb_list pb))"

text \<open>C26: Sending a data block when the endpoint's next packet number is not in use: the call succeeds, the
  packet of its fragments is stored under that number, the number is advanced, all its fragments are queued, in order
  and in front of what was queued before, only expired packets of that endpoint (and their queued fragments) are
  dropped, and no other endpoint changes.\<close>

theorem enqueue_packet_result:
  fixes nm :: network_manager and dst src :: nodeID and now :: int
  defines "e \<equiv> the_endpoint nm dst" and "k \<equiv> node_key dst"
  defines "live \<equiv> live_packets now (ep_outgoing e)"
  assumes "nm_inv nm" and "d \<noteq> []" and "0 < nm_frag_size nm" and "ep_out_id e \<notin> live"
  shows "\<exists>nm' pb fp. network_manager_enqueue_outgoing_packet now nm (Some src) (Some dst) (Some d) = Inr (0, nm') \<and>
    nm_inv nm' \<and> nm_content nm' = (nm_content nm)(k \<mapsto> e\<lparr>ep_outgoing := pb, ep_out_id := ep_out_id e + 1\<rparr>) \<and>
    fragmented_packet_create now (ep_out_id e) src (ep_node e) (Some d) (nm_frag_size nm) = Some fp \<and>
    (\<forall>p. pb_deref pb p = (if p = ep_out_id e then Some fp
       else if p \<in> live then pb_deref (ep_outgoing e) p else None)) \<and>
    nm_outqueue nm' = fragment_refs (Outgoing k) (ep_out_id e) (fp_frag_num fp) @
      filter (keep_ref (Outgoing k) (\<lambda>p. p \<in> live)) (nm_outqueue nm)"
proof -
  note free = assms(7) [unfolded live_def live_packets_def e_def]
  show ?thesis
    by (rule enqueue_outgoing_packet_spec [OF assms(4-6) free, of src])
      (auto simp: e_def k_def live_def live_packets_def refreshed_def restrict_map_def)
qed

theorem enqueue_packet_result_witness:
  "\<exists>nm'. network_manager_enqueue_outgoing_packet 100 (network_manager_create None) (Some empty_node) (Some empty_node)
      (Some (replicate 3000 1)) = Inr (0, nm') \<and> length (nm_outqueue nm') = 3"
proof -
  let ?nm = "network_manager_create None"
  have f: "ep_out_id (the_endpoint ?nm empty_node) \<notin> live_packets 100 (ep_outgoing (the_endpoint ?nm empty_node))"
    by (simp add: live_packets_def endpoint_create_def)
  have n: "unat (frag_count 3000 1200) = 3" by (simp add: frag_count_def)
  have "length (nm_outqueue ?nm) = 0" by (simp add: network_manager_create_def)
  then show ?thesis
    using enqueue_packet_result [OF nm_inv_create _ _ f, of "replicate 3000 1" empty_node]
    by (auto simp: fragmented_packet_create_def Let_def n fragment_refs_def)
qed

text \<open>When a fragment is asked for again: the request is answered with -2 if the node is unknown or the fragment is no
  longer stored, with 1 if the fragment waits in the queue already, and otherwise the fragment is put at the end
  of the queue; the queue loses only fragments of packets that expired, and the invariant is kept.\<close>

lemma resend_fragment_result:
  fixes nm :: network_manager and dst :: nodeID and pid fid :: u16 and now :: int
  defines "r \<equiv> Frag_ref (Outgoing (node_key dst)) pid fid"
  defines "live \<equiv> (case nm_content nm (node_key dst) of None \<Rightarrow> {} | Some e \<Rightarrow> live_packets now (ep_outgoing e))"
  assumes "nm_inv nm"
  shows "\<exists>nm'. network_manager_enqueue_outgoing_fragment now nm (Some dst) pid fid =
      Inr (if nm_message nm r = None \<or> pid \<notin> live then -2 else if r \<in> set (nm_outqueue nm) then 1 else 0, nm') \<and>
    nm_inv nm' \<and>
    nm_outqueue nm' = filter (keep_ref (Outgoing (node_key dst)) (\<lambda>p. p \<in> live)) (nm_outqueue nm) @
      (if nm_message nm r = None \<or> pid \<notin> live \<or> r \<in> set (nm_outqueue nm) then [] else [r])"
proof (cases "nm_content nm (node_key dst)")
  case None
  have "nm_message nm r = None" using None by (simp add: nm_message_def r_def)
  moreover have "filter (keep_ref (Outgoing (node_key dst)) (\<lambda>p. p \<in> live)) (nm_outqueue nm) = nm_outqueue nm"
  proof (rule filter_True, rule ballI)
    fix x assume x: "x \<in> set (nm_outqueue nm)"
    show "keep_ref (Outgoing (node_key dst)) (\<lambda>p. p \<in> live) x"
    proof (cases x)
      case (Frag_ref b p i)
      then have "nm_message nm (Frag_ref b p i) \<noteq> None" using x assms(3) by (simp add: nm_inv_def)
      then show ?thesis using None Frag_ref unfolding nm_message_frag by auto
    qed simp
  qed
  ultimately show ?thesis
    using None assms(3) by (simp add: network_manager_enqueue_outgoing_fragment_def nm_find_content)
next
  case (Some e)
  show ?thesis
  proof (rule enqueue_outgoing_fragment_spec [OF assms(3) Some, of now pid fid])
    fix pb' nm'
    assume ref: "refreshed now (ep_outgoing e) pb'" and "nm_inv nm'"
      and c: "nm_content nm' = (nm_content nm)(node_key dst \<mapsto> e\<lparr>ep_outgoing := pb'\<rparr>)"
      and "network_manager_enqueue_outgoing_fragment now nm (Some dst) pid fid =
        Inr (if nm_message nm' (Frag_ref (Outgoing (node_key dst)) pid fid) = None then -2
             else if Frag_ref (Outgoing (node_key dst)) pid fid \<in> set (nm_outqueue nm) then 1 else 0, nm')"
      and "nm_outqueue nm' = filter (keep_ref (Outgoing (node_key dst)) (\<lambda>p. p \<in> set (pb_list pb'))) (nm_outqueue nm) @
        (if nm_message nm' (Frag_ref (Outgoing (node_key dst)) pid fid) = None \<or>
            Frag_ref (Outgoing (node_key dst)) pid fid \<in> set (nm_outqueue nm)
         then [] else [Frag_ref (Outgoing (node_key dst)) pid fid])"
    moreover have l: "set (pb_list pb') = live" using ref Some by (simp add: live_def live_packets_def refreshed_def)
    moreover have "nm_message nm' r = None \<longleftrightarrow> nm_message nm r = None \<or> pid \<notin> live"
    proof -
      have "pb_deref pb' = pb_deref (ep_outgoing e) |` live" using ref l by (simp add: refreshed_def)
      then show ?thesis using c Some by (simp add: r_def nm_message_def restrict_map_def)
    qed
    ultimately show ?thesis by (auto simp: r_def)
  qed
qed

text \<open>The receiving side and the queue never fault and never break the invariant (each queued fragment reference leads to a stored
  fragment, at most once), whatever the fragment received, the packet popped, the fragment asked for again or
  the message taken for sending; a fragment that arrives only adds its requests, in front of the queue.\<close>

lemma manager_keeps_invariant:
  assumes "nm_inv nm"
  shows "(\<exists>st nm' reqs. network_manager_add_incoming_fragment now nm (Some f) = Inr (st, nm') \<and> nm_inv nm' \<and>
      nm_outqueue nm' = map Req_ref reqs @ nm_outqueue nm) \<and>
    (\<exists>r out n nm'. network_manager_pop_incoming_packet now nm (Some src) pid sz = Inr (r, out, n, nm') \<and> nm_inv nm' \<and>
      nm_outqueue nm' = nm_outqueue nm) \<and>
    (\<exists>r nm'. network_manager_enqueue_outgoing_fragment now nm (Some dst) pid fid = Inr (r, nm') \<and> nm_inv nm') \<and>
    (case nm_outqueue nm of
       [] \<Rightarrow> network_manager_pop_outgoing_net_msg nm = (None, nm)
     | r # q \<Rightarrow> \<exists>nm' m. network_manager_pop_outgoing_net_msg nm = (Some r, nm') \<and> nm_inv nm' \<and>
         nm_outqueue nm' = q \<and> nm_message nm' r = Some m)"
proof (intro conjI)
  show "\<exists>st nm' reqs. network_manager_add_incoming_fragment now nm (Some f) = Inr (st, nm') \<and> nm_inv nm' \<and>
      nm_outqueue nm' = map Req_ref reqs @ nm_outqueue nm"
    by (rule add_incoming_fragment_spec [OF assms, of now f]) blast
  show "\<exists>r out n nm'. network_manager_pop_incoming_packet now nm (Some src) pid sz = Inr (r, out, n, nm') \<and> nm_inv nm' \<and>
      nm_outqueue nm' = nm_outqueue nm"
  proof (cases "nm_content nm (node_key src)")
    case None
    then show ?thesis using assms by (simp add: network_manager_pop_incoming_packet_def nm_find_content)
  next
    case (Some e)
    show ?thesis
    proof (rule pop_incoming_packet_spec [OF assms Some, of now pid sz], goal_cases)
      case (1 pb')
      then show ?case by (cases "pb_deref pb' pid") (blast, fastforce split: prod.splits)
    qed
  qed
  show "\<exists>r nm'. network_manager_enqueue_outgoing_fragment now nm (Some dst) pid fid = Inr (r, nm') \<and> nm_inv nm'"
  proof (cases "nm_content nm (node_key dst)")
    case None
    then show ?thesis using assms by (simp add: network_manager_enqueue_outgoing_fragment_def nm_find_content)
  next
    case (Some e)
    show ?thesis by (rule enqueue_outgoing_fragment_spec [OF assms Some, of now pid fid]) blast
  qed
  show "case nm_outqueue nm of
       [] \<Rightarrow> network_manager_pop_outgoing_net_msg nm = (None, nm)
     | r # q \<Rightarrow> \<exists>nm' m. network_manager_pop_outgoing_net_msg nm = (Some r, nm') \<and> nm_inv nm' \<and>
         nm_outqueue nm' = q \<and> nm_message nm' r = Some m"
  proof (cases "nm_outqueue nm")
    case Nil
    then show ?thesis by (simp add: network_manager_pop_outgoing_net_msg_def)
  next
    case (Cons r q)
    then show ?thesis by (auto intro: pop_outgoing_spec [OF assms Cons])
  qed
qed

text \<open>Destroying a manager ends, touches no freed memory, and after the endpoints are gone only fragment requests are
  left in the queue, so that freeing each remaining message is right.\<close>

lemma manager_destroy_safe:
  assumes "nm_inv nm"
  shows "network_manager_destroy nm = Some (Inr ()) \<and>
    destroy_endpoints (nm_endpoints nm) (nm_outqueue nm) = Some (filter (\<lambda>r. \<not> is_frag r) (nm_outqueue nm))"
  using network_manager_destroy_spec [OF assms] destroy_endpoints_spec [OF assms] by simp

end
