(* ===== verification/Network_Shaper.thy ===== *)
theory Network_Shaper
  imports Prelude Complex_Main
begin

text \<open>
  \<open>Lib/net_helper/nhx/network_shaper.c\<close>: when the next message may be sent, from an
  estimate of the byte rate.

  \<open>float\<close> and \<open>double\<close> values are rational numbers: rounding is not modelled.  A division by zero,
  which gives an infinity in C and then an undefined conversion, is the fault \<open>Div_By_Zero\<close>.
  The clock (\<open>gettimeofday\<close>) is an argument.
\<close>

section \<open>The operations\<close>

record network_shaper =
  ns_multiplyer :: rat
  ns_alpha_memory :: rat
  ns_byterate :: rat
  ns_next_sending_event :: timeval
  ns_last_update_time :: timeval

definition DEFAULT_BYTERATE :: rat where
  "DEFAULT_BYTERATE = 1000000"

definition DEFAULT_BYTERATE_MULTIPLYER :: rat where
  "DEFAULT_BYTERATE_MULTIPLYER = 8"

definition config_double :: "(string \<Rightarrow> rat option) option \<Rightarrow> string \<Rightarrow> rat \<Rightarrow> rat" where
  "config_double config name dflt =
     (case config of None \<Rightarrow> dflt | Some tags \<Rightarrow> (case tags name of None \<Rightarrow> dflt | Some v \<Rightarrow> v))"

definition network_shaper_create :: "timeval \<Rightarrow> (string \<Rightarrow> rat option) option \<Rightarrow> network_shaper" where
  "network_shaper_create now config =
     \<lparr>ns_multiplyer = config_double config ''byterate_multiplyer'' DEFAULT_BYTERATE_MULTIPLYER,
      ns_alpha_memory = 9 / 10,
      ns_byterate = config_double config ''byterate'' DEFAULT_BYTERATE,
      ns_next_sending_event = now,
      ns_last_update_time = now\<rparr>"

text \<open>Return value and the new value of \<open>*interval\<close>.\<close>

definition network_shaper_next_sending_interval ::
  "timeval \<Rightarrow> network_shaper option \<Rightarrow> timeval option \<Rightarrow> int \<times> timeval option" where
  "network_shaper_next_sending_interval now ns interval =
     (case (ns, interval) of
        (Some s, Some _) \<Rightarrow>
          (0, Some (if now < ns_next_sending_event s then timersub (ns_next_sending_event s) now
                    else Timeval 0 0))
      | _ \<Rightarrow> (-1, interval))"

text \<open>A conversion to an integer type truncates towards zero; \<open>secs\<close> is a \<open>uint32_t\<close>.\<close>

definition trunc_rat :: "rat \<Rightarrow> int" where
  "trunc_rat x = (if x \<ge> 0 then \<lfloor>x\<rfloor> else \<lceil>x\<rceil>)"

definition network_shaper_register_sent_bytes ::
  "network_shaper option \<Rightarrow> nat \<Rightarrow> (int \<times> network_shaper option) c_result" where
  "network_shaper_register_sent_bytes ns data_size =
     (case ns of
        None \<Rightarrow> Inr (-1, None)
      | Some s \<Rightarrow>
          if data_size > 0 then
            if ns_multiplyer s * ns_byterate s = 0 then Inl Div_By_Zero
            else
              let period = of_nat data_size / (ns_multiplyer s * ns_byterate s);
                  secs = trunc_rat period mod 2 ^ 32;
                  ev = ns_next_sending_event s
              in Inr (0, Some (s\<lparr>ns_next_sending_event :=
                   Timeval (tv_sec ev + secs) (tv_usec ev + trunc_rat ((period - of_int secs) * 1000000))\<rparr>))
          else Inr (-1, ns))"

definition network_shaper_update_bitrate ::
  "timeval \<Rightarrow> network_shaper option \<Rightarrow> nat \<Rightarrow> (int \<times> network_shaper option) c_result" where
  "network_shaper_update_bitrate now ns data_size =
     (case ns of
        None \<Rightarrow> Inr (-1, None)
      | Some s \<Rightarrow>
          if data_size > 0 then
            let interval = timersub now (ns_last_update_time s);
                period = of_int (tv_sec interval) + of_int (tv_usec interval) / 1000000
            in if period = 0 then Inl Div_By_Zero
               else Inr (0, Some (s\<lparr>ns_byterate := ns_alpha_memory s * ns_byterate s +
                                      (1 - ns_alpha_memory s) * of_nat data_size / period,
                                    ns_last_update_time := now\<rparr>))
          else Inr (-1, ns))"

section \<open>What they compute\<close>

lemma next_sending_interval_us:
  assumes "tv_norm now" and "tv_norm (ns_next_sending_event s)"
  obtains t where "network_shaper_next_sending_interval now (Some s) (Some i) = (0, Some t)"
    and "tv_us t = max 0 (tv_us (ns_next_sending_event s) - tv_us now)" and "tv_norm t"
proof -
  let ?t = "if now < ns_next_sending_event s then timersub (ns_next_sending_event s) now else Timeval 0 0"
  have "tv_us ?t = max 0 (tv_us (ns_next_sending_event s) - tv_us now)"
    using assms by (simp add: tv_less_us tv_us_timersub tv_us_Timeval)
  moreover have "tv_norm ?t"
    using assms by (auto simp: tv_norm_def timersub_def Let_def)
  ultimately show ?thesis
    using that [of ?t] by (simp add: network_shaper_next_sending_interval_def)
qed

text \<open>The event moves by the time the bytes take, to the microsecond below.\<close>

lemma register_sent_bytes_us:
  assumes "0 < ns_multiplyer s" and "0 < ns_byterate s" and "0 < n"
    and "of_nat n / (ns_multiplyer s * ns_byterate s) < 2 ^ 32"
  obtains s' where "network_shaper_register_sent_bytes (Some s) n = Inr (0, Some s')"
    and "tv_us (ns_next_sending_event s') = tv_us (ns_next_sending_event s) +
      \<lfloor>of_nat n / (ns_multiplyer s * ns_byterate s) * 1000000\<rfloor>"
proof -
  define p where "p = of_nat n / (ns_multiplyer s * ns_byterate s)"
  have p: "0 < p" "p < 2 ^ 32" using assms by (simp_all add: p_def)
  define sec where "sec = \<lfloor>p\<rfloor>"
  have s: "0 \<le> sec" "sec < 2 ^ 32" "of_int sec \<le> p" "p < of_int sec + 1"
    using p floor_correct [of p] by (simp_all add: sec_def floor_less_iff)
  have secs: "trunc_rat p mod 2 ^ 32 = sec" using p(1) s(1,2) by (simp add: trunc_rat_def sec_def)
  have f: "sec * 1000000 + \<lfloor>(p - of_int sec) * 1000000\<rfloor> = \<lfloor>p * 1000000\<rfloor>"
  proof -
    have "p * 1000000 = (p - of_int sec) * 1000000 + of_int (sec * 1000000)" by (simp add: algebra_simps)
    then show ?thesis by (simp only: floor_add_int [symmetric])
  qed
  have u: "trunc_rat ((p - of_int sec) * 1000000) = \<lfloor>(p - of_int sec) * 1000000\<rfloor>"
    using s(3) by (simp add: trunc_rat_def)
  let ?s = "s\<lparr>ns_next_sending_event := Timeval (tv_sec (ns_next_sending_event s) + sec)
     (tv_usec (ns_next_sending_event s) + \<lfloor>(p - of_int sec) * 1000000\<rfloor>)\<rparr>"
  have "network_shaper_register_sent_bytes (Some s) n = Inr (0, Some ?s)"
    using assms(1-3) secs u by (simp add: network_shaper_register_sent_bytes_def Let_def p_def [symmetric])
  moreover have "tv_us (ns_next_sending_event ?s) = tv_us (ns_next_sending_event s) + \<lfloor>p * 1000000\<rfloor>"
    using f by (simp add: tv_us_def)
  ultimately show ?thesis using that [of ?s] by (simp add: p_def)
qed

lemma period_us:
  "of_int (tv_sec t) + of_int (tv_usec t) / 1000000 = (of_int (tv_us t) / 1000000 :: rat)"
  by (simp add: tv_us_def field_simps)

text \<open>The estimate stays positive and lies between the old one and the measured rate.\<close>

lemma update_bitrate_between:
  assumes "0 < n" and "tv_us (ns_last_update_time s) < tv_us now" and "0 < ns_byterate s"
    and "0 \<le> ns_alpha_memory s" and "ns_alpha_memory s \<le> 1"
  defines "r \<equiv> of_nat n * 1000000 / of_int (tv_us now - tv_us (ns_last_update_time s))"
  obtains s' where "network_shaper_update_bitrate now (Some s) n = Inr (0, Some s')"
    and "min (ns_byterate s) r \<le> ns_byterate s'" and "ns_byterate s' \<le> max (ns_byterate s) r"
    and "0 < ns_byterate s'" and "ns_last_update_time s' = now"
proof -
  define p :: rat where "p = of_int (tv_us now - tv_us (ns_last_update_time s)) / 1000000"
  have p: "0 < p" using assms(2) by (simp add: p_def)
  have r: "of_nat n / p = r" "0 < r" using assms(1,2) by (simp_all add: p_def r_def field_simps)
  let ?a = "ns_alpha_memory s" and ?b = "ns_byterate s"
  let ?s = "s\<lparr>ns_byterate := ?a * ?b + (1 - ?a) * of_nat n / p, ns_last_update_time := now\<rparr>"
  have e: "network_shaper_update_bitrate now (Some s) n = Inr (0, Some ?s)"
  proof -
    have "of_int (tv_sec (timersub now (ns_last_update_time s))) +
        of_int (tv_usec (timersub now (ns_last_update_time s))) / 1000000 = p"
      unfolding period_us tv_us_timersub p_def ..
    then show ?thesis using assms(1) p by (simp add: network_shaper_update_bitrate_def)
  qed
  have v: "ns_byterate ?s = ?a * ?b + (1 - ?a) * r" using r(1) by (simp add: times_divide_eq_right [symmetric] del: times_divide_eq_right)
  have lo: "min ?b r \<le> ?a * ?b + (1 - ?a) * r"
  proof -
    have "?a * min ?b r + (1 - ?a) * min ?b r \<le> ?a * ?b + (1 - ?a) * r"
      using assms(4,5) by (intro add_mono mult_left_mono) auto
    then show ?thesis by (simp add: algebra_simps)
  qed
  have hi: "?a * ?b + (1 - ?a) * r \<le> max ?b r"
  proof -
    have "?a * ?b + (1 - ?a) * r \<le> ?a * max ?b r + (1 - ?a) * max ?b r"
      using assms(4,5) by (intro add_mono mult_left_mono) auto
    then show ?thesis by (simp add: algebra_simps)
  qed
  have "0 < min ?b r" using assms(3) r(2) by simp
  with lo have "0 < ns_byterate ?s" unfolding v by linarith
  then show ?thesis using that [OF e] lo hi unfolding v by simp
qed

section \<open>Properties\<close>

text \<open>The time to wait before sending is the time to the next sending event, and 0 once it has passed.  Registering
  $n$ sent bytes moves that event by the time $n$ bytes take at the shaped rate, rounded down to a microsecond.\<close>

lemma shaper_paces_bytes:
  assumes "0 < ns_multiplyer s" and "0 < ns_byterate s" and "0 < n"
    and "of_nat n / (ns_multiplyer s * ns_byterate s) < 2 ^ 32"
    and "tv_norm now" and "tv_norm (ns_next_sending_event s)"
  shows "\<exists>t s'. network_shaper_next_sending_interval now (Some s) (Some i) = (0, Some t) \<and> tv_norm t \<and>
      tv_us t = max 0 (tv_us (ns_next_sending_event s) - tv_us now) \<and>
    network_shaper_register_sent_bytes (Some s) n = Inr (0, Some s') \<and>
      tv_us (ns_next_sending_event s') = tv_us (ns_next_sending_event s) +
        \<lfloor>of_nat n / (ns_multiplyer s * ns_byterate s) * 1000000\<rfloor>"
  by (rule register_sent_bytes_us [OF assms(1-4)], rule next_sending_interval_us [OF assms(5,6), of i]) blast

text \<open>The normalisation is missing: registering bytes leaves a microsecond field of a second or more whenever the
  fraction of the period carries over the second of the next sending event.\<close>

lemma register_denormalises:
  assumes "0 < ns_multiplyer s" and "0 < ns_byterate s" and "0 < n" and "of_nat n / (ns_multiplyer s * ns_byterate s) < 1"
    and "1000000 \<le> tv_usec (ns_next_sending_event s) + \<lfloor>of_nat n / (ns_multiplyer s * ns_byterate s) * 1000000\<rfloor>"
  shows "\<exists>s'. network_shaper_register_sent_bytes (Some s) n = Inr (0, Some s') \<and> \<not> tv_norm (ns_next_sending_event s')"
proof -
  have p: "0 \<le> of_nat n / (ns_multiplyer s * ns_byterate s)" using assms(1,2) by simp
  have "\<lfloor>of_nat n / (ns_multiplyer s * ns_byterate s)\<rfloor> = 0" using p assms(4) by (simp add: floor_eq_iff)
  then have "trunc_rat (of_nat n / (ns_multiplyer s * ns_byterate s)) = 0"
    using p by (simp add: trunc_rat_def)
  moreover have "trunc_rat (of_nat n / (ns_multiplyer s * ns_byterate s) * 1000000) =
      \<lfloor>of_nat n / (ns_multiplyer s * ns_byterate s) * 1000000\<rfloor>"
  proof -
    have "0 \<le> of_nat n / (ns_multiplyer s * ns_byterate s) * 1000000" by (rule mult_nonneg_nonneg [OF p]) simp
    then show ?thesis unfolding trunc_rat_def by (simp only: if_True)
  qed
  ultimately show ?thesis
    using assms by (simp add: network_shaper_register_sent_bytes_def Let_def tv_norm_def)
qed

text \<open>The byte rate estimate is a weighted mean: with a memory factor between 0 and 1 and a clock that advanced, the
  new estimate is positive and lies between the old one and the rate just measured.\<close>

lemma bitrate_between:
  fixes s :: network_shaper and now :: timeval and n :: nat
  defines "r \<equiv> of_nat n * 1000000 / of_int (tv_us now - tv_us (ns_last_update_time s))"
  assumes "0 < n" and "tv_us (ns_last_update_time s) < tv_us now" and "0 < ns_byterate s"
    and "0 \<le> ns_alpha_memory s" and "ns_alpha_memory s \<le> 1"
  shows "\<exists>s'. network_shaper_update_bitrate now (Some s) n = Inr (0, Some s') \<and>
    min (ns_byterate s) r \<le> ns_byterate s' \<and> ns_byterate s' \<le> max (ns_byterate s) r \<and> 0 < ns_byterate s' \<and>
    ns_last_update_time s' = now \<and> ns_next_sending_event s' = ns_next_sending_event s"
proof (rule update_bitrate_between [OF assms(2-6)])
  fix s'
  assume e: "network_shaper_update_bitrate now (Some s) n = Inr (0, Some s')"
    and r: "min (ns_byterate s) (of_nat n * 1000000 / of_int (tv_us now - tv_us (ns_last_update_time s))) \<le> ns_byterate s'"
      "ns_byterate s' \<le> max (ns_byterate s) (of_nat n * 1000000 / of_int (tv_us now - tv_us (ns_last_update_time s)))"
      "0 < ns_byterate s'" "ns_last_update_time s' = now"
  have "ns_next_sending_event s' = ns_next_sending_event s"
    using e by (auto simp: network_shaper_update_bitrate_def Let_def split: if_splits)
  then show ?thesis using e r by (simp add: r_def)
qed

end
