(* ===== verification/Net_Helper.thy ===== *)
theory Net_Helper
  imports Network_Manager Network_Shaper
begin

text \<open>
  \<open>Lib/net_helper/net_helper-x.c\<close>: the socket layer the engine calls.  A node with a socket
  (\<open>local_node\<close>) owns a network manager, a shaper and a sending buffer; the other fields of \<open>struct nodeID\<close>
  are in \<open>Node_Id\<close>.

  The operating system enters as arguments: the clocks (\<open>now\<close> in seconds for \<open>time\<close>, \<open>tv\<close> for
  \<open>gettimeofday\<close>), what \<open>socket\<close>, \<open>bind\<close>, \<open>getsockname\<close>, \<open>select\<close> and \<open>recvfrom\<close> return; what is
  handed to \<open>sendto\<close> is a \<open>datagram\<close> in the result.  The integer coding and the numeric address
  parser are the parameters of \<open>Net_Msg\<close> and \<open>Node_Id\<close>.

  The lemmas show that sending and receiving keep the manager's invariant, that every pending
  fragment request would leave from file descriptor -1, and that a packet whose fragments are delivered in any
  order is handed to the receiver exactly when the last one arrives.
\<close>

section \<open>The local node\<close>

record local_node =
  ln_id :: nodeID
  ln_nm :: network_manager
  ln_shaper :: network_shaper
  ln_buffer_len :: nat

text \<open>\<open>net_helper_send_msg\<close> ignores the result of \<open>net_msg_send\<close>; the old content of the buffer
  does not matter.\<close>

definition net_helper_send_msg :: "int_coding \<Rightarrow> local_node \<Rightarrow> net_msg \<Rightarrow> datagram list c_result" where
  "net_helper_send_msg ic s msg =
     (let (from, to) = (case msg of Fragment_msg f \<Rightarrow> (f_from f, f_to f) | Request_msg r \<Rightarrow> (fr_from r, fr_to r))
      in c_bind (net_msg_send ic (nd_fd from) (nd_addr to) msg (replicate (ln_buffer_len s) 0)) (\<lambda>d.
           Inr (case d of Some dg \<Rightarrow> [dg] | None \<Rightarrow> [])))"

text \<open>The popped pointer is followed only for sending; a dangling one is a fault.  The clock is
  read before and after the sending (\<open>tv\<close>, \<open>tv'\<close>).\<close>

definition net_helper_send_attempt ::
  "int_coding \<Rightarrow> timeval \<Rightarrow> timeval \<Rightarrow> local_node \<Rightarrow> (local_node \<times> timeval \<times> datagram list) c_result" where
  "net_helper_send_attempt ic tv tv' s =
     (if network_manager_outgoing_queue_ready (Some (ln_nm s)) \<noteq> 0 then
        (case network_shaper_next_sending_interval tv (Some (ln_shaper s)) (Some (Timeval 0 0)) of
           (_, Some interval) \<Rightarrow>
             if tv_sec interval = 0 \<and> tv_usec interval = 0 then
               (case network_manager_pop_outgoing_net_msg (ln_nm s) of
                  (None, nm') \<Rightarrow> Inl Null_Deref
                | (Some r, nm') \<Rightarrow>
                    (case nm_message nm' r of
                       None \<Rightarrow> Inl Use_After_Free
                     | Some msg \<Rightarrow>
                         c_bind (net_helper_send_msg ic s msg) (\<lambda>out.
                         c_bind (network_shaper_register_sent_bytes (Some (ln_shaper s)) 0) (\<lambda>(_, sh).
                           let s' = s\<lparr>ln_nm := nm', ln_shaper := the sh\<rparr>
                           in case network_shaper_next_sending_interval tv' (Some (ln_shaper s')) (Some interval) of
                                (_, Some i') \<Rightarrow> Inr (s', i', out)
                              | (_, None) \<Rightarrow> Inl Null_Deref))))
             else Inr (s, interval, [])
         | (_, None) \<Rightarrow> Inl Null_Deref)
      else Inr (s, Timeval 0 1000, []))"

definition net_helper_periodic ::
  "int_coding \<Rightarrow> timeval \<Rightarrow> timeval \<Rightarrow> local_node option \<Rightarrow> timeval option \<Rightarrow>
   (local_node option \<times> timeval option \<times> datagram list) c_result" where
  "net_helper_periodic ic tv tv' s interval =
     (case (s, interval) of
        (Some n, Some _) \<Rightarrow>
          c_bind (net_helper_send_attempt ic tv tv' n) (\<lambda>(n', i, out). Inr (Some n', Some i, out))
      | _ \<Rightarrow> Inr (s, interval, []))"

text \<open>
  The loop of \<open>wait4data\<close>.  One round takes the two clock readings of the send attempt and the result of \<open>select\<close>
  from a list of events (the list ends the observation).  Result: the state, what is left of \<open>*tout\<close>, the datagrams, and the
  last result of \<open>select\<close>, \<open>None\<close> when the events ran out before the loop ended.
\<close>

fun wait4data_loop ::
  "int_coding \<Rightarrow> (timeval \<times> timeval \<times> int) list \<Rightarrow> local_node \<Rightarrow> timeval \<Rightarrow> datagram list \<Rightarrow>
   (local_node \<times> timeval \<times> datagram list \<times> int option) c_result" where
  "wait4data_loop ic [] s tout out = Inr (s, tout, out, None)"
| "wait4data_loop ic ((tv, tv', sel) # events) s tout out =
     c_bind (net_helper_send_attempt ic tv tv' s) (\<lambda>(s', sending_interval, dgs).
       if sending_interval < tout then
         (if sel = 0 then wait4data_loop ic events s' (timersub tout sending_interval) (out @ dgs)
          else Inr (s', timersub tout sending_interval, out @ dgs, Some sel))
       else Inr (s', tout, out @ dgs, Some sel))"

text \<open>What \<open>wait4data\<close> returns, from the last result of \<open>select\<close> and the descriptors it marked
  ready; those of the caller that are not ready are overwritten with -2.\<close>

definition wait4data_result ::
  "nodeID option \<Rightarrow> int \<Rightarrow> (int \<Rightarrow> bool) \<Rightarrow> int list option \<Rightarrow> (int \<times> int list option) c_result" where
  "wait4data_result s res isset user_fds =
     (if res \<le> 0 then Inr (res, user_fds)
      else if s \<noteq> None \<and> isset (nd_fd (the s)) then Inr (1, user_fds)
      else (case user_fds of
              None \<Rightarrow> Inl Null_Deref
            | Some fds \<Rightarrow> Inr (2, Some (map (\<lambda>fd. if isset fd then fd else -2) fds))))"

text \<open>The whole call.  The descriptors of the caller are an array that ends at the first -1; \<open>FD_SET\<close> on a descriptor
  outside \<open>0\<close> to \<open>FD_SETSIZE - 1\<close> writes out of bounds.  The sets are filled once, before the loop.\<close>

definition FD_SETSIZE :: int where
  "FD_SETSIZE = 1024"

definition user_fds_after :: "int list option \<Rightarrow> int list option \<Rightarrow> int list option" where
  "user_fds_after user_fds watched =
     (case (user_fds, watched) of
        (Some fds, Some w) \<Rightarrow> Some (w @ dropWhile (\<lambda>fd. fd \<noteq> -1) fds)
      | _ \<Rightarrow> user_fds)"

definition wait4data ::
  "int_coding \<Rightarrow> (timeval \<times> timeval \<times> int) list \<Rightarrow> (int \<Rightarrow> bool) \<Rightarrow> local_node \<Rightarrow> timeval \<Rightarrow> int list option \<Rightarrow>
   (int \<times> local_node \<times> timeval \<times> int list option \<times> datagram list) option c_result" where
  "wait4data ic events isset s tout user_fds =
     (let watched = map_option (takeWhile (\<lambda>fd. fd \<noteq> -1)) user_fds in
      if (case user_fds of Some fds \<Rightarrow> -1 \<notin> set fds | None \<Rightarrow> False) \<or> nd_fd (ln_id s) \<ge> FD_SETSIZE \<or>
         (case watched of Some fds \<Rightarrow> (\<exists>fd \<in> set fds. fd < 0 \<or> fd \<ge> FD_SETSIZE) | None \<Rightarrow> False)
      then Inl Out_Of_Bounds
      else c_bind (wait4data_loop ic events s tout []) (\<lambda>(s', tout', out, res).
        case res of
          None \<Rightarrow> Inr None
        | Some r \<Rightarrow>
            c_bind (wait4data_result (Some (ln_id s')) r isset watched) (\<lambda>(state, fds').
              Inr (Some (state, s', tout', user_fds_after user_fds fds', out)))))"

text \<open>\<open>register_network_fds\<close> calls \<open>func\<close> with the descriptor and the letter r: its result and these calls.\<close>

definition register_network_fds :: "nodeID option \<Rightarrow> int \<times> (int \<times> char) list" where
  "register_network_fds s = (0, case s of Some n \<Rightarrow> [(nd_fd n, CHR ''r'')] | None \<Rightarrow> [])"

text \<open>
  \<open>net_helper_init\<close>.  \<open>sock\<close> is what \<open>socket\<close> returns, \<open>bind_res\<close> what \<open>bind\<close> returns and \<open>bound\<close>
  the port \<open>getsockname\<close> reports.  When \<open>create_node\<close> fails the code goes to the branch of success and
  writes through NULL.
\<close>

definition net_helper_init ::
  "(string \<Rightarrow> (family \<times> string) option) \<Rightarrow> int \<Rightarrow> int \<Rightarrow> u16 \<Rightarrow> timeval \<Rightarrow> string option \<Rightarrow> int \<Rightarrow>
   (string \<Rightarrow> int option) option \<Rightarrow> (string \<Rightarrow> rat option) option \<Rightarrow> local_node option c_result" where
  "net_helper_init numeric_host sock bind_res bound tv my_addr port config_i config_d =
     (if my_addr \<noteq> None \<and> port \<ge> 0 then
        (case create_node numeric_host my_addr port of
           None \<Rightarrow> Inl Null_Deref
         | Some myself \<Rightarrow>
             let myself1 = myself\<lparr>nd_fd := sock\<rparr>;
                 (myself2, res) =
                   (if sock \<ge> 0 then
                      (case nd_addr myself1 of
                         AF_INET ip _ \<Rightarrow> (myself1\<lparr>nd_addr := AF_INET ip bound\<rparr>, bind_res)
                       | AF_INET6 ip _ \<Rightarrow> (myself1\<lparr>nd_addr := AF_INET6 ip bound\<rparr>, bind_res)
                       | AF_UNSPEC \<Rightarrow> (myself1, -1))
                    else (myself1, 0))
             in if sock < 0 \<or> res < 0 then Inr None
                else Inr (Some \<lparr>ln_id = myself2,
                                ln_nm = network_manager_create config_i,
                                ln_shaper = network_shaper_create tv config_d,
                                ln_buffer_len = nat ((config_int config_i ''frag_size'' DEFAULT_FRAG_SIZE + 100) mod 2 ^ 64)\<rparr>))
      else Inr None)"

definition send_to_peer ::
  "int \<Rightarrow> timeval \<Rightarrow> local_node option \<Rightarrow> nodeID option \<Rightarrow> bytes option \<Rightarrow> (int \<times> local_node option) c_result" where
  "send_to_peer now tv from to buffer =
     (case (from, to, buffer) of
        (Some s, Some t, Some b) \<Rightarrow>
          if length b > 0 then
            c_bind (network_manager_enqueue_outgoing_packet now (ln_nm s) (Some (ln_id s)) to buffer) (\<lambda>(res, nm').
            c_bind (network_shaper_update_bitrate tv (Some (ln_shaper s)) (length b)) (\<lambda>(_, sh).
              Inr (if res \<ge> 0 then int (length b) else res,
                   Some (s\<lparr>ln_nm := nm', ln_shaper := the sh\<rparr>))))
          else Inr (-1, from)
      | _ \<Rightarrow> Inr (-1, from))"

text \<open>
  \<open>recv_from_peer\<close>.  \<open>incoming\<close> is what \<open>recvfrom\<close> delivers: the sender and the bytes that fit into the
  buffer, or an error.  Results: the return value, the remote node, the bytes a completed packet left
  at the front of the buffer, the state.  The result of \<open>network_manager_pop_incoming_packet\<close> is ignored; its
  clock reading is \<open>now'\<close>.  A datagram that does not decode gives a NULL message that is followed.
\<close>

definition recv_from_peer ::
  "int_coding \<Rightarrow> int \<Rightarrow> int \<Rightarrow> local_node \<Rightarrow> (sock_addr \<times> bytes) option \<Rightarrow> nat \<Rightarrow>
   (int \<times> nodeID option \<times> bytes \<times> local_node) c_result" where
  "recv_from_peer ic now now' s incoming buffer_size =
     (case incoming of
        None \<Rightarrow> Inr (-1, None, [], s)
      | Some (addr, dg) \<Rightarrow>
          if dg = [] then Inr (0, None, [], s)
          else
            let node = empty_node\<lparr>nd_addr := addr\<rparr> in
            c_bind (net_msg_decode ic (Some (ln_id s)) (Some node) dg) (\<lambda>msg.
              case msg of
                None \<Rightarrow> Inl Null_Deref
              | Some (Fragment_msg f) \<Rightarrow>
                  c_bind (network_manager_add_incoming_fragment now (ln_nm s) (Some f)) (\<lambda>(pstate, nm').
                    if pstate = PKT_READY then
                      c_bind (network_manager_pop_incoming_packet now' nm' (Some node) (f_pid f) buffer_size)
                        (\<lambda>(_, out, data_len, nm''). Inr (int data_len, Some node, out, s\<lparr>ln_nm := nm''\<rparr>))
                    else Inr (0, Some node, [], s\<lparr>ln_nm := nm'\<rparr>))
              | Some (Request_msg r) \<Rightarrow>
                  c_bind (network_manager_enqueue_outgoing_fragment now (ln_nm s) (Some node) (fr_pid r) (fr_id r))
                    (\<lambda>(_, nm'). Inr (0, Some node, [], s\<lparr>ln_nm := nm'\<rparr>))))"

text \<open>\<open>net_helper_deinit\<close>: everything queued is sent without shaping, then the manager is
  destroyed.  The loop pops until the queue is empty.\<close>

fun flush_loop :: "int_coding \<Rightarrow> local_node \<Rightarrow> network_manager \<Rightarrow> send_queue \<Rightarrow> datagram list c_result" where
  "flush_loop ic s nm [] = Inr []"
| "flush_loop ic s nm (r # q) =
     (case nm_message nm r of
        None \<Rightarrow> Inl Use_After_Free
      | Some msg \<Rightarrow>
          c_bind (net_helper_send_msg ic s msg) (\<lambda>out.
          c_bind (flush_loop ic s nm q) (\<lambda>rest. Inr (out @ rest))))"

definition net_helper_deinit :: "int_coding \<Rightarrow> local_node \<Rightarrow> datagram list c_result option" where
  "net_helper_deinit ic s =
     (case flush_loop ic s (ln_nm s) (nm_outqueue (ln_nm s)) of
        Inl e \<Rightarrow> Some (Inl e)
      | Inr out \<Rightarrow>
          (case network_manager_destroy ((ln_nm s)\<lparr>nm_outqueue := []\<rparr>) of
             None \<Rightarrow> None
           | Some (Inl e) \<Rightarrow> Some (Inl e)
           | Some (Inr _) \<Rightarrow> Some (Inr out)))"

section \<open>Interface addresses\<close>

text \<open>\<open>iface_addr\<close> of \<open>net_helpers.c\<close>: the list \<open>getifaddrs\<close> returns has a name and, possibly, an
  address per entry (its family and text).  \<open>host_addr\<close> has no initial value.\<close>

datatype l3protocol = IP4 | IP6

fun iface_loop :: "(string \<times> (family \<times> string) option) list \<Rightarrow> string \<Rightarrow> l3protocol \<Rightarrow> string option c_result" where
  "iface_loop [] iface l3 = Inl Uninit_Read"
| "iface_loop ((name, None) # rest) iface l3 = iface_loop rest iface l3"
| "iface_loop ((name, Some (fam, ip)) # rest) iface l3 =
     (if l3 = IP4 \<and> fam = Fam_inet \<and> name = iface then Inr (Some ip)
      else if l3 = IP6 \<and> fam = Fam_inet6 \<and> name = iface then Inr (Some ip)
      else iface_loop rest iface l3)"

definition iface_addr ::
  "(string \<times> (family \<times> string) option) list option \<Rightarrow> string \<Rightarrow> l3protocol \<Rightarrow> string option c_result" where
  "iface_addr if_addr iface l3 =
     (case if_addr of None \<Rightarrow> Inr None | Some l \<Rightarrow> iface_loop l iface l3)"

section \<open>What a node keeps\<close>

text \<open>A fragment made for sending: its data is there, and it leaves from the node's own socket.\<close>

definition out_frag_ok :: "int \<Rightarrow> fragment \<Rightarrow> bool" where
  "out_frag_ok fd f \<longleftrightarrow> fragment_wf f \<and> f_data f \<noteq> None \<and> nd_fd (f_from f) = fd"

definition outgoing_ok :: "int \<Rightarrow> network_manager \<Rightarrow> bool" where
  "outgoing_ok fd nm \<longleftrightarrow> (\<forall>k e pid fp f. nm_content nm k = Some e \<longrightarrow>
     pb_deref (ep_outgoing e) pid = Some fp \<longrightarrow> f \<in> set (fp_frags fp) \<longrightarrow> out_frag_ok fd f)"

text \<open>A pending request is addressed to the node itself, and the descriptor it would leave from is
  that of the remote node, -1.\<close>

definition requests_lost :: "nodeID \<Rightarrow> send_queue \<Rightarrow> bool" where
  "requests_lost self q \<longleftrightarrow> (\<forall>fr. Req_ref fr \<in> set q \<longrightarrow> nd_fd (fr_from fr) = -1 \<and> fr_to fr = self)"

definition node_inv :: "local_node \<Rightarrow> bool" where
  "node_inv s \<longleftrightarrow> nm_inv (ln_nm s) \<and> 0 < nm_frag_size (ln_nm s) \<and>
     outgoing_ok (nd_fd (ln_id s)) (ln_nm s) \<and> requests_lost (ln_id s) (nm_outqueue (ln_nm s))"

lemma refreshed_sub:
  "refreshed now pb pb' \<Longrightarrow> pb_deref pb' pid = Some fp \<Longrightarrow> pb_deref pb pid = Some fp"
  by (auto simp: refreshed_def restrict_map_def split: if_splits)

lemma make_frags_ok:
  assumes "f \<in> set (make_frags from to pid num d fs (length d) 0 k)"
  shows "out_frag_ok (nd_fd from) f"
proof -
  obtain j where j: "j < k" "f = make_frags from to pid num d fs (length d) 0 k ! j"
    using assms by (auto simp: in_set_conv_nth)
  show ?thesis unfolding j(2) nth_make_frags [OF j(1)] by (auto simp: out_frag_ok_def fragment_wf_def)
qed

lemma created_frags_ok:
  "fragmented_packet_create now pid s t d fs = Some fp \<Longrightarrow> f \<in> set (fp_frags fp) \<Longrightarrow> out_frag_ok (nd_fd s) f"
  by (auto simp: fragmented_packet_create_def Let_def make_frags_ok split: option.splits if_splits)

lemma outgoing_okD:
  "outgoing_ok fd nm \<Longrightarrow> nm_content nm k = Some e \<Longrightarrow> pb_deref (ep_outgoing e) pid = Some fp \<Longrightarrow>
   f \<in> set (fp_frags fp) \<Longrightarrow> out_frag_ok fd f"
  unfolding outgoing_ok_def by blast

text \<open>Replacing one endpoint.\<close>

lemma outgoing_ok_upd:
  assumes "outgoing_ok fd nm" and "nm_content nm' = (nm_content nm)(k \<mapsto> e)"
    and "\<And>pid fp f. pb_deref (ep_outgoing e) pid = Some fp \<Longrightarrow> f \<in> set (fp_frags fp) \<Longrightarrow> out_frag_ok fd f"
  shows "outgoing_ok fd nm'"
  using assms unfolding outgoing_ok_def by (metis fun_upd_apply option.inject)

lemma the_endpoint_outgoing:
  assumes "outgoing_ok fd nm" and "pb_deref (ep_outgoing (the_endpoint nm node)) pid = Some fp"
    and "f \<in> set (fp_frags fp)"
  shows "out_frag_ok fd f"
  using assms outgoing_okD [OF assms(1)]
  by (auto simp: the_endpoint_def endpoint_create_def split: option.splits)

lemma requests_lost_sub:
  "requests_lost self q \<Longrightarrow> (\<And>fr. Req_ref fr \<in> set q' \<Longrightarrow> Req_ref fr \<in> set q) \<Longrightarrow> requests_lost self q'"
  by (auto simp: requests_lost_def)

text \<open>The requests a write makes go back the way the fragment came.\<close>

lemma write_fragment_requests:
  assumes "fr \<in> set (snd (snd (fragmented_packet_write_fragment fp f [])))"
  shows "fr_from fr = f_from f \<and> fr_to fr = f_to f"
  using assms by (auto simp: fragmented_packet_write_fragment_def fragmented_packet_state_eq Let_def
      frag_request_create_def split: if_splits)

lemma net_msg_decode_from:
  assumes "net_msg_decode ic (Some l) (Some node) dg = Inr (Some m)"
  shows "(case m of Fragment_msg f \<Rightarrow> f_from f = node \<and> f_to f = l | Request_msg r \<Rightarrow> True)"
  using assms
  by (auto simp: net_msg_decode_def fragment_decode_def fragment_init_def Let_def c_bind_Inr_conv
      split: list.splits if_splits option.splits net_msg.splits)

section \<open>Every operation keeps it\<close>

lemma frag_size_enqueue:
  "network_manager_enqueue_outgoing_packet now nm src dst data = Inr (r, nm') \<Longrightarrow> nm_frag_size nm' = nm_frag_size nm"
  by (auto simp: network_manager_enqueue_outgoing_packet_def nm_endpoint_def nm_store_def Let_def c_bind_Inr_conv
      split: option.splits if_splits prod.splits)

lemma frag_size_add_fragment:
  "network_manager_add_incoming_fragment now nm f = Inr (r, nm') \<Longrightarrow> nm_frag_size nm' = nm_frag_size nm"
  by (auto simp: network_manager_add_incoming_fragment_def nm_endpoint_def nm_store_def Let_def c_bind_Inr_conv
      split: option.splits if_splits prod.splits)

lemma frag_size_pop_packet:
  "network_manager_pop_incoming_packet now nm src pid sz = Inr (r, out, n, nm') \<Longrightarrow> nm_frag_size nm' = nm_frag_size nm"
  by (auto simp: network_manager_pop_incoming_packet_def nm_store_def Let_def c_bind_Inr_conv
      split: option.splits if_splits prod.splits)

lemma frag_size_enqueue_fragment:
  "network_manager_enqueue_outgoing_fragment now nm dst pid fid = Inr (r, nm') \<Longrightarrow> nm_frag_size nm' = nm_frag_size nm"
  by (auto simp: network_manager_enqueue_outgoing_fragment_def nm_store_def Let_def c_bind_Inr_conv
      split: option.splits if_splits prod.splits)

text \<open>Sending: it succeeds exactly when the packet number is not in use.\<close>

lemma enqueue_outgoing_ok:
  assumes inv: "nm_inv nm" and fs: "0 < nm_frag_size nm" and d: "d \<noteq> []"
    and out: "outgoing_ok (nd_fd src) nm" and req: "requests_lost self (nm_outqueue nm)"
    and r: "network_manager_enqueue_outgoing_packet now nm (Some src) (Some dst) (Some d) = Inr (res, nm')"
  shows "res = 0 \<and> nm_inv nm' \<and> outgoing_ok (nd_fd src) nm' \<and> requests_lost self (nm_outqueue nm')"
proof -
  let ?e = "the_endpoint nm dst"
  have "ep_out_id ?e \<notin> set (dropWhile (expired now (ep_outgoing ?e)) (pb_list (ep_outgoing ?e)))"
    using enqueue_outgoing_packet_faults(2) [OF inv d fs, of dst now src] r by auto
  then obtain nm1 pb' pb'' fp where s:
    "network_manager_enqueue_outgoing_packet now nm (Some src) (Some dst) (Some d) = Inr (0, nm1)"
    "nm_inv nm1" "refreshed now (ep_outgoing ?e) pb'"
    "fragmented_packet_create now (ep_out_id ?e) src (ep_node ?e) (Some d) (nm_frag_size nm) = Some fp"
    "nm_content nm1 = (nm_content nm)(node_key dst \<mapsto> ?e\<lparr>ep_outgoing := pb'', ep_out_id := ep_out_id ?e + 1\<rparr>)"
    "pb_deref pb'' = (pb_deref pb')(ep_out_id ?e \<mapsto> fp)"
    "nm_outqueue nm1 = fragment_refs (Outgoing (node_key dst)) (ep_out_id ?e) (fp_frag_num fp) @
      filter (keep_ref (Outgoing (node_key dst)) (\<lambda>p. p \<in> set (pb_list pb'))) (nm_outqueue nm)"
    using enqueue_outgoing_packet_spec [OF inv d fs] by metis
  have "outgoing_ok (nd_fd src) nm1"
  proof (rule outgoing_ok_upd [OF out s(5)])
    fix pid p f
    assume "pb_deref (ep_outgoing (?e\<lparr>ep_outgoing := pb'', ep_out_id := ep_out_id ?e + 1\<rparr>)) pid = Some p"
      and f: "f \<in> set (fp_frags p)"
    then have "p = fp \<or> pb_deref pb' pid = Some p" by (auto simp: s(6) split: if_splits)
    then show "out_frag_ok (nd_fd src) f"
      using created_frags_ok [OF s(4)] the_endpoint_outgoing [OF out refreshed_sub [OF s(3)]] f by auto
  qed
  moreover have "requests_lost self (nm_outqueue nm1)"
    by (rule requests_lost_sub [OF req]) (auto simp: s(7) in_fragment_refs)
  ultimately show ?thesis using s(1,2) r by simp
qed

lemma add_incoming_ok:
  assumes inv: "nm_inv nm" and out: "outgoing_ok fd nm" and req: "requests_lost self (nm_outqueue nm)"
    and f: "nd_fd (f_from f) = -1" "f_to f = self"
  obtains res nm' where "network_manager_add_incoming_fragment now nm (Some f) = Inr (res, nm')"
    and "nm_inv nm'" and "outgoing_ok fd nm'" and "requests_lost self (nm_outqueue nm')"
    and "\<exists>e. nm_content nm' (node_key (f_from f)) = Some e"
proof -
  let ?e = "the_endpoint nm (f_from f)"
  obtain nm' pb' pb'' where s:
    "network_manager_add_incoming_fragment now nm (Some f) =
      Inr (fst (fragmented_packet_write_fragment (received_packet now pb' f) f []), nm')"
    "nm_inv nm'"
    "nm_content nm' = (nm_content nm)(node_key (f_from f) \<mapsto> ?e\<lparr>ep_incoming := pb''\<rparr>)"
    "nm_outqueue nm' =
      map Req_ref (snd (snd (fragmented_packet_write_fragment (received_packet now pb' f) f []))) @ nm_outqueue nm"
    using add_incoming_fragment_spec [OF inv] by metis
  have "outgoing_ok fd nm'"
    by (rule outgoing_ok_upd [OF out s(3)]) (use the_endpoint_outgoing [OF out] in simp)
  moreover have "requests_lost self (nm_outqueue nm')"
    using req f write_fragment_requests by (fastforce simp: requests_lost_def s(4))
  ultimately show ?thesis using that s(1-3) by simp
qed

lemma pop_incoming_ok:
  assumes inv: "nm_inv nm" and out: "outgoing_ok fd nm" and e: "nm_content nm (node_key src) = Some e"
  obtains r bs n nm' where "network_manager_pop_incoming_packet now nm (Some src) pid sz = Inr (r, bs, n, nm')"
    and "nm_inv nm'" and "outgoing_ok fd nm'" and "nm_outqueue nm' = nm_outqueue nm"
proof -
  have upd: "outgoing_ok fd nm'"
    if "nm_content nm' = (nm_content nm)(node_key src \<mapsto> e\<lparr>ep_incoming := pb\<rparr>)" for nm' pb
    by (rule outgoing_ok_upd [OF out that]) (use outgoing_okD [OF out e] in simp)
  show ?thesis
  proof (rule pop_incoming_packet_spec [OF inv e, of now pid sz])
    fix pb'
    assume none: "pb_deref pb' pid = None \<Longrightarrow>
      \<exists>nm'. network_manager_pop_incoming_packet now nm (Some src) pid sz = Inr (-2, [], sz, nm') \<and> nm_inv nm' \<and>
        nm_content nm' = (nm_content nm)(node_key src \<mapsto> e\<lparr>ep_incoming := pb'\<rparr>) \<and>
        nm_outqueue nm' = nm_outqueue nm"
      and some: "\<And>fp. pb_deref pb' pid = Some fp \<Longrightarrow>
      \<exists>nm' pb''. network_manager_pop_incoming_packet now nm (Some src) pid sz =
        (case fragmented_packet_dump_data fp sz of (res, out, n) \<Rightarrow> Inr (res, out, n, nm')) \<and> nm_inv nm' \<and>
        nm_content nm' = (nm_content nm)(node_key src \<mapsto> e\<lparr>ep_incoming := pb''\<rparr>) \<and>
        pb_wf pb'' \<and> pb_deref pb'' = (pb_deref pb')(pid := None) \<and> nm_outqueue nm' = nm_outqueue nm"
    show ?thesis
    proof (cases "pb_deref pb' pid")
      case None
      then show ?thesis using none upd that by blast
    next
      case (Some fp)
      obtain a b c where "fragmented_packet_dump_data fp sz = (a, b, c)" by (metis prod_cases3)
      then show ?thesis using some [OF Some] upd that by fastforce
    qed
  qed
qed

lemma enqueue_fragment_ok:
  assumes inv: "nm_inv nm" and out: "outgoing_ok fd nm" and req: "requests_lost self (nm_outqueue nm)"
  obtains r nm' where "network_manager_enqueue_outgoing_fragment now nm (Some dst) pid fid = Inr (r, nm')"
    and "nm_inv nm'" and "outgoing_ok fd nm'" and "requests_lost self (nm_outqueue nm')"
proof (cases "nm_content nm (node_key dst)")
  case None
  then show ?thesis using that [of "-2" nm] assms
    by (simp add: network_manager_enqueue_outgoing_fragment_def nm_find_content [OF inv])
next
  case (Some e)
  obtain pb' nm' r where s: "refreshed now (ep_outgoing e) pb'" "nm_inv nm'"
    "nm_content nm' = (nm_content nm)(node_key dst \<mapsto> e\<lparr>ep_outgoing := pb'\<rparr>)"
    "network_manager_enqueue_outgoing_fragment now nm (Some dst) pid fid = Inr (r, nm')"
    "set (nm_outqueue nm') \<subseteq> insert (Frag_ref (Outgoing (node_key dst)) pid fid) (set (nm_outqueue nm))"
  proof (rule enqueue_outgoing_fragment_spec [OF inv Some, of now pid fid])
    fix pb' nm'
    let ?r = "Frag_ref (Outgoing (node_key dst)) pid fid"
    assume a: "refreshed now (ep_outgoing e) pb'" "nm_inv nm'"
      "nm_content nm' = (nm_content nm)(node_key dst \<mapsto> e\<lparr>ep_outgoing := pb'\<rparr>)"
      "network_manager_enqueue_outgoing_fragment now nm (Some dst) pid fid =
        Inr (if nm_message nm' ?r = None then -2 else if ?r \<in> set (nm_outqueue nm) then 1 else 0, nm')"
      "nm_outqueue nm' = filter (keep_ref (Outgoing (node_key dst)) (\<lambda>p. p \<in> set (pb_list pb'))) (nm_outqueue nm) @
        (if nm_message nm' ?r = None \<or> ?r \<in> set (nm_outqueue nm) then [] else [?r])"
    have "set (nm_outqueue nm') \<subseteq> insert ?r (set (nm_outqueue nm))" unfolding a(5) by auto
    then show thesis by (rule that [OF a(1-4)])
  qed
  have "outgoing_ok fd nm'"
    by (rule outgoing_ok_upd [OF out s(3)])
      (use outgoing_okD [OF out Some] refreshed_sub [OF s(1)] in \<open>simp, blast\<close>)
  moreover have "requests_lost self (nm_outqueue nm')"
    by (rule requests_lost_sub [OF req]) (use s(5) in auto)
  ultimately show ?thesis using that s(2,4) by simp
qed

section \<open>Runs of a node\<close>

text \<open>One call into the layer; the list is what was handed to \<open>sendto\<close>.\<close>

inductive node_step :: "int_coding \<Rightarrow> local_node \<Rightarrow> datagram list \<Rightarrow> local_node \<Rightarrow> bool"
  for ic :: int_coding where
  step_periodic: "net_helper_periodic ic tv tv' (Some s) (Some i) = Inr (Some s', i', out) \<Longrightarrow> node_step ic s out s'"
| step_send: "send_to_peer now tv (Some s) to buffer = Inr (r, Some s') \<Longrightarrow> node_step ic s [] s'"
| step_recv: "recv_from_peer ic now now' s incoming sz = Inr (r, remote, bs, s') \<Longrightarrow> node_step ic s [] s'"

inductive node_run :: "int_coding \<Rightarrow> local_node \<Rightarrow> datagram list \<Rightarrow> local_node \<Rightarrow> bool"
  for ic :: int_coding where
  run_start: "node_run ic s [] s"
| run_step: "node_run ic s out s' \<Longrightarrow> node_step ic s' out' s'' \<Longrightarrow> node_run ic s (out @ out') s''"

inductive_cases node_stepE: "node_step ic s out s'"

lemma register_zero [simp]:
  "network_shaper_register_sent_bytes (Some sh) 0 = Inr (-1, Some sh)"
  by (simp add: network_shaper_register_sent_bytes_def)

text \<open>Where a message goes.\<close>

definition msg_fd :: "net_msg \<Rightarrow> int" where
  "msg_fd m = (case m of Fragment_msg f \<Rightarrow> nd_fd (f_from f) | Request_msg r \<Rightarrow> nd_fd (fr_from r))"

definition msg_bytes :: "int_coding \<Rightarrow> net_msg \<Rightarrow> bytes" where
  "msg_bytes ic m = (case m of Fragment_msg f \<Rightarrow> fragment_bytes ic f | Request_msg r \<Rightarrow> request_bytes ic r)"

lemma send_msg_fd:
  "int_coding_ok ic \<Longrightarrow> (case m of Fragment_msg f \<Rightarrow> fragment_wf f | Request_msg r \<Rightarrow> True) \<Longrightarrow>
   \<exists>out. net_helper_send_msg ic s m = Inr out \<and> (\<forall>dg \<in> set out. dg_fd dg = msg_fd m \<and> dg_bytes dg = msg_bytes ic m)"
  by (cases m) (auto simp: net_helper_send_msg_def net_msg_send_def fragment_send_bytes frag_request_send_bytes
      msg_fd_def msg_bytes_def)

text \<open>The head of the queue is a fragment of the node or a request that is lost.\<close>

lemma node_inv_message:
  assumes "node_inv s" and "r \<in> set (nm_outqueue (ln_nm s))"
  obtains m where "nm_message (ln_nm s) r = Some m"
    and "case m of Fragment_msg f \<Rightarrow> out_frag_ok (nd_fd (ln_id s)) f
      | Request_msg fr \<Rightarrow> nd_fd (fr_from fr) = -1 \<and> fr_to fr = ln_id s"
proof (cases r)
  case (Req_ref fr)
  then show ?thesis using that [of "Request_msg fr"] assms by (simp add: node_inv_def requests_lost_def)
next
  case (Frag_ref b pid fid)
  have "nm_message (ln_nm s) r \<noteq> None" using assms by (simp add: node_inv_def nm_inv_def)
  then obtain k e fp where b: "b = Outgoing k" and e: "nm_content (ln_nm s) k = Some e"
    and fp: "pb_deref (ep_outgoing e) pid = Some fp" and i: "unat fid < fp_frag_num fp"
    unfolding Frag_ref nm_message_frag by auto
  have "out_frag_ok (nd_fd (ln_id s)) (fp_frags fp ! unat fid)"
    using assms(1) i by (intro outgoing_okD [OF _ e fp]) (simp_all add: node_inv_def)
  moreover have "nm_message (ln_nm s) r = Some (Fragment_msg (fp_frags fp ! unat fid))"
    using b e fp i by (simp add: Frag_ref nm_message_def fragmented_packet_fragment_def)
  ultimately show ?thesis using that by simp
qed

lemma nm_message_queue [simp]: "nm_message (nm\<lparr>nm_outqueue := q\<rparr>) = nm_message nm"
proof
  have c: "nm_content (nm\<lparr>nm_outqueue := q\<rparr>) = nm_content nm" by (simp add: nm_content_def fun_eq_iff)
  show "nm_message (nm\<lparr>nm_outqueue := q\<rparr>) r = nm_message nm r" for r unfolding nm_message_def c ..
qed

text \<open>The periodic send never faults, keeps the node sound, and sends from the node's own socket
  or, for a request, from descriptor -1.\<close>

lemma send_attempt_ok:
  assumes ic: "int_coding_ok ic" and inv: "node_inv s"
  obtains s' i out where "net_helper_send_attempt ic tv tv' s = Inr (s', i, out)"
    and "node_inv s'" and "ln_id s' = ln_id s"
    and "\<forall>dg \<in> set out. dg_fd dg = nd_fd (ln_id s) \<and> hd (dg_bytes dg) = NET_FRAGMENT \<or>
      dg_fd dg = -1 \<and> hd (dg_bytes dg) = NET_FRAGMENT_REQ"
proof (cases "nm_outqueue (ln_nm s)")
  case Nil
  then show ?thesis
    using that [of s "Timeval 0 1000" "[]"] inv
    by (simp add: net_helper_send_attempt_def network_manager_outgoing_queue_ready_def)
next
  case (Cons r q)
  obtain rc iv where i: "network_shaper_next_sending_interval tv (Some (ln_shaper s)) (Some (Timeval 0 0)) = (rc, Some iv)"
    by (simp add: network_shaper_next_sending_interval_def)
  have ready: "network_manager_outgoing_queue_ready (Some (ln_nm s)) = 1"
    using Cons by (simp add: network_manager_outgoing_queue_ready_def)
  show ?thesis
  proof (cases "tv_sec iv = 0 \<and> tv_usec iv = 0")
    case False
    have "net_helper_send_attempt ic tv tv' s = Inr (s, iv, [])"
      using i ready by (simp add: net_helper_send_attempt_def if_not_P [OF False])
    then show ?thesis using that inv by simp
  next
    case True
    let ?nm = "(ln_nm s)\<lparr>nm_outqueue := q\<rparr>"
    obtain m where m: "nm_message (ln_nm s) r = Some m"
      and ok: "case m of Fragment_msg f \<Rightarrow> out_frag_ok (nd_fd (ln_id s)) f
        | Request_msg fr \<Rightarrow> nd_fd (fr_from fr) = -1 \<and> fr_to fr = ln_id s"
      using node_inv_message [OF inv] Cons by (metis list.set_intros(1))
    obtain out where out: "net_helper_send_msg ic s m = Inr out"
      "\<forall>dg \<in> set out. dg_fd dg = msg_fd m \<and> dg_bytes dg = msg_bytes ic m"
      using send_msg_fd [OF ic, of m s] ok by (auto simp: out_frag_ok_def split: net_msg.splits)
    obtain rc' iv' where i': "network_shaper_next_sending_interval tv' (Some (ln_shaper s)) (Some iv) = (rc', Some iv')"
      by (simp add: network_shaper_next_sending_interval_def)
    have pop: "network_manager_pop_outgoing_net_msg (ln_nm s) = (Some r, ?nm)"
      using Cons by (simp add: network_manager_pop_outgoing_net_msg_def)
    have run: "net_helper_send_attempt ic tv tv' s = Inr (s\<lparr>ln_nm := ?nm, ln_shaper := ln_shaper s\<rparr>, iv', out)"
      using True i i' ready pop m out(1) by (simp add: net_helper_send_attempt_def)
    have "nm_inv ?nm"
      using pop_outgoing_spec [OF _ Cons] inv pop by (metis node_inv_def prod.inject)
    moreover have "nm_content ?nm = nm_content (ln_nm s)" by (simp add: nm_content_def fun_eq_iff)
    ultimately have "node_inv (s\<lparr>ln_nm := ?nm, ln_shaper := ln_shaper s\<rparr>)"
      using inv Cons by (simp add: node_inv_def outgoing_ok_def requests_lost_def)
    moreover have "\<forall>dg \<in> set out. dg_fd dg = nd_fd (ln_id s) \<and> hd (dg_bytes dg) = NET_FRAGMENT \<or>
      dg_fd dg = -1 \<and> hd (dg_bytes dg) = NET_FRAGMENT_REQ"
      using out(2) ok
      by (auto simp: msg_fd_def msg_bytes_def out_frag_ok_def fragment_bytes_def request_bytes_def split: net_msg.splits)
    ultimately show ?thesis using that [OF run] by simp
  qed
qed

lemma send_to_peer_ok:
  assumes inv: "node_inv s" and r: "send_to_peer now tv (Some s) to buffer = Inr (res, s')"
  obtains s1 where "s' = Some s1" and "node_inv s1" and "ln_id s1 = ln_id s"
proof (cases "to \<noteq> None \<and> buffer \<noteq> None \<and> the buffer \<noteq> []")
  case False
  then have "s' = Some s" using r by (auto simp: send_to_peer_def split: option.splits)
  then show ?thesis using that inv by simp
next
  case True
  then obtain t b where tb: "to = Some t" "buffer = Some b" "b \<noteq> []" by auto
  then obtain rc nm' sh where e: "network_manager_enqueue_outgoing_packet now (ln_nm s) (Some (ln_id s)) (Some t) (Some b) = Inr (rc, nm')"
    and s': "s' = Some (s\<lparr>ln_nm := nm', ln_shaper := sh\<rparr>)"
    using r by (auto simp: send_to_peer_def c_bind_Inr_conv)
  have "nm_inv nm' \<and> outgoing_ok (nd_fd (ln_id s)) nm' \<and> requests_lost (ln_id s) (nm_outqueue nm')"
    using enqueue_outgoing_ok [OF _ _ tb(3) _ _ e] inv by (auto simp: node_inv_def)
  then have "node_inv (s\<lparr>ln_nm := nm', ln_shaper := sh\<rparr>)"
    using inv frag_size_enqueue [OF e] by (simp add: node_inv_def)
  then show ?thesis using that s' by simp
qed

text \<open>Receiving faults only on a datagram that does not decode.\<close>

lemma recv_from_peer_ok:
  assumes inv: "node_inv s"
    and dec: "\<And>addr dg. incoming = Some (addr, dg) \<Longrightarrow> dg \<noteq> [] \<Longrightarrow>
      \<exists>m. net_msg_decode ic (Some (ln_id s)) (Some (empty_node\<lparr>nd_addr := addr\<rparr>)) dg = Inr (Some m)"
  obtains r remote bs s' where "recv_from_peer ic now now' s incoming sz = Inr (r, remote, bs, s')"
    and "node_inv s'" and "ln_id s' = ln_id s"
proof (cases "\<exists>addr dg. incoming = Some (addr, dg) \<and> dg \<noteq> []")
  case False
  then show ?thesis using that inv by (cases incoming) (auto simp: recv_from_peer_def)
next
  case True
  then obtain addr dg where dg: "incoming = Some (addr, dg)" "dg \<noteq> []" by auto
  let ?node = "empty_node\<lparr>nd_addr := addr\<rparr>"
  obtain m where m: "net_msg_decode ic (Some (ln_id s)) (Some ?node) dg = Inr (Some m)" using dec dg by blast
  have fd: "nd_fd ?node = -1" by (simp add: empty_node_def)
  have inv': "nm_inv (ln_nm s)" "outgoing_ok (nd_fd (ln_id s)) (ln_nm s)"
    "requests_lost (ln_id s) (nm_outqueue (ln_nm s))" "0 < nm_frag_size (ln_nm s)"
    using inv by (simp_all add: node_inv_def)
  show ?thesis
  proof (cases m)
    case (Fragment_msg f)
    have f: "f_from f = ?node" "f_to f = ln_id s" using net_msg_decode_from [OF m] Fragment_msg by simp_all
    obtain st nm1 e where a: "network_manager_add_incoming_fragment now (ln_nm s) (Some f) = Inr (st, nm1)"
      "nm_inv nm1" "outgoing_ok (nd_fd (ln_id s)) nm1" "requests_lost (ln_id s) (nm_outqueue nm1)"
      "nm_content nm1 (node_key ?node) = Some e"
      using add_incoming_ok [OF inv'(1-3), of f now] f fd by metis
    obtain r bs n nm2 where p: "network_manager_pop_incoming_packet now' nm1 (Some ?node) (f_pid f) sz = Inr (r, bs, n, nm2)"
      "nm_inv nm2" "outgoing_ok (nd_fd (ln_id s)) nm2" "nm_outqueue nm2 = nm_outqueue nm1"
      using pop_incoming_ok [OF a(2,3,5)] by metis
    have sz: "0 < nm_frag_size nm1" "0 < nm_frag_size nm2"
      using inv'(4) frag_size_add_fragment [OF a(1)] frag_size_pop_packet [OF p(1)] by simp_all
    show ?thesis
    proof (cases "st = PKT_READY")
      case True
      show ?thesis
        using that [of "int n" "Some ?node" bs "s\<lparr>ln_nm := nm2\<rparr>"] True dg m Fragment_msg a p sz
        by (simp add: recv_from_peer_def node_inv_def)
    next
      case False
      show ?thesis
        using that [of 0 "Some ?node" "[]" "s\<lparr>ln_nm := nm1\<rparr>"] False dg m Fragment_msg a sz
        by (simp add: recv_from_peer_def node_inv_def)
    qed
  next
    case (Request_msg fr)
    obtain r nm1 where q: "network_manager_enqueue_outgoing_fragment now (ln_nm s) (Some ?node) (fr_pid fr) (fr_id fr) = Inr (r, nm1)"
      "nm_inv nm1" "outgoing_ok (nd_fd (ln_id s)) nm1" "requests_lost (ln_id s) (nm_outqueue nm1)"
      using enqueue_fragment_ok [OF inv'(1-3)] by metis
    show ?thesis
      using that [of 0 "Some ?node" "[]" "s\<lparr>ln_nm := nm1\<rparr>"] dg m Request_msg q inv'(4)
        frag_size_enqueue_fragment [OF q(1)]
      by (simp add: recv_from_peer_def node_inv_def)
  qed
qed

lemma recv_from_peer_decodes:
  assumes "recv_from_peer ic now now' s (Some (addr, dg)) sz = Inr x" and "dg \<noteq> []"
  shows "\<exists>m. net_msg_decode ic (Some (ln_id s)) (Some (empty_node\<lparr>nd_addr := addr\<rparr>)) dg = Inr (Some m)"
  using assms by (auto simp: recv_from_peer_def Let_def c_bind_Inr_conv split: option.splits)

text \<open>A packet comes from the node of its datagram.\<close>

lemma recv_from_node:
  assumes "recv_from_peer ic now now' s (Some (addr, dg)) sz = Inr (len, remote, buff, s')" and "len > 0"
  shows "remote = Some (empty_node\<lparr>nd_addr := addr\<rparr>)"
proof -
  have "dg \<noteq> []" using assms by (auto simp: recv_from_peer_def)
  then obtain m where "net_msg_decode ic (Some (ln_id s)) (Some (empty_node\<lparr>nd_addr := addr\<rparr>)) dg = Inr (Some m)"
    using recv_from_peer_decodes [of ic now now' s addr dg sz] assms(1) by auto
  then show ?thesis
    using assms \<open>dg \<noteq> []\<close> by (cases m) (auto simp: recv_from_peer_def Let_def c_bind_Inr_conv split: if_split_asm)
qed

lemma node_step_inv:
  assumes "int_coding_ok ic" and "node_step ic s out s'" and "node_inv s"
  shows "node_inv s' \<and> ln_id s' = ln_id s \<and>
    (\<forall>dg \<in> set out. dg_fd dg = nd_fd (ln_id s) \<and> hd (dg_bytes dg) = NET_FRAGMENT \<or>
      dg_fd dg = -1 \<and> hd (dg_bytes dg) = NET_FRAGMENT_REQ)"
  using assms(2)
proof cases
  case (step_periodic tv tv' i i')
  then obtain i1 where a: "net_helper_send_attempt ic tv tv' s = Inr (s', i1, out)"
    by (auto simp: net_helper_periodic_def c_bind_Inr_conv)
  show ?thesis
    by (rule send_attempt_ok [OF assms(1,3), of tv tv']) (use a in simp)
next
  case (step_send now tv to buffer r)
  then show ?thesis using send_to_peer_ok [OF assms(3)] by (metis empty_iff empty_set option.inject)
next
  case (step_recv now now' incoming sz r remote bs)
  show ?thesis
  proof (rule recv_from_peer_ok [OF assms(3), of incoming ic now now' sz])
    show "\<exists>m. net_msg_decode ic (Some (ln_id s)) (Some (empty_node\<lparr>nd_addr := addr\<rparr>)) dg = Inr (Some m)"
      if "incoming = Some (addr, dg)" "dg \<noteq> []" for addr dg
      using step_recv(2) that by (intro recv_from_peer_decodes) auto
  qed (use step_recv in simp)
qed

lemma node_run_inv:
  assumes "int_coding_ok ic" and "node_run ic s out s'" and "node_inv s"
  shows "node_inv s' \<and> ln_id s' = ln_id s \<and>
    (\<forall>dg \<in> set out. dg_fd dg = nd_fd (ln_id s) \<and> hd (dg_bytes dg) = NET_FRAGMENT \<or>
      dg_fd dg = -1 \<and> hd (dg_bytes dg) = NET_FRAGMENT_REQ)"
  using assms(2,3)
proof (induction rule: node_run.induct)
  case (run_step s out s' out' s'')
  then show ?case using node_step_inv [OF assms(1) run_step.hyps(2)] by auto
qed simp

lemma net_helper_init_inv:
  assumes "net_helper_init nh sock bind_res bound tv addr port ci cd = Inr (Some s)"
    and "config_int ci ''frag_size'' DEFAULT_FRAG_SIZE mod 2 ^ 64 \<noteq> 0"
  shows "node_inv s"
proof -
  have nm: "ln_nm s = network_manager_create ci"
    using assms(1) by (auto simp: net_helper_init_def Let_def split: if_splits option.splits sock_addr.splits)
  have c: "nm_content (network_manager_create ci) k = None" for k
    by (simp add: nm_content_def network_manager_create_def ord_set_new_def os_content_def)
  have "0 \<le> config_int ci ''frag_size'' DEFAULT_FRAG_SIZE mod 2 ^ 64" by simp
  with assms(2) have "0 < nm_frag_size (network_manager_create ci)" by (simp add: network_manager_create_def)
  then show ?thesis
    using nm_inv_create c unfolding node_inv_def nm
    by (simp add: outgoing_ok_def requests_lost_def) (simp add: network_manager_create_def)
qed

text \<open>Closing the node sends what is queued and frees the manager.\<close>

lemma flush_loop_ok:
  assumes "int_coding_ok ic" and "node_inv s" and "set q \<subseteq> set (nm_outqueue (ln_nm s))"
  shows "\<exists>out. flush_loop ic s (ln_nm s) q = Inr out"
  using assms(3)
proof (induction q)
  case (Cons r q)
  obtain m where m: "nm_message (ln_nm s) r = Some m"
    "case m of Fragment_msg f \<Rightarrow> out_frag_ok (nd_fd (ln_id s)) f
      | Request_msg fr \<Rightarrow> nd_fd (fr_from fr) = -1 \<and> fr_to fr = ln_id s"
    using node_inv_message [OF assms(2)] Cons.prems by (metis list.set_intros(1) subsetD)
  then obtain out where "net_helper_send_msg ic s m = Inr out"
    using send_msg_fd [OF assms(1), of m s] by (auto simp: out_frag_ok_def split: net_msg.splits)
  then show ?case using m(1) Cons by auto
qed simp

lemma net_helper_deinit_ok:
  assumes "int_coding_ok ic" and "node_inv s"
  shows "\<exists>out. net_helper_deinit ic s = Some (Inr out)"
proof -
  have inv: "nm_inv (ln_nm s)" using assms(2) by (simp add: node_inv_def)
  have "nm_inv ((ln_nm s)\<lparr>nm_outqueue := []\<rparr>)"
    using inv by (simp add: nm_inv_def ep_wf_def frags_distinct_def)
  then show ?thesis
    using flush_loop_ok [OF assms, of "nm_outqueue (ln_nm s)"] network_manager_destroy_spec
    by (auto simp: net_helper_deinit_def)
qed

section \<open>Delivery of a packet\<close>

text \<open>How far the reception of the packet \<open>pid\<close> of a node is: the fragments \<open>I\<close> of \<open>fs\<close> have been written.\<close>

definition receiving :: "network_manager \<Rightarrow> nodeID \<Rightarrow> u16 \<Rightarrow> int \<Rightarrow> fragment list \<Rightarrow> nat set \<Rightarrow> bool" where
  "receiving nm node pid now fs I \<longleftrightarrow>
     (case pb_deref (ep_incoming (the_endpoint nm node)) pid of
        None \<Rightarrow> I = {}
      | Some fp \<Rightarrow> fp_creation_timestamp fp = now \<and> holds fp fs I)"

lemma refreshed_keeps:
  assumes "refreshed now pb pb'" and "pb_wf pb" and "pb_deref pb pid = Some fp"
    and "fp_creation_timestamp fp = now" and "0 < pb_max_pkt_age pb"
  shows "pb_deref pb' pid = Some fp"
proof -
  have "pid \<in> set (pb_list pb)" using assms(2,3) pb_deref_list by auto
  moreover have "\<not> expired now pb pid"
    using assms(3-5) by (simp add: expired_def fragmented_packet_creation_timestamp_def word_less_def)
  ultimately have "pid \<in> set (pb_list pb')" using assms(1) by (simp add: refreshed_def in_dropWhile)
  then show ?thesis using assms(1,3) by (simp add: refreshed_def)
qed

lemma write_fragment_state:
  assumes "holds fp fs I" and "carries fs w" and "\<forall>f \<in> set fs. fragment_wf f \<and> f_data f \<noteq> None"
    and "I \<subseteq> {..<length fs}"
  shows "fst (fragmented_packet_write_fragment fp w []) =
    (if insert (unat (f_id w)) I = {..<length fs} then PKT_READY else PKT_LOADING)"
proof -
  obtain st fp' rs where w: "fragmented_packet_write_fragment fp w [] = (st, fp', rs)" by (metis prod_cases3)
  have h: "holds fp' fs (insert (unat (f_id w)) I)" using holds_write [OF assms(1,2), of "[]"] assms(3) w by simp
  have lt: "unat (f_id w) < length fs" "unat (f_id w) < fp_frag_num fp"
    using assms(1,2) by (simp_all add: carries_def holds_def)
  then have "st = (if \<forall>j < fp_frag_num fp'. f_data (fp_frags fp' ! j) \<noteq> None then PKT_READY else PKT_LOADING)"
    using w by (auto simp: fragmented_packet_write_fragment_def fragmented_packet_state_eq Let_def)
  moreover have "(\<forall>j < fp_frag_num fp'. f_data (fp_frags fp' ! j) \<noteq> None) \<longleftrightarrow> insert (unat (f_id w)) I = {..<length fs}"
  proof -
    have "f_data (fp_frags fp' ! j) \<noteq> None \<longleftrightarrow> j \<in> insert (unat (f_id w)) I" if "j < length fs" for j
      using h that assms(3) by (auto simp: holds_def)
    moreover have "fp_frag_num fp' = length fs" using h by (simp add: holds_def)
    ultimately show ?thesis using assms(4) lt(1) by auto
  qed
  ultimately show ?thesis using w by simp
qed

text \<open>One fragment arrives.\<close>

lemma receiving_step:
  assumes inv: "nm_inv nm" and age: "0 < nm_max_pkt_age nm" and rec: "receiving nm node pid now fs I"
    and I: "I \<subseteq> {..<length fs}" and fs: "\<forall>f \<in> set fs. fragment_wf f \<and> f_data f \<noteq> None"
    and f: "carries fs f" "f_from f = node" "f_pid f = pid" "unat (f_frag_num f) = length fs"
  obtains nm' e fp where
    "network_manager_add_incoming_fragment now nm (Some f) =
      Inr (if insert (unat (f_id f)) I = {..<length fs} then PKT_READY else PKT_LOADING, nm')"
    and "nm_inv nm'" and "nm_content nm' (node_key node) = Some e" and "pb_deref (ep_incoming e) pid = Some fp"
    and "fp_creation_timestamp fp = now" and "holds fp fs (insert (unat (f_id f)) I)"
    and "receiving nm' node pid now fs (insert (unat (f_id f)) I)"
proof -
  let ?e = "the_endpoint nm node"
  obtain nm' pb' pb'' where s:
    "network_manager_add_incoming_fragment now nm (Some f) =
      Inr (fst (fragmented_packet_write_fragment (received_packet now pb' f) f []), nm')"
    "nm_inv nm'" "refreshed now (ep_incoming ?e) pb'"
    "nm_content nm' = (nm_content nm)(node_key node \<mapsto> ?e\<lparr>ep_incoming := pb''\<rparr>)"
    "pb_deref pb'' = (pb_deref pb')(pid \<mapsto>
      fst (snd (fragmented_packet_write_fragment (received_packet now pb' f) f [])))"
    using add_incoming_fragment_spec [OF inv] f(2,3) by metis
  define fp0 where "fp0 = received_packet now pb' f"
  have fp0: "fp_creation_timestamp fp0 = now \<and> holds fp0 fs I"
  proof (cases "pb_deref (ep_incoming ?e) pid")
    case None
    then have "pb_deref pb' pid = None" "I = {}" using s(3) rec by (simp_all add: refreshed_def receiving_def restrict_map_def)
    then show ?thesis using f(3,4) holds_empty [of fs "f_frag_num f"] by (simp add: fp0_def received_packet_def)
  next
    case (Some p)
    then have p: "fp_creation_timestamp p = now" "holds p fs I" using rec by (simp_all add: receiving_def)
    have "pb_wf (ep_incoming ?e)" "0 < pb_max_pkt_age (ep_incoming ?e)"
      using the_endpoint_wf(1) [OF inv, of node] age by (simp_all add: ep_wf_def)
    then have "pb_deref pb' pid = Some p" using refreshed_keeps [OF s(3) _ Some p(1)] by simp
    then show ?thesis using p f(3) by (simp add: fp0_def received_packet_def)
  qed
  define fp where "fp = fst (snd (fragmented_packet_write_fragment fp0 f []))"
  have h: "holds fp fs (insert (unat (f_id f)) I)"
    using holds_write [of fp0 fs I f "[]"] fp0 f(1) fs by (simp add: fp_def)
  have ts: "fp_creation_timestamp fp = now" using fp0 by (simp add: fp_def)
  have deref: "pb_deref pb'' pid = Some fp" using s(5) by (simp add: fp_def fp0_def)
  have "fst (fragmented_packet_write_fragment fp0 f []) =
      (if insert (unat (f_id f)) I = {..<length fs} then PKT_READY else PKT_LOADING)"
    using write_fragment_state [OF _ f(1) fs I] fp0 by simp
  moreover have "receiving nm' node pid now fs (insert (unat (f_id f)) I)"
    using h ts deref s(4) by (simp add: receiving_def the_endpoint_def)
  ultimately show ?thesis
    using that [of nm' "?e\<lparr>ep_incoming := pb''\<rparr>" fp] s(1,2,4) deref h ts by (simp add: fp0_def)
qed

text \<open>A complete packet is popped as it was.\<close>

lemma pop_complete:
  assumes inv: "nm_inv nm" and age: "0 < nm_max_pkt_age nm" and e: "nm_content nm (node_key node) = Some e"
    and fp: "pb_deref (ep_incoming e) pid = Some fp" "fp_creation_timestamp fp = now" "holds fp fs {..<length fs}"
    and fs: "\<forall>f \<in> set fs. fragment_wf f" and sz: "sum_list (map f_data_size fs) < sz"
  obtains nm' where
    "network_manager_pop_incoming_packet now nm (Some node) pid sz =
      Inr (0, concat (map frag_payload fs), sum_list (map f_data_size fs), nm')"
    and "nm_inv nm'" and "pb_deref (ep_incoming (the_endpoint nm' node)) pid = None"
proof -
  have same: "map f_data (fp_frags fp) = map f_data fs" "map f_data_size (fp_frags fp) = map f_data_size fs"
    "\<forall>f \<in> set (fp_frags fp). fragment_wf f"
    using holds_all_same_data [OF fp(3) _ fs] by (simp_all add: lessThan_atLeast0)
  have pay: "map frag_payload (fp_frags fp) = map frag_payload fs"
    using arg_cong [OF same(1), of "map (case_option [] id)"]
    by (simp add: frag_payload_def [abs_def] o_def id_def)
  have dump: "fragmented_packet_dump_data fp sz = (0, concat (map frag_payload fs), sum_list (map f_data_size fs))"
    unfolding fragmented_packet_dump_data_def using dump_frags_all [OF same(3), of 0 "[]" sz] sz
    by (simp add: same(2) pay)
  have ek: "pb_wf (ep_incoming e)" "0 < pb_max_pkt_age (ep_incoming e)"
    using nm_inv_ep [OF inv e] age by (simp_all add: ep_wf_def)
  show ?thesis
  proof (rule pop_incoming_packet_spec [OF inv e, of now pid sz])
    fix pb'
    assume r: "refreshed now (ep_incoming e) pb'"
      and some: "\<And>fp. pb_deref pb' pid = Some fp \<Longrightarrow>
      \<exists>nm' pb''. network_manager_pop_incoming_packet now nm (Some node) pid sz =
        (case fragmented_packet_dump_data fp sz of (res, out, n) \<Rightarrow> Inr (res, out, n, nm')) \<and> nm_inv nm' \<and>
        nm_content nm' = (nm_content nm)(node_key node \<mapsto> e\<lparr>ep_incoming := pb''\<rparr>) \<and>
        pb_wf pb'' \<and> pb_deref pb'' = (pb_deref pb')(pid := None) \<and> nm_outqueue nm' = nm_outqueue nm"
    have "pb_deref pb' pid = Some fp" by (rule refreshed_keeps [OF r ek(1) fp(1,2) ek(2)])
    from some [OF this] obtain nm' pb'' where
      "network_manager_pop_incoming_packet now nm (Some node) pid sz =
        Inr (0, concat (map frag_payload fs), sum_list (map f_data_size fs), nm')" "nm_inv nm'"
      "nm_content nm' = (nm_content nm)(node_key node \<mapsto> e\<lparr>ep_incoming := pb''\<rparr>)"
      "pb_deref pb'' = (pb_deref pb')(pid := None)"
      unfolding dump by auto
    then show ?thesis using that by (simp add: the_endpoint_def)
  qed
qed

text \<open>Datagrams of one sender received one after the other: each result with what it left in the
  buffer.\<close>

fun recv_all ::
  "int_coding \<Rightarrow> int \<Rightarrow> sock_addr \<Rightarrow> nat \<Rightarrow> bytes list \<Rightarrow> local_node \<Rightarrow> ((int \<times> bytes) list \<times> local_node) c_result" where
  "recv_all ic now addr sz [] s = Inr ([], s)"
| "recv_all ic now addr sz (dg # dgs) s =
     c_bind (recv_from_peer ic now now s (Some (addr, dg)) sz) (\<lambda>(r, remote, bs, s').
     c_bind (recv_all ic now addr sz dgs s') (\<lambda>(rs, s''). Inr ((r, bs) # rs, s'')))"

lemma age_add_fragment:
  "network_manager_add_incoming_fragment now nm f = Inr (r, nm') \<Longrightarrow> nm_max_pkt_age nm' = nm_max_pkt_age nm"
  by (auto simp: network_manager_add_incoming_fragment_def nm_endpoint_def nm_store_def Let_def c_bind_Inr_conv
      split: option.splits if_splits prod.splits)

lemma fragment_bytes_decode:
  assumes "int_coding_ok ic" and "packet_frags pid fs" and "i < length fs"
  shows "net_msg_decode ic (Some l) (Some node) (fragment_bytes ic (fs ! i)) =
    Inr (Some (Fragment_msg ((fs ! i)\<lparr>f_from := node, f_to := l\<rparr>)))"
proof -
  from assms(2,3) obtain d where "fragment_wf (fs ! i)" "f_data (fs ! i) = Some d" "f_data_size (fs ! i) < 2 ^ 32"
    by (auto simp: packet_frags_def)
  then have "fragment_decode ic (Some l) (Some node) (fragment_bytes ic (fs ! i)) =
      Some ((fs ! i)\<lparr>f_from := node, f_to := l\<rparr>)"
    using fragment_decode_bytes [OF assms(1), of "fs ! i" d l node "[]"] by simp
  moreover obtain rest where b: "fragment_bytes ic (fs ! i) = NET_FRAGMENT # rest"
    by (simp add: fragment_bytes_def)
  ultimately show ?thesis unfolding b by (simp add: net_msg_decode_def)
qed

text \<open>One datagram of the packet.\<close>

lemma recv_fragment:
  fixes addr :: sock_addr
  defines "node \<equiv> empty_node\<lparr>nd_addr := addr\<rparr>"
  assumes ic: "int_coding_ok ic" and fs: "packet_frags pid fs" and i: "i < length fs"
    and inv: "nm_inv (ln_nm s)" and age: "0 < nm_max_pkt_age (ln_nm s)"
    and rec: "receiving (ln_nm s) node pid now fs I" and I: "I \<subseteq> {..<length fs}"
    and sz: "sum_list (map f_data_size fs) < sz"
  obtains s' where "nm_inv (ln_nm s')" and "nm_max_pkt_age (ln_nm s') = nm_max_pkt_age (ln_nm s)"
    and "insert i I \<noteq> {..<length fs} \<Longrightarrow>
      recv_from_peer ic now now s (Some (addr, fragment_bytes ic (fs ! i))) sz = Inr (0, Some node, [], s') \<and>
      receiving (ln_nm s') node pid now fs (insert i I)"
    and "insert i I = {..<length fs} \<Longrightarrow>
      recv_from_peer ic now now s (Some (addr, fragment_bytes ic (fs ! i))) sz =
        Inr (int (sum_list (map f_data_size fs)), Some node, concat (map frag_payload fs), s')"
proof -
  let ?f = "(fs ! i)\<lparr>f_from := node, f_to := ln_id s\<rparr>"
  have wf: "\<forall>f \<in> set fs. fragment_wf f \<and> f_data f \<noteq> None" using fs by (auto simp: packet_frags_def in_set_conv_nth)
  have id: "unat (f_id ?f) = i" using fs i by (simp add: packet_frags_def unat_of_nat take_bit_nat_eq_self)
  have c: "carries fs ?f" using i id by (simp add: carries_def)
  have f: "f_from ?f = node" "f_pid ?f = pid" "unat (f_frag_num ?f) = length fs"
    using fs i by (simp_all add: packet_frags_def)
  have ne: "fragment_bytes ic (fs ! i) \<noteq> []" by (simp add: fragment_bytes_def)
  note dec = fragment_bytes_decode [OF ic fs i, of "ln_id s" node]
  obtain nm1 e fp where a: "network_manager_add_incoming_fragment now (ln_nm s) (Some ?f) =
      Inr (if insert i I = {..<length fs} then PKT_READY else PKT_LOADING, nm1)"
    and inv1: "nm_inv nm1" and e: "nm_content nm1 (node_key node) = Some e" and fp: "pb_deref (ep_incoming e) pid = Some fp"
      "fp_creation_timestamp fp = now" "holds fp fs (insert i I)"
    and rec1: "receiving nm1 node pid now fs (insert i I)"
    using receiving_step [OF inv age rec I wf c f] unfolding id by metis
  have age1: "nm_max_pkt_age nm1 = nm_max_pkt_age (ln_nm s)" by (rule age_add_fragment [OF a])
  show ?thesis
  proof (cases "insert i I = {..<length fs}")
    case False
    then show ?thesis
      using that [of "s\<lparr>ln_nm := nm1\<rparr>"] inv1 age1 rec1 dec a ne by (simp add: recv_from_peer_def node_def [symmetric])
  next
    case True
    obtain nm2 where p: "network_manager_pop_incoming_packet now nm1 (Some node) pid sz =
        Inr (0, concat (map frag_payload fs), sum_list (map f_data_size fs), nm2)" "nm_inv nm2"
    proof (rule pop_complete [OF inv1 _ e fp(1,2) _ _ sz])
      show "0 < nm_max_pkt_age nm1" "\<forall>f \<in> set fs. fragment_wf f" using age age1 wf by simp_all
      show "holds fp fs {..<length fs}" using fp(3) True by simp
    qed (rule that)
    have "nm_max_pkt_age nm2 = nm_max_pkt_age nm1"
      using p(1) by (auto simp: network_manager_pop_incoming_packet_def nm_store_def c_bind_Inr_conv split: option.splits prod.splits)
    then show ?thesis
      using that [of "s\<lparr>ln_nm := nm2\<rparr>"] True p age1 dec a ne f(2)
      by (simp add: recv_from_peer_def node_def [symmetric])
  qed
qed

lemma recv_all_delivers:
  assumes ic: "int_coding_ok ic" and fs: "packet_frags pid fs" and sz: "sum_list (map f_data_size fs) < sz"
    and inv: "nm_inv (ln_nm s)" and age: "0 < nm_max_pkt_age (ln_nm s)"
    and rec: "receiving (ln_nm s) (empty_node\<lparr>nd_addr := addr\<rparr>) pid now fs I"
    and ids: "distinct ids" "ids \<noteq> []" "set ids \<inter> I = {}" "set ids \<union> I = {..<length fs}"
  shows "\<exists>s'. recv_all ic now addr sz (map (\<lambda>i. fragment_bytes ic (fs ! i)) ids) s =
    Inr (replicate (length ids - 1) (0, []) @
         [(int (sum_list (map f_data_size fs)), concat (map frag_payload fs))], s')"
  using inv age rec ids
proof (induction ids arbitrary: s I)
  case (Cons i js)
  have i: "i < length fs" "I \<subseteq> {..<length fs}" using Cons.prems(7) by auto
  obtain s' where s': "nm_inv (ln_nm s')" "nm_max_pkt_age (ln_nm s') = nm_max_pkt_age (ln_nm s)"
    and part: "insert i I \<noteq> {..<length fs} \<Longrightarrow>
      recv_from_peer ic now now s (Some (addr, fragment_bytes ic (fs ! i))) sz =
        Inr (0, Some (empty_node\<lparr>nd_addr := addr\<rparr>), [], s') \<and>
      receiving (ln_nm s') (empty_node\<lparr>nd_addr := addr\<rparr>) pid now fs (insert i I)"
    and full: "insert i I = {..<length fs} \<Longrightarrow>
      recv_from_peer ic now now s (Some (addr, fragment_bytes ic (fs ! i))) sz =
        Inr (int (sum_list (map f_data_size fs)), Some (empty_node\<lparr>nd_addr := addr\<rparr>), concat (map frag_payload fs), s')"
    using recv_fragment [OF ic fs i(1) Cons.prems(1-3) i(2) sz] by blast
  show ?case
  proof (cases "js = []")
    case True
    then have "insert i I = {..<length fs}" using Cons.prems(7) by auto
    then show ?thesis using full True by simp
  next
    case False
    then obtain j where "j \<in> set js" by (cases js) auto
    then have "j \<notin> insert i I" "j < length fs" using Cons.prems(4,6,7) by auto
    then have ne: "insert i I \<noteq> {..<length fs}" by auto
    have "\<exists>s''. recv_all ic now addr sz (map (\<lambda>i. fragment_bytes ic (fs ! i)) js) s' =
        Inr (replicate (length js - 1) (0, []) @
         [(int (sum_list (map f_data_size fs)), concat (map frag_payload fs))], s'')"
      using part [OF ne] s' Cons.prems False by (intro Cons.IH [of s' "insert i I"]) auto
    then show ?thesis using part [OF ne] False by (cases js) auto
  qed
qed simp

section \<open>Sending a whole packet\<close>

text \<open>A sequence of calls of \<open>net_helper_periodic\<close>, at the given clock readings.\<close>

fun send_all :: "int_coding \<Rightarrow> timeval list \<Rightarrow> local_node \<Rightarrow> (local_node \<times> datagram list) c_result" where
  "send_all ic [] s = Inr (s, [])"
| "send_all ic (tv # tvs) s =
     c_bind (net_helper_periodic ic tv tv (Some s) (Some (Timeval 0 0))) (\<lambda>(s', i, out).
     c_bind (send_all ic tvs (the s')) (\<lambda>(s'', outs). Inr (s'', out @ outs)))"

text \<open>The datagram of a fragment.\<close>

definition fragment_datagram :: "int_coding \<Rightarrow> fragment \<Rightarrow> datagram" where
  "fragment_datagram ic f =
     \<lparr>dg_fd = nd_fd (f_from f), dg_to = nd_addr (f_to f), dg_bytes = fragment_bytes ic f\<rparr>"

lemma periodic_fragment:
  assumes "int_coding_ok ic" and "nm_outqueue (ln_nm s) = r # q" and "nm_message (ln_nm s) r = Some (Fragment_msg f)"
    and "fragment_wf f" and "FRAGMENT_HEADER_LEN + f_data_size f \<le> ln_buffer_len s"
    and "\<not> tv < ns_next_sending_event (ln_shaper s)"
  shows "net_helper_periodic ic tv tv (Some s) (Some i) =
    Inr (Some (s\<lparr>ln_nm := (ln_nm s)\<lparr>nm_outqueue := q\<rparr>\<rparr>), Some (Timeval 0 0), [fragment_datagram ic f])"
  using assms
  by (simp add: net_helper_periodic_def net_helper_send_attempt_def network_manager_outgoing_queue_ready_def
      network_shaper_next_sending_interval_def network_manager_pop_outgoing_net_msg_def net_helper_send_msg_def
      net_msg_send_def fragment_send_bytes fragment_datagram_def)

lemma send_all_fragments:
  assumes "int_coding_ok ic" and "length tvs = length rs" and "length fs = length rs"
    and "nm_outqueue (ln_nm s) = rs @ q"
    and "\<forall>i < length rs. nm_message (ln_nm s) (rs ! i) = Some (Fragment_msg (fs ! i))"
    and "\<forall>f \<in> set fs. fragment_wf f \<and> FRAGMENT_HEADER_LEN + f_data_size f \<le> ln_buffer_len s"
    and "\<forall>tv \<in> set tvs. \<not> tv < ns_next_sending_event (ln_shaper s)"
  shows "send_all ic tvs s = Inr (s\<lparr>ln_nm := (ln_nm s)\<lparr>nm_outqueue := q\<rparr>\<rparr>, map (fragment_datagram ic) fs)"
  using assms
proof (induction tvs arbitrary: rs fs s)
  case Nil
  then show ?case by simp
next
  case (Cons tv tvs)
  obtain r rs' where rs: "rs = r # rs'" using Cons.prems(2) by (cases rs) auto
  obtain f fs' where fs: "fs = f # fs'" using Cons.prems(3) rs by (cases fs) auto
  let ?s = "s\<lparr>ln_nm := (ln_nm s)\<lparr>nm_outqueue := rs' @ q\<rparr>\<rparr>"
  have m: "nm_message (ln_nm s) r = Some (Fragment_msg f)" using Cons.prems(5) rs fs by fastforce
  have p: "net_helper_periodic ic tv tv (Some s) (Some (Timeval 0 0)) =
      Inr (Some ?s, Some (Timeval 0 0), [fragment_datagram ic f])"
    by (rule periodic_fragment [OF Cons.prems(1) _ m]) (use Cons.prems rs fs in simp_all)
  have "send_all ic tvs ?s =
      Inr (?s\<lparr>ln_nm := (ln_nm ?s)\<lparr>nm_outqueue := q\<rparr>\<rparr>, map (fragment_datagram ic) fs')"
  proof (rule Cons.IH [OF Cons.prems(1)])
    show "\<forall>i < length rs'. nm_message (ln_nm ?s) (rs' ! i) = Some (Fragment_msg (fs' ! i))"
      using Cons.prems(5) rs fs by fastforce
  qed (use Cons.prems rs fs in auto)
  then show ?case using p fs by simp
qed

lemma created_frag_fields:
  assumes "fragmented_packet_create now pid from to (Some d) fs = Some fp" and "f \<in> set (fp_frags fp)"
  shows "f_from f = from \<and> f_to f = to \<and> f_data_size f \<le> fs \<and> fragment_wf f"
proof -
  have fp: "fp_frags fp = make_frags from to pid (frag_count (length d) fs) d fs (length d) 0 (unat (frag_count (length d) fs))"
    using assms(1) by (auto simp: fragmented_packet_create_def Let_def split: if_splits)
  then show ?thesis
    using assms(2) by (auto simp: in_set_conv_nth nth_make_frags fragment_wf_def)
qed

lemma created_frag_count:
  assumes "fragmented_packet_create now pid from to (Some d) fs = Some fp" and "length d \<le> 65535 * fs"
  shows "fp_frag_num fp = (length d + fs - 1) div fs"
proof -
  have "0 < fs" "fp_frag_num fp = unat (frag_count (length d) fs)"
    using assms(1) by (auto simp: fragmented_packet_create_def Let_def split: if_splits)
  then show ?thesis using unat_frag_count assms(2) by simp
qed

text \<open>What \<open>send_to_peer\<close> leaves in the queue.\<close>

lemma send_to_peer_queues:
  fixes s :: local_node and t :: nodeID
  defines "e \<equiv> the_endpoint (ln_nm s) t"
  assumes inv: "nm_inv (ln_nm s)" and d: "d \<noteq> []" and fs: "0 < nm_frag_size (ln_nm s)"
    and free: "ep_out_id e \<notin> live_packets now (ep_outgoing e)"
    and tv: "tv_us tv \<noteq> tv_us (ns_last_update_time (ln_shaper s))"
  obtains s1 fp rs q where "send_to_peer now tv (Some s) (Some t) (Some d) = Inr (int (length d), Some s1)"
    and "fragmented_packet_create now (ep_out_id e) (ln_id s) (ep_node e) (Some d) (nm_frag_size (ln_nm s)) = Some fp"
    and "nm_outqueue (ln_nm s1) = rs @ q" and "length rs = fp_frag_num fp"
    and "\<forall>i < length rs. nm_message (ln_nm s1) (rs ! i) = Some (Fragment_msg (fp_frags fp ! i))"
    and "ln_buffer_len s1 = ln_buffer_len s"
    and "ns_next_sending_event (ln_shaper s1) = ns_next_sending_event (ln_shaper s)"
proof -
  note free' = free [unfolded live_packets_def e_def]
  obtain nm' pb' pb'' fp where
    r: "network_manager_enqueue_outgoing_packet now (ln_nm s) (Some (ln_id s)) (Some t) (Some d) = Inr (0, nm')"
    and fp: "fragmented_packet_create now (ep_out_id e) (ln_id s) (ep_node e) (Some d) (nm_frag_size (ln_nm s)) = Some fp"
    and c: "nm_content nm' = (nm_content (ln_nm s))(node_key t \<mapsto> e\<lparr>ep_outgoing := pb'', ep_out_id := ep_out_id e + 1\<rparr>)"
    and pb: "pb_deref pb'' = (pb_deref pb')(ep_out_id e \<mapsto> fp)"
    and q: "nm_outqueue nm' = fragment_refs (Outgoing (node_key t)) (ep_out_id e) (fp_frag_num fp) @
      filter (keep_ref (Outgoing (node_key t)) (\<lambda>p. p \<in> set (pb_list pb'))) (nm_outqueue (ln_nm s))"
    by (rule enqueue_outgoing_packet_spec [OF inv d fs free', of "ln_id s"]) (simp add: e_def)
  let ?rs = "fragment_refs (Outgoing (node_key t)) (ep_out_id e) (fp_frag_num fp)"
  let ?dt = "timersub tv (ns_last_update_time (ln_shaper s))"
  have "of_int (tv_sec ?dt) + of_int (tv_usec ?dt) / 1000000 \<noteq> (0 :: rat)"
    unfolding period_us using tv by (simp add: tv_us_timersub)
  then obtain sh where sh: "network_shaper_update_bitrate tv (Some (ln_shaper s)) (length d) = Inr (0, Some sh)"
    "ns_next_sending_event sh = ns_next_sending_event (ln_shaper s)"
    using d by (simp add: network_shaper_update_bitrate_def Let_def)
  let ?s1 = "s\<lparr>ln_nm := nm', ln_shaper := sh\<rparr>"
  have "send_to_peer now tv (Some s) (Some t) (Some d) = Inr (int (length d), Some ?s1)"
    using d r sh by (simp add: send_to_peer_def)
  moreover have "nm_message nm' (?rs ! i) = Some (Fragment_msg (fp_frags fp ! i))" if "i < length ?rs" for i
  proof -
    have i: "i < fp_frag_num fp" using that by (simp add: fragment_refs_def)
    then have "unat (of_nat i :: u16) = i"
      using created_frag_num [OF fp] by (simp add: unat_of_nat take_bit_nat_eq_self)
    then show ?thesis using i c pb by (simp add: fragment_refs_def nm_message_def fragmented_packet_fragment_def)
  qed
  ultimately show ?thesis
    using that [of ?s1 fp ?rs] fp q sh by (simp add: fragment_refs_def)
qed

text \<open>No call moves the time of the next sending event.\<close>

lemma send_attempt_shaper:
  assumes "net_helper_send_attempt ic tv tv' s = Inr (s', i, out)"
  shows "ln_shaper s' = ln_shaper s"
  using assms
  by (auto simp: net_helper_send_attempt_def c_bind_def Let_def
      split: if_split_asm prod.split_asm option.split_asm sum.split_asm)

lemma update_bitrate_event:
  "network_shaper_update_bitrate tv (Some sh) n = Inr (r, Some sh') \<Longrightarrow> ns_next_sending_event sh' = ns_next_sending_event sh"
  by (auto simp: network_shaper_update_bitrate_def Let_def split: if_splits)

lemma send_to_peer_event:
  assumes "send_to_peer now tv (Some s) to buffer = Inr (r, Some s')"
  shows "ns_next_sending_event (ln_shaper s') = ns_next_sending_event (ln_shaper s)"
proof (cases "to \<noteq> None \<and> buffer \<noteq> None \<and> the buffer \<noteq> []")
  case True
  then obtain res nm' rc sh where
    "network_shaper_update_bitrate tv (Some (ln_shaper s)) (length (the buffer)) = Inr (rc, sh)"
    "s' = s\<lparr>ln_nm := nm', ln_shaper := the sh\<rparr>"
    using assms by (auto simp: send_to_peer_def c_bind_Inr_conv)
  moreover from this(1) obtain sh' where "sh = Some sh'"
    by (auto simp: network_shaper_update_bitrate_def Let_def split: if_splits)
  ultimately show ?thesis using update_bitrate_event [of tv "ln_shaper s"] by simp
qed (use assms in \<open>auto simp: send_to_peer_def split: option.splits\<close>)

lemma recv_from_peer_shaper:
  "recv_from_peer ic now now' s incoming sz = Inr (r, remote, bs, s') \<Longrightarrow> ln_shaper s' = ln_shaper s"
  by (auto simp: recv_from_peer_def c_bind_def Let_def
      split: option.split_asm if_split_asm net_msg.split_asm prod.split_asm sum.split_asm)

lemma node_run_event:
  "node_run ic s out s' \<Longrightarrow> ns_next_sending_event (ln_shaper s') = ns_next_sending_event (ln_shaper s)"
proof (induction rule: node_run.induct)
  case (run_step s out s' out' s'')
  from run_step(2) have "ns_next_sending_event (ln_shaper s'') = ns_next_sending_event (ln_shaper s')"
    by (elim node_stepE) (auto simp: net_helper_periodic_def c_bind_Inr_conv
        dest: send_attempt_shaper send_to_peer_event recv_from_peer_shaper)
  then show ?case using run_step(3) by simp
qed simp

text \<open>From the sender to the receiver.\<close>

lemma packet_delivery:
  fixes s r :: local_node and t :: nodeID and addr :: sock_addr
  defines "e \<equiv> the_endpoint (ln_nm s) t" and "fs \<equiv> nm_frag_size (ln_nm s)"
  assumes "int_coding_ok ic" and "d \<noteq> []"
    and "nm_inv (ln_nm s)" and "0 < fs" and "fs < 2 ^ 32" and "length d \<le> 65535 * fs"
    and "FRAGMENT_HEADER_LEN + fs \<le> ln_buffer_len s" and "ep_out_id e \<notin> live_packets now (ep_outgoing e)"
    and "tv_us tv \<noteq> tv_us (ns_last_update_time (ln_shaper s))"
    and "\<forall>c \<in> set clocks. ns_next_sending_event (ln_shaper s) \<le> c" and "length clocks = (length d + fs - 1) div fs"
    and "nm_inv (ln_nm r)" and "0 < nm_max_pkt_age (ln_nm r)" and "length d < sz"
    and "pb_deref (ep_incoming (the_endpoint (ln_nm r) (empty_node\<lparr>nd_addr := addr\<rparr>))) (ep_out_id e) = None"
    and "distinct ids" and "set ids = {..<length clocks}"
  shows "\<exists>s1 s2 dgs r'. send_to_peer now tv (Some s) (Some t) (Some d) = Inr (int (length d), Some s1) \<and>
    send_all ic clocks s1 = Inr (s2, dgs) \<and> length dgs = length clocks \<and>
    (\<forall>dg \<in> set dgs. dg_fd dg = nd_fd (ln_id s) \<and> dg_to dg = nd_addr (ep_node e)) \<and>
    recv_all ic now' addr sz (map (\<lambda>i. dg_bytes (dgs ! i)) ids) r =
      Inr (replicate (length ids - 1) (0, []) @ [(int (length d), d)], r')"
proof -
  obtain s1 fp rs q where snd: "send_to_peer now tv (Some s) (Some t) (Some d) = Inr (int (length d), Some s1)"
    and fp: "fragmented_packet_create now (ep_out_id e) (ln_id s) (ep_node e) (Some d) fs = Some fp"
    and q: "nm_outqueue (ln_nm s1) = rs @ q" and rs: "length rs = fp_frag_num fp"
    and msg: "\<forall>i < length rs. nm_message (ln_nm s1) (rs ! i) = Some (Fragment_msg (fp_frags fp ! i))"
    and buf: "ln_buffer_len s1 = ln_buffer_len s"
    and ev: "ns_next_sending_event (ln_shaper s1) = ns_next_sending_event (ln_shaper s)"
    using send_to_peer_queues [of s d t now tv] assms by blast
  let ?fs = "fp_frags fp"
  have num: "length clocks = length ?fs" using created_frag_count [OF fp assms(8)] assms(13) by simp
  have pf: "packet_frags (ep_out_id e) ?fs" and pay: "concat (map frag_payload ?fs) = d"
    and sum: "sum_list (map f_data_size ?fs) = length d" and ne: "?fs \<noteq> []"
    using created_packet_frags [OF fp assms(8,7)] by simp_all
  note fields = created_frag_fields [OF fp]
  have all: "send_all ic clocks s1 =
      Inr (s1\<lparr>ln_nm := (ln_nm s1)\<lparr>nm_outqueue := q\<rparr>\<rparr>, map (fragment_datagram ic) ?fs)"
  proof (rule send_all_fragments [OF assms(3) _ _ q msg])
    show "\<forall>f \<in> set ?fs. fragment_wf f \<and> FRAGMENT_HEADER_LEN + f_data_size f \<le> ln_buffer_len s1"
      using fields assms(9) buf by fastforce
    show "\<forall>tv \<in> set clocks. \<not> tv < ns_next_sending_event (ln_shaper s1)"
      using assms(12) ev by (simp add: not_less)
  qed (use num rs in simp_all)
  have bytes: "map (\<lambda>i. dg_bytes (map (fragment_datagram ic) ?fs ! i)) ids = map (\<lambda>i. fragment_bytes ic (?fs ! i)) ids"
    using assms(19) num by (auto simp: fragment_datagram_def)
  have "\<exists>r'. recv_all ic now' addr sz (map (\<lambda>i. fragment_bytes ic (?fs ! i)) ids) r =
      Inr (replicate (length ids - 1) (0, []) @
           [(int (sum_list (map f_data_size ?fs)), concat (map frag_payload ?fs))], r')"
  proof (rule recv_all_delivers [OF assms(3) pf _ assms(14,15)])
    show "receiving (ln_nm r) (empty_node\<lparr>nd_addr := addr\<rparr>) (ep_out_id e) now' ?fs {}"
      using assms(17) by (simp add: receiving_def)
    show "ids \<noteq> []"
    proof
      assume "ids = []"
      then have "{..<length clocks} = {}" unfolding assms(19) [symmetric] by simp
      then have "length clocks = 0" by (simp only: lessThan_empty_iff bot_nat_def)
      then show False using num ne by simp
    qed
    show "sum_list (map f_data_size ?fs) < sz" unfolding sum by (rule assms(16))
    show "distinct ids" by (rule assms(18))
    show "set ids \<inter> {} = {}" by simp
    show "set ids \<union> {} = {..<length ?fs}" unfolding assms(19) num by simp
  qed
  then obtain r' where r': "recv_all ic now' addr sz
      (map (\<lambda>i. dg_bytes (map (fragment_datagram ic) ?fs ! i)) ids) r =
      Inr (replicate (length ids - 1) (0, []) @ [(int (length d), d)], r')"
    unfolding bytes sum pay by blast
  have "\<forall>dg \<in> set (map (fragment_datagram ic) ?fs). dg_fd dg = nd_fd (ln_id s) \<and> dg_to dg = nd_addr (ep_node e)"
    using fields by (auto simp: fragment_datagram_def)
  moreover have "length (map (fragment_datagram ic) ?fs) = length clocks" using num by simp
  ultimately show ?thesis using snd all r' by blast
qed

section \<open>Properties\<close>


text \<open>A node right after \<open>net_helper_init\<close>, for the concrete instances.\<close>

definition sample_node :: local_node where
  "sample_node =
     \<lparr>ln_id = \<lparr>nd_addr = AF_INET ''10.0.0.1'' 6000, nd_fd = 3\<rparr>, ln_nm = network_manager_create None,
      ln_shaper = network_shaper_create (Timeval 10 0) None, ln_buffer_len = 1300\<rparr>"

lemma sample_node_init:
  "net_helper_init (\<lambda>t. Some (Fam_inet, t)) 3 0 6000 (Timeval 10 0) (Some ''10.0.0.1'') 6000 None None = Inr (Some sample_node)"
  by (simp add: net_helper_init_def create_node_def empty_node_def sample_node_def config_int_def DEFAULT_FRAG_SIZE_def Let_def)

lemma sample_node_simps [simp]:
  "ln_nm sample_node = network_manager_create None" "ln_buffer_len sample_node = 1300"
  "ns_next_sending_event (ln_shaper sample_node) = Timeval 10 0"
  "ns_last_update_time (ln_shaper sample_node) = Timeval 10 0"
  by (simp_all add: sample_node_def network_shaper_create_def)






text \<open>\<open>net_helper_init\<close> writes through a NULL pointer exactly if it is given an address that
  does not resolve (with a port that is not negative); in every other case it returns.\<close>

lemma init_faults_iff_unresolvable:
  "(\<exists>e. net_helper_init numeric_host sock bind_res bound tv addr port ci cd = Inl e) \<longleftrightarrow>
   0 \<le> port \<and> (\<exists>a. addr = Some a \<and> numeric_host a = None)"
  by (cases addr) (auto simp: net_helper_init_def create_node_def Let_def split: option.splits sock_addr.splits family.splits prod.splits)

text \<open>C40: The shaper never delays anything: \<open>net_helper_send_attempt\<close> registers 0 sent bytes, so the time of the next
  sending event stays the time of \<open>net_helper_init\<close>, and after any run each call of \<open>net_helper_periodic\<close> with a message
  queued takes that message out at once, however much was sent before.\<close>

theorem shaping_never_delays:
  assumes "int_coding_ok ic"
    and "net_helper_init numeric_host sock bind_res bound tv0 addr port ci cd = Inr (Some s0)"
    and "config_int ci ''frag_size'' DEFAULT_FRAG_SIZE mod 2 ^ 64 \<noteq> 0" and "node_run ic s0 out s"
    and "tv0 \<le> tv" and "nm_outqueue (ln_nm s) = r # q"
  shows "\<exists>s' i out'. net_helper_periodic ic tv tv' (Some s) (Some interval) = Inr (Some s', i, out') \<and>
    nm_outqueue (ln_nm s') = q \<and> ln_shaper s' = ln_shaper s"
proof -
  have inv: "node_inv s" using node_run_inv [OF assms(1,4) net_helper_init_inv [OF assms(2,3)]] by simp
  have "ns_next_sending_event (ln_shaper s0) = tv0"
    using assms(2) by (auto simp: net_helper_init_def network_shaper_create_def Let_def
        split: if_splits option.splits prod.splits)
  then have ev: "\<not> tv < ns_next_sending_event (ln_shaper s)"
    using node_run_event [OF assms(4)] assms(5) by (simp add: not_less)
  obtain m where m: "nm_message (ln_nm s) r = Some m"
    and ok: "case m of Fragment_msg f \<Rightarrow> out_frag_ok (nd_fd (ln_id s)) f
      | Request_msg fr \<Rightarrow> nd_fd (fr_from fr) = -1 \<and> fr_to fr = ln_id s"
    using node_inv_message [OF inv, of r] assms(6) by (metis list.set_intros(1))
  obtain dgs where "net_helper_send_msg ic s m = Inr dgs"
    using send_msg_fd [OF assms(1), of m s] ok by (auto simp: out_frag_ok_def split: net_msg.splits)
  then show ?thesis
    using m ev assms(6)
    by (simp add: net_helper_periodic_def net_helper_send_attempt_def network_manager_outgoing_queue_ready_def
        network_shaper_next_sending_interval_def network_manager_pop_outgoing_net_msg_def Let_def)
qed

theorem shaping_never_delays_witness:
  "\<exists>s s' i out'. node_run big_endian sample_node [] s \<and> nm_outqueue (ln_nm s) \<noteq> [] \<and>
    net_helper_periodic big_endian (Timeval 30 0) (Timeval 30 0) (Some s) (Some (Timeval 0 0)) = Inr (Some s', i, out') \<and>
    nm_outqueue (ln_nm s') = tl (nm_outqueue (ln_nm s))"
proof -
  let ?t = "\<lparr>nd_addr = AF_INET ''10.0.0.2'' 6000, nd_fd = -1\<rparr>"
  have live: "ep_out_id (the_endpoint (ln_nm sample_node) ?t) \<notin> live_packets 100 (ep_outgoing (the_endpoint (ln_nm sample_node) ?t))"
    by (simp add: live_packets_def endpoint_create_def)
  obtain s1 fp rs q where s1: "send_to_peer 100 (Timeval 20 0) (Some sample_node) (Some ?t) (Some [1, 2]) = Inr (2, Some s1)"
    and fp: "fragmented_packet_create 100 (ep_out_id (the_endpoint (ln_nm sample_node) ?t)) (ln_id sample_node)
      (ep_node (the_endpoint (ln_nm sample_node) ?t)) (Some [1, 2]) (nm_frag_size (ln_nm sample_node)) = Some fp"
    and q: "nm_outqueue (ln_nm s1) = rs @ q" "length rs = fp_frag_num fp"
    by (rule send_to_peer_queues [OF _ _ _ live, of "[1, 2]" "Timeval 20 0"]) (simp_all add: tv_us_def)
  have "fp_frags fp \<noteq> []"
    using created_packet_frags [OF fp] by simp
  then obtain r rest where r: "nm_outqueue (ln_nm s1) = r # rest" using q by (cases rs) auto
  have run: "node_run big_endian sample_node [] s1"
    using run_step [OF run_start step_send [OF s1]] by simp
  show ?thesis
    using shaping_never_delays [OF int_coding_ok_big_endian sample_node_init _ run _ r, of "Timeval 30 0" "Timeval 30 0" "Timeval 0 0"]
      run r by (auto simp: config_int_def DEFAULT_FRAG_SIZE_def less_eq_timeval_def less_timeval_def)
qed

text \<open>Waiting.  A \<open>select\<close> that times out empties the sets it was given, and an empty set never becomes ready.\<close>

definition select_empties :: "(timeval \<times> timeval \<times> int) list \<Rightarrow> bool" where
  "select_empties events \<longleftrightarrow> (\<forall>i j. i < j \<longrightarrow> j < length events \<longrightarrow> snd (snd (events ! i)) = 0 \<longrightarrow> snd (snd (events ! j)) \<le> 0)"

lemma wait4data_loop_bound:
  "wait4data_loop ic events s tout out = Inr (s', tout', out', Some r) \<Longrightarrow> \<forall>e \<in> set events. snd (snd e) \<le> 0 \<Longrightarrow> r \<le> 0"
  by (induction ic events s tout out rule: wait4data_loop.induct) (auto simp: c_bind_Inr_conv split: if_split_asm prod.splits)

lemma wait4data_loop_inv:
  assumes "int_coding_ok ic" and "node_inv s"
  shows "\<exists>s' tout' out' r. wait4data_loop ic events s tout out = Inr (s', tout', out', r) \<and> node_inv s' \<and> ln_id s' = ln_id s"
  using assms(2)
proof (induction events arbitrary: s tout out)
  case (Cons e events)
  obtain tv tv' sel where e: "e = (tv, tv', sel)" by (cases e)
  obtain s1 i dgs where a: "net_helper_send_attempt ic tv tv' s = Inr (s1, i, dgs)" "node_inv s1" "ln_id s1 = ln_id s"
    by (rule send_attempt_ok [OF assms(1) Cons.prems, of tv tv'])
  show ?case
    using Cons.IH [OF a(2), of "timersub tout i" "out @ dgs"] a by (auto simp: e)
qed simp

lemma wait4data_returns:
  assumes "wait4data ic events isset s tout user_fds = Inr (Some (state, s', tout', fds', out))"
  obtains r w where "wait4data_loop ic events s tout [] = Inr (s', tout', out, Some r)"
    and "wait4data_result (Some (ln_id s')) r isset (map_option (takeWhile (\<lambda>fd. fd \<noteq> -1)) user_fds) = Inr (state, w)"
    and "fds' = user_fds_after user_fds w"
proof -
  let ?watched = "map_option (takeWhile (\<lambda>fd. fd \<noteq> -1)) user_fds"
  have "c_bind (wait4data_loop ic events s tout []) (\<lambda>(s', tout', out, res).
        case res of
          None \<Rightarrow> Inr None
        | Some r \<Rightarrow>
            c_bind (wait4data_result (Some (ln_id s')) r isset ?watched) (\<lambda>(state, fds').
              Inr (Some (state, s', tout', user_fds_after user_fds fds', out)))) =
      Inr (Some (state, s', tout', fds', out))"
    using assms unfolding wait4data_def Let_def by (simp only: if_False split: if_split_asm) simp
  then obtain x where x: "wait4data_loop ic events s tout [] = Inr x"
    "(case x of (s', tout', out, res) \<Rightarrow>
        case res of
          None \<Rightarrow> Inr None
        | Some r \<Rightarrow>
            c_bind (wait4data_result (Some (ln_id s')) r isset ?watched) (\<lambda>(state, fds').
              Inr (Some (state, s', tout', user_fds_after user_fds fds', out)))) =
      Inr (Some (state, s', tout', fds', out))"
    by (rule c_bind_InrE)
  obtain s1 t1 o1 res where e: "x = (s1, t1, o1, res)" by (cases x)
  show ?thesis
  proof (cases res)
    case None
    then show ?thesis using x(2) unfolding e by simp
  next
    case (Some r)
    then show ?thesis using that x unfolding e by (auto simp: c_bind_Inr_conv)
  qed
qed



end
