(* ===== verification/Chunk_Locks.thy ===== *)
theory Chunk_Locks
  imports Node_Id
begin

text \<open>
  \<open>src/chunklock.c\<close>: the chunks that have been asked for, each locked until a timeout.

  The array is the list of the used entries, so \<open>lcount\<close> is its length; \<open>lsize\<close> is the allocated
  size, and writing at or beyond it is the fault \<open>Out_Of_Bounds\<close>.  \<open>chunk_locks_cleanup\<close> reads the
  clock once per entry: \<open>clk i\<close> is the reading for index \<open>i\<close>.  Of a peer only its node is used.
  A failing \<open>malloc\<close> is not modelled.
\<close>

section \<open>The operations\<close>

record lock =
  lk_chunkid :: int
  lk_peer :: "nodeID option"
  lk_timestamp :: timeval

record chunk_locks =
  cl_locks :: "lock list"
  cl_lsize :: nat
  cl_toutdiff :: timeval

abbreviation cl_lcount :: "chunk_locks \<Rightarrow> nat" where
  "cl_lcount cl \<equiv> length (cl_locks cl)"

definition LSIZE_INCREMENT :: nat where
  "LSIZE_INCREMENT = 10"

definition chunk_locks_create :: "u32 \<Rightarrow> chunk_locks" where
  "chunk_locks_create lock_timeout_ms =
     \<lparr>cl_locks = [], cl_lsize = LSIZE_INCREMENT,
      cl_toutdiff = Timeval (uint (lock_timeout_ms div 1000)) (uint (lock_timeout_ms mod 1000 * 1000))\<rparr>"

definition chunk_lock_timed_out :: "timeval \<Rightarrow> chunk_locks \<Rightarrow> lock \<Rightarrow> bool" where
  "chunk_lock_timed_out tnow cl l \<longleftrightarrow> tnow > timeradd (lk_timestamp l) (cl_toutdiff cl)"

definition chunk_lock_remove :: "chunk_locks \<Rightarrow> nat \<Rightarrow> chunk_locks" where
  "chunk_lock_remove cl i = cl\<lparr>cl_locks := take i (cl_locks cl) @ drop (Suc i) (cl_locks cl)\<rparr>"

text \<open>\<open>k\<close> entries are still to be looked at; the next index is \<open>k - 1\<close>.\<close>

fun cleanup_loop :: "(nat \<Rightarrow> timeval) \<Rightarrow> nat \<Rightarrow> chunk_locks \<Rightarrow> chunk_locks" where
  "cleanup_loop clk 0 cl = cl"
| "cleanup_loop clk (Suc k) cl =
     cleanup_loop clk k
       (if chunk_lock_timed_out (clk k) cl (cl_locks cl ! k) then chunk_lock_remove cl k else cl)"

definition chunk_locks_cleanup :: "(nat \<Rightarrow> timeval) \<Rightarrow> chunk_locks \<Rightarrow> chunk_locks" where
  "chunk_locks_cleanup clk cl = cleanup_loop clk (cl_lcount cl) cl"

definition chunk_lock :: "timeval \<Rightarrow> chunk_locks option \<Rightarrow> int \<Rightarrow> nodeID option \<Rightarrow> chunk_locks option c_result" where
  "chunk_lock now cl chunkid from =
     (case (cl, from) of
        (Some c, Some p) \<Rightarrow>
          if cl_lcount c < cl_lsize c then
            let ls = cl_locks c @ [\<lparr>lk_chunkid = chunkid, lk_peer = Some p, lk_timestamp = now\<rparr>]
            in Inr (Some (c\<lparr>cl_locks := ls,
                            cl_lsize := (if length ls = cl_lsize c then cl_lsize c + LSIZE_INCREMENT
                                         else cl_lsize c)\<rparr>))
          else Inl Out_Of_Bounds
      | _ \<Rightarrow> Inr cl)"

fun find_lock :: "lock list \<Rightarrow> int \<Rightarrow> nat \<Rightarrow> nat option" where
  "find_lock [] chunkid i = None"
| "find_lock (l # ls) chunkid i = (if lk_chunkid l = chunkid then Some i else find_lock ls chunkid (Suc i))"

definition chunk_unlock :: "chunk_locks option \<Rightarrow> int \<Rightarrow> chunk_locks option" where
  "chunk_unlock cl chunkid =
     (case cl of
        None \<Rightarrow> None
      | Some c \<Rightarrow>
          Some (case find_lock (cl_locks c) chunkid 0 of Some i \<Rightarrow> chunk_lock_remove c i | None \<Rightarrow> c))"

definition chunk_islocked :: "(nat \<Rightarrow> timeval) \<Rightarrow> chunk_locks option \<Rightarrow> int \<Rightarrow> int \<times> chunk_locks option" where
  "chunk_islocked clk cl chunkid =
     (case cl of
        None \<Rightarrow> (0, None)
      | Some c \<Rightarrow>
          (let c' = chunk_locks_cleanup clk c
           in (if find_lock (cl_locks c') chunkid 0 \<noteq> None then 1 else 0, Some c')))"

section \<open>What they do to the list of locks\<close>

definition lock_live :: "timeval \<Rightarrow> chunk_locks \<Rightarrow> lock \<Rightarrow> bool" where
  "lock_live now cl l \<longleftrightarrow> \<not> chunk_lock_timed_out now cl l"

definition cl_wf :: "chunk_locks \<Rightarrow> bool" where
  "cl_wf cl \<longleftrightarrow> cl_lcount cl < cl_lsize cl"

lemma find_lock_eq:
  "find_lock ls chunkid i =
     (if \<exists>l \<in> set ls. lk_chunkid l = chunkid
      then Some (i + length (takeWhile (\<lambda>l. lk_chunkid l \<noteq> chunkid) ls)) else None)"
  by (induction ls arbitrary: i) auto

lemma find_lock_None: "find_lock ls chunkid i = None \<longleftrightarrow> (\<forall>l \<in> set ls. lk_chunkid l \<noteq> chunkid)"
  by (simp add: find_lock_eq)

text \<open>The cleanup keeps the entries that are live at their own clock reading.\<close>

lemma cleanup_loop_eq:
  assumes "k \<le> cl_lcount cl"
  shows "cl_locks (cleanup_loop clk k cl) =
      map fst (filter (\<lambda>(l, i). lock_live (clk i) cl l) (zip (take k (cl_locks cl)) [0..<k])) @ drop k (cl_locks cl)
    \<and> cl_lsize (cleanup_loop clk k cl) = cl_lsize cl \<and> cl_toutdiff (cleanup_loop clk k cl) = cl_toutdiff cl"
  using assms
proof (induction k arbitrary: cl)
  case (Suc k)
  have z: "zip (take (Suc k) (cl_locks cl)) [0..<Suc k] = zip (take k (cl_locks cl)) [0..<k] @ [(cl_locks cl ! k, k)]"
    using Suc.prems by (simp add: take_Suc_conv_app_nth)
  show ?case
  proof (cases "chunk_lock_timed_out (clk k) cl (cl_locks cl ! k)")
    case True
    let ?c = "chunk_lock_remove cl k"
    have c: "take k (cl_locks ?c) = take k (cl_locks cl)" "drop k (cl_locks ?c) = drop (Suc k) (cl_locks cl)"
      "k \<le> cl_lcount ?c" "cl_toutdiff ?c = cl_toutdiff cl" "cl_lsize ?c = cl_lsize cl"
      using Suc.prems by (simp_all add: chunk_lock_remove_def)
    have "lock_live t ?c = lock_live t cl" for t
      by (simp add: lock_live_def chunk_lock_timed_out_def c fun_eq_iff)
    then show ?thesis using True Suc.IH [OF c(3)] z by (simp add: c lock_live_def)
  next
    case False
    have "drop k (cl_locks cl) = cl_locks cl ! k # drop (Suc k) (cl_locks cl)"
      using Suc.prems by (simp add: Cons_nth_drop_Suc)
    then show ?thesis using False Suc.IH [of cl] Suc.prems z by (simp add: lock_live_def)
  qed
qed simp

lemma cleanup_eq:
  "cl_locks (chunk_locks_cleanup clk cl) =
      map fst (filter (\<lambda>(l, i). lock_live (clk i) cl l) (zip (cl_locks cl) [0..<cl_lcount cl]))"
  "cl_lsize (chunk_locks_cleanup clk cl) = cl_lsize cl" "cl_toutdiff (chunk_locks_cleanup clk cl) = cl_toutdiff cl"
  using cleanup_loop_eq [of "cl_lcount cl" cl clk] by (simp_all add: chunk_locks_cleanup_def)

lemma cleanup_at:
  "cl_locks (chunk_locks_cleanup (\<lambda>_. now) cl) = filter (lock_live now cl) (cl_locks cl)"
proof -
  have "map fst (filter (\<lambda>(l, i). lock_live now cl l) (zip xs [0..<length xs])) = filter (lock_live now cl) xs" for xs
  proof -
    have "map fst (filter (\<lambda>p. lock_live now cl (fst p)) (zip xs [0..<length xs]))
        = filter (lock_live now cl) (map fst (zip xs [0..<length xs]))"
      using filter_map [of "lock_live now cl" fst "zip xs [0..<length xs]"] by (simp only: o_def)
    then show ?thesis by (simp add: case_prod_unfold)
  qed
  then show ?thesis unfolding cleanup_eq by simp
qed

lemma cl_wf_create [simp]: "cl_wf (chunk_locks_create ms)"
  by (simp add: cl_wf_def chunk_locks_create_def LSIZE_INCREMENT_def)

lemma cl_wf_lock:
  assumes "cl_wf c"
  obtains c' where "chunk_lock now (Some c) chunkid (Some p) = Inr (Some c')" and "cl_wf c'"
    and "cl_locks c' = cl_locks c @ [\<lparr>lk_chunkid = chunkid, lk_peer = Some p, lk_timestamp = now\<rparr>]"
    and "cl_toutdiff c' = cl_toutdiff c"
  using assms that by (simp add: chunk_lock_def cl_wf_def Let_def LSIZE_INCREMENT_def)

lemma cl_wf_remove: "cl_wf c \<Longrightarrow> cl_wf (chunk_lock_remove c i)"
  by (simp add: cl_wf_def chunk_lock_remove_def)

lemma cl_wf_cleanup: "cl_wf c \<Longrightarrow> cl_wf (chunk_locks_cleanup clk c)"
  using length_filter_le [of "\<lambda>(l, i). lock_live (clk i) c l" "zip (cl_locks c) [0..<cl_lcount c]"]
  by (simp add: cl_wf_def cleanup_eq)

text \<open>Unlocking removes the first lock of the chunk.\<close>

lemma unlock_locks:
  "cl_locks (the (chunk_unlock (Some c) chunkid)) =
     takeWhile (\<lambda>l. lk_chunkid l \<noteq> chunkid) (cl_locks c) @ tl (dropWhile (\<lambda>l. lk_chunkid l \<noteq> chunkid) (cl_locks c))"
proof (cases "\<exists>l \<in> set (cl_locks c). lk_chunkid l = chunkid")
  case False
  then have "takeWhile (\<lambda>l. lk_chunkid l \<noteq> chunkid) (cl_locks c) = cl_locks c"
    "dropWhile (\<lambda>l. lk_chunkid l \<noteq> chunkid) (cl_locks c) = []"
    by (simp_all add: takeWhile_eq_all_conv)
  note e = this
  show ?thesis unfolding e using False by (simp add: chunk_unlock_def find_lock_eq)
next
  case True
  then have "chunk_unlock (Some c) chunkid =
      Some (chunk_lock_remove c (length (takeWhile (\<lambda>l. lk_chunkid l \<noteq> chunkid) (cl_locks c))))"
    by (simp add: chunk_unlock_def find_lock_eq)
  then show ?thesis
    by (simp add: chunk_lock_remove_def takeWhile_eq_take [symmetric] dropWhile_eq_drop tl_drop drop_Suc)
qed

lemma islocked_eq:
  "fst (chunk_islocked (\<lambda>_. now) (Some c) chunkid) =
     (if \<exists>l \<in> set (cl_locks c). lk_chunkid l = chunkid \<and> lock_live now c l then 1 else 0)"
  by (auto simp: chunk_islocked_def Let_def find_lock_None cleanup_at)

text \<open>A lock is live up to and including the timeout.\<close>

lemma timeout_fields:
  "cl_toutdiff (chunk_locks_create ms) =
     Timeval (int (unat ms div 1000)) (int (unat ms mod 1000 * 1000))"
proof -
  have "unat (ms mod 1000) = unat ms mod 1000" by (simp add: unat_mod)
  then have "unat (ms mod 1000 * 1000) = unat ms mod 1000 * 1000"
    by (subst unat_mult_lem [THEN iffD1]) auto
  moreover have "unat (ms div 1000) = unat ms div 1000" by (simp add: unat_div)
  ultimately show ?thesis unfolding chunk_locks_create_def uint_nat by simp
qed

lemma tv_norm_timeout: "tv_norm (cl_toutdiff (chunk_locks_create ms))"
proof -
  have "unat ms mod 1000 < 1000" by simp
  then have "unat ms mod 1000 * 1000 < 1000000" by linarith
  then show ?thesis by (simp add: timeout_fields tv_norm_def del: of_nat_mult)
qed

lemma tv_us_timeout: "tv_us (cl_toutdiff (chunk_locks_create ms)) = int (unat ms) * 1000"
proof -
  have "unat ms div 1000 * 1000 + unat ms mod 1000 = unat ms" by simp
  then have "unat ms div 1000 * 1000000 + unat ms mod 1000 * 1000 = unat ms * 1000" by linarith
  from arg_cong [OF this, of int] show ?thesis by (simp only: timeout_fields tv_us_def timeval.sel of_nat_add of_nat_mult of_nat_numeral)
qed

lemma lock_live_us:
  assumes "tv_norm now" and "tv_norm (lk_timestamp l)" and "tv_norm (cl_toutdiff cl)"
  shows "lock_live now cl l \<longleftrightarrow> tv_us now \<le> tv_us (lk_timestamp l) + tv_us (cl_toutdiff cl)"
proof -
  have "tv_norm (timeradd (lk_timestamp l) (cl_toutdiff cl))"
    using assms(2,3) by (auto simp: tv_norm_def timeradd_def Let_def)
  then show ?thesis using assms(1) by (auto simp: lock_live_def chunk_lock_timed_out_def tv_less_us tv_us_timeradd)
qed

text \<open>A run of lock and unlock calls, with the clock reading of each.\<close>

datatype lock_op = Lock timeval int nodeID | Unlock int | Query timeval int

fun lock_run :: "chunk_locks \<Rightarrow> lock_op list \<Rightarrow> chunk_locks option c_result" where
  "lock_run cl [] = Inr (Some cl)"
| "lock_run cl (Lock now cid p # ops) =
     c_bind (chunk_lock now (Some cl) cid (Some p)) (\<lambda>cl'. lock_run (the cl') ops)"
| "lock_run cl (Unlock cid # ops) = lock_run (the (chunk_unlock (Some cl) cid)) ops"
| "lock_run cl (Query now cid # ops) = lock_run (the (snd (chunk_islocked (\<lambda>_. now) (Some cl) cid))) ops"

lemma cl_wf_unlock: "cl_wf c \<Longrightarrow> \<exists>c'. chunk_unlock (Some c) cid = Some c' \<and> cl_wf c'"
  using cl_wf_remove by (auto simp: chunk_unlock_def split: option.split)

lemma lock_run_wf: "cl_wf c \<Longrightarrow> \<exists>c'. lock_run c ops = Inr (Some c') \<and> cl_wf c'"
proof (induction ops arbitrary: c)
  case (Cons op ops)
  show ?case
  proof (cases op)
    case (Lock now cid p)
    then show ?thesis
      using Cons.IH by (auto intro: cl_wf_lock [OF Cons.prems, of now cid p])
  next
    case (Unlock cid)
    then show ?thesis using Cons.IH cl_wf_unlock [OF Cons.prems, of cid] by auto
  next
    case (Query now cid)
    have "snd (chunk_islocked (\<lambda>_. now) (Some c) cid) = Some (chunk_locks_cleanup (\<lambda>_. now) c)"
      by (simp add: chunk_islocked_def Let_def)
    then show ?thesis using Query Cons.IH cl_wf_cleanup [OF Cons.prems] by auto
  qed
qed simp

section \<open>Properties\<close>

text \<open>Lock lifetime: a chunk is locked exactly while some lock of it is not older than the timeout
  (given in milliseconds to \<open>chunk_locks_create\<close>), and asking drops all expired locks, keeping the others in order.\<close>

lemma islocked_until_timeout:
  assumes "cl_toutdiff c = cl_toutdiff (chunk_locks_create ms)" and "tv_norm now"
    and "\<forall>l \<in> set (cl_locks c). tv_norm (lk_timestamp l)"
  shows "\<exists>c'. chunk_islocked (\<lambda>_. now) (Some c) cid =
      (if \<exists>l \<in> set (cl_locks c). lk_chunkid l = cid \<and> tv_us now \<le> tv_us (lk_timestamp l) + int (unat ms) * 1000 then 1 else 0,
       Some c') \<and>
    cl_locks c' = filter (\<lambda>l. tv_us now \<le> tv_us (lk_timestamp l) + int (unat ms) * 1000) (cl_locks c)"
proof -
  have live: "lock_live now c l \<longleftrightarrow> tv_us now \<le> tv_us (lk_timestamp l) + int (unat ms) * 1000"
    if "l \<in> set (cl_locks c)" for l
    using lock_live_us [of now l c] that assms tv_norm_timeout [of ms] tv_us_timeout [of ms] by simp
  have "cl_locks (chunk_locks_cleanup (\<lambda>_. now) c) =
      filter (\<lambda>l. tv_us now \<le> tv_us (lk_timestamp l) + int (unat ms) * 1000) (cl_locks c)"
    unfolding cleanup_at using live by (rule filter_cong [OF refl])
  moreover have "snd (chunk_islocked (\<lambda>_. now) (Some c) cid) = Some (chunk_locks_cleanup (\<lambda>_. now) c)"
    by (simp add: chunk_islocked_def Let_def)
  moreover have "(\<exists>l \<in> set (cl_locks c). lk_chunkid l = cid \<and> lock_live now c l) \<longleftrightarrow>
      (\<exists>l \<in> set (cl_locks c). lk_chunkid l = cid \<and> tv_us now \<le> tv_us (lk_timestamp l) + int (unat ms) * 1000)"
    using live by auto
  ultimately show ?thesis using islocked_eq [of now c cid] by (auto simp: prod_eq_iff)
qed

text \<open>Locking and then unlocking: \<open>chunk_lock\<close> appends one lock without touching the others, \<open>chunk_unlock\<close> removes
  the oldest lock of the chunk and nothing else, so for a chunk with no lock yet the pair restores the list.\<close>

lemma lock_unlock_restores:
  assumes "cl_wf c" and "\<forall>l \<in> set (cl_locks c). lk_chunkid l \<noteq> cid"
  shows "\<exists>c' c''. chunk_lock now (Some c) cid (Some p) = Inr (Some c') \<and>
    cl_locks c' = cl_locks c @ [\<lparr>lk_chunkid = cid, lk_peer = Some p, lk_timestamp = now\<rparr>] \<and>
    chunk_unlock (Some c') cid = Some c'' \<and> cl_locks c'' = cl_locks c"
proof (rule cl_wf_lock [OF assms(1), of now cid p])
  fix c'
  assume l: "chunk_lock now (Some c) cid (Some p) = Inr (Some c')" and wf: "cl_wf c'"
    and ls: "cl_locks c' = cl_locks c @ [\<lparr>lk_chunkid = cid, lk_peer = Some p, lk_timestamp = now\<rparr>]"
  obtain c'' where u: "chunk_unlock (Some c') cid = Some c''" using cl_wf_unlock [OF wf] by blast
  have "takeWhile (\<lambda>l. lk_chunkid l \<noteq> cid) (cl_locks c') = cl_locks c"
    "dropWhile (\<lambda>l. lk_chunkid l \<noteq> cid) (cl_locks c') = [\<lparr>lk_chunkid = cid, lk_peer = Some p, lk_timestamp = now\<rparr>]"
    unfolding ls using assms(2) by (simp_all add: takeWhile_append dropWhile_append)
  then have "cl_locks c'' = cl_locks c" using unlock_locks [of c' cid] u by simp
  then show ?thesis using l ls u by blast
qed

text \<open>The array of locks never overflows: from \<open>chunk_locks_create\<close>, any sequence of locking, unlocking and asking
  (with any clock) runs without writing at or beyond the allocated size, and always leaves room for one more lock.\<close>

lemma lock_array_bounded:
  "\<exists>c. lock_run (chunk_locks_create ms) ops = Inr (Some c) \<and> cl_lcount c < cl_lsize c"
  using lock_run_wf [OF cl_wf_create [of ms], of ops] by (auto simp: cl_wf_def)

end
