(* ===== verification/Transactions.thy ===== *)
theory Transactions
  imports Node_Id Complex_Main
begin

text \<open>
  \<open>src/transaction.c\<close>: the offers in flight, with the time each was sent and accepted.

  The doubly linked list is the list of its elements from the head on; unlinking is removing the
  element at a position.  Times are \<open>double\<close> seconds, here rational numbers without
  rounding.  The clock is an argument; \<open>transaction_create\<close> reads it twice.
\<close>

section \<open>The operations\<close>

record service_time =
  st_trans_id :: u16
  st_offer_sent_time :: rat
  st_accept_received_time :: rat
  st_id :: nodeID

type_synonym service_times = "service_time list"

definition TRANS_ID_MAX_LIFETIME :: rat where
  "TRANS_ID_MAX_LIFETIME = 4"

definition INVALID_TRANSID :: u16 where
  "INVALID_TRANSID = 0"

definition tv_double :: "timeval \<Rightarrow> rat" where
  "tv_double t = of_int (tv_sec t) + of_int (tv_usec t) / 1000000"

definition transaction_unlink :: "service_times \<Rightarrow> nat \<Rightarrow> service_times" where
  "transaction_unlink stl i = take i stl @ drop (Suc i) stl"

text \<open>The walk of \<open>check_neighbor_status_list\<close>: the element is at position \<open>i\<close>, the rest of the list
  from it on is the third argument.\<close>

fun check_loop :: "timeval \<Rightarrow> nat \<Rightarrow> service_times \<Rightarrow> service_times \<Rightarrow> service_times" where
  "check_loop now i [] stl = stl"
| "check_loop now i (t # rest) stl =
     (if tv_double now - st_offer_sent_time t > TRANS_ID_MAX_LIFETIME
      then check_loop now i rest (transaction_unlink stl i)
      else check_loop now (Suc i) rest stl)"

definition check_neighbor_status_list :: "timeval \<Rightarrow> service_times \<Rightarrow> service_times" where
  "check_neighbor_status_list now stl = check_loop now 0 stl stl"

text \<open>The arguments are pointers: \<open>None\<close> is NULL.  \<open>trans_id + 1\<close> is computed as an \<open>int\<close>, so it is
  never 0, and only the conversion to 16 bits wraps.\<close>

definition transaction_create ::
  "timeval \<Rightarrow> timeval \<Rightarrow> service_times option \<Rightarrow> nodeID option \<Rightarrow> u16 \<times> service_times option" where
  "transaction_create now now' stl node =
     (case (stl, node) of
        (Some l, Some n) \<Rightarrow>
          (let l' = check_neighbor_status_list now l;
               tid = (case l' of
                        [] \<Rightarrow> 1
                      | t # _ \<Rightarrow> if uint (st_trans_id t) + 1 \<noteq> 0 then word_of_int (uint (st_trans_id t) + 1) else 1)
           in (tid, Some (\<lparr>st_trans_id = tid, st_offer_sent_time = tv_double now',
                          st_accept_received_time = -1, st_id = n\<rparr> # l')))
      | _ \<Rightarrow> (0, stl))"

fun reg_accept_loop :: "timeval \<Rightarrow> u16 \<Rightarrow> service_times \<Rightarrow> bool \<times> service_times" where
  "reg_accept_loop now tid [] = (False, [])"
| "reg_accept_loop now tid (t # rest) =
     (if st_trans_id t = tid then (True, t\<lparr>st_accept_received_time := tv_double now\<rparr> # rest)
      else (case reg_accept_loop now tid rest of (r, rest') \<Rightarrow> (r, t # rest')))"

text \<open>An empty list is a NULL head.\<close>

definition transaction_reg_accept ::
  "timeval \<Rightarrow> service_times \<Rightarrow> u16 \<Rightarrow> nodeID option \<Rightarrow> bool \<times> service_times" where
  "transaction_reg_accept now stl tid node =
     (if stl \<noteq> [] \<and> node \<noteq> None \<and> tid \<noteq> 0 then reg_accept_loop now tid stl else (False, stl))"

fun find_trans :: "u16 \<Rightarrow> service_times \<Rightarrow> nat \<Rightarrow> nat option" where
  "find_trans tid [] i = None"
| "find_trans tid (t # rest) i = (if st_trans_id t = tid then Some i else find_trans tid rest (Suc i))"

definition transaction_remove :: "service_times \<Rightarrow> u16 \<Rightarrow> rat \<times> service_times" where
  "transaction_remove stl tid =
     (case find_trans tid stl 0 of
        None \<Rightarrow> (-2, stl)
      | Some i \<Rightarrow> (st_accept_received_time (stl ! i), transaction_unlink stl i))"

function transaction_destroy :: "service_times \<Rightarrow> service_times" where
  "transaction_destroy [] = []"
| "transaction_destroy (t # rest) = transaction_destroy (transaction_unlink (t # rest) 0)"
  by pat_completeness auto
termination
  by (relation "measure length") (auto simp: transaction_unlink_def)

section \<open>What they do\<close>

definition trans_fresh :: "timeval \<Rightarrow> service_time \<Rightarrow> bool" where
  "trans_fresh now t \<longleftrightarrow> tv_double now - st_offer_sent_time t \<le> TRANS_ID_MAX_LIFETIME"

lemma check_loop_eq: "check_loop now (length pre) rest (pre @ rest) = pre @ filter (trans_fresh now) rest"
proof (induction rest arbitrary: pre)
  case (Cons t rest)
  have "transaction_unlink (pre @ t # rest) (length pre) = pre @ rest"
    by (simp add: transaction_unlink_def)
  then show ?case
    using Cons [of pre] Cons [of "pre @ [t]"] by (auto simp: trans_fresh_def not_le)
qed simp

lemma check_neighbor_status_list_eq: "check_neighbor_status_list now stl = filter (trans_fresh now) stl"
  using check_loop_eq [of now "[]" stl] by (simp add: check_neighbor_status_list_def)

lemma find_trans_eq:
  "find_trans tid stl i =
     (if \<exists>t \<in> set stl. st_trans_id t = tid
      then Some (i + length (takeWhile (\<lambda>t. st_trans_id t \<noteq> tid) stl)) else None)"
  by (induction stl arbitrary: i) auto

text \<open>Identifiers fall along the list while the counter has not wrapped; then the new one is
  above all of them.\<close>

definition ids_falling :: "service_times \<Rightarrow> bool" where
  "ids_falling stl \<longleftrightarrow> sorted_wrt (\<lambda>s t. st_trans_id t < st_trans_id s) stl \<and> (\<forall>t \<in> set stl. 0 < st_trans_id t)"

lemma ids_falling_filter: "ids_falling stl \<Longrightarrow> ids_falling (filter P stl)"
  by (auto simp: ids_falling_def sorted_wrt_filter)

lemma ids_falling_distinct: "ids_falling stl \<Longrightarrow> distinct (map st_trans_id stl)"
  unfolding ids_falling_def by (induction stl) (auto dest: order_less_imp_not_eq2)

lemma next_id:
  fixes w :: u16
  shows "(if uint w + 1 \<noteq> 0 then word_of_int (uint w + 1) else 1) = w + 1"
proof -
  have "0 \<le> uint w" by simp
  then have "uint w + 1 \<noteq> 0" by linarith
  then show ?thesis by simp
qed

lemma create_ids_falling:
  fixes now :: timeval
  assumes "ids_falling stl"
    and "\<forall>t \<in> set stl. st_trans_id t < 65535"
  defines "l' \<equiv> filter (trans_fresh now) stl"
  obtains tid where "transaction_create now now' (Some stl) (Some n) =
      (tid, Some (\<lparr>st_trans_id = tid, st_offer_sent_time = tv_double now',
                  st_accept_received_time = -1, st_id = n\<rparr> # l'))"
    and "ids_falling (\<lparr>st_trans_id = tid, st_offer_sent_time = tv_double now',
                  st_accept_received_time = -1, st_id = n\<rparr> # l')"
    and "tid = (case l' of [] \<Rightarrow> 1 | t # _ \<Rightarrow> st_trans_id t + 1)"
proof -
  define tid where "tid = (case l' of [] \<Rightarrow> 1 | t # _ \<Rightarrow> st_trans_id t + 1)"
  have f: "ids_falling l'" unfolding l'_def by (rule ids_falling_filter [OF assms(1)])
  have up: "\<forall>t \<in> set l'. st_trans_id t < tid" "0 < tid"
  proof (atomize (full), cases l')
    case Nil
    then show "(\<forall>t \<in> set l'. st_trans_id t < tid) \<and> 0 < tid" by (simp add: tid_def)
  next
    case (Cons t rest)
    then have "t \<in> set l'" by simp
    then have lt: "st_trans_id t < 65535" using assms(2) by (simp add: l'_def)
    have inc: "w < w + 1" if "w < 65535" for w :: u16
      using that by (simp add: word_less_nat_alt) (subst unat_add_lem [THEN iffD1], auto)
    then have "st_trans_id t < st_trans_id t + 1" using lt by blast
    moreover have "st_trans_id x \<le> st_trans_id t" if "x \<in> set l'" for x
      using that f Cons by (auto simp: ids_falling_def)
    ultimately show "(\<forall>t \<in> set l'. st_trans_id t < tid) \<and> 0 < tid"
      using Cons by (auto simp: tid_def word_gt_0 intro: le_less_trans)
  qed
  show ?thesis
  proof (rule that)
    show "transaction_create now now' (Some stl) (Some n) =
      (tid, Some (\<lparr>st_trans_id = tid, st_offer_sent_time = tv_double now',
                  st_accept_received_time = -1, st_id = n\<rparr> # l'))"
      by (simp add: transaction_create_def check_neighbor_status_list_eq l'_def [symmetric] next_id tid_def
          Let_def split: list.split)
    show "ids_falling (\<lparr>st_trans_id = tid, st_offer_sent_time = tv_double now',
                  st_accept_received_time = -1, st_id = n\<rparr> # l')"
      using f up by (simp add: ids_falling_def)
  qed (rule tid_def)
qed

lemma reg_accept_loop_eq:
  "reg_accept_loop now tid stl =
     (\<exists>t \<in> set stl. st_trans_id t = tid,
      takeWhile (\<lambda>t. st_trans_id t \<noteq> tid) stl @
      (case dropWhile (\<lambda>t. st_trans_id t \<noteq> tid) stl of
         [] \<Rightarrow> [] | t # rest \<Rightarrow> t\<lparr>st_accept_received_time := tv_double now\<rparr> # rest))"
  by (induction stl) auto

lemma transaction_remove_eq:
  "transaction_remove stl tid =
     (case dropWhile (\<lambda>t. st_trans_id t \<noteq> tid) stl of
        [] \<Rightarrow> (-2, stl)
      | t # rest \<Rightarrow> (st_accept_received_time t, takeWhile (\<lambda>t. st_trans_id t \<noteq> tid) stl @ rest))"
proof (cases "dropWhile (\<lambda>t. st_trans_id t \<noteq> tid) stl")
  case Nil
  then have "\<not> (\<exists>t \<in> set stl. st_trans_id t = tid)" by simp
  then show ?thesis unfolding Nil by (simp add: transaction_remove_def find_trans_eq)
next
  case (Cons t rest)
  let ?w = "takeWhile (\<lambda>t. st_trans_id t \<noteq> tid) stl"
  have s: "stl = ?w @ t # rest" using Cons takeWhile_dropWhile_id [of _ stl] by metis
  have t: "st_trans_id t = tid" using Cons hd_dropWhile [of "\<lambda>t. st_trans_id t \<noteq> tid" stl] by simp
  have m: "\<exists>x \<in> set stl. st_trans_id x = tid" using s t by (metis in_set_conv_decomp)
  have "stl ! length ?w = t" "take (length ?w) stl = ?w" "drop (Suc (length ?w)) stl = rest"
    using s by (metis nth_append_length, metis append_eq_conv_conj,
        metis append_eq_conv_conj drop_Suc list.sel(3) tl_drop)
  then show ?thesis using m Cons by (simp add: transaction_remove_def find_trans_eq transaction_unlink_def)
qed

lemma transaction_destroy_Nil: "transaction_destroy stl = []"
  by (induction stl) (simp_all add: transaction_unlink_def)

section \<open>Properties\<close>

text \<open>Creating a transaction: offers older than 4 seconds are dropped and no other; the new one is put in front
  with a number that is not 0, above all the others and hence unused, as long as the last number given is below 65535.\<close>

lemma transaction_create_fresh:
  assumes "ids_falling stl" and "\<forall>t \<in> set stl. st_trans_id t < 65535"
  shows "\<exists>tid l. transaction_create now now' (Some stl) (Some n) = (tid, Some l) \<and>
    l = \<lparr>st_trans_id = tid, st_offer_sent_time = tv_double now', st_accept_received_time = -1, st_id = n\<rparr> #
      filter (\<lambda>t. tv_double now - st_offer_sent_time t \<le> 4) stl \<and>
    0 < tid \<and> (\<forall>t \<in> set (tl l). st_trans_id t < tid) \<and> ids_falling l \<and> distinct (map st_trans_id l)"
proof (rule create_ids_falling [OF assms, of now now' n])
  fix tid
  let ?l = "\<lparr>st_trans_id = tid, st_offer_sent_time = tv_double now', st_accept_received_time = -1, st_id = n\<rparr> #
    filter (trans_fresh now) stl"
  assume c: "transaction_create now now' (Some stl) (Some n) = (tid, Some ?l)" and f: "ids_falling ?l"
  have "trans_fresh now = (\<lambda>t. tv_double now - st_offer_sent_time t \<le> 4)"
    by (simp add: trans_fresh_def TRANS_ID_MAX_LIFETIME_def fun_eq_iff)
  moreover have "0 < tid" "\<forall>t \<in> set (tl ?l). st_trans_id t < tid" using f by (simp_all add: ids_falling_def)
  ultimately show ?thesis using c f ids_falling_distinct [OF f] by simp
qed

text \<open>The life of a transaction: after it is created, \<open>transaction_reg_accept\<close> finds it, and \<open>transaction_remove\<close> then
  returns the time of the acceptance and leaves the other transactions as they were; without an acceptance it returns
  -1, and a second removal returns -2.\<close>

lemma transaction_lifecycle:
  assumes "ids_falling stl" and "\<forall>t \<in> set stl. st_trans_id t < 65535"
  shows "\<exists>tid l l'. transaction_create now now' (Some stl) (Some n) = (tid, Some l) \<and>
    transaction_reg_accept acc l tid (Some n') = (True, l') \<and>
    transaction_remove l' tid = (tv_double acc, tl l) \<and> transaction_remove l tid = (-1, tl l) \<and>
    transaction_remove (tl l) tid = (-2, tl l)"
proof (rule create_ids_falling [OF assms, of now now' n])
  fix tid
  let ?l = "\<lparr>st_trans_id = tid, st_offer_sent_time = tv_double now', st_accept_received_time = -1, st_id = n\<rparr> #
    filter (trans_fresh now) stl"
  assume c: "transaction_create now now' (Some stl) (Some n) = (tid, Some ?l)" and f: "ids_falling ?l"
  have z: "tid \<noteq> 0" and "\<forall>t \<in> set (filter (trans_fresh now) stl). st_trans_id t \<noteq> tid"
    using f by (auto simp: ids_falling_def)
  then have d: "dropWhile (\<lambda>t. st_trans_id t \<noteq> tid) (filter (trans_fresh now) stl) = []" by simp
  have "transaction_remove (tl ?l) tid = (-2, tl ?l)" unfolding list.sel transaction_remove_eq d by simp
  moreover have "transaction_remove (\<lparr>st_trans_id = tid, st_offer_sent_time = u, st_accept_received_time = v, st_id = n\<rparr> # rest) tid = (v, rest)"
    for u v rest by (simp add: transaction_remove_eq)
  moreover have "transaction_reg_accept acc ?l tid (Some n') =
      (True, \<lparr>st_trans_id = tid, st_offer_sent_time = tv_double now', st_accept_received_time = tv_double acc, st_id = n\<rparr> #
        filter (trans_fresh now) stl)"
    using z by (simp add: transaction_reg_accept_def)
  ultimately show ?thesis using c by auto
qed

text \<open>The counter wraps onto the invalid number: after number 65535 the next transaction gets 0, which
  \<open>transaction_reg_accept\<close> refuses, so its acceptance is never recorded.\<close>

lemma transaction_id_wraps:
  assumes "tv_double now - st_offer_sent_time t \<le> 4" and "st_trans_id t = 65535"
  shows "\<exists>l. transaction_create now now' (Some (t # stl)) (Some n) = (INVALID_TRANSID, Some l) \<and>
    transaction_reg_accept acc l INVALID_TRANSID (Some n') = (False, l)"
  using assms
  by (simp add: transaction_create_def check_neighbor_status_list_eq trans_fresh_def TRANS_ID_MAX_LIFETIME_def
      INVALID_TRANSID_def transaction_reg_accept_def Let_def)

end
