(* ===== verification/Streaming_Timers.thy ===== *)
theory Streaming_Timers
  imports Prelude "HOL-Library.Signed_Division"
begin

text \<open>
  \<open>src/streaming_timers.c\<close>: when the streaming loop wakes up and what it does then.

  \<open>suseconds_t\<close> values are integers, with the division and remainder of C (truncating).  The clock
  is an argument.  \<open>streaming_timers_init\<close> sets only the epochs; the other fields keep what they hold.
\<close>

section \<open>The operations\<close>

datatype streaming_action = OFFER_ACTION | INJECT_ACTION | PARSE_MSG_ACTION | NO_ACTION

record streaming_timers =
  sleep_timer :: timeval
  awake_epoch :: timeval
  offer_epoch :: timeval
  chunk_epoch :: timeval
  loop_counter :: u32

definition UPDATE_EPOCH :: u32 where
  "UPDATE_EPOCH = 10"

definition usec2timeval :: "int \<Rightarrow> timeval" where
  "usec2timeval usec = Timeval (usec sdiv 1000000) (usec smod 1000000)"

definition timeradd_interval :: "timeval \<Rightarrow> int \<Rightarrow> timeval" where
  "timeradd_interval dst interval = timeradd dst (usec2timeval interval)"

definition streaming_timers_init :: "timeval \<Rightarrow> streaming_timers \<Rightarrow> int \<Rightarrow> int \<times> streaming_timers" where
  "streaming_timers_init now psl offer_interval =
     (0, psl\<lparr>awake_epoch := now, offer_epoch := timeradd_interval now offer_interval, chunk_epoch := now\<rparr>)"

definition streaming_timers_set_timeout ::
  "timeval \<Rightarrow> streaming_timers \<Rightarrow> int \<Rightarrow> bool \<Rightarrow> streaming_timers" where
  "streaming_timers_set_timeout tnow psl interval userfds =
     (let psl1 = psl\<lparr>awake_epoch := offer_epoch psl\<rparr>;
          psl2 = (if userfds \<and> chunk_epoch psl1 < offer_epoch psl1
                  then psl1\<lparr>awake_epoch := chunk_epoch psl1\<rparr> else psl1)
      in if tnow > awake_epoch psl2 then psl2\<lparr>sleep_timer := Timeval 0 0\<rparr>
         else
           let psl3 = psl2\<lparr>sleep_timer := timersub (awake_epoch psl2) tnow\<rparr>;
               delta = usec2timeval interval
           in if delta < sleep_timer psl3 then psl3\<lparr>sleep_timer := delta\<rparr> else psl3)"

definition streaming_timers_state_handler ::
  "timeval \<Rightarrow> streaming_timers \<Rightarrow> int \<Rightarrow> bool \<Rightarrow> streaming_action \<times> streaming_timers" where
  "streaming_timers_state_handler current_epoch psl data_state source_role =
     (let action =
            (if data_state = 0 then
               (if source_role \<and> chunk_epoch psl < current_epoch then INJECT_ACTION
                else if offer_epoch psl < current_epoch then OFFER_ACTION else NO_ACTION)
             else if data_state = 1 then PARSE_MSG_ACTION
             else if data_state = 2 then INJECT_ACTION
             else NO_ACTION)
      in (action, psl\<lparr>loop_counter := loop_counter psl + 1\<rparr>))"

definition streaming_timers_update_flag :: "streaming_timers \<Rightarrow> int \<times> streaming_timers" where
  "streaming_timers_update_flag psl =
     (if loop_counter psl \<ge> UPDATE_EPOCH then (1, psl\<lparr>loop_counter := 0\<rparr>) else (0, psl))"

definition streaming_timers_update_chunk_time :: "streaming_timers \<Rightarrow> int \<Rightarrow> streaming_timers" where
  "streaming_timers_update_chunk_time psl interval =
     psl\<lparr>chunk_epoch := timeradd_interval (chunk_epoch psl) interval\<rparr>"

definition streaming_timers_update_offer_time :: "streaming_timers \<Rightarrow> int \<Rightarrow> streaming_timers" where
  "streaming_timers_update_offer_time psl interval =
     psl\<lparr>offer_epoch := timeradd_interval (offer_epoch psl) interval\<rparr>"

section \<open>Times in microseconds\<close>

lemma tv_us_usec2timeval [tv_simps]: "tv_us (usec2timeval u) = u"
proof -
  have "u sdiv 1000000 * 1000000 + u smod 1000000 = sgn u * (\<bar>u\<bar> div 1000000 * 1000000 + \<bar>u\<bar> mod 1000000)"
    by (simp only: signed_divide_int_def signed_modulo_int_def distrib_left) simp
  also have "\<dots> = u" by (simp only: div_mult_mod_eq) (simp add: sgn_mult_abs)
  finally have "u sdiv 1000000 * 1000000 + u smod 1000000 = u" .
  then show ?thesis by (simp add: usec2timeval_def tv_us_def)
qed

lemma tv_norm_usec2timeval: "0 \<le> u \<Longrightarrow> tv_norm (usec2timeval u)"
  by (auto simp: usec2timeval_def tv_norm_def signed_modulo_int_def sgn_if)

lemma tv_us_timeradd_interval [tv_simps]: "tv_us (timeradd_interval t u) = tv_us t + u"
  by (simp add: timeradd_interval_def tv_simps)

lemma tv_norm_timeradd_interval: "tv_norm t \<Longrightarrow> 0 \<le> u \<Longrightarrow> tv_norm (timeradd_interval t u)"
  using tv_norm_usec2timeval [of u] by (auto simp: timeradd_interval_def tv_norm_def timeradd_def Let_def)

text \<open>The epochs stay normalised, and the sleep is the time to the next epoch, cut at the interval
  and at 0.\<close>

definition timers_norm :: "streaming_timers \<Rightarrow> bool" where
  "timers_norm psl \<longleftrightarrow> tv_norm (offer_epoch psl) \<and> tv_norm (chunk_epoch psl)"

lemma set_timeout_us:
  fixes userfds :: bool
  assumes "timers_norm psl" and "tv_norm tnow" and "0 \<le> interval"
  defines "psl' \<equiv> streaming_timers_set_timeout tnow psl interval userfds"
  shows "tv_us (awake_epoch psl') =
      (if userfds then min (tv_us (offer_epoch psl)) (tv_us (chunk_epoch psl)) else tv_us (offer_epoch psl))"
    and "tv_us (sleep_timer psl') = max 0 (min interval (tv_us (awake_epoch psl') - tv_us tnow))"
    and "offer_epoch psl' = offer_epoch psl \<and> chunk_epoch psl' = chunk_epoch psl \<and> loop_counter psl' = loop_counter psl"
proof -
  have n: "tv_norm (offer_epoch psl)" "tv_norm (chunk_epoch psl)" "tv_norm tnow" "tv_norm (usec2timeval interval)"
    using assms tv_norm_usec2timeval by (simp_all add: timers_norm_def)
  have ns: "tv_norm (timersub a tnow)" if "tv_norm a" for a
    using that n(3) by (auto simp: tv_norm_def timersub_def Let_def)
  define w where "w = (if userfds \<and> chunk_epoch psl < offer_epoch psl then chunk_epoch psl else offer_epoch psl)"
  have w: "awake_epoch psl' = w" by (simp add: psl'_def streaming_timers_set_timeout_def Let_def w_def)
  have nw: "tv_norm w" using n by (simp add: w_def)
  show "tv_us (awake_epoch psl') =
      (if userfds then min (tv_us (offer_epoch psl)) (tv_us (chunk_epoch psl)) else tv_us (offer_epoch psl))"
    unfolding w using n by (auto simp: w_def tv_less_us)
  have s: "sleep_timer psl' = (if w < tnow then Timeval 0 0
      else if usec2timeval interval < timersub w tnow then usec2timeval interval else timersub w tnow)"
    by (simp add: psl'_def streaming_timers_set_timeout_def Let_def w_def)
  have l: "w < tnow \<longleftrightarrow> tv_us w < tv_us tnow"
    "usec2timeval interval < timersub w tnow \<longleftrightarrow> interval < tv_us w - tv_us tnow"
    using tv_less_us [OF nw n(3)] tv_less_us [OF n(4) ns [OF nw]] by (simp_all add: tv_simps)
  show "tv_us (sleep_timer psl') = max 0 (min interval (tv_us (awake_epoch psl') - tv_us tnow))"
    unfolding s w using l assms(3) by (auto simp: tv_simps)
  show "offer_epoch psl' = offer_epoch psl \<and> chunk_epoch psl' = chunk_epoch psl \<and> loop_counter psl' = loop_counter psl"
    by (simp add: psl'_def streaming_timers_set_timeout_def Let_def)
qed

section \<open>The streaming loop\<close>

text \<open>\<open>psinstance_poll\<close> calls \<open>streaming_timers_state_handler\<close> once per turn, acts, and then asks for the
  update flag; the actions change the epochs but not the counter: \<open>timer_turns\<close> lists the flags of the turns.\<close>

fun timer_turns :: "(timeval \<times> int) list \<Rightarrow> bool \<Rightarrow> streaming_timers \<Rightarrow> int list" where
  "timer_turns [] source_role psl = []"
| "timer_turns ((now, data_state) # turns) source_role psl =
     (let psl' = snd (streaming_timers_state_handler now psl data_state source_role);
          (flag, psl'') = streaming_timers_update_flag psl'
      in flag # timer_turns turns source_role psl'')"

lemma timer_turns_flags:
  assumes "unat (loop_counter psl) < 10"
  shows "timer_turns turns source_role psl =
    map (\<lambda>i. if (i + 1 + unat (loop_counter psl)) mod 10 = 0 then 1 else 0) [0..<length turns]"
  using assms
proof (induction turns arbitrary: psl)
  case (Cons t turns)
  obtain now ds where t: "t = (now, ds)" by (cases t)
  let ?c = "unat (loop_counter psl)"
  have inc: "unat (loop_counter psl + 1) = ?c + 1"
    using Cons.prems by (subst unat_add_lem [THEN iffD1]) auto
  have ge: "loop_counter psl + 1 \<ge> UPDATE_EPOCH \<longleftrightarrow> 10 \<le> ?c + 1"
    by (simp add: UPDATE_EPOCH_def word_le_nat_alt inc)
  define psl' where "psl' = (snd (streaming_timers_state_handler now psl ds source_role))
    \<lparr>loop_counter := (if ?c = 9 then 0 else loop_counter psl + 1)\<rparr>"
  have step: "timer_turns (t # turns) source_role psl = (if ?c = 9 then 1 else 0) # timer_turns turns source_role psl'"
    using ge Cons.prems
    by (auto simp: t streaming_timers_update_flag_def streaming_timers_state_handler_def Let_def psl'_def)
  have c': "unat (loop_counter psl') = (?c + 1) mod 10" using Cons.prems inc by (auto simp: psl'_def)
  then have "timer_turns turns source_role psl' =
      map (\<lambda>i. if (i + 1 + (?c + 1) mod 10) mod 10 = 0 then 1 else 0) [0..<length turns]"
    using Cons.IH [of psl'] by simp
  also have "\<dots> = map (\<lambda>i. if (Suc i + 1 + ?c) mod 10 = 0 then 1 else 0) [0..<length turns]"
  proof -
    have "(i + 1 + (c + 1) mod 10) mod 10 = (Suc i + 1 + c) mod 10" for i c :: nat
      using mod_add_right_eq [of "i + 1" "c + 1" 10] by simp
    then show ?thesis by simp
  qed
  finally have r: "timer_turns turns source_role psl' =
      map (\<lambda>i. if (Suc i + 1 + ?c) mod 10 = 0 then 1 else 0) [0..<length turns]" .
  have "[0..<length (t # turns)] = 0 # map Suc [0..<length turns]"
    by (simp add: upt_conv_Cons map_Suc_upt del: upt_Suc)
  moreover have "?c = 9 \<longleftrightarrow> (0 + 1 + ?c) mod 10 = 0"
    using Cons.prems by (auto simp: mod_eq_0_iff_dvd dest!: dvd_imp_le)
  ultimately show ?case unfolding step r by (simp add: o_def)
qed simp

section \<open>Properties\<close>

text \<open>The streaming loop sleeps exactly until the next event: the sleep set by \<open>streaming_timers_set_timeout\<close> is the time to
  the offer epoch (for a source without input descriptors, to the earlier of the offer and chunk epochs), cut at the
  polling interval above and at 0 below, and a normalised time value; nothing else of the timers changes.\<close>

lemma timeout_is_time_to_next_epoch:
  fixes userfds :: bool and psl :: streaming_timers and tnow :: timeval
  defines "wake \<equiv> (if userfds then min (tv_us (offer_epoch psl)) (tv_us (chunk_epoch psl)) else tv_us (offer_epoch psl))"
  assumes "timers_norm psl" and "tv_norm tnow" and "0 \<le> interval"
  shows "\<exists>psl'. streaming_timers_set_timeout tnow psl interval userfds = psl' \<and>
    tv_us (sleep_timer psl') = max 0 (min interval (wake - tv_us tnow)) \<and> tv_us (awake_epoch psl') = wake \<and>
    offer_epoch psl' = offer_epoch psl \<and> chunk_epoch psl' = chunk_epoch psl \<and> loop_counter psl' = loop_counter psl"
  using set_timeout_us [OF assms(2-4), of userfds] by (simp add: wake_def)

text \<open>The topology is updated on every tenth turn of the streaming loop, whatever the turns do, counting from the
  value of the counter, as long as the counter starts below 10 (it is never initialised by \<open>streaming_timers_init\<close>).\<close>

lemma update_flag_every_tenth:
  assumes "unat (loop_counter psl) < 10"
  shows "timer_turns turns source_role psl =
    map (\<lambda>i. if (i + 1 + unat (loop_counter psl)) mod 10 = 0 then 1 else 0) [0..<length turns]"
  by (rule timer_turns_flags [OF assms])

end
