(* ===== verification/Output_Buffer.thy ===== *)
theory Output_Buffer
  imports Prelude
begin

text \<open>
  \<open>src/output-grapes.c\<close>: the ring buffer that puts received chunks in order before they are
  written out.

  The output stream of GRAPES (\<open>chunk_write\<close>) is the list \<open>co_written\<close> of the chunks handed to it.
  A chunk's size is the length of its data.  The ring holds \<open>buff_length\<close> chunks, the length of \<open>co_buff\<close>;
  a free slot has id -1 and keeps whatever its other fields held.  Identifiers are integers: the
  overflow of \<open>int\<close> is not modelled.

  The abstract view is a window: \<open>pend\<close> gives the data waiting under each identifier, \<open>co_next_out\<close> the next identifier to
  write.  The lemmas show that every operation acts on that window as specified, so that chunks
  are written in the order of their identifiers, none twice, and none that was waiting is lost.
\<close>

section \<open>The operations\<close>

record chunk =
  ch_id :: int
  ch_data :: bytes
  ch_timestamp :: nat
  ch_attributes :: bytes

record chunk_output =
  co_buff :: "chunk list"
  co_written :: "chunk list"
  co_head :: nat
  co_reorder :: bool
  co_next_out :: int

abbreviation co_buff_length :: "chunk_output \<Rightarrow> nat" where
  "co_buff_length co \<equiv> length (co_buff co)"

text \<open>\<open>chunk_clone\<close> copies the identifier and the data only.\<close>

definition chunk_clone :: "chunk \<Rightarrow> chunk \<Rightarrow> chunk" where
  "chunk_clone dst src = dst\<lparr>ch_id := ch_id src, ch_data := ch_data src\<rparr>"

definition chunk_deinit :: "chunk \<Rightarrow> chunk" where
  "chunk_deinit c = c\<lparr>ch_id := -1\<rparr>"

text \<open>\<open>output_create\<close>: \<open>outbuff_size\<close> and \<open>outbuff_reorder\<close> are the parsed configuration values,
  \<open>stream_ok\<close> whether the output stream could be opened, \<open>raw\<close> what the allocated memory held.
  \<open>buff_length\<close> is a \<open>uint16_t\<close>.\<close>

definition output_create :: "int option \<Rightarrow> int option \<Rightarrow> bool \<Rightarrow> chunk \<Rightarrow> chunk_output option" where
  "output_create outbuff_size outbuff_reorder stream_ok raw =
     (let len = (case outbuff_size of Some v \<Rightarrow> v | None \<Rightarrow> 75);
          buff_length = unat (of_int (if len > 0 then len else 75) :: u16);
          len' = (case outbuff_reorder of Some v \<Rightarrow> v | None \<Rightarrow> 1)
      in if stream_ok then
           Some \<lparr>co_buff = replicate buff_length (raw\<lparr>ch_id := -1\<rparr>), co_written = [], co_head = 0,
                 co_reorder = (len' \<noteq> 0), co_next_out = -1\<rparr>
         else None)"

definition output_send_next :: "chunk_output \<Rightarrow> int \<times> chunk_output" where
  "output_send_next outg =
     (let c = co_buff outg ! co_head outg;
          (res, outg1) =
            (if ch_id c \<ge> 0
             then (1, outg\<lparr>co_written := co_written outg @ [c],
                           co_buff := (co_buff outg)[co_head outg := chunk_deinit c]\<rparr>)
             else (0, outg))
      in (res, outg1\<lparr>co_next_out := co_next_out outg1 + 1,
                     co_head := (co_head outg1 + 1) mod co_buff_length outg1\<rparr>))"

fun output_buff_flush :: "chunk_output \<Rightarrow> nat \<Rightarrow> int \<times> chunk_output" where
  "output_buff_flush outg 0 = (0, outg)"
| "output_buff_flush outg (Suc n) =
     (case output_send_next outg of (r, outg1) \<Rightarrow>
       case output_buff_flush outg1 n of (rs, outg2) \<Rightarrow> (r + rs, outg2))"

text \<open>The last loop of \<open>output_deliver\<close>.\<close>

partial_function (option) output_drain :: "chunk_output \<Rightarrow> int \<Rightarrow> (int \<times> chunk_output) option" where
  "output_drain outg res =
     (if ch_id (co_buff outg ! co_head outg) \<ge> 0
      then (case output_send_next outg of (r, outg1) \<Rightarrow> output_drain outg1 (res + r))
      else Some (res, outg))"

text \<open>\<open>output_deliver\<close>; the result is \<open>None\<close> if the loop does not end, and a division by a zero
  \<open>buff_length\<close> is a fault.\<close>

definition output_place :: "chunk_output \<Rightarrow> chunk \<Rightarrow> nat \<Rightarrow> chunk_output" where
  "output_place outg c new_pos =
     (if ch_id c \<noteq> ch_id (co_buff outg ! new_pos)
      then outg\<lparr>co_buff := (co_buff outg)[new_pos := chunk_clone (co_buff outg ! new_pos) c]\<rparr>
      else outg)"

definition output_deliver :: "chunk_output option \<Rightarrow> chunk option \<Rightarrow> (int \<times> chunk_output option) c_result option" where
  "output_deliver out chunk =
     (case (out, chunk) of
        (Some outg, Some c) \<Rightarrow>
          if co_reorder outg then
            if ch_id c \<ge> co_next_out outg then
              if co_buff_length outg = 0 then Some (Inl Div_By_Zero)
              else
                let outg1 = (if co_next_out outg < 0 then outg\<lparr>co_next_out := ch_id c\<rparr> else outg);
                    len = co_buff_length outg1;
                    new_pos = nat ((int (co_head outg1) + ch_id c - co_next_out outg1) mod int len);
                    (res, outg2) =
                      (if ch_id c \<ge> co_next_out outg1 + int len
                       then (case output_buff_flush outg1 (nat (ch_id c - co_next_out outg1 - int len + 1)) of
                               (r, o2) \<Rightarrow> (r, o2\<lparr>co_head := (new_pos + 1) mod len\<rparr>))
                       else (0, outg1));
                    outg3 = output_place outg2 c new_pos
                in (case output_drain outg3 res of
                      None \<Rightarrow> None
                    | Some (r, outg4) \<Rightarrow> Some (Inr (r, Some outg4)))
            else Some (Inr (0, out))
          else Some (Inr (1, Some (outg\<lparr>co_written := co_written outg @ [c]\<rparr>)))
      | _ \<Rightarrow> Some (Inr (-1, out)))"

section \<open>The window\<close>

definition slot :: "chunk_output \<Rightarrow> nat \<Rightarrow> chunk" where
  "slot co j = co_buff co ! ((co_head co + j) mod co_buff_length co)"

definition co_ok :: "chunk_output \<Rightarrow> bool" where
  "co_ok co \<longleftrightarrow> 0 < co_buff_length co \<and> co_head co < co_buff_length co \<and> 0 \<le> co_next_out co \<and>
     (\<forall>j < co_buff_length co. ch_id (slot co j) = co_next_out co + int j \<or> ch_id (slot co j) = -1)"

definition pend :: "chunk_output \<Rightarrow> int \<Rightarrow> bytes option" where
  "pend co i =
     (let j = i - co_next_out co in
      if 0 \<le> j \<and> j < int (co_buff_length co) \<and> ch_id (slot co (nat j)) = i
      then Some (ch_data (slot co (nat j))) else None)"

definition out_log :: "chunk_output \<Rightarrow> (int \<times> bytes) list" where
  "out_log co = map (\<lambda>c. (ch_id c, ch_data c)) (co_written co)"

text \<open>The waiting chunks among the given identifiers.\<close>

definition emit :: "(int \<Rightarrow> bytes option) \<Rightarrow> int list \<Rightarrow> (int \<times> bytes) list" where
  "emit P is = concat (map (\<lambda>i. case P i of None \<Rightarrow> [] | Some d \<Rightarrow> [(i, d)]) is)"

lemma emit_simps [simp]:
  "emit P [] = []"
  "emit P (i # is) = (case P i of None \<Rightarrow> [] | Some d \<Rightarrow> [(i, d)]) @ emit P is"
  "emit P (is @ js) = emit P is @ emit P js"
  by (simp_all add: emit_def)

lemma emit_cong: "(\<And>i. i \<in> set is \<Longrightarrow> P i = Q i) \<Longrightarrow> emit P is = emit Q is"
  by (induction "is") auto

lemma emit_all: "\<forall>i \<in> set is. P i \<noteq> None \<Longrightarrow> emit P is = map (\<lambda>i. (i, the (P i))) is"
  by (induction "is") auto

lemma upto_first: "i \<le> j \<Longrightarrow> [i..j] = i # [i + 1..j]"
  by (rule upto_rec1)

lemma slot_head: "co_head co < co_buff_length co \<Longrightarrow> slot co 0 = co_buff co ! co_head co"
  by (simp add: slot_def)

text \<open>Distinct offsets below the length are distinct slots.\<close>

lemma ring_inj:
  fixes h :: nat
  assumes "j < n" and "k < n" and "(h + j) mod n = (h + k) mod n"
  shows "j = k"
proof -
  have le: "a = b" if "a \<le> b" "b < n" "(h + a) mod n = (h + b) mod n" for a b
  proof -
    have "n dvd (h + b) - (h + a)" using that mod_eq_dvd_iff_nat [of "h + a" "h + b" n] by simp
    then have "n dvd b - a" by simp
    then show ?thesis using that(1,2) by (cases "b - a = 0") (auto dest: dvd_imp_le)
  qed
  show ?thesis using le [of j k] le [of k j] assms by (cases "j \<le> k") auto
qed

lemma slot_update:
  assumes "0 < co_buff_length co" and "j < co_buff_length co" and "k < co_buff_length co"
  shows "slot (co\<lparr>co_buff := (co_buff co)[(co_head co + j) mod co_buff_length co := c]\<rparr>) k =
    (if k = j then c else slot co k)"
  using ring_inj [OF assms(2,3), of "co_head co"] assms
  by (auto simp: slot_def nth_list_update)

section \<open>Writing out the next chunk\<close>

lemma pend_next:
  assumes "co_ok co"
  shows "pend co (co_next_out co) = (if ch_id (co_buff co ! co_head co) \<ge> 0
      then Some (ch_data (co_buff co ! co_head co)) else None)"
    and "ch_id (co_buff co ! co_head co) \<ge> 0 \<Longrightarrow> ch_id (co_buff co ! co_head co) = co_next_out co"
proof -
  have s: "slot co 0 = co_buff co ! co_head co" using assms by (simp add: slot_head co_ok_def)
  have L: "0 < co_buff_length co" "0 \<le> co_next_out co" using assms by (simp_all add: co_ok_def)
  have "\<forall>j < co_buff_length co. ch_id (slot co j) = co_next_out co + int j \<or> ch_id (slot co j) = -1"
    using assms by (simp add: co_ok_def)
  with L(1) have "ch_id (slot co 0) = co_next_out co + int 0 \<or> ch_id (slot co 0) = -1" by blast
  with L show "pend co (co_next_out co) = (if ch_id (co_buff co ! co_head co) \<ge> 0
      then Some (ch_data (co_buff co ! co_head co)) else None)"
    and "ch_id (co_buff co ! co_head co) \<ge> 0 \<Longrightarrow> ch_id (co_buff co ! co_head co) = co_next_out co"
    by (auto simp: pend_def Let_def s)
qed

text \<open>Writing out one position turns the ring by one; its slot becomes the last one, and is free.\<close>

lemma send_next_slots:
  assumes ok: "co_ok co" and r: "output_send_next co = (r, co')"
  shows "co_head co' = (co_head co + 1) mod co_buff_length co" and "co_next_out co' = co_next_out co + 1"
    and "co_buff_length co' = co_buff_length co" and "co_reorder co' = co_reorder co"
    and "j + 1 < co_buff_length co \<Longrightarrow> slot co' j = slot co (j + 1)"
    and "j + 1 = co_buff_length co \<Longrightarrow> ch_id (slot co' j) = -1"
proof -
  let ?L = "co_buff_length co" and ?c = "co_buff co ! co_head co"
  have L: "0 < ?L" "co_head co < ?L" and n: "0 \<le> co_next_out co" using ok by (simp_all add: co_ok_def)
  define b where "b = (if ch_id ?c \<ge> 0 then (co_buff co)[co_head co := chunk_deinit ?c] else co_buff co)"
  have co': "co_buff co' = b" "co_head co' = (co_head co + 1) mod ?L" "co_next_out co' = co_next_out co + 1" "co_reorder co' = co_reorder co"
    using r by (auto simp: output_send_next_def Let_def b_def split: if_splits)
  have len: "length b = ?L" by (simp add: b_def)
  show "co_head co' = (co_head co + 1) mod ?L" "co_next_out co' = co_next_out co + 1" "co_buff_length co' = ?L" "co_reorder co' = co_reorder co"
    by (simp_all add: co' len)
  have sl: "slot co' j = b ! ((co_head co + 1 + j) mod ?L)" for j by (simp add: slot_def co' len mod_simps)
  show "slot co' j = slot co (j + 1)" if "j + 1 < ?L"
  proof -
    have "(co_head co + (j + 1)) mod ?L \<noteq> (co_head co + 0) mod ?L"
      using ring_inj [of "j + 1" ?L 0 "co_head co"] that L by auto
    then have "b ! ((co_head co + 1 + j) mod ?L) = slot co (j + 1)" using L by (simp add: b_def slot_def add.assoc)
    then show ?thesis by (simp only: sl)
  qed
  show "ch_id (slot co' j) = -1" if "j + 1 = ?L"
  proof -
    have e: "co_head co + 1 + j = co_head co + ?L" using that by simp
    have "slot co' j = b ! co_head co" unfolding sl e using L(2) by simp
    moreover have "ch_id (slot co 0) = co_next_out co \<or> ch_id (slot co 0) = -1" using ok L(1) by (auto simp: co_ok_def)
    ultimately show ?thesis using L n by (auto simp: b_def chunk_deinit_def slot_head)
  qed
qed

lemma send_next_spec:
  assumes ok: "co_ok co" and r: "output_send_next co = (r, co')"
  shows "co_ok co'" and "co_next_out co' = co_next_out co + 1" and "co_buff_length co' = co_buff_length co"
    and "pend co' = (pend co)(co_next_out co := None)" and "out_log co' = out_log co @ emit (pend co) [co_next_out co]"
    and "r = int (length (emit (pend co) [co_next_out co]))" and "co_reorder co' = co_reorder co"
    and "co_head co' = (co_head co + 1) mod co_buff_length co"
proof -
  let ?L = "co_buff_length co"
  note sl = send_next_slots [OF ok r]
  have L: "0 < ?L" and n: "0 \<le> co_next_out co" using ok by (simp_all add: co_ok_def)
  show "co_ok co'"
    unfolding co_ok_def sl(1-4)
  proof (intro conjI allI impI)
    fix j assume j: "j < ?L"
    then consider "j + 1 < ?L" | "j + 1 = ?L" by linarith
    then show "ch_id (slot co' j) = co_next_out co + 1 + int j \<or> ch_id (slot co' j) = -1"
      by cases (use ok sl(5,6) [of j] in \<open>auto simp: co_ok_def algebra_simps\<close>)
  qed (use L n in simp_all)
  show "pend co' = (pend co)(co_next_out co := None)"
  proof
    fix i
    consider "i \<le> co_next_out co \<or> co_next_out co + int ?L < i" | "i = co_next_out co + int ?L"
      | j where "j + 1 < ?L" "i = co_next_out co + 1 + int j"
    proof (cases "co_next_out co < i \<and> i < co_next_out co + int ?L")
      case True
      then show ?thesis using that(3) [of "nat (i - co_next_out co - 1)"] by simp
    qed (use that in linarith)
    then show "pend co' i = ((pend co)(co_next_out co := None)) i"
    proof cases
      case 2
      then have "nat (i - co_next_out co') = ?L - 1" using L sl(2) by simp
      then show ?thesis using 2 L n sl(2,3) sl(6) [of "?L - 1"] by (simp add: pend_def Let_def)
    next
      case (3 j)
      have "nat (i - co_next_out co) = j + 1" "nat (i - co_next_out co') = j" using 3(2) sl(2) by simp_all
      then show ?thesis using 3 sl(2,3,5) by (simp add: pend_def Let_def)
    qed (auto simp: pend_def Let_def sl)
  qed
  show "co_next_out co' = co_next_out co + 1" "co_buff_length co' = ?L" "co_reorder co' = co_reorder co"
    "co_head co' = (co_head co + 1) mod ?L"
    by (rule sl)+
  show "out_log co' = out_log co @ emit (pend co) [co_next_out co]" "r = int (length (emit (pend co) [co_next_out co]))"
    using pend_next [OF ok] r by (auto simp: out_log_def output_send_next_def Let_def split: if_splits)
qed

text \<open>Writing out \<open>k\<close> positions, whether or not their chunk is there.\<close>

definition from_id :: "int \<Rightarrow> (int \<Rightarrow> bytes option) \<Rightarrow> int \<Rightarrow> bytes option" where
  "from_id n P i = (if i < n then None else P i)"

lemma pend_below: "i < co_next_out co \<Longrightarrow> pend co i = None"
  by (simp add: pend_def Let_def)

lemma pend_above: "co_next_out co + int (co_buff_length co) \<le> i \<Longrightarrow> pend co i = None"
  by (simp add: pend_def Let_def)

lemma from_id_pend: "from_id (co_next_out co) (pend co) = pend co"
  by (auto simp: from_id_def pend_below)

text \<open>One position, then the next \<open>k\<close>.\<close>

lemma emit_step: "emit P [n..n + int (Suc k) - 1] = emit P [n] @ emit (P(n := None)) [n + 1..n + 1 + int k - 1]"
proof -
  have "emit (P(n := None)) [n + 1..n + 1 + int k - 1] = emit P [n + 1..n + 1 + int k - 1]" by (rule emit_cong) auto
  moreover have "[n..n + int (Suc k) - 1] = n # [n + 1..n + 1 + int k - 1]" by (subst upto_first) simp_all
  ultimately show ?thesis by simp
qed

lemma from_id_step: "from_id (n + 1 + int k) (P(n := None)) = from_id (n + int (Suc k)) P"
  by (auto simp: from_id_def fun_eq_iff)

lemma flush_spec:
  assumes "co_ok co" and "output_buff_flush co k = (r, co')"
  shows "co_ok co' \<and> co_next_out co' = co_next_out co + int k \<and> co_buff_length co' = co_buff_length co \<and>
    pend co' = from_id (co_next_out co + int k) (pend co) \<and>
    out_log co' = out_log co @ emit (pend co) [co_next_out co..co_next_out co + int k - 1] \<and>
    r = int (length (emit (pend co) [co_next_out co..co_next_out co + int k - 1])) \<and>
    co_reorder co' = co_reorder co \<and> co_head co' = (co_head co + k) mod co_buff_length co"
  using assms
proof (induction k arbitrary: co r)
  case 0
  then show ?case by (simp add: from_id_pend) (simp add: co_ok_def)
next
  case (Suc k)
  obtain r1 co1 where s1: "output_send_next co = (r1, co1)" by fastforce
  obtain r2 where s2: "output_buff_flush co1 k = (r2, co')" and r: "r = r1 + r2"
    using Suc.prems(2) s1 by (auto split: prod.splits)
  note s = send_next_spec [OF Suc.prems(1) s1]
  have IH: "co_ok co' \<and> co_next_out co' = co_next_out co1 + int k \<and> co_buff_length co' = co_buff_length co1 \<and>
    pend co' = from_id (co_next_out co1 + int k) (pend co1) \<and>
    out_log co' = out_log co1 @ emit (pend co1) [co_next_out co1..co_next_out co1 + int k - 1] \<and>
    r2 = int (length (emit (pend co1) [co_next_out co1..co_next_out co1 + int k - 1])) \<and>
    co_reorder co' = co_reorder co1 \<and> co_head co' = (co_head co1 + k) mod co_buff_length co1"
    by (rule Suc.IH [OF s(1) s2])
  show ?case
    unfolding r emit_step [of "pend co"] from_id_step [of "co_next_out co" k, symmetric]
    using IH s by (simp add: mod_simps del: upto.simps)
qed

lemma drain_stops:
  assumes "co_ok co" and "pend co (co_next_out co) = None"
  shows "output_drain co res = Some (res, co)"
proof -
  have "\<not> ch_id (co_buff co ! co_head co) \<ge> 0" using pend_next(1) [OF assms(1)] assms(2) by auto
  then show ?thesis by (subst output_drain.simps) simp
qed

text \<open>The last loop ends, and stops at the first identifier that is not there.\<close>

lemma drain_spec:
  assumes "co_ok co" and "\<forall>i \<ge> co_next_out co + int n. pend co i = None"
  obtains m co' where "output_drain co res = Some (res + int m, co')" and "co_ok co'"
    and "co_next_out co' = co_next_out co + int m" and "co_buff_length co' = co_buff_length co"
    and "pend co' = from_id (co_next_out co + int m) (pend co)"
    and "out_log co' = out_log co @ emit (pend co) [co_next_out co..co_next_out co + int m - 1]"
    and "\<forall>i. co_next_out co \<le> i \<and> i < co_next_out co + int m \<longrightarrow> pend co i \<noteq> None"
    and "pend co (co_next_out co + int m) = None" and "co_reorder co' = co_reorder co"
  using assms
proof (induction n arbitrary: co res thesis)
  case 0
  then have none: "pend co (co_next_out co) = None" by simp
  then have "output_drain co res = Some (res, co)" by (rule drain_stops [OF 0(2)])
  then show ?case using 0(2) none by (intro 0(1) [of 0 co]) (auto simp: from_id_pend)
next
  case (Suc n)
  show ?case
  proof (cases "pend co (co_next_out co)")
    case None
    then have "output_drain co res = Some (res, co)" by (rule drain_stops [OF Suc.prems(2)])
    then show ?thesis using Suc.prems(2) None by (intro Suc.prems(1) [of 0 co]) (auto simp: from_id_pend)
  next
    case (Some d)
    then have h: "ch_id (co_buff co ! co_head co) \<ge> 0"
      using pend_next(1) [OF Suc.prems(2)] by (auto split: if_splits)
    obtain r1 co1 where s1: "output_send_next co = (r1, co1)" by fastforce
    note s = send_next_spec [OF Suc.prems(2) s1]
    have r1: "r1 = 1" using s(6) Some by simp
    have "\<forall>i \<ge> co_next_out co1 + int n. pend co1 i = None"
      using Suc.prems(3) by (auto simp: s(2,4))
    then obtain m co' where m: "output_drain co1 (res + r1) = Some (res + r1 + int m, co')" "co_ok co'"
      "co_next_out co' = co_next_out co1 + int m" "co_buff_length co' = co_buff_length co1"
      "pend co' = from_id (co_next_out co1 + int m) (pend co1)"
      "out_log co' = out_log co1 @ emit (pend co1) [co_next_out co1..co_next_out co1 + int m - 1]"
      "\<forall>i. co_next_out co1 \<le> i \<and> i < co_next_out co1 + int m \<longrightarrow> pend co1 i \<noteq> None"
      "pend co1 (co_next_out co1 + int m) = None" "co_reorder co' = co_reorder co1"
      using Suc.IH [OF _ s(1)] by metis
    show ?thesis
    proof (rule Suc.prems(1) [of "Suc m" co'])
      show "output_drain co res = Some (res + int (Suc m), co')"
        using h s1 m(1) r1 by (subst output_drain.simps) (simp add: add.assoc)
      show "co_ok co'" by (rule m(2))
      show "co_next_out co' = co_next_out co + int (Suc m)" "co_buff_length co' = co_buff_length co"
        "co_reorder co' = co_reorder co"
        using m(3,4,9) s(2,3,7) by simp_all
      show "pend co' = from_id (co_next_out co + int (Suc m)) (pend co)"
        unfolding m(5) s(2,4) by (rule from_id_step)
      show "out_log co' = out_log co @ emit (pend co) [co_next_out co..co_next_out co + int (Suc m) - 1]"
        unfolding emit_step m(6) s(2,4,5) by (simp only: append_assoc)
      show "\<forall>i. co_next_out co \<le> i \<and> i < co_next_out co + int (Suc m) \<longrightarrow> pend co i \<noteq> None"
      proof (intro allI impI)
        fix i assume i: "co_next_out co \<le> i \<and> i < co_next_out co + int (Suc m)"
        show "pend co i \<noteq> None"
        proof (cases "i = co_next_out co")
          case False
          then have "pend co1 i \<noteq> None" using m(7) i s(2) by auto
          then show ?thesis using False by (simp add: s(4))
        qed (simp add: Some)
      qed
      show "pend co (co_next_out co + int (Suc m)) = None"
        using m(8) by (auto simp: s(2,4) add.assoc split: if_splits)
    qed
  qed
qed

section \<open>Delivering a chunk\<close>

text \<open>The window with a chunk put in, unless one of its identifier waits there already.\<close>

definition put_chunk :: "(int \<Rightarrow> bytes option) \<Rightarrow> chunk \<Rightarrow> int \<Rightarrow> bytes option" where
  "put_chunk P c = (if P (ch_id c) = None then P(ch_id c \<mapsto> ch_data c) else P)"

lemma put_chunk_same [simp]: "put_chunk P c (ch_id c) \<noteq> None"
  and put_chunk_other: "i \<noteq> ch_id c \<Longrightarrow> put_chunk P c i = P i"
  by (simp_all add: put_chunk_def)

lemma place_spec:
  assumes ok: "co_ok co" and j: "j < co_buff_length co" and id: "ch_id c = co_next_out co + int j"
  defines "co' \<equiv> output_place co c ((co_head co + j) mod co_buff_length co)"
  shows "co_ok co' \<and> co_next_out co' = co_next_out co \<and> co_buff_length co' = co_buff_length co \<and>
    co_head co' = co_head co \<and> out_log co' = out_log co \<and> co_reorder co' = co_reorder co \<and>
    pend co' = put_chunk (pend co) c"
proof (cases "ch_id (slot co j) = ch_id c")
  case True
  then have "co' = co" by (simp add: co'_def output_place_def slot_def)
  moreover have "pend co (ch_id c) \<noteq> None" using True j id by (simp add: pend_def Let_def)
  ultimately show ?thesis using ok by (auto simp: put_chunk_def)
next
  case False
  let ?L = "co_buff_length co"
  have L: "0 < ?L" using ok by (simp add: co_ok_def)
  have old: "ch_id (slot co k) = co_next_out co + int k \<or> ch_id (slot co k) = -1" if "k < ?L" for k
    using ok that by (simp add: co_ok_def)
  define new where "new = chunk_clone (slot co j) c"
  have co': "co' = co\<lparr>co_buff := (co_buff co)[(co_head co + j) mod ?L := new]\<rparr>"
    using False by (simp add: co'_def output_place_def new_def slot_def)
  have new: "ch_id new = ch_id c" "ch_data new = ch_data c" by (simp_all add: new_def chunk_clone_def)
  have sl: "slot co' k = (if k = j then new else slot co k)" if "k < ?L" for k
    unfolding co' by (rule slot_update [OF L j that])
  have f: "co_next_out co' = co_next_out co" "co_buff_length co' = ?L" "co_head co' = co_head co"
    "co_written co' = co_written co" "co_reorder co' = co_reorder co"
    by (simp_all add: co')
  have "co_ok co'"
    unfolding co_ok_def f
  proof (intro conjI allI impI)
    fix k assume "k < ?L"
    then show "ch_id (slot co' k) = co_next_out co + int k \<or> ch_id (slot co' k) = -1"
      using old [of k] sl [of k] new(1) id by auto
  qed (use ok in \<open>simp_all add: co_ok_def\<close>)
  moreover have "pend co' i = put_chunk (pend co) c i" for i
  proof (cases "0 \<le> i - co_next_out co \<and> i - co_next_out co < int ?L")
    case True
    define k where "k = nat (i - co_next_out co)"
    have k: "k < ?L" "i = co_next_out co + int k" using True by (auto simp: k_def)
    have p: "pend co' i = (if ch_id (slot co' k) = i then Some (ch_data (slot co' k)) else None)"
      "pend co i = (if ch_id (slot co k) = i then Some (ch_data (slot co k)) else None)"
      using True by (simp_all add: pend_def Let_def f k_def)
    have "k = j \<longleftrightarrow> i = ch_id c" using k id by simp
    then show ?thesis
      unfolding put_chunk_def using p sl [OF k(1)] new False by auto
  next
    case False
    then have "pend co' i = None" "pend co i = None" by (auto simp: pend_def Let_def f)
    moreover have "i \<noteq> ch_id c" using False id j by auto
    ultimately show ?thesis by (simp add: put_chunk_other)
  qed
  ultimately show ?thesis using f by (simp add: out_log_def fun_eq_iff)
qed

lemma emit_append:
  "a \<le> b \<Longrightarrow> b \<le> c + 1 \<Longrightarrow> emit P [a..b - 1] @ emit P [b..c] = emit P [a..c]"
proof -
  assume "a \<le> b" "b \<le> c + 1"
  then consider "b \<le> c" | "b = c + 1" by linarith
  then have "[a..c] = [a..b - 1] @ [b..c]"
    using \<open>a \<le> b\<close> upto_split1 [of a b c] by cases auto
  then show ?thesis by simp
qed

text \<open>A call first makes room: the window starts so that the new chunk fits, at the offset \<open>j\<close>, and the slot the code computes is
  that of the offset.\<close>

lemma deliver_offset:
  assumes ok: "co_ok co" and id: "co_next_out co \<le> ch_id c"
  defines "b \<equiv> max (co_next_out co) (ch_id c - int (co_buff_length co) + 1)"
    and "k \<equiv> nat (ch_id c - co_next_out co - int (co_buff_length co) + 1)"
  shows "b = co_next_out co + int k" and "nat (ch_id c - b) < co_buff_length co" and "ch_id c = b + int (nat (ch_id c - b))"
proof -
  have L: "1 \<le> int (co_buff_length co)" using ok by (simp add: co_ok_def Suc_le_eq)
  then have "b \<le> ch_id c" "ch_id c - b < int (co_buff_length co)" using id unfolding b_def by linarith+
  then show "nat (ch_id c - b) < co_buff_length co" "ch_id c = b + int (nat (ch_id c - b))" by simp_all
  show "b = co_next_out co + int k" using id by (auto simp: b_def k_def)
qed

lemma deliver_room:
  assumes ok: "co_ok co" and id: "co_next_out co \<le> ch_id c"
  defines "b \<equiv> max (co_next_out co) (ch_id c - int (co_buff_length co) + 1)"
    and "k \<equiv> nat (ch_id c - co_next_out co - int (co_buff_length co) + 1)"
    and "new_pos \<equiv> nat ((int (co_head co) + ch_id c - co_next_out co) mod int (co_buff_length co))"
  assumes fl: "output_buff_flush co k = (r, co1)"
  shows "new_pos = (co_head co1 + nat (ch_id c - b)) mod co_buff_length co"
    and "(if ch_id c \<ge> co_next_out co + int (co_buff_length co)
       then (case output_buff_flush co k of (r, o2) \<Rightarrow> (r, o2\<lparr>co_head := (new_pos + 1) mod co_buff_length co\<rparr>))
       else (0, co)) = (r, co1)"
proof -
  let ?L = "co_buff_length co" and ?n = "co_next_out co"
  define j where "j = nat (ch_id c - b)"
  note j = deliver_offset [OF ok id, folded b_def k_def, folded j_def]
  note f = flush_spec [OF ok fl]
  have "int (co_head co) + ch_id c - ?n = int (co_head co + k + j)" using j by simp
  then have "new_pos = (co_head co + k + j) mod ?L"
    unfolding new_pos_def by (simp only: zmod_int [symmetric] nat_int)
  then have np: "new_pos = (co_head co1 + j) mod ?L" using f by (simp add: mod_simps)
  then show "new_pos = (co_head co1 + nat (ch_id c - b)) mod ?L" by (simp add: j_def)
  show "(if ch_id c \<ge> ?n + int ?L then (case output_buff_flush co k of (r, o2) \<Rightarrow> (r, o2\<lparr>co_head := (new_pos + 1) mod ?L\<rparr>)) else (0, co)) = (r, co1)"
  proof (cases "ch_id c \<ge> ?n + int ?L")
    case True
    then have "int j = int ?L - 1" using ok j(2,3) unfolding b_def co_ok_def by linarith
    then have "co_head co1 + j + 1 = co_head co1 + ?L" by linarith
    moreover have "(new_pos + 1) mod ?L = (co_head co1 + j + 1) mod ?L" unfolding np by (simp add: mod_simps)
    ultimately have "(new_pos + 1) mod ?L = (co_head co1 + ?L) mod ?L" by (simp only:)
    also have "\<dots> = co_head co1" using f by (simp add: co_ok_def)
    finally have "co1\<lparr>co_head := (new_pos + 1) mod ?L\<rparr> = co1" by simp
    then show ?thesis using True fl by simp
  next
    case False
    then have "k = 0" by (auto simp: k_def)
    then show ?thesis using False fl by simp
  qed
qed

text \<open>The call as a whole: flush, place, drain.\<close>

lemma deliver_steps:
  assumes ok: "co_ok co" and re: "co_reorder co" and id: "co_next_out co \<le> ch_id c"
    and fl: "output_buff_flush co (nat (ch_id c - co_next_out co - int (co_buff_length co) + 1)) = (r, co1)"
  shows "output_deliver (Some co) (Some c) =
    (case output_drain (output_place co1 c ((co_head co1 + nat (ch_id c - max (co_next_out co) (ch_id c - int (co_buff_length co) + 1))) mod co_buff_length co)) r of
       None \<Rightarrow> None
     | Some (r, co') \<Rightarrow> Some (Inr (r, Some co')))"
proof -
  have L: "0 < co_buff_length co" "0 \<le> co_next_out co" using ok by (simp_all add: co_ok_def)
  note room = deliver_room [OF ok id fl]
  show ?thesis
    unfolding room(1) [symmetric] using re id L room(2) by (simp add: output_deliver_def Let_def split del: if_split)
qed

text \<open>What a call does to the window: everything before the new end is written if it is there;
  the end is at least such that the new chunk fits, and then the first identifier that is missing.\<close>

lemma deliver_spec:
  assumes ok: "co_ok co" and re: "co_reorder co" and id: "co_next_out co \<le> ch_id c"
  defines "P \<equiv> put_chunk (pend co) c"
    and "b \<equiv> max (co_next_out co) (ch_id c - int (co_buff_length co) + 1)"
  obtains e co' where
    "output_deliver (Some co) (Some c) = Some (Inr (int (length (emit P [co_next_out co..e - 1])), Some co'))"
    and "co_ok co'" and "co_next_out co' = e" and "co_buff_length co' = co_buff_length co" and "co_reorder co'"
    and "pend co' = from_id e P" and "out_log co' = out_log co @ emit P [co_next_out co..e - 1]"
    and "b \<le> e" and "\<forall>i. b \<le> i \<and> i < e \<longrightarrow> P i \<noteq> None" and "P e = None"
proof -
  let ?L = "co_buff_length co" and ?n = "co_next_out co"
  define k where "k = nat (ch_id c - ?n - int ?L + 1)"
  define j where "j = nat (ch_id c - b)"
  obtain r co1 where fl: "output_buff_flush co k = (r, co1)" by fastforce
  note f = flush_spec [OF ok fl]
  note j = deliver_offset [OF ok id, folded b_def k_def, folded j_def]
  note run = deliver_steps [OF ok re id fl [unfolded k_def], folded b_def, folded j_def]
  have nk: "co_next_out co1 = b" "co_ok co1" "co_buff_length co1 = ?L" "co_reorder co1" "pend co1 = from_id b (pend co)"
    and lr: "out_log co1 = out_log co @ emit (pend co) [?n..b - 1]" "r = int (length (emit (pend co) [?n..b - 1]))"
    using f j(1) re by simp_all
  define co2 where "co2 = output_place co1 c ((co_head co1 + j) mod ?L)"
  have pl: "co_ok co2" "co_next_out co2 = b" "co_buff_length co2 = ?L" "co_reorder co2" "out_log co2 = out_log co1"
    "pend co2 = put_chunk (from_id b (pend co)) c"
    using place_spec [OF nk(2), of j c] j nk by (simp_all add: co2_def)
  have p2: "pend co2 i = (if i < b then None else P i)" for i
    using j(3) by (auto simp: pl(6) put_chunk_def from_id_def P_def)
  have above: "\<forall>i \<ge> co_next_out co2 + int ?L. pend co2 i = None"
    using pend_above [of co2] pl(3) by simp
  obtain m co3 where d0: "output_drain co2 r = Some (r + int m, co3)" "co_ok co3"
    "co_next_out co3 = co_next_out co2 + int m" "co_buff_length co3 = co_buff_length co2"
    "pend co3 = from_id (co_next_out co2 + int m) (pend co2)"
    "out_log co3 = out_log co2 @ emit (pend co2) [co_next_out co2..co_next_out co2 + int m - 1]"
    "\<forall>i. co_next_out co2 \<le> i \<and> i < co_next_out co2 + int m \<longrightarrow> pend co2 i \<noteq> None"
    "pend co2 (co_next_out co2 + int m) = None" "co_reorder co3 = co_reorder co2"
    using drain_spec [OF pl(1) above] by blast
  note d = d0 [unfolded pl(2,3)]
  define e where "e = b + int m"
  have e1: "emit (pend co) [?n..b - 1] = emit P [?n..b - 1]"
    using j(3) by (intro emit_cong) (auto simp: P_def put_chunk_other)
  have e2: "emit (pend co2) [b..e - 1] = emit P [b..e - 1]"
    by (rule emit_cong) (simp add: p2)
  have eb: "emit P [?n..e - 1] = emit P [?n..b - 1] @ emit P [b..e - 1]"
    by (rule emit_append [symmetric]) (auto simp: b_def e_def)
  have all: "emit P [b..e - 1] = map (\<lambda>i. (i, the (P i))) [b..e - 1]"
    by (rule emit_all) (use d(7) in \<open>auto simp: p2 e_def\<close>)
  have "length (emit P [b..e - 1]) = m" unfolding all by (simp add: e_def)
  then have res: "r + int m = int (length (emit P [?n..e - 1]))" by (simp add: eb lr(2) e1)
  show ?thesis
  proof (rule that [of e co3])
    show "output_deliver (Some co) (Some c) = Some (Inr (int (length (emit P [?n..e - 1])), Some co3))"
      unfolding run co2_def [symmetric] d(1) res by simp
    show "pend co3 = from_id e P" unfolding d(5) by (auto simp: from_id_def p2 e_def fun_eq_iff)
    show "\<forall>i. b \<le> i \<and> i < e \<longrightarrow> P i \<noteq> None" using d(7) by (auto simp: p2 e_def)
    show "P e = None" using d(8) p2 [of e] by (simp add: e_def)
    show "out_log co3 = out_log co @ emit P [?n..e - 1]"
      unfolding d(6) [folded e_def] pl(5) lr(1) e1 e2 eb by simp
  qed (use d pl(4) in \<open>simp_all add: e_def\<close>)
qed

section \<open>Sequences of chunks\<close>

text \<open>Delivering one chunk after the other; \<open>None\<close> when a call faults or does not return.\<close>

fun deliver_all :: "chunk_output \<Rightarrow> chunk list \<Rightarrow> chunk_output option" where
  "deliver_all co [] = Some co"
| "deliver_all co (c # cs) =
     (case output_deliver (Some co) (Some c) of
        Some (Inr (r, Some co')) \<Rightarrow> deliver_all co' cs
      | _ \<Rightarrow> None)"

text \<open>A buffer as \<open>output_create\<close> leaves it.\<close>

definition co_fresh :: "chunk_output \<Rightarrow> bool" where
  "co_fresh co \<longleftrightarrow> 0 < co_buff_length co \<and> co_head co < co_buff_length co \<and> co_next_out co = -1 \<and>
     (\<forall>c \<in> set (co_buff co). ch_id c = -1) \<and> co_written co = []"

lemma co_fresh_create:
  "output_create sz re ok raw = Some co \<Longrightarrow> co_buff_length co \<noteq> 0 \<Longrightarrow> co_fresh co"
  by (auto simp: output_create_def Let_def co_fresh_def split: if_splits)

lemma fresh_start:
  assumes "co_fresh co" and "0 \<le> n"
  defines "co' \<equiv> co\<lparr>co_next_out := n\<rparr>"
  shows "co_ok co'" and "pend co' = Map.empty" and "out_log co' = []"
proof -
  have s: "ch_id (slot co' j) = -1" if "j < co_buff_length co" for j
  proof -
    have "slot co' j \<in> set (co_buff co)" using assms(1) by (simp add: slot_def co'_def co_fresh_def)
    then show ?thesis using assms(1) by (simp add: co_fresh_def)
  qed
  show "co_ok co'" using assms(1,2) s by (simp add: co_ok_def co_fresh_def) (simp add: co'_def)
  show "pend co' = Map.empty"
  proof
    fix i
    show "pend co' i = None"
      using s [of "nat (i - n)"] assms(2) by (auto simp: pend_def Let_def co'_def)
  qed
  show "out_log co' = []" using assms(1) by (simp add: out_log_def co'_def co_fresh_def)
qed

lemma deliver_fresh:
  assumes "co_fresh co" and "co_reorder co" and "0 \<le> ch_id c"
  shows "output_deliver (Some co) (Some c) = output_deliver (Some (co\<lparr>co_next_out := ch_id c\<rparr>)) (Some c)"
  using assms by (simp add: output_deliver_def co_fresh_def)

lemma deliver_late:
  "co_reorder co \<Longrightarrow> ch_id c < co_next_out co \<Longrightarrow> output_deliver (Some co) (Some c) = Some (Inr (0, Some co))"
  by (simp add: output_deliver_def)

lemma emit_mem: "(i, d) \<in> set (emit P is) \<longleftrightarrow> i \<in> set is \<and> P i = Some d"
  by (induction "is") (auto split: option.splits)

lemma sorted_emit: "sorted_wrt (<) is \<Longrightarrow> sorted_wrt (<) (map fst (emit P is))"
proof (induction "is")
  case (Cons i "is")
  have "\<forall>x \<in> set (map fst (emit P is)). i < x" using Cons.prems by (auto simp: emit_mem)
  then show ?case using Cons by (cases "P i") auto
qed simp

lemma sorted_upto: "sorted_wrt (<) [a..b]"
  by (induction a b rule: upto.induct) (subst upto.simps, auto)

text \<open>In order: what has been written is increasing and below the next identifier, and everything
  written or waiting was delivered.\<close>

definition in_order :: "chunk_output \<Rightarrow> chunk list \<Rightarrow> bool" where
  "in_order co cs \<longleftrightarrow> sorted_wrt (<) (map fst (out_log co)) \<and> (\<forall>(i, d) \<in> set (out_log co). i < co_next_out co) \<and>
     (\<forall>i d. (i, d) \<in> set (out_log co) \<or> pend co i = Some d \<longrightarrow> (\<exists>c \<in> set cs. ch_id c = i \<and> ch_data c = d))"

lemma in_order_deliver:
  assumes "co_ok co" and "co_reorder co" and "in_order co cs"
  obtains r co' where "output_deliver (Some co) (Some c) = Some (Inr (r, Some co'))" and "co_ok co'"
    and "co_reorder co'" and "in_order co' (cs @ [c])"
proof (cases "co_next_out co \<le> ch_id c")
  case False
  then show ?thesis using that [of 0 co] deliver_late [of co c] assms by (fastforce simp: in_order_def)
next
  case True
  let ?P = "put_chunk (pend co) c"
  obtain e co' where d: "output_deliver (Some co) (Some c) =
      Some (Inr (int (length (emit ?P [co_next_out co..e - 1])), Some co'))"
    "co_ok co'" "co_next_out co' = e" "co_reorder co'" "pend co' = from_id e ?P"
    "out_log co' = out_log co @ emit ?P [co_next_out co..e - 1]"
    "max (co_next_out co) (ch_id c - int (co_buff_length co) + 1) \<le> e"
    using deliver_spec [OF assms(1,2) True] by metis
  have e: "co_next_out co \<le> e" using d(7) by simp
  have P: "\<exists>x \<in> set (cs @ [c]). ch_id x = i \<and> ch_data x = b" if "?P i = Some b" for i b
    using that assms(3) by (auto simp: put_chunk_def in_order_def split: if_splits)
  have "in_order co' (cs @ [c])"
    unfolding in_order_def
  proof (intro conjI allI impI)
    show "sorted_wrt (<) (map fst (out_log co'))"
      using assms(3) sorted_emit [OF sorted_upto]
      by (fastforce simp: d(6) in_order_def sorted_wrt_append emit_mem)
    show "\<forall>(i, b) \<in> set (out_log co'). i < co_next_out co'"
      using assms(3) e by (fastforce simp: d(3,6) in_order_def emit_mem)
    fix i b
    assume "(i, b) \<in> set (out_log co') \<or> pend co' i = Some b"
    then have "(i, b) \<in> set (out_log co) \<or> ?P i = Some b"
      by (auto simp: d(5,6) emit_mem from_id_def split: if_splits)
    then show "\<exists>x \<in> set (cs @ [c]). ch_id x = i \<and> ch_data x = b"
      using P assms(3) by (auto simp: in_order_def)
  qed
  then show ?thesis using that d(1,2,4) by blast
qed

lemma in_order_all:
  assumes "co_ok co" and "co_reorder co" and "in_order co pre"
  shows "\<exists>co'. deliver_all co cs = Some co' \<and> co_ok co' \<and> in_order co' (pre @ cs)"
  using assms
proof (induction cs arbitrary: co pre)
  case (Cons c cs)
  obtain r co1 where s: "output_deliver (Some co) (Some c) = Some (Inr (r, Some co1))" "co_ok co1"
    "co_reorder co1" "in_order co1 (pre @ [c])"
    using in_order_deliver [OF Cons.prems] by blast
  show ?case using Cons.IH [OF s(2-4)] s(1) by simp
qed auto

text \<open>Reordering within the window.  \<open>D\<close> collects the chunks by identifier; nothing between the
  first identifier and the next one to write is missing, and all of that has been written.\<close>

definition tracks :: "chunk_output \<Rightarrow> int \<Rightarrow> (int \<Rightarrow> bytes option) \<Rightarrow> bool" where
  "tracks co n D \<longleftrightarrow> co_ok co \<and> co_reorder co \<and> n \<le> co_next_out co \<and>
     (\<forall>i. n \<le> i \<and> i < co_next_out co \<longrightarrow> D i \<noteq> None) \<and> D (co_next_out co) = None \<and>
     out_log co = emit D [n..co_next_out co - 1] \<and> pend co = from_id (co_next_out co) D"

lemma tracks_deliver_from:
  assumes ok: "co_ok co" "co_reorder co" "n \<le> co_next_out co"
    and full: "\<forall>i. n \<le> i \<and> i < co_next_out co \<longrightarrow> D i \<noteq> None"
    and log: "out_log co = emit D [n..co_next_out co - 1]" and pd: "pend co = from_id (co_next_out co) D"
    and id: "co_next_out co \<le> ch_id c" "ch_id c < n + int (co_buff_length co)"
  obtains r co' where "output_deliver (Some co) (Some c) = Some (Inr (r, Some co'))"
    and "tracks co' n (put_chunk D c)" and "co_buff_length co' = co_buff_length co"
proof -
  let ?P = "put_chunk (pend co) c" and ?n = "co_next_out co"
  have b: "max ?n (ch_id c - int (co_buff_length co) + 1) = ?n" using ok(3) id(2) by simp
  obtain e co' where d: "output_deliver (Some co) (Some c) =
      Some (Inr (int (length (emit ?P [?n..e - 1])), Some co'))"
    "co_ok co'" "co_next_out co' = e" "co_buff_length co' = co_buff_length co" "co_reorder co'" "pend co' = from_id e ?P"
    "out_log co' = out_log co @ emit ?P [?n..e - 1]" "?n \<le> e" "\<forall>i. ?n \<le> i \<and> i < e \<longrightarrow> ?P i \<noteq> None" "?P e = None"
    using deliver_spec [OF ok(1,2) id(1)] unfolding b by blast
  let ?D = "put_chunk D c"
  have P: "?P i = ?D i" if "?n \<le> i" for i
    using that id(1) by (auto simp: put_chunk_def pd from_id_def)
  have low: "?D i = D i" if "i < ?n" for i using that id(1) by (intro put_chunk_other) auto
  have l1: "emit D [n..?n - 1] = emit ?D [n..?n - 1]" by (rule emit_cong) (simp add: low)
  have l2: "emit ?P [?n..e - 1] = emit ?D [?n..e - 1]" by (rule emit_cong) (simp add: P)
  have "tracks co' n ?D"
    unfolding tracks_def d(3)
  proof (intro conjI)
    show "out_log co' = emit ?D [n..e - 1]"
      unfolding d(7) log l1 l2 using ok(3) d(8) by (intro emit_append) auto
    show "\<forall>i. n \<le> i \<and> i < e \<longrightarrow> ?D i \<noteq> None"
    proof (intro allI impI)
      fix i assume i: "n \<le> i \<and> i < e"
      show "?D i \<noteq> None"
      proof (cases "i < ?n")
        case True
        then show ?thesis unfolding low [OF True] using full i by blast
      next
        case False
        then have "?P i \<noteq> None" using d(9) i by (meson not_le)
        then show ?thesis using P [of i] False by simp
      qed
    qed
    show "?D e = None" using d(8,10) P by simp
    show "pend co' = from_id e ?D" unfolding d(6) using d(8) P by (auto simp: from_id_def fun_eq_iff)
  qed (use d ok(3) in auto)
  then show ?thesis using that d(1,4) by blast
qed

lemma tracks_deliver:
  assumes t: "tracks co n D" and id: "n \<le> ch_id c" "ch_id c < n + int (co_buff_length co)"
  obtains r co' where "output_deliver (Some co) (Some c) = Some (Inr (r, Some co'))"
    and "tracks co' n (put_chunk D c)" and "co_buff_length co' = co_buff_length co"
proof (cases "co_next_out co \<le> ch_id c")
  case True
  show ?thesis
    by (rule tracks_deliver_from [of co n D c]) (use t True id that in \<open>auto simp: tracks_def\<close>)
next
  case False
  then have "D (ch_id c) \<noteq> None" using t id(1) by (simp add: tracks_def)
  then have "put_chunk D c = D" by (auto simp: put_chunk_def)
  then show ?thesis using that [of 0 co] t deliver_late [of co c] False by (simp add: tracks_def)
qed

lemma tracks_all:
  assumes "tracks co n D" and "\<forall>c \<in> set cs. n \<le> ch_id c \<and> ch_id c < n + int (co_buff_length co)"
  shows "\<exists>co'. deliver_all co cs = Some co' \<and> tracks co' n (foldl put_chunk D cs)"
  using assms
proof (induction cs arbitrary: co D)
  case (Cons c cs)
  obtain r co1 where s: "output_deliver (Some co) (Some c) = Some (Inr (r, Some co1))"
    "tracks co1 n (put_chunk D c)" "co_buff_length co1 = co_buff_length co"
    using tracks_deliver [OF Cons.prems(1)] Cons.prems(2) by (metis list.set_intros(1))
  show ?case using Cons.IH [OF s(2)] Cons.prems(2) s(1,3) by simp
qed simp

lemma foldl_put_chunk:
  assumes "distinct (map ch_id cs)" and "\<forall>c \<in> set cs. D (ch_id c) = None"
  shows "foldl put_chunk D cs = D ++ map_of (map (\<lambda>c. (ch_id c, ch_data c)) cs)"
  using assms
proof (induction cs arbitrary: D)
  case (Cons c cs)
  have p: "put_chunk D c = D(ch_id c \<mapsto> ch_data c)" using Cons.prems(2) by (simp add: put_chunk_def)
  have free: "map_of (map (\<lambda>c. (ch_id c, ch_data c)) cs) (ch_id c) = None"
    using Cons.prems(1) by (auto simp: map_of_eq_None_iff o_def)
  have "\<forall>x \<in> set cs. put_chunk D c (ch_id x) = None"
    using Cons.prems by (auto simp: p image_iff)
  then have IH: "foldl put_chunk (put_chunk D c) cs = put_chunk D c ++ map_of (map (\<lambda>c. (ch_id c, ch_data c)) cs)"
    using Cons.prems(1) by (intro Cons.IH) simp_all
  have "foldl put_chunk D (c # cs) = D(ch_id c \<mapsto> ch_data c) ++ map_of (map (\<lambda>c. (ch_id c, ch_data c)) cs)"
    using IH by (simp add: p)
  also have "\<dots> = D ++ map_of (map (\<lambda>c. (ch_id c, ch_data c)) (c # cs))"
    using free by (auto simp: map_add_def fun_eq_iff split: option.splits)
  finally show ?case .
qed simp

text \<open>A fresh buffer behaves as one that waits for the first chunk delivered.\<close>

lemma deliver_all_fresh:
  assumes "co_fresh co" and "co_reorder co" and "0 \<le> ch_id c"
  shows "deliver_all co (c # cs) = deliver_all (co\<lparr>co_next_out := ch_id c\<rparr>) (c # cs)"
  by (simp add: deliver_fresh [OF assms])

lemma fresh_in_order:
  assumes "co_fresh co" and "0 \<le> n"
  shows "in_order (co\<lparr>co_next_out := n\<rparr>) []"
  using fresh_start [OF assms] by (simp add: in_order_def)

lemma fresh_tracks:
  assumes "co_fresh co" and "co_reorder co" and "0 \<le> n"
  shows "tracks (co\<lparr>co_next_out := n\<rparr>) n Map.empty"
proof -
  note f = fresh_start [OF assms(1,3)]
  show ?thesis using f assms(2) by (simp add: tracks_def from_id_def fun_eq_iff)
qed

section \<open>Properties\<close>



text \<open>C27: Reordering within the window is complete: if the first chunk delivered has the lowest identifier, and the chunks
  delivered are, in any order, those of consecutive identifiers no more than the buffer holds, then at the end all of
  them have been written, in the order of their identifiers.\<close>

theorem output_complete_in_window:
  assumes "output_create sz re True raw = Some co" and "co_buff_length co \<noteq> 0" and "co_reorder co"
    and "0 \<le> ch_id c" and "k \<le> co_buff_length co"
    and "distinct (map ch_id (c # cs))" and "ch_id ` set (c # cs) = {ch_id c..<ch_id c + int k}"
  shows "\<exists>co'. deliver_all co (c # cs) = Some co' \<and> map fst (out_log co') = [ch_id c..ch_id c + int k - 1] \<and>
    set (out_log co') = (\<lambda>x. (ch_id x, ch_data x)) ` set (c # cs)"
proof -
  let ?n = "ch_id c" and ?all = "c # cs"
  let ?D = "map_of (map (\<lambda>x. (ch_id x, ch_data x)) ?all)"
  have fresh: "co_fresh co" by (rule co_fresh_create [OF assms(1,2)])
  have win: "\<forall>x \<in> set ?all. ?n \<le> ch_id x \<and> ch_id x < ?n + int (co_buff_length (co\<lparr>co_next_out := ?n\<rparr>))"
  proof
    fix x assume "x \<in> set ?all"
    then have "ch_id x \<in> {?n..<?n + int k}" unfolding assms(7) [symmetric] by (rule imageI)
    then show "?n \<le> ch_id x \<and> ch_id x < ?n + int (co_buff_length (co\<lparr>co_next_out := ?n\<rparr>))" using assms(5) by simp
  qed
  obtain co' where run: "deliver_all (co\<lparr>co_next_out := ?n\<rparr>) ?all = Some co'"
    and t: "tracks co' ?n (foldl put_chunk Map.empty ?all)"
    using tracks_all [OF fresh_tracks [OF fresh assms(3,4)] win] by blast
  have D: "foldl put_chunk Map.empty ?all = ?D" using foldl_put_chunk [OF assms(6), of Map.empty] by simp
  have dom: "?D i \<noteq> None \<longleftrightarrow> ?n \<le> i \<and> i < ?n + int k" for i
  proof -
    have "dom ?D = ch_id ` set ?all" by (simp add: dom_map_of_conv_image_fst image_image)
    then have "i \<in> dom ?D \<longleftrightarrow> i \<in> {?n..<?n + int k}" unfolding assms(7) by (simp only:)
    then show ?thesis by (simp only: domIff atLeastLessThan_iff)
  qed
  note t' = t [unfolded D tracks_def]
  have next_eq: "co_next_out co' = ?n + int k"
  proof -
    have lo: "?n \<le> co_next_out co'" and none: "?D (co_next_out co') = None"
      and full: "\<And>i. ?n \<le> i \<Longrightarrow> i < co_next_out co' \<Longrightarrow> ?D i \<noteq> None"
      using t' by blast+
    have "\<not> co_next_out co' < ?n + int k" using dom [of "co_next_out co'"] none lo by blast
    moreover have "\<not> ?n + int k < co_next_out co'"
    proof
      assume "?n + int k < co_next_out co'"
      then have "?D (?n + int k) \<noteq> None" by (intro full) simp_all
      then show False unfolding dom by simp
    qed
    ultimately show ?thesis by linarith
  qed
  have log: "out_log co' = map (\<lambda>i. (i, the (?D i))) [?n..?n + int k - 1]"
    using t' emit_all [of "[?n..?n + int k - 1]" ?D] dom next_eq by simp
  have mem: "(i, d) \<in> set (out_log co') \<longleftrightarrow> ?D i = Some d" for i d
    using dom [of i] by (auto simp: log)
  have "set (out_log co') = set (map (\<lambda>x. (ch_id x, ch_data x)) ?all)"
  proof -
    have "distinct (map fst (map (\<lambda>x. (ch_id x, ch_data x)) ?all))" using assms(6) by (simp add: o_def)
    then show ?thesis using mem map_of_eq_Some_iff by (metis (no_types, lifting) subrelI subset_antisym)
  qed
  then show ?thesis
    using run deliver_all_fresh [OF fresh assms(3,4), of cs] by (simp add: log o_def)
qed

theorem output_complete_in_window_witness:
  fixes ch :: "int \<Rightarrow> chunk"
  defines "ch \<equiv> \<lambda>i. \<lparr>ch_id = i, ch_data = [of_int i], ch_timestamp = 0, ch_attributes = []\<rparr>"
  shows "\<exists>co co'. output_create (Some 4) None True (ch 0) = Some co \<and>
    deliver_all co [ch 5, ch 8, ch 6, ch 7] = Some co' \<and> map fst (out_log co') = [5..8]"
proof -
  obtain co where co: "output_create (Some 4) None True (ch 0) = Some co" "co_buff_length co = 4" "co_reorder co"
    by (simp add: output_create_def)
  have id: "ch_id (ch 5) = 5" by (simp add: ch_def)
  have "ch_id ` set (ch 5 # [ch 8, ch 6, ch 7]) = {ch_id (ch 5)..<ch_id (ch 5) + int 4}"
    by (auto simp: ch_def)
  from output_complete_in_window [OF co(1) _ co(3) _ _ _ this] co id show ?thesis
    by (auto simp: ch_def)
qed

text \<open>One delivery, exactly: with the window starting at $n$, a chunk $i \geq n$ makes the window move to some $e$; everything
  waiting below $e$ is written in order (and nothing else), the result is the number of chunks written, everything
  waiting from $e$ on keeps waiting, the chunk $e$ is not there yet, and identifiers are given up unwritten only below
  $i - len + 1$, that is only when $i$ does not fit into the window.\<close>

lemma deliver_moves_window:
  assumes "co_ok co" and "co_reorder co" and "co_next_out co \<le> ch_id c"
  defines "P \<equiv> put_chunk (pend co) c" and "n \<equiv> co_next_out co"
  shows "\<exists>e co'. output_deliver (Some co) (Some c) = Some (Inr (int (length (emit P [n..e - 1])), Some co')) \<and>
    co_ok co' \<and> co_next_out co' = e \<and> out_log co' = out_log co @ emit P [n..e - 1] \<and>
    (\<forall>i. pend co' i = (if i < e then None else P i)) \<and> P e = None \<and>
    (\<forall>i. n \<le> i \<and> i < e \<and> P i = None \<longrightarrow> i \<le> ch_id c - int (co_buff_length co))"
proof (rule deliver_spec [OF assms(1-3)])
  fix e co'
  assume "output_deliver (Some co) (Some c) =
      Some (Inr (int (length (emit (put_chunk (pend co) c) [co_next_out co..e - 1])), Some co'))"
    and "co_ok co'" and "co_next_out co' = e" and "pend co' = from_id e (put_chunk (pend co) c)"
    and "out_log co' = out_log co @ emit (put_chunk (pend co) c) [co_next_out co..e - 1]"
    and full: "\<forall>i. max (co_next_out co) (ch_id c - int (co_buff_length co) + 1) \<le> i \<and> i < e \<longrightarrow> put_chunk (pend co) c i \<noteq> None"
    and "put_chunk (pend co) c e = None"
  moreover have "i \<le> ch_id c - int (co_buff_length co)" if "n \<le> i" "i < e" "P i = None" for i
  proof (rule ccontr)
    assume "\<not> i \<le> ch_id c - int (co_buff_length co)"
    then have "max (co_next_out co) (ch_id c - int (co_buff_length co) + 1) \<le> i" using that(1) by (simp add: n_def)
    then show False using full that by (auto simp: P_def)
  qed
  ultimately show ?thesis by (intro exI [of _ e] exI [of _ co']) (simp add: P_def n_def from_id_def)
qed

text \<open>The buffer length is cut to 16 bits after the check that it is positive: with \<open>outbuff_size=65536\<close> the buffer has no
  slot, and the first chunk delivered divides by zero.\<close>

lemma outbuff_size_truncated:
  assumes "0 \<le> ch_id c"
  shows "\<exists>co. output_create (Some 65536) None True raw = Some co \<and> output_deliver (Some co) (Some c) = Some (Inl Div_By_Zero)"
  using assms by (simp add: output_create_def output_deliver_def)

end
