(* ===== verification/Chunk_Data.thy ===== *)
theory Chunk_Data
  imports Prelude
begin

text \<open>
  \<open>src/chunk_attributes.c\<close>, \<open>src/measures.c\<close>, \<open>src/peer_metadata.c\<close>: what the engine attaches to
  the chunks and peers of GRAPES.

  Of a chunk the fields used here are kept; its attributes are a pointer: NULL, freed (the block
  was released but the pointer kept), or live with a hop count.  The chunk identifier sets of
  GRAPES are values of a parameter type, made by the parameter \<open>empty_bmap\<close>.  A NULL argument is \<open>None\<close>.
\<close>

section \<open>Chunk attributes\<close>

datatype attr_ptr = Attr_null | Attr_freed | Attr (hopcount: u16)

record attr_chunk =
  ac_attributes_size :: nat
  ac_attributes :: attr_ptr

definition chunk_attributes_init :: "attr_chunk option \<Rightarrow> int \<times> attr_chunk option" where
  "chunk_attributes_init c =
     (case c of
        Some x \<Rightarrow> (-1, Some (x\<lparr>ac_attributes_size := 2, ac_attributes := Attr 0\<rparr>))
      | None \<Rightarrow> (-1, None))"

definition chunk_attributes_get_hopcount :: "attr_chunk \<Rightarrow> u16 c_result" where
  "chunk_attributes_get_hopcount c =
     (case ac_attributes c of
        Attr h \<Rightarrow> Inr h | Attr_null \<Rightarrow> Inl Null_Deref | Attr_freed \<Rightarrow> Inl Use_After_Free)"

definition chunk_attributes_deinit :: "attr_chunk option \<Rightarrow> (int \<times> attr_chunk option) c_result" where
  "chunk_attributes_deinit c =
     (case c of
        None \<Rightarrow> Inr (-1, None)
      | Some x \<Rightarrow>
          (case ac_attributes x of
             Attr_null \<Rightarrow> Inr (-1, c)
           | Attr_freed \<Rightarrow> Inl Invalid_Free
           | Attr h \<Rightarrow> Inr (0, Some (x\<lparr>ac_attributes := Attr_freed, ac_attributes_size := 0\<rparr>))))"

definition chunk_attributes_update_upon_reception :: "attr_chunk option \<Rightarrow> (int \<times> attr_chunk option) c_result" where
  "chunk_attributes_update_upon_reception c =
     (case c of
        None \<Rightarrow> Inr (-1, None)
      | Some x \<Rightarrow>
          (case ac_attributes x of
             Attr_null \<Rightarrow> Inr (-1, c)
           | Attr_freed \<Rightarrow> Inl Use_After_Free
           | Attr h \<Rightarrow> Inr (-1, Some (x\<lparr>ac_attributes := Attr (h + 1)\<rparr>))))"

definition chunk_attributes_update_upon_sending :: "attr_chunk option \<Rightarrow> int" where
  "chunk_attributes_update_upon_sending c = 0"

text \<open>A chunk passed on by \<open>n\<close> peers.\<close>

fun receive_times :: "nat \<Rightarrow> attr_chunk \<Rightarrow> attr_chunk c_result" where
  "receive_times 0 c = Inr c"
| "receive_times (Suc n) c =
     c_bind (chunk_attributes_update_upon_reception (Some c)) (\<lambda>(r, c'). receive_times n (the c'))"

lemma receive_times_hops:
  "ac_attributes c = Attr h \<Longrightarrow>
   receive_times n c = Inr (c\<lparr>ac_attributes := Attr (h + of_nat n)\<rparr>)"
proof (induction n arbitrary: c h)
  case (Suc n)
  have "receive_times (Suc n) c = receive_times n (c\<lparr>ac_attributes := Attr (h + 1)\<rparr>)"
    using Suc.prems by (simp add: chunk_attributes_update_upon_reception_def)
  also have "\<dots> = Inr (c\<lparr>ac_attributes := Attr (h + 1 + of_nat n)\<rparr>)"
    using Suc.IH [of "c\<lparr>ac_attributes := Attr (h + 1)\<rparr>" "h + 1"] by simp
  finally show ?case by (simp add: algebra_simps)
qed simp

section \<open>Measures\<close>

definition DEFAULT_CHUNK_INTERVAL :: int where
  "DEFAULT_CHUNK_INTERVAL = 1000000 div 25"

datatype data_state = Deinit | Loading | Ready

record chunk_interval_estimate =
  first_index :: u32
  last_index :: u32
  first_timestamp :: "64 word"
  chunk_interval :: int
  cie_state :: data_state

text \<open>Only the state is initialised: \<open>raw\<close> is what the allocated memory held.\<close>

definition measures_create :: "chunk_interval_estimate \<Rightarrow> chunk_interval_estimate" where
  "measures_create raw = raw\<lparr>cie_state := Deinit\<rparr>"

text \<open>In the last state the quotient is computed on \<open>uint64_t\<close> (the timestamps) with the difference
  of the indices converted to it; it is a division by zero when the identifier equals the first index.\<close>

definition reg_chunk_receive ::
  "chunk_interval_estimate option \<Rightarrow> (int \<times> 64 word) option \<Rightarrow> (int \<times> chunk_interval_estimate option) c_result" where
  "reg_chunk_receive m c =
     (case (m, c) of
        (Some e, Some (cid, ts)) \<Rightarrow>
          (case cie_state e of
             Deinit \<Rightarrow>
               Inr (0, Some (e\<lparr>first_index := word_of_int cid, last_index := word_of_int cid,
                               first_timestamp := ts, cie_state := Loading\<rparr>))
           | Loading \<Rightarrow> Inr (0, m)
           | Ready \<Rightarrow>
               if cid > uint (last_index e) then
                 (let d = ucast (word_of_int cid - first_index e :: u32) :: 64 word in
                  if d = 0 then Inl Div_By_Zero
                  else Inr (0, Some (e\<lparr>chunk_interval := sint ((ts - first_timestamp e) div d),
                                       last_index := word_of_int cid, cie_state := Ready\<rparr>)))
               else Inr (0, Some (e\<lparr>cie_state := Ready\<rparr>)))
      | _ \<Rightarrow> Inr (0, m))"

definition chunk_interval_measure :: "chunk_interval_estimate \<Rightarrow> int" where
  "chunk_interval_measure m = (if cie_state m = Ready then chunk_interval m else DEFAULT_CHUNK_INTERVAL)"

fun reg_chunks :: "chunk_interval_estimate \<Rightarrow> (int \<times> 64 word) list \<Rightarrow> chunk_interval_estimate c_result" where
  "reg_chunks m [] = Inr m"
| "reg_chunks m (c # cs) = c_bind (reg_chunk_receive (Some m) (Some c)) (\<lambda>(r, m'). reg_chunks (the m') cs)"

lemma reg_chunks_not_ready:
  "cie_state m \<noteq> Ready \<Longrightarrow> \<exists>m'. reg_chunks m cs = Inr m' \<and> cie_state m' \<noteq> Ready"
proof (induction cs arbitrary: m)
  case (Cons c cs)
  obtain cid ts where c: "c = (cid, ts)" by (cases c)
  show ?case
  proof (cases "cie_state m")
    case Deinit
    then show ?thesis
      using Cons.IH [of "m\<lparr>first_index := word_of_int cid, last_index := word_of_int cid,
                          first_timestamp := ts, cie_state := Loading\<rparr>"]
      by (simp add: c reg_chunk_receive_def)
  next
    case Loading
    then show ?thesis using Cons.IH [of m] by (simp add: c reg_chunk_receive_def)
  next
    case Ready
    then show ?thesis using Cons.prems by simp
  qed
qed simp

section \<open>Peer metadata\<close>

definition DEFAULT_PEER_CBSIZE :: u16 where
  "DEFAULT_PEER_CBSIZE = 50"

definition DEFAULT_PEER_NEIGH_SIZE :: u16 where
  "DEFAULT_PEER_NEIGH_SIZE = 30"

record metadata =
  md_cb_size :: u16
  md_neigh_size :: u8

record 'b user_data =
  ud_bmap_timestamp :: timeval
  ud_bmap :: 'b

text \<open>\<open>struct peer\<close> of GRAPES, with the fields the engine uses.\<close>

record ('n, 'b) peer =
  pr_id :: 'n
  pr_creation_timestamp :: timeval
  pr_metadata :: "metadata option"
  pr_user_data :: "'b user_data option"

definition metadata_update :: "metadata option \<Rightarrow> u16 \<Rightarrow> u8 \<Rightarrow> int \<times> metadata option" where
  "metadata_update m cb_size neigh_size =
     (case m of
        Some x \<Rightarrow> (0, Some (x\<lparr>md_cb_size := cb_size, md_neigh_size := neigh_size\<rparr>))
      | None \<Rightarrow> (-1, None))"

definition peer_set_metadata :: "('n, 'b) peer option \<Rightarrow> metadata option \<Rightarrow> int \<times> ('n, 'b) peer option" where
  "peer_set_metadata p m =
     (case (p, m) of
        (Some x, Some md) \<Rightarrow> (0, Some (x\<lparr>pr_metadata := Some md\<rparr>))
      | _ \<Rightarrow> (-1, p))"

definition peer_cb_size :: "('n, 'b) peer option \<Rightarrow> u16" where
  "peer_cb_size p =
     (case p of
        Some x \<Rightarrow> (case pr_metadata x of Some md \<Rightarrow> md_cb_size md | None \<Rightarrow> DEFAULT_PEER_CBSIZE)
      | None \<Rightarrow> DEFAULT_PEER_CBSIZE)"

definition peer_neigh_size :: "('n, 'b) peer option \<Rightarrow> u16" where
  "peer_neigh_size p =
     (case p of
        Some x \<Rightarrow> (case pr_metadata x of Some md \<Rightarrow> ucast (md_neigh_size md) | None \<Rightarrow> DEFAULT_PEER_NEIGH_SIZE)
      | None \<Rightarrow> DEFAULT_PEER_NEIGH_SIZE)"

definition peer_data_init :: "'b \<Rightarrow> ('n, 'b) peer option \<Rightarrow> ('n, 'b) peer option" where
  "peer_data_init empty_bmap p =
     map_option (\<lambda>x. x\<lparr>pr_metadata := None,
                       pr_user_data := Some \<lparr>ud_bmap_timestamp = Timeval 0 0, ud_bmap = empty_bmap\<rparr>\<rparr>) p"

definition peer_data_deinit :: "('n, 'b) peer option \<Rightarrow> ('n, 'b) peer option" where
  "peer_data_deinit p = map_option (\<lambda>x. x\<lparr>pr_metadata := None, pr_user_data := None\<rparr>) p"

definition peer_bmap :: "('n, 'b) peer option \<Rightarrow> 'b option" where
  "peer_bmap p = (case p of Some x \<Rightarrow> map_option ud_bmap (pr_user_data x) | None \<Rightarrow> None)"

definition peer_bmap_timestamp :: "('n, 'b) peer option \<Rightarrow> timeval option" where
  "peer_bmap_timestamp p = (case p of Some x \<Rightarrow> map_option ud_bmap_timestamp (pr_user_data x) | None \<Rightarrow> None)"

definition peer_creation_timestamp :: "('n, 'b) peer option \<Rightarrow> timeval option" where
  "peer_creation_timestamp p = map_option pr_creation_timestamp p"

section \<open>Properties\<close>

text \<open>Chunks carry their hop count: after \<open>chunk_attributes_init\<close> and $n$ receptions the count read is $n$ modulo
  $2^{16}$; a chunk whose attributes were released faults on the next reception and on the next release, because the
  pointer is kept.\<close>

lemma hop_count_counts:
  "\<exists>c' c''. chunk_attributes_init (Some c) = (-1, Some c') \<and> receive_times n c' = Inr c'' \<and>
    chunk_attributes_get_hopcount c'' = Inr (of_nat n) \<and>
    (\<exists>c3. chunk_attributes_deinit (Some c'') = Inr (0, Some c3) \<and>
      chunk_attributes_update_upon_reception (Some c3) = Inl Use_After_Free \<and> chunk_attributes_deinit (Some c3) = Inl Invalid_Free)"
proof -
  let ?c = "c\<lparr>ac_attributes_size := 2, ac_attributes := Attr 0\<rparr>"
  have "chunk_attributes_init (Some c) = (-1, Some ?c)" by (simp add: chunk_attributes_init_def)
  moreover have "receive_times n ?c = Inr (?c\<lparr>ac_attributes := Attr (of_nat n)\<rparr>)" using receive_times_hops [of ?c 0 n] by simp
  ultimately show ?thesis
    by (simp add: chunk_attributes_get_hopcount_def chunk_attributes_deinit_def chunk_attributes_update_upon_reception_def)
qed

text \<open>The chunk interval is never measured: whatever chunks are registered after \<open>measures_create\<close>, the
  estimator never gets ready, no division is ever reached, and the interval stays the default of 40 ms.\<close>

lemma interval_never_measured:
  "\<exists>m. reg_chunks (measures_create raw) cs = Inr m \<and> chunk_interval_measure m = 40000"
proof -
  have "cie_state (measures_create raw) \<noteq> Ready" by (simp add: measures_create_def)
  from reg_chunks_not_ready [OF this, of cs] show ?thesis
    by (auto simp: chunk_interval_measure_def DEFAULT_CHUNK_INTERVAL_def)
qed

text \<open>Peer data: a peer starts with the default sizes; the metadata received for it is what \<open>peer_cb_size\<close> and
  \<open>peer_neigh_size\<close> report until the data is released, which brings back the defaults and removes the buffer map.\<close>

lemma peer_metadata_lifecycle:
  fixes p :: "('n, 'b) peer"
  shows "\<exists>p1 p2 p3. peer_data_init bmap (Some p) = Some p1 \<and> peer_cb_size (Some p1) = 50 \<and> peer_neigh_size (Some p1) = 30 \<and>
    peer_bmap (Some p1) = Some bmap \<and>
    peer_set_metadata (Some p1) (snd (metadata_update (Some md) cb nb)) = (0, Some p2) \<and>
    peer_cb_size (Some p2) = cb \<and> peer_neigh_size (Some p2) = ucast nb \<and> peer_bmap (Some p2) = Some bmap \<and>
    peer_data_deinit (Some p2) = Some p3 \<and> peer_cb_size (Some p3) = 50 \<and> peer_bmap (Some p3) = None \<and>
    pr_id p3 = pr_id p \<and> peer_creation_timestamp (Some p3) = peer_creation_timestamp (Some p)"
  by (simp add: peer_data_init_def peer_cb_size_def peer_neigh_size_def peer_bmap_def metadata_update_def
      peer_set_metadata_def peer_data_deinit_def peer_creation_timestamp_def DEFAULT_PEER_CBSIZE_def DEFAULT_PEER_NEIGH_SIZE_def)

end
