(* ===== verification/Topology.thy ===== *)
theory Topology
  imports Chunk_Data Net_Msg Complex_Main "HOL-Library.Multiset" "HOL-Library.While_Combinator"
begin

text \<open>
  \<open>src/topology.c\<close>: the neighbourhood of a peer, and the messages that keep it.

  The peer sets and the peer sampling service belong to the GRAPES library.  They are the parameters
  \<open>peerset_api\<close> and \<open>psample_api\<close>, records of functions; what the code relies on is
  \<open>peerset_ok\<close>: a peer set lists distinct peers of distinct identifiers, \<open>add\<close> allocates and
  initialises a peer, \<open>remove\<close> and \<open>clear\<close> release peers, \<open>push\<close> and \<open>pop\<close> only move pointers.

  Peer sets share their peers: \<open>locked_neighs\<close> and the reference copies point to peers the other sets
  own.  So a peer is an address in the store \<open>tp_peers\<close>, and following the address of a released
  peer is the fault \<open>Use_After_Free\<close>.  Node identifiers are values; their reference counts are in
  \<open>Node_Id\<close>.  What leaves the node is recorded in \<open>tp_sent\<close>.
\<close>

section \<open>The library interfaces\<close>

type_synonym ('n, 'b) peer_store = "nat \<Rightarrow> ('n, 'b) peer option"

record ('s, 'n, 'b) peerset_api =
  ps_init :: 's
  ps_peers :: "'s \<Rightarrow> nat list"
  ps_check :: "('n, 'b) peer_store \<Rightarrow> 's \<Rightarrow> 'n \<Rightarrow> int"
  ps_get :: "('n, 'b) peer_store \<Rightarrow> 's \<Rightarrow> 'n \<Rightarrow> nat option"
  ps_add :: "('n, 'b) peer_store \<Rightarrow> 's \<Rightarrow> 'n \<Rightarrow> ('n, 'b) peer_store \<times> 's"
  ps_push :: "('n, 'b) peer_store \<Rightarrow> 's \<Rightarrow> nat \<Rightarrow> 's"
  ps_pop :: "('n, 'b) peer_store \<Rightarrow> 's \<Rightarrow> 'n \<Rightarrow> nat option \<times> 's"
  ps_remove :: "('n, 'b) peer_store \<Rightarrow> 's \<Rightarrow> 'n \<Rightarrow> ('n, 'b) peer_store \<times> 's"
  ps_clear :: "('n, 'b) peer_store \<Rightarrow> 's \<Rightarrow> ('n, 'b) peer_store \<times> 's"

record ('p, 'n) psample_api =
  sa_parse_data :: "'p \<Rightarrow> bytes option \<Rightarrow> 'p"
  sa_cache :: "'p \<Rightarrow> 'n list"
  sa_metadata :: "'p \<Rightarrow> metadata list"
  sa_add_peer :: "'p \<Rightarrow> 'n \<Rightarrow> metadata \<Rightarrow> int \<times> 'p"
  sa_remove_peer :: "'p \<Rightarrow> 'n \<Rightarrow> 'p"
  sa_change_metadata :: "'p \<Rightarrow> metadata \<Rightarrow> 'p"
  MSG_TYPE_TOPOLOGY :: u8

abbreviation ps_size :: "('s, 'n, 'b) peerset_api \<Rightarrow> 's \<Rightarrow> nat" where
  "ps_size A s \<equiv> length (ps_peers A s)"

section \<open>The state\<close>

datatype 'n topo_send = Neigh_msg 'n bytes | Bmap_to 'n

text \<open>The fields of \<open>struct topology\<close>, then the store of the peers and what was sent.\<close>

record ('s, 'p, 'n, 'b) topology =
  topo_mem :: rat
  topo_out :: bool
  topo_in :: bool
  neighbourhood_target_size :: int
  tout_bmap :: timeval
  my_metadata :: metadata
  tp_tc :: 'p
  neighbourhood :: 's
  swarm_bucket :: 's
  locked_neighs :: 's
  tp_peers :: "('n, 'b) peer_store"
  tp_sent :: "'n topo_send list"

datatype peer_choice = PEER_CHOICE_RANDOM | PEER_CHOICE_BEST | PEER_CHOICE_WORST

definition MSG_TYPE_NEIGHBOURHOOD :: u8 where
  "MSG_TYPE_NEIGHBOURHOOD = 0x22"

definition NEIGHBOURHOOD_ADD :: u8 where
  "NEIGHBOURHOOD_ADD = 0"

definition NEIGHBOURHOOD_REMOVE :: u8 where
  "NEIGHBOURHOOD_REMOVE = 1"

definition NEIGHBOURHOOD_QUIT :: u8 where
  "NEIGHBOURHOOD_QUIT = 2"

text \<open>\<open>struct metadata\<close> is packed: a 16-bit and an 8-bit field.\<close>

definition sizeof_metadata :: nat where
  "sizeof_metadata = 3"

definition RAND_MAX :: nat where
  "RAND_MAX = 2147483647"

definition peer_at :: "('n, 'b) peer_store \<Rightarrow> nat \<Rightarrow> ('n, 'b) peer c_result" where
  "peer_at h a = (case h a of Some p \<Rightarrow> Inr p | None \<Rightarrow> Inl Use_After_Free)"

fun c_each :: "('x \<Rightarrow> 'w \<Rightarrow> 'w c_result) \<Rightarrow> 'x list \<Rightarrow> 'w \<Rightarrow> 'w c_result" where
  "c_each f [] w = Inr w"
| "c_each f (x # xs) w = c_bind (f x w) (c_each f xs)"

definition topology_get_neighbours :: "('s, 'p, 'n, 'b) topology \<Rightarrow> 's" where
  "topology_get_neighbours t = neighbourhood t"

section \<open>Creating\<close>

definition update_metadata ::
  "('s, 'n, 'b) peerset_api \<Rightarrow> ('p, 'n) psample_api \<Rightarrow> bool \<Rightarrow> int \<Rightarrow>
   ('s, 'p, 'n, 'b) topology \<Rightarrow> ('s, 'p, 'n, 'b) topology" where
  "update_metadata A S is_source buffer_size t =
     (let m = the (snd (metadata_update (Some (my_metadata t))
                (if is_source then 0 else word_of_int buffer_size) (of_nat (ps_size A (neighbourhood t)))))
      in t\<lparr>my_metadata := m, tp_tc := sa_change_metadata S (tp_tc t) m\<rparr>)"

text \<open>\<open>tc\<close> is what \<open>psample_init\<close> returned, \<open>raw\<close> what the allocated memory held; the options are \<open>None\<close>
  when the configuration does not set them.\<close>

definition topology_init ::
  "('s, 'n, 'b) peerset_api \<Rightarrow> ('p, 'n) psample_api \<Rightarrow> 'p \<Rightarrow> bool \<Rightarrow> int \<Rightarrow> int option \<Rightarrow> int option \<Rightarrow>
   ('s, 'p, 'n, 'b) topology \<Rightarrow> int \<times> ('s, 'p, 'n, 'b) topology" where
  "topology_init A S tc is_source buffer_size neighbourhood_size peer_timeout raw =
     (let t = raw\<lparr>neighbourhood := ps_init A, swarm_bucket := ps_init A, locked_neighs := ps_init A,
                  topo_mem := 7 / 10, topo_out := True, topo_in := True,
                  neighbourhood_target_size :=
                    (case neighbourhood_size of Some n \<Rightarrow> n | None \<Rightarrow> uint DEFAULT_PEER_NEIGH_SIZE),
                  tout_bmap := Timeval (case peer_timeout of Some s \<Rightarrow> s | None \<Rightarrow> 10) 0,
                  tp_tc := tc\<rparr>
      in (1, update_metadata A S is_source buffer_size t))"

definition topology_create ::
  "('s, 'n, 'b) peerset_api \<Rightarrow> ('p, 'n) psample_api \<Rightarrow> 'p \<Rightarrow> bool \<Rightarrow> int \<Rightarrow> int option \<Rightarrow> int option \<Rightarrow>
   ('s, 'p, 'n, 'b) topology \<Rightarrow> ('s, 'p, 'n, 'b) topology" where
  "topology_create A S tc is_source buffer_size neighbourhood_size peer_timeout raw =
     snd (topology_init A S tc is_source buffer_size neighbourhood_size peer_timeout raw)"

section \<open>Peers\<close>

definition topology_get_peer ::
  "('s, 'n, 'b) peerset_api \<Rightarrow> ('s, 'p, 'n, 'b) topology \<Rightarrow> 'n \<Rightarrow> nat option" where
  "topology_get_peer A t i =
     (case ps_get A (tp_peers t) (swarm_bucket t) i of
        Some a \<Rightarrow> Some a
      | None \<Rightarrow> ps_get A (tp_peers t) (neighbourhood t) i)"

definition swarm_add :: "('s, 'n, 'b) peerset_api \<Rightarrow> 'n \<Rightarrow> ('s, 'p, 'n, 'b) topology \<Rightarrow> ('s, 'p, 'n, 'b) topology" where
  "swarm_add A i t =
     (case ps_add A (tp_peers t) (swarm_bucket t) i of (h, s) \<Rightarrow> t\<lparr>tp_peers := h, swarm_bucket := s\<rparr>)"

definition topology_node_insert ::
  "('s, 'n, 'b) peerset_api \<Rightarrow> ('p, 'n) psample_api \<Rightarrow> 'n \<Rightarrow> ('s, 'p, 'n, 'b) topology \<Rightarrow>
   int \<times> ('s, 'p, 'n, 'b) topology" where
  "topology_node_insert A S i t =
     (let t1 = (if topology_get_peer A t i = None then swarm_add A i t else t);
          (r, tc) = sa_add_peer S (tp_tc t1) i \<lparr>md_cb_size = 0, md_neigh_size = 0\<rparr>
      in (r, t1\<lparr>tp_tc := tc\<rparr>))"

text \<open>Pushing a NULL pointer into a peer set is a NULL dereference.\<close>

definition neighbourhood_add_peer ::
  "('s, 'n, 'b) peerset_api \<Rightarrow> 'n option \<Rightarrow> ('s, 'p, 'n, 'b) topology \<Rightarrow>
   (nat option \<times> ('s, 'p, 'n, 'b) topology) c_result" where
  "neighbourhood_add_peer A idp t =
     (case idp of
        None \<Rightarrow> Inr (None, t)
      | Some i \<Rightarrow>
          (case ps_pop A (tp_peers t) (swarm_bucket t) i of
             (Some a, sw) \<Rightarrow>
               Inr (Some a, t\<lparr>swarm_bucket := sw, neighbourhood := ps_push A (tp_peers t) (neighbourhood t) a,
                              tp_sent := tp_sent t @ [Bmap_to i]\<rparr>)
           | (None, sw) \<Rightarrow>
               (case ps_add A (tp_peers t) (neighbourhood t) i of
                  (h, nb) \<Rightarrow>
                    (case ps_get A h nb i of
                       None \<Rightarrow> Inl Null_Deref
                     | Some a \<Rightarrow>
                         Inr (Some a, t\<lparr>swarm_bucket := sw, tp_peers := h, neighbourhood := nb,
                                        locked_neighs := ps_push A h (locked_neighs t) a,
                                        tp_sent := tp_sent t @ [Bmap_to i]\<rparr>)))))"

definition neighbourhood_remove_peer ::
  "('s, 'n, 'b) peerset_api \<Rightarrow> 'n option \<Rightarrow> ('s, 'p, 'n, 'b) topology \<Rightarrow> ('s, 'p, 'n, 'b) topology" where
  "neighbourhood_remove_peer A idp t =
     (case idp of
        None \<Rightarrow> t
      | Some i \<Rightarrow>
          (let (p, nb) = ps_pop A (tp_peers t) (neighbourhood t) i;
               sw = (case p of Some a \<Rightarrow> ps_push A (tp_peers t) (swarm_bucket t) a | None \<Rightarrow> swarm_bucket t)
           in t\<lparr>neighbourhood := nb, swarm_bucket := sw,
                locked_neighs := snd (ps_pop A (tp_peers t) (locked_neighs t) i)\<rparr>))"

definition topology_remove_peer ::
  "('s, 'n, 'b) peerset_api \<Rightarrow> ('p, 'n) psample_api \<Rightarrow> 'n option \<Rightarrow> ('s, 'p, 'n, 'b) topology \<Rightarrow>
   ('s, 'p, 'n, 'b) topology" where
  "topology_remove_peer A S idp t =
     (case idp of
        None \<Rightarrow> t
      | Some i \<Rightarrow>
          (let lk = snd (ps_pop A (tp_peers t) (locked_neighs t) i);
               tc = sa_remove_peer S (tp_tc t) i;
               (h1, nb) = ps_remove A (tp_peers t) (neighbourhood t) i;
               (h2, sw) = ps_remove A h1 (swarm_bucket t) i
           in t\<lparr>locked_neighs := lk, tp_tc := tc, neighbourhood := nb, swarm_bucket := sw, tp_peers := h2\<rparr>))"

section \<open>Messages\<close>

text \<open>The result of sending is not used.\<close>

definition neighbourhood_send_msg ::
  "int_coding \<Rightarrow> ('n, 'b) peer \<Rightarrow> u8 \<Rightarrow> ('s, 'p, 'n, 'b) topology \<Rightarrow> ('s, 'p, 'n, 'b) topology" where
  "neighbourhood_send_msg ic p ty t =
     t\<lparr>tp_sent := tp_sent t @
        [Neigh_msg (pr_id p)
          ([MSG_TYPE_NEIGHBOURHOOD, ty] @ int16_cpy ic (md_cb_size (my_metadata t)) @
           [md_neigh_size (my_metadata t)])]\<rparr>"

definition set_peer_metadata ::
  "nat option \<Rightarrow> metadata \<Rightarrow> ('s, 'p, 'n, 'b) topology \<Rightarrow> ('s, 'p, 'n, 'b) topology c_result" where
  "set_peer_metadata p m t =
     (case p of
        None \<Rightarrow> Inr t
      | Some a \<Rightarrow>
          c_bind (peer_at (tp_peers t) a) (\<lambda>x.
            Inr (t\<lparr>tp_peers := (tp_peers t)(a := snd (peer_set_metadata (Some x) (Some m)))\<rparr>)))"

text \<open>\<open>buff\<close> holds the bytes received from the message type on; reading beyond them reads
  memory that nothing wrote.  The length passed is the length of the whole message.\<close>

definition neighbourhood_message_parse ::
  "('s, 'n, 'b) peerset_api \<Rightarrow> ('p, 'n) psample_api \<Rightarrow> int_coding \<Rightarrow> 'n option \<Rightarrow> bytes \<Rightarrow> nat \<Rightarrow>
   ('s, 'p, 'n, 'b) topology \<Rightarrow> ('s, 'p, 'n, 'b) topology c_result" where
  "neighbourhood_message_parse A S ic from buff len t =
     (if buff = [] then Inl Uninit_Read
      else if buff ! 0 = NEIGHBOURHOOD_ADD then
        c_bind (neighbourhood_add_peer A from t) (\<lambda>(p, t1).
          if len \<ge> sizeof_metadata + 1 then
            (if length buff < 4 then Inl Uninit_Read
             else set_peer_metadata p \<lparr>md_cb_size = int16_rcpy ic (drop 1 buff), md_neigh_size = buff ! 3\<rparr> t1)
          else Inr t1)
      else if buff ! 0 = NEIGHBOURHOOD_REMOVE then Inr (neighbourhood_remove_peer A from t)
      else if buff ! 0 = NEIGHBOURHOOD_QUIT then Inr (topology_remove_peer A S from t)
      else Inr t)"

definition topology_message_parse ::
  "('s, 'n, 'b) peerset_api \<Rightarrow> ('p, 'n) psample_api \<Rightarrow> int_coding \<Rightarrow> 'n option \<Rightarrow> bytes \<Rightarrow>
   ('s, 'p, 'n, 'b) topology \<Rightarrow> ('s, 'p, 'n, 'b) topology c_result" where
  "topology_message_parse A S ic from buff t =
     (if buff = [] then Inl Uninit_Read
      else if buff ! 0 = MSG_TYPE_NEIGHBOURHOOD then
        (if topo_in t then neighbourhood_message_parse A S ic from (drop 1 buff) (length buff) t else Inr t)
      else if buff ! 0 = MSG_TYPE_TOPOLOGY S then Inr (t\<lparr>tp_tc := sa_parse_data S (tp_tc t) (Some buff)\<rparr>)
      else Inr t)"

definition nodeid_to_peer ::
  "('s, 'n, 'b) peerset_api \<Rightarrow> ('p, 'n) psample_api \<Rightarrow> int_coding \<Rightarrow> 'n \<Rightarrow> bool \<Rightarrow>
   ('s, 'p, 'n, 'b) topology \<Rightarrow> (nat option \<times> ('s, 'p, 'n, 'b) topology) c_result" where
  "nodeid_to_peer A S ic i reg t =
     (let p = topology_get_peer A t i in
      if p = None \<and> reg then
        c_bind (neighbourhood_add_peer A (Some i) (snd (topology_node_insert A S i t))) (\<lambda>(_, t1).
          let p1 = topology_get_peer A t1 i in
          if topo_out t1 then
            (case p1 of
               None \<Rightarrow> Inl Null_Deref
             | Some a \<Rightarrow> c_bind (peer_at (tp_peers t1) a) (\<lambda>x.
                 Inr (p1, neighbourhood_send_msg ic x NEIGHBOURHOOD_ADD t1)))
          else Inr (p1, t1))
      else Inr (p, t))"

section \<open>Updating\<close>

fun sample_loop ::
  "('s, 'n, 'b) peerset_api \<Rightarrow> 'n list \<Rightarrow> metadata list \<Rightarrow> ('s, 'p, 'n, 'b) topology \<Rightarrow>
   ('s, 'p, 'n, 'b) topology c_result" where
  "sample_loop A [] ms t = Inr t"
| "sample_loop A (i # ids) [] t = Inl Out_Of_Bounds"
| "sample_loop A (i # ids) (m # ms) t =
     (let t1 = (if topology_get_peer A t i = None then swarm_add A i t else t)
      in c_bind (set_peer_metadata (topology_get_peer A t1 i) m t1) (sample_loop A ids ms))"

definition topology_sample_peers ::
  "('s, 'n, 'b) peerset_api \<Rightarrow> ('p, 'n) psample_api \<Rightarrow> ('s, 'p, 'n, 'b) topology \<Rightarrow>
   ('s, 'p, 'n, 'b) topology c_result" where
  "topology_sample_peers A S t = sample_loop A (sa_cache S (tp_tc t)) (sa_metadata S (tp_tc t)) t"

text \<open>The peer has sent no buffer map and is older than \<open>told\<close>, or its last buffer map is.  The time
  stamp of a peer without data is a NULL pointer.\<close>

definition peer_unactive :: "timeval \<Rightarrow> ('n, 'b) peer \<Rightarrow> bool c_result" where
  "peer_unactive told p =
     (case peer_bmap_timestamp (Some p) of
        None \<Rightarrow> Inl Null_Deref
      | Some ts \<Rightarrow> Inr (\<not> timerisset ts \<and> pr_creation_timestamp p < told \<or> timerisset ts \<and> ts < told))"

text \<open>The index moves on even when the peer at it was removed and the array closed up.  The loop
  gets as many steps as it can need; running out of them is the result \<open>None\<close>.\<close>

fun drop_loop ::
  "('s, 'n, 'b) peerset_api \<Rightarrow> ('p, 'n) psample_api \<Rightarrow> timeval \<Rightarrow> nat \<Rightarrow> nat \<Rightarrow>
   ('s, 'p, 'n, 'b) topology \<Rightarrow> ('s, 'p, 'n, 'b) topology c_result option" where
  "drop_loop A S told fuel i t =
     (if i < ps_size A (neighbourhood t) then
        (case fuel of
           0 \<Rightarrow> None
         | Suc fuel' \<Rightarrow>
             (case c_bind (peer_at (tp_peers t) (ps_peers A (neighbourhood t) ! i)) (\<lambda>p.
                     c_bind (peer_unactive told p) (\<lambda>old.
                       Inr (if old then topology_remove_peer A S (Some (pr_id p)) t else t))) of
                Inl e \<Rightarrow> Some (Inl e)
              | Inr t1 \<Rightarrow> drop_loop A S told fuel' (Suc i) t1))
      else Some (Inr t))"

declare drop_loop.simps [simp del]

definition neighbourhood_drop_unactives ::
  "('s, 'n, 'b) peerset_api \<Rightarrow> ('p, 'n) psample_api \<Rightarrow> timeval \<Rightarrow> timeval \<Rightarrow>
   ('s, 'p, 'n, 'b) topology \<Rightarrow> ('s, 'p, 'n, 'b) topology c_result option" where
  "neighbourhood_drop_unactives A S tnow bmap_timeout t =
     drop_loop A S (timersub tnow bmap_timeout) (ps_size A (neighbourhood t)) 0 t"

text \<open>\<open>r i\<close> is what \<open>rand()\<close> returns in the iteration at \<open>i\<close>.\<close>

fun shuffle_loop :: "(nat \<Rightarrow> nat) \<Rightarrow> nat \<Rightarrow> 'x list \<Rightarrow> 'x list" where
  "shuffle_loop r 0 b = b"
| "shuffle_loop r (Suc j) b =
     (let i = Suc j; newpos = r i * (i + 1) div (RAND_MAX + 1)
      in shuffle_loop r j ((b[newpos := b ! i])[i := b ! newpos]))"

definition array_shuffle :: "(nat \<Rightarrow> nat) \<Rightarrow> 'x list \<Rightarrow> 'x list" where
  "array_shuffle r b = shuffle_loop r (length b - 1) b"

definition peerset_create_reference_copy :: "('s, 'n, 'b) peerset_api \<Rightarrow> ('n, 'b) peer_store \<Rightarrow> 's \<Rightarrow> 's" where
  "peerset_create_reference_copy A h pset = fold (\<lambda>p ns. ps_push A h ns p) (ps_peers A pset) (ps_init A)"

definition peerset_reference_copy_add :: "('s, 'n, 'b) peerset_api \<Rightarrow> ('n, 'b) peer_store \<Rightarrow> 's \<Rightarrow> 's \<Rightarrow> 's" where
  "peerset_reference_copy_add A h dst src = fold (\<lambda>p ns. ps_push A h ns p) (ps_peers A src) dst"

text \<open>The loop ends when the set is empty; \<open>None\<close> is running out of steps.\<close>

fun destroy_copy_loop ::
  "('s, 'n, 'b) peerset_api \<Rightarrow> ('n, 'b) peer_store \<Rightarrow> nat \<Rightarrow> 's \<Rightarrow> unit c_result option" where
  "destroy_copy_loop A h fuel pset =
     (case ps_peers A pset of
        [] \<Rightarrow> Some (Inr ())
      | a # _ \<Rightarrow>
          (case fuel of
             0 \<Rightarrow> None
           | Suc fuel' \<Rightarrow>
               (case peer_at h a of
                  Inl e \<Rightarrow> Some (Inl e)
                | Inr p \<Rightarrow> destroy_copy_loop A h fuel' (snd (ps_pop A h pset (pr_id p))))))"

declare destroy_copy_loop.simps [simp del]

definition peerset_destroy_reference_copy ::
  "('s, 'n, 'b) peerset_api \<Rightarrow> ('n, 'b) peer_store \<Rightarrow> 's \<Rightarrow> unit c_result option" where
  "peerset_destroy_reference_copy A h pset = destroy_copy_loop A h (ps_size A pset) pset"

text \<open>\<open>k\<close> iterations are left; \<open>i\<close> is the index.\<close>

fun move_loop ::
  "('s, 'n, 'b) peerset_api \<Rightarrow> ('n, 'b) peer_store \<Rightarrow> peer_choice \<Rightarrow> nat list \<Rightarrow> nat \<Rightarrow> nat \<Rightarrow> 's \<Rightarrow> 's \<Rightarrow>
   ('s \<times> 's) c_result" where
  "move_loop A h criterion peers 0 i pset1 pset2 = Inr (pset1, pset2)"
| "move_loop A h criterion peers (Suc k) i pset1 pset2 =
     c_bind (peer_at h (if criterion = PEER_CHOICE_WORST then peers ! (length peers - i - 1) else peers ! i)) (\<lambda>x.
       case ps_pop A h pset1 (pr_id x) of
         (None, _) \<Rightarrow> Inl Null_Deref
       | (Some p, s1) \<Rightarrow> move_loop A h criterion peers k (Suc i) s1 (ps_push A h pset2 p))"

text \<open>\<open>qsort\<close> is the sorting function of the C library; filters and comparisons are NULL when \<open>None\<close>.\<close>

definition topology_move_peers ::
  "('s, 'n, 'b) peerset_api \<Rightarrow> ((nat \<Rightarrow> nat \<Rightarrow> int) \<Rightarrow> nat list \<Rightarrow> nat list) \<Rightarrow> (nat \<Rightarrow> nat) \<Rightarrow>
   ('n, 'b) peer_store \<Rightarrow> 's \<Rightarrow> 's \<Rightarrow> int \<Rightarrow> peer_choice \<Rightarrow> (nat \<Rightarrow> bool) option \<Rightarrow>
   (nat \<Rightarrow> nat \<Rightarrow> int) option \<Rightarrow> ('s \<times> 's) c_result" where
  "topology_move_peers A qsort r h pset1 pset2 num criterion filter_mask cmp_peer =
     (let peers = (case filter_mask of Some f \<Rightarrow> filter f (ps_peers A pset1) | None \<Rightarrow> ps_peers A pset1);
          sorted = (case cmp_peer of
                      Some c \<Rightarrow> if criterion \<noteq> PEER_CHOICE_RANDOM then qsort c peers else array_shuffle r peers
                    | None \<Rightarrow> array_shuffle r peers)
      in move_loop A h criterion sorted (nat (min (int (length sorted)) num)) 0 pset1 pset2)"

definition topology_signal_change ::
  "('s, 'n, 'b) peerset_api \<Rightarrow> int_coding \<Rightarrow> 's \<Rightarrow> ('s, 'p, 'n, 'b) topology \<Rightarrow>
   ('s, 'p, 'n, 'b) topology c_result" where
  "topology_signal_change A ic old_neighs t =
     (if topo_out t then
        c_bind (c_each (\<lambda>a w. c_bind (peer_at (tp_peers w) a) (\<lambda>p.
                  Inr (if ps_check A (tp_peers w) old_neighs (pr_id p) < 0
                       then neighbourhood_send_msg ic p NEIGHBOURHOOD_ADD w else w)))
                (ps_peers A (neighbourhood t)) t)
          (c_each (\<lambda>a w. c_bind (peer_at (tp_peers w) a) (\<lambda>p.
             Inr (if ps_check A (tp_peers w) (neighbourhood w) (pr_id p) < 0
                  then neighbourhood_send_msg ic p NEIGHBOURHOOD_REMOVE w else w)))
           (ps_peers A old_neighs))
      else Inr t)"

text \<open>\<open>r1\<close> and \<open>r2\<close> are the random numbers of the two shuffles.\<close>

definition topology_update_random ::
  "('s, 'n, 'b) peerset_api \<Rightarrow> ((nat \<Rightarrow> nat \<Rightarrow> int) \<Rightarrow> nat list \<Rightarrow> nat list) \<Rightarrow> (nat \<Rightarrow> nat) \<Rightarrow> (nat \<Rightarrow> nat) \<Rightarrow>
   ('s, 'p, 'n, 'b) topology \<Rightarrow> ('s, 'p, 'n, 'b) topology c_result" where
  "topology_update_random A qsort r1 r2 t =
     (let discard_num = \<lfloor>(1 - topo_mem t) * of_nat (ps_size A (neighbourhood t))\<rfloor> in
      c_bind (topology_move_peers A qsort r1 (tp_peers t) (neighbourhood t) (swarm_bucket t) discard_num
                PEER_CHOICE_RANDOM None None) (\<lambda>(nb, sw).
        let others_num = max (neighbourhood_target_size t - int (ps_size A nb)) 0 in
        c_bind (topology_move_peers A qsort r2 (tp_peers t) sw nb others_num PEER_CHOICE_RANDOM None None) (\<lambda>(sw', nb').
          Inr (t\<lparr>neighbourhood := nb', swarm_bucket := sw'\<rparr>))))"

definition forget_swarm :: "('s, 'n, 'b) peerset_api \<Rightarrow> ('s, 'p, 'n, 'b) topology \<Rightarrow> ('s, 'p, 'n, 'b) topology c_result" where
  "forget_swarm A t =
     c_bind (c_each (\<lambda>a w. c_bind (peer_at (tp_peers w) a) (\<lambda>p.
               Inr (w\<lparr>locked_neighs := snd (ps_pop A (tp_peers w) (locked_neighs w) (pr_id p))\<rparr>)))
             (ps_peers A (swarm_bucket t)) t) (\<lambda>t1.
       case ps_clear A (tp_peers t1) (swarm_bucket t1) of (h, s) \<Rightarrow> Inr (t1\<lparr>tp_peers := h, swarm_bucket := s\<rparr>))"

definition topology_update ::
  "('s, 'n, 'b) peerset_api \<Rightarrow> ('p, 'n) psample_api \<Rightarrow> int_coding \<Rightarrow> ((nat \<Rightarrow> nat \<Rightarrow> int) \<Rightarrow> nat list \<Rightarrow> nat list) \<Rightarrow>
   timeval \<Rightarrow> (nat \<Rightarrow> nat) \<Rightarrow> (nat \<Rightarrow> nat) \<Rightarrow> bool \<Rightarrow> int \<Rightarrow>
   ('s, 'p, 'n, 'b) topology \<Rightarrow> ('s, 'p, 'n, 'b) topology c_result option" where
  "topology_update A S ic qsort tnow r1 r2 is_source buffer_size t0 =
     (case topology_sample_peers A S
             (update_metadata A S is_source buffer_size (t0\<lparr>tp_tc := sa_parse_data S (tp_tc t0) None\<rparr>)) of
        Inl e \<Rightarrow> Some (Inl e)
      | Inr t1 \<Rightarrow>
          (case (if timerisset (tout_bmap t1) then neighbourhood_drop_unactives A S tnow (tout_bmap t1) t1
                 else Some (Inr t1)) of
             None \<Rightarrow> None
           | Some (Inl e) \<Rightarrow> Some (Inl e)
           | Some (Inr t2) \<Rightarrow>
               (let old_neighs = peerset_create_reference_copy A (tp_peers t2) (neighbourhood t2) in
                case c_bind (topology_update_random A qsort r1 r2 t2) (topology_signal_change A ic old_neighs) of
                  Inl e \<Rightarrow> Some (Inl e)
                | Inr t3 \<Rightarrow>
                    (case peerset_destroy_reference_copy A (tp_peers t3) old_neighs of
                       None \<Rightarrow> None
                     | Some (Inl e) \<Rightarrow> Some (Inl e)
                     | Some (Inr _) \<Rightarrow> Some (forget_swarm A t3)))))"

definition topology_quit_overlay ::
  "('s, 'n, 'b) peerset_api \<Rightarrow> int_coding \<Rightarrow> ('s, 'p, 'n, 'b) topology \<Rightarrow> ('s, 'p, 'n, 'b) topology c_result" where
  "topology_quit_overlay A ic t =
     (let quit = (\<lambda>a w. c_bind (peer_at (tp_peers w) a) (\<lambda>p. Inr (neighbourhood_send_msg ic p NEIGHBOURHOOD_QUIT w)))
      in c_bind (c_each quit (ps_peers A (neighbourhood t)) t) (c_each quit (ps_peers A (swarm_bucket t))))"

text \<open>Destroying a peer set releases the peers it lists.  The result is the store of peers and what was
  sent; \<open>topology_quit_overlay\<close> runs before the test for NULL.\<close>

definition topology_destroy ::
  "('s, 'n, 'b) peerset_api \<Rightarrow> int_coding \<Rightarrow> ('s, 'p, 'n, 'b) topology option \<Rightarrow>
   (('n, 'b) peer_store \<times> 'n topo_send list) c_result option" where
  "topology_destroy A ic tp =
     (case tp of
        None \<Rightarrow> Some (Inl Null_Deref)
      | Some t0 \<Rightarrow>
          (case topology_quit_overlay A ic t0 of
             Inl e \<Rightarrow> Some (Inl e)
           | Inr t \<Rightarrow>
               (case peerset_destroy_reference_copy A (tp_peers t) (locked_neighs t) of
                  None \<Rightarrow> None
                | Some (Inl e) \<Rightarrow> Some (Inl e)
                | Some (Inr _) \<Rightarrow>
                    (let h1 = fst (ps_clear A (tp_peers t) (neighbourhood t));
                         h2 = fst (ps_clear A h1 (swarm_bucket t))
                     in Some (Inr (h2, tp_sent t))))))"


section \<open>What the code relies on\<close>

definition pid :: "('n, 'b) peer_store \<Rightarrow> nat \<Rightarrow> 'n" where
  "pid h a = pr_id (the (h a))"

abbreviation ps_set :: "('s, 'n, 'b) peerset_api \<Rightarrow> 's \<Rightarrow> nat set" where
  "ps_set A s \<equiv> set (ps_peers A s)"

definition ps_wf :: "('s, 'n, 'b) peerset_api \<Rightarrow> ('n, 'b) peer_store \<Rightarrow> 's \<Rightarrow> bool" where
  "ps_wf A h s \<longleftrightarrow> finite (dom h) \<and> distinct (ps_peers A s) \<and> ps_set A s \<subseteq> dom h \<and> inj_on (pid h) (ps_set A s)"

text \<open>The laws of the peer sets; \<open>b\<close> is the empty buffer map a new peer gets.\<close>

definition peerset_reads :: "('s, 'n, 'b) peerset_api \<Rightarrow> bool" where
  "peerset_reads A \<longleftrightarrow> ps_peers A (ps_init A) = [] \<and>
     (\<forall>h s i. ps_wf A h s \<longrightarrow>
        (ps_check A h s i < 0 \<longleftrightarrow> i \<notin> pid h ` ps_set A s) \<and>
        (\<forall>a. ps_get A h s i = Some a \<longleftrightarrow> a \<in> ps_set A s \<and> pid h a = i))"

definition peerset_moves :: "('s, 'n, 'b) peerset_api \<Rightarrow> bool" where
  "peerset_moves A \<longleftrightarrow>
     (\<forall>h s i. ps_wf A h s \<longrightarrow>
        fst (ps_pop A h s i) = ps_get A h s i \<and>
        mset (ps_peers A (snd (ps_pop A h s i))) = mset (filter (\<lambda>a. pid h a \<noteq> i) (ps_peers A s)) \<and>
        (\<forall>a \<in> dom h. mset (ps_peers A (ps_push A h s a)) =
           (if pid h a \<in> pid h ` ps_set A s then mset (ps_peers A s) else mset (a # ps_peers A s))))"

definition peerset_owns :: "('s, 'n, 'b) peerset_api \<Rightarrow> 'b \<Rightarrow> bool" where
  "peerset_owns A b \<longleftrightarrow>
     (\<forall>h s i. ps_wf A h s \<longrightarrow>
        (if i \<in> pid h ` ps_set A s then ps_add A h s i = (h, s)
         else \<exists>a raw. h a = None \<and> pr_id raw = i \<and>
                fst (ps_add A h s i) = h(a := peer_data_init b (Some raw)) \<and>
                mset (ps_peers A (snd (ps_add A h s i))) = mset (a # ps_peers A s)) \<and>
        fst (ps_remove A h s i) = (case ps_get A h s i of Some a \<Rightarrow> h(a := None) | None \<Rightarrow> h) \<and>
        mset (ps_peers A (snd (ps_remove A h s i))) = mset (filter (\<lambda>a. pid h a \<noteq> i) (ps_peers A s)) \<and>
        fst (ps_clear A h s) = (\<lambda>a. if a \<in> ps_set A s then None else h a) \<and>
        ps_peers A (snd (ps_clear A h s)) = [])"

definition peerset_ok :: "('s, 'n, 'b) peerset_api \<Rightarrow> 'b \<Rightarrow> bool" where
  "peerset_ok A b \<longleftrightarrow> peerset_reads A \<and> peerset_moves A \<and> peerset_owns A b"

lemma mset_set_distinct:
  "mset xs = mset ys \<Longrightarrow> set xs = set ys" "mset xs = mset ys \<Longrightarrow> distinct xs \<longleftrightarrow> distinct ys"
  "mset xs = mset ys \<Longrightarrow> length xs = length ys"
  by (auto dest: mset_eq_setD mset_eq_imp_distinct_iff mset_eq_length)

lemma ps_init_empty [simp]: "peerset_ok A b \<Longrightarrow> ps_peers A (ps_init A) = []"
  by (simp add: peerset_ok_def peerset_reads_def)

lemma ps_check_iff: "peerset_ok A b \<Longrightarrow> ps_wf A h s \<Longrightarrow> ps_check A h s i < 0 \<longleftrightarrow> i \<notin> pid h ` ps_set A s"
  unfolding peerset_ok_def peerset_reads_def by blast

lemma ps_get_Some_iff: "peerset_ok A b \<Longrightarrow> ps_wf A h s \<Longrightarrow> ps_get A h s i = Some a \<longleftrightarrow> a \<in> ps_set A s \<and> pid h a = i"
  unfolding peerset_ok_def peerset_reads_def by blast

lemma ps_get_None_iff: "peerset_ok A b \<Longrightarrow> ps_wf A h s \<Longrightarrow> ps_get A h s i = None \<longleftrightarrow> i \<notin> pid h ` ps_set A s"
proof -
  assume "peerset_ok A b" and "ps_wf A h s"
  then have *: "ps_get A h s i = Some a \<longleftrightarrow> a \<in> ps_set A s \<and> pid h a = i" for a by (rule ps_get_Some_iff)
  show ?thesis
  proof (cases "ps_get A h s i")
    case None
    then show ?thesis using * by auto
  next
    case (Some a)
    then show ?thesis using * [of a] by auto
  qed
qed

lemma ps_pop_fst: "peerset_ok A b \<Longrightarrow> ps_wf A h s \<Longrightarrow> fst (ps_pop A h s i) = ps_get A h s i"
  unfolding peerset_ok_def peerset_moves_def by blast

lemma ps_pop_mset: "peerset_ok A b \<Longrightarrow> ps_wf A h s \<Longrightarrow>
    mset (ps_peers A (snd (ps_pop A h s i))) = mset (filter (\<lambda>a. pid h a \<noteq> i) (ps_peers A s))"
  unfolding peerset_ok_def peerset_moves_def by blast

lemma ps_push_mset: "peerset_ok A b \<Longrightarrow> ps_wf A h s \<Longrightarrow> a \<in> dom h \<Longrightarrow>
    mset (ps_peers A (ps_push A h s a)) =
      (if pid h a \<in> pid h ` ps_set A s then mset (ps_peers A s) else mset (a # ps_peers A s))"
  unfolding peerset_ok_def peerset_moves_def by blast

lemma ps_owned:
  assumes "peerset_ok A b" and "ps_wf A h s"
  shows "if i \<in> pid h ` ps_set A s then ps_add A h s i = (h, s)
     else \<exists>a raw. h a = None \<and> pr_id raw = i \<and>
            fst (ps_add A h s i) = h(a := peer_data_init b (Some raw)) \<and>
            mset (ps_peers A (snd (ps_add A h s i))) = mset (a # ps_peers A s)"
    and ps_remove_fst: "fst (ps_remove A h s i) = (case ps_get A h s i of Some a \<Rightarrow> h(a := None) | None \<Rightarrow> h)"
    and ps_remove_mset:
      "mset (ps_peers A (snd (ps_remove A h s i))) = mset (filter (\<lambda>a. pid h a \<noteq> i) (ps_peers A s))"
    and ps_clear_fst: "fst (ps_clear A h s) = (\<lambda>a. if a \<in> ps_set A s then None else h a)"
    and ps_clear_snd: "ps_peers A (snd (ps_clear A h s)) = []"
  using assms unfolding peerset_ok_def peerset_owns_def by blast+

lemma ps_add_old: "peerset_ok A b \<Longrightarrow> ps_wf A h s \<Longrightarrow> i \<in> pid h ` ps_set A s \<Longrightarrow> ps_add A h s i = (h, s)"
  using ps_owned(1) [of A b h s i] by simp

lemma ps_add_new:
  assumes "peerset_ok A b" and "ps_wf A h s" and "i \<notin> pid h ` ps_set A s"
  obtains a raw where "h a = None" and "pr_id raw = i"
    and "fst (ps_add A h s i) = h(a := peer_data_init b (Some raw))"
    and "mset (ps_peers A (snd (ps_add A h s i))) = mset (a # ps_peers A s)"
  using ps_owned(1) [OF assms(1,2), of i] assms(3) that by auto

lemma ps_pop_set: "peerset_ok A b \<Longrightarrow> ps_wf A h s \<Longrightarrow> ps_set A (snd (ps_pop A h s i)) = {a \<in> ps_set A s. pid h a \<noteq> i}"
  using mset_set_distinct(1) [OF ps_pop_mset, of A b h s i] by auto

lemma ps_pop_wf: "peerset_ok A b \<Longrightarrow> ps_wf A h s \<Longrightarrow> ps_wf A h (snd (ps_pop A h s i))"
  using mset_set_distinct(2) [OF ps_pop_mset, of A b h s i] ps_pop_set [of A b h s i]
  by (auto simp: ps_wf_def intro: inj_on_subset)

lemma ps_remove_set: "peerset_ok A b \<Longrightarrow> ps_wf A h s \<Longrightarrow> ps_set A (snd (ps_remove A h s i)) = {a \<in> ps_set A s. pid h a \<noteq> i}"
  using mset_set_distinct(1) [OF ps_remove_mset, of A b h s i] by auto

lemma ps_remove_distinct: "peerset_ok A b \<Longrightarrow> ps_wf A h s \<Longrightarrow> distinct (ps_peers A (snd (ps_remove A h s i)))"
  using mset_set_distinct(2) [OF ps_remove_mset, of A b h s i] by (auto simp: ps_wf_def)

lemma ps_push_set:
  "peerset_ok A b \<Longrightarrow> ps_wf A h s \<Longrightarrow> a \<in> dom h \<Longrightarrow>
   ps_set A (ps_push A h s a) = (if pid h a \<in> pid h ` ps_set A s then ps_set A s else insert a (ps_set A s))"
  using mset_set_distinct(1) [of "ps_peers A (ps_push A h s a)" "ps_peers A s"]
    mset_set_distinct(1) [of "ps_peers A (ps_push A h s a)" "a # ps_peers A s"]
  by (auto simp: ps_push_mset split: if_splits)

lemma ps_push_distinct:
  assumes "peerset_ok A b" and "ps_wf A h s" and "a \<in> dom h"
  shows "distinct (ps_peers A (ps_push A h s a))"
proof (cases "pid h a \<in> pid h ` ps_set A s")
  case True
  then have "mset (ps_peers A (ps_push A h s a)) = mset (ps_peers A s)" using ps_push_mset [OF assms] by simp
  then show ?thesis using mset_set_distinct(2) assms(2) unfolding ps_wf_def by blast
next
  case False
  then have "mset (ps_peers A (ps_push A h s a)) = mset (a # ps_peers A s)" using ps_push_mset [OF assms] by simp
  moreover have "distinct (a # ps_peers A s)" using assms(2) False by (auto simp: ps_wf_def)
  ultimately show ?thesis using mset_set_distinct(2) by blast
qed

lemma ps_push_wf:
  assumes "peerset_ok A b" and "ps_wf A h s" and "a \<in> dom h"
  shows "ps_wf A h (ps_push A h s a)"
  using assms ps_push_distinct [OF assms] ps_push_set [OF assms] by (auto simp: ps_wf_def)

lemma ps_wf_size: "ps_wf A h s \<Longrightarrow> ps_size A s = card (ps_set A s)"
  by (simp add: ps_wf_def distinct_card)

lemma ps_wf_cong:
  assumes "ps_wf A h s" and "\<And>a. a \<in> ps_set A s \<Longrightarrow> \<exists>p. h' a = Some p \<and> pr_id p = pid h a" and "finite (dom h')"
  shows "ps_wf A h' s"
proof -
  have eq: "pid h' a = pid h a" if "a \<in> ps_set A s" for a
    using assms(2) [OF that] by (auto simp: pid_def)
  have "inj_on (pid h') (ps_set A s)" using assms(1) eq by (simp add: ps_wf_def cong: inj_on_cong)
  then show ?thesis using assms by (auto simp: ps_wf_def dom_def)
qed

section \<open>The invariant\<close>

text \<open>The neighbourhood and the swarm share no peer and no identifier, every peer they list is live and has
  its data, and \<open>locked_neighs\<close> points only to peers one of them owns.\<close>

definition live_peers :: "('n, 'b) peer_store \<Rightarrow> nat set \<Rightarrow> bool" where
  "live_peers h X \<longleftrightarrow> finite (dom h) \<and> inj_on (pid h) X \<and> (\<forall>a \<in> X. \<exists>p u. h a = Some p \<and> pr_user_data p = Some u)"

definition topo_sets :: "('s, 'n, 'b) peerset_api \<Rightarrow> ('n, 'b) peer_store \<Rightarrow> 's \<Rightarrow> 's \<Rightarrow> 's \<Rightarrow> bool" where
  "topo_sets A h nb sw lk \<longleftrightarrow>
     distinct (ps_peers A nb) \<and> distinct (ps_peers A sw) \<and> distinct (ps_peers A lk) \<and>
     live_peers h (ps_set A nb \<union> ps_set A sw) \<and> ps_set A nb \<inter> ps_set A sw = {} \<and>
     ps_set A lk \<subseteq> ps_set A nb \<union> ps_set A sw"

definition topo_inv :: "('s, 'n, 'b) peerset_api \<Rightarrow> ('s, 'p, 'n, 'b) topology \<Rightarrow> bool" where
  "topo_inv A t \<longleftrightarrow> topo_sets A (tp_peers t) (neighbourhood t) (swarm_bucket t) (locked_neighs t)"

lemma live_peers_subset: "live_peers h X \<Longrightarrow> Y \<subseteq> X \<Longrightarrow> live_peers h Y"
  by (auto simp: live_peers_def intro: inj_on_subset)

lemma live_peers_wf: "live_peers h X \<Longrightarrow> ps_set A s \<subseteq> X \<Longrightarrow> distinct (ps_peers A s) \<Longrightarrow> ps_wf A h s"
  by (fastforce simp: live_peers_def ps_wf_def intro: inj_on_subset)

lemma topo_sets_wf:
  assumes "topo_sets A h nb sw lk"
  shows "ps_wf A h nb" and "ps_wf A h sw" and "ps_wf A h lk"
  using assms live_peers_wf [of h "ps_set A nb \<union> ps_set A sw" A] by (auto simp: topo_sets_def)

lemma live_peers_new:
  assumes "live_peers h X" and "h a = None" and "pr_id raw \<notin> pid h ` X"
  shows "live_peers (h(a := peer_data_init b (Some raw))) (insert a X)"
proof -
  have a: "a \<notin> X" using assms(1,2) by (auto simp: live_peers_def)
  have eq: "pid (h(a := peer_data_init b (Some raw))) x = pid h x" if "x \<in> X" for x
    using that a by (auto simp: pid_def)
  have new: "pid (h(a := peer_data_init b (Some raw))) a = pr_id raw" by (simp add: pid_def peer_data_init_def)
  have "inj_on (pid (h(a := peer_data_init b (Some raw)))) X"
    using assms(1) eq by (simp add: live_peers_def cong: inj_on_cong)
  moreover have "pid (h(a := peer_data_init b (Some raw))) ` X = pid h ` X"
    using eq by (simp cong: image_cong)
  ultimately show ?thesis
    using assms a new by (auto simp: live_peers_def peer_data_init_def)
qed

lemma live_peers_update:
  assumes "live_peers h X" and "h a = Some p" and "pr_id q = pr_id p" and "pr_user_data q = pr_user_data p"
  shows "live_peers (h(a := Some q)) X"
proof -
  have "pid (h(a := Some q)) = pid h" using assms(2,3) by (auto simp: pid_def)
  then show ?thesis using assms by (auto simp: live_peers_def)
qed

lemma live_peers_release:
  assumes "live_peers h X" and "a \<notin> Y" and "Y \<subseteq> X"
  shows "live_peers (h(a := None)) Y"
proof -
  have eq: "pid (h(a := None)) x = pid h x" if "x \<in> Y" for x
    using that assms(2) by (auto simp: pid_def)
  have "inj_on (pid h) Y" using assms by (auto simp: live_peers_def intro: inj_on_subset)
  then have "inj_on (pid (h(a := None))) Y" using eq by (simp cong: inj_on_cong)
  then show ?thesis using assms by (auto simp: live_peers_def)
qed

section \<open>Every operation on the sets of identifiers\<close>

definition ps_ids :: "('s, 'n, 'b) peerset_api \<Rightarrow> ('n, 'b) peer_store \<Rightarrow> 's \<Rightarrow> 'n set" where
  "ps_ids A h s = pid h ` ps_set A s"

definition topo_view :: "('s, 'n, 'b) peerset_api \<Rightarrow> ('s, 'p, 'n, 'b) topology \<Rightarrow> 'n set \<times> 'n set \<times> 'n set" where
  "topo_view A t =
     (ps_ids A (tp_peers t) (neighbourhood t), ps_ids A (tp_peers t) (swarm_bucket t), ps_ids A (tp_peers t) (locked_neighs t))"

lemma pid_upd_image: "a \<notin> X \<Longrightarrow> pid (h(a := v)) ` X = pid h ` X"
  by (rule image_cong) (auto simp: pid_def)

lemma live_not_fresh: "live_peers h X \<Longrightarrow> h a = None \<Longrightarrow> a \<notin> X"
  by (auto simp: live_peers_def)

lemma ps_get_ids:
  assumes "peerset_ok A b" and "ps_wf A h s"
  shows "ps_get A h s i = None \<longleftrightarrow> i \<notin> ps_ids A h s"
  using ps_get_None_iff [OF assms] by (simp add: ps_ids_def)

lemma topo_sets_locked_ids:
  assumes "topo_sets A h nb sw lk"
  shows "ps_ids A h lk \<subseteq> ps_ids A h nb \<union> ps_ids A h sw" and "ps_ids A h nb \<inter> ps_ids A h sw = {}"
proof -
  have inj: "inj_on (pid h) (ps_set A nb \<union> ps_set A sw)" and disj: "ps_set A nb \<inter> ps_set A sw = {}"
    and lk: "ps_set A lk \<subseteq> ps_set A nb \<union> ps_set A sw"
    using assms by (auto simp: topo_sets_def live_peers_def)
  show "ps_ids A h lk \<subseteq> ps_ids A h nb \<union> ps_ids A h sw" using lk by (auto simp: ps_ids_def)
  show "ps_ids A h nb \<inter> ps_ids A h sw = {}"
    using inj_on_image_Int [OF inj, of "ps_set A nb" "ps_set A sw"] disj by (simp add: ps_ids_def)
qed

lemma add_new_swarm:
  assumes ok: "peerset_ok A b" and inv: "topo_sets A h nb sw lk" and new: "i \<notin> ps_ids A h nb \<union> ps_ids A h sw"
    and add: "ps_add A h sw i = (h', sw')"
  shows "topo_sets A h' nb sw' lk" and "ps_ids A h' nb = ps_ids A h nb" and "ps_ids A h' lk = ps_ids A h lk"
    and "ps_ids A h' sw' = insert i (ps_ids A h sw)"
proof -
  have live: "live_peers h (ps_set A nb \<union> ps_set A sw)" and wf: "ps_wf A h sw"
    using inv topo_sets_wf [OF inv] by (auto simp: topo_sets_def)
  obtain a raw where a: "h a = None" "pr_id raw = i" "h' = h(a := peer_data_init b (Some raw))"
    and ms: "mset (ps_peers A sw') = mset (a # ps_peers A sw)"
    using ps_add_new [OF ok wf, of i] new add by (auto simp: ps_ids_def)
  have out: "a \<notin> ps_set A nb \<union> ps_set A sw" using live_not_fresh [OF live a(1)] .
  have lko: "a \<notin> ps_set A lk" using out inv by (auto simp: topo_sets_def)
  have sw': "ps_set A sw' = insert a (ps_set A sw)" using mset_set_distinct(1) [OF ms] by simp
  have "live_peers h' (insert a (ps_set A nb \<union> ps_set A sw))"
    unfolding a(3) using live_peers_new [OF live a(1)] new a(2) by (simp add: ps_ids_def image_Un)
  moreover have "distinct (ps_peers A sw')" using mset_set_distinct(2) [OF ms] out inv by (simp add: topo_sets_def)
  ultimately show "topo_sets A h' nb sw' lk" using inv out by (auto simp: topo_sets_def sw')
  show "ps_ids A h' nb = ps_ids A h nb" "ps_ids A h' lk = ps_ids A h lk"
    using out lko by (simp_all add: ps_ids_def a(3) pid_upd_image)
  have "pid h' a = i" using a(2) by (simp add: a(3) pid_def peer_data_init_def)
  then show "ps_ids A h' sw' = insert i (ps_ids A h sw)"
    using out by (simp add: ps_ids_def sw' a(3) pid_upd_image)
qed

lemma topo_sets_swap: "topo_sets A h nb sw lk \<longleftrightarrow> topo_sets A h sw nb lk"
  by (auto simp: topo_sets_def Un_commute Int_commute)

lemma get_peer_None:
  assumes "peerset_ok A b" and "topo_inv A t"
  shows "topology_get_peer A t i = None \<longleftrightarrow> i \<notin> fst (topo_view A t) \<union> fst (snd (topo_view A t))"
  using assms topo_sets_wf [of A "tp_peers t" "neighbourhood t" "swarm_bucket t" "locked_neighs t"]
    ps_get_ids [of A b "tp_peers t" "neighbourhood t" i] ps_get_ids [of A b "tp_peers t" "swarm_bucket t" i]
  by (auto simp: topo_inv_def topology_get_peer_def topo_view_def split: option.split)

lemma get_peer_Some:
  assumes "peerset_ok A b" and "topo_inv A t" and "topology_get_peer A t i = Some a"
  obtains p u where "tp_peers t a = Some p" and "pr_id p = i" and "pr_user_data p = Some u"
    and "a \<in> ps_set A (neighbourhood t) \<union> ps_set A (swarm_bucket t)"
proof -
  have inv: "topo_sets A (tp_peers t) (neighbourhood t) (swarm_bucket t) (locked_neighs t)"
    using assms(2) by (simp add: topo_inv_def)
  have *: "a \<in> ps_set A (neighbourhood t) \<union> ps_set A (swarm_bucket t) \<and> pid (tp_peers t) a = i"
    using assms(3) ps_get_Some_iff [OF assms(1) topo_sets_wf(1) [OF inv]] ps_get_Some_iff [OF assms(1) topo_sets_wf(2) [OF inv]]
    by (auto simp: topology_get_peer_def split: option.split_asm)
  have "\<forall>a \<in> ps_set A (neighbourhood t) \<union> ps_set A (swarm_bucket t).
      \<exists>p u. tp_peers t a = Some p \<and> pr_user_data p = Some u"
    using inv unfolding topo_sets_def live_peers_def by blast
  with * obtain p u where "tp_peers t a = Some p" "pr_user_data p = Some u" by blast
  with * show ?thesis using that by (auto simp: pid_def)
qed

lemma swarm_add_view:
  assumes "peerset_ok A b" and "topo_inv A t" and "topology_get_peer A t i = None"
  shows "topo_inv A (swarm_add A i t)"
    and "topo_view A (swarm_add A i t) = (case topo_view A t of (N, W, L) \<Rightarrow> (N, insert i W, L))"
proof -
  obtain h' sw' where add: "ps_add A (tp_peers t) (swarm_bucket t) i = (h', sw')" by fastforce
  have new: "i \<notin> ps_ids A (tp_peers t) (neighbourhood t) \<union> ps_ids A (tp_peers t) (swarm_bucket t)"
    using get_peer_None [OF assms(1,2), of i] assms(3) by (simp add: topo_view_def)
  note r = add_new_swarm [OF assms(1) assms(2) [unfolded topo_inv_def] new add]
  show "topo_inv A (swarm_add A i t)" using r(1) by (simp add: swarm_add_def topo_inv_def add)
  show "topo_view A (swarm_add A i t) = (case topo_view A t of (N, W, L) \<Rightarrow> (N, insert i W, L))"
    using r by (simp add: swarm_add_def topo_view_def add)
qed

lemma node_insert_view:
  assumes "peerset_ok A b" and "topo_inv A t"
  shows "topo_inv A (snd (topology_node_insert A S i t))"
    and "topo_view A (snd (topology_node_insert A S i t)) =
           (case topo_view A t of (N, W, L) \<Rightarrow> (N, if i \<in> N then W else insert i W, L))"
proof -
  have tc: "topo_inv A (t\<lparr>tp_tc := x\<rparr>) = topo_inv A t" "topo_view A (t\<lparr>tp_tc := x\<rparr>) = topo_view A t"
    for x and t :: "('a, 'd, 'b, 'c) topology" by (simp_all add: topo_inv_def topo_view_def)
  show "topo_inv A (snd (topology_node_insert A S i t))"
    using assms swarm_add_view(1) [OF assms]
    by (auto simp: topology_node_insert_def Let_def tc split: prod.split)
  show "topo_view A (snd (topology_node_insert A S i t)) =
           (case topo_view A t of (N, W, L) \<Rightarrow> (N, if i \<in> N then W else insert i W, L))"
    using swarm_add_view(2) [OF assms] get_peer_None [OF assms, of i]
    by (auto simp: topology_node_insert_def Let_def tc insert_absorb split: prod.split)
qed

lemma move_one:
  assumes ok: "peerset_ok A b" and inv: "topo_sets A h nb sw lk" and a: "a \<in> ps_set A sw"
  obtains sw' where "ps_pop A h sw (pid h a) = (Some a, sw')" and "ps_set A sw' = ps_set A sw - {a}"
    and "ps_set A (ps_push A h nb a) = insert a (ps_set A nb)" and "topo_sets A h (ps_push A h nb a) sw' lk"
proof -
  note wf = topo_sets_wf [OF inv]
  have inj: "inj_on (pid h) (ps_set A nb \<union> ps_set A sw)" and dom: "a \<in> dom h"
    and disj: "ps_set A nb \<inter> ps_set A sw = {}"
    using inv a by (auto simp: topo_sets_def live_peers_def)
  have pop: "fst (ps_pop A h sw (pid h a)) = Some a"
    using ps_pop_fst [OF ok wf(2)] ps_get_Some_iff [OF ok wf(2)] a by simp
  have s1: "ps_set A (snd (ps_pop A h sw (pid h a))) = ps_set A sw - {a}"
    using ps_pop_set [OF ok wf(2)] inj a by (auto simp: inj_on_def)
  have s2: "ps_set A (ps_push A h nb a) = insert a (ps_set A nb)"
    using ps_push_set [OF ok wf(1) dom] inj a disj by (auto simp: inj_on_def)
  have "distinct (ps_peers A (ps_push A h nb a))" using ps_push_distinct [OF ok wf(1) dom] .
  moreover have "distinct (ps_peers A (snd (ps_pop A h sw (pid h a))))"
    using ps_pop_wf [OF ok wf(2)] by (simp add: ps_wf_def)
  moreover have "insert a (ps_set A nb) \<union> (ps_set A sw - {a}) = ps_set A nb \<union> ps_set A sw" using a by auto
  ultimately have "topo_sets A h (ps_push A h nb a) (snd (ps_pop A h sw (pid h a))) lk"
    using inv s1 s2 by (auto simp: topo_sets_def)
  then show ?thesis using that [of "snd (ps_pop A h sw (pid h a))"] pop s1 s2 by (metis prod.collapse)
qed

lemma pop_absent:
  assumes "peerset_ok A b" and "ps_wf A h s" and "i \<notin> ps_ids A h s"
  shows "fst (ps_pop A h s i) = None" and "ps_set A (snd (ps_pop A h s i)) = ps_set A s"
    and "distinct (ps_peers A (snd (ps_pop A h s i)))"
  using assms ps_pop_fst [OF assms(1,2), of i] ps_get_ids [OF assms(1,2), of i] ps_pop_set [OF assms(1,2), of i]
    ps_pop_wf [OF assms(1,2), of i]
  by (auto simp: ps_ids_def ps_wf_def)

lemma topo_sets_same_set:
  assumes "topo_sets A h nb sw lk" and "ps_set A sw' = ps_set A sw" and "distinct (ps_peers A sw')"
  shows "topo_sets A h nb sw' lk"
  using assms by (simp add: topo_sets_def)

lemma push_locked:
  assumes ok: "peerset_ok A b" and inv: "topo_sets A h nb sw lk" and a: "a \<in> ps_set A nb"
  shows "topo_sets A h nb sw (ps_push A h lk a)"
    and "ps_ids A h (ps_push A h lk a) = insert (pid h a) (ps_ids A h lk)"
proof -
  have dom: "a \<in> dom h" using inv a by (auto simp: topo_sets_def live_peers_def)
  note s = ps_push_set [OF ok topo_sets_wf(3) [OF inv] dom]
  show "topo_sets A h nb sw (ps_push A h lk a)"
    using inv a s ps_push_distinct [OF ok topo_sets_wf(3) [OF inv] dom] by (auto simp: topo_sets_def)
  show "ps_ids A h (ps_push A h lk a) = insert (pid h a) (ps_ids A h lk)"
    using s by (auto simp: ps_ids_def)
qed

lemma pop_locked:
  assumes ok: "peerset_ok A b" and inv: "topo_sets A h nb sw lk"
  shows "topo_sets A h nb sw (snd (ps_pop A h lk i))" and "ps_ids A h (snd (ps_pop A h lk i)) = ps_ids A h lk - {i}"
  using inv ps_pop_set [OF ok topo_sets_wf(3) [OF inv], of i] ps_pop_wf [OF ok topo_sets_wf(3) [OF inv], of i]
  by (auto simp: topo_sets_def ps_wf_def ps_ids_def)

text \<open>The fields no operation on peers changes.\<close>

definition topo_cfg :: "('s, 'p, 'n, 'b) topology \<Rightarrow> rat \<times> bool \<times> bool \<times> int \<times> timeval \<times> metadata" where
  "topo_cfg t = (topo_mem t, topo_out t, topo_in t, neighbourhood_target_size t, tout_bmap t, my_metadata t)"

lemma add_new_neighbour:
  assumes "peerset_ok A b" and "topo_sets A h nb sw lk" and "i \<notin> ps_ids A h nb \<union> ps_ids A h sw"
    and "ps_add A h nb i = (h', nb')"
  shows "topo_sets A h' nb' sw lk" and "ps_ids A h' sw = ps_ids A h sw" and "ps_ids A h' lk = ps_ids A h lk"
    and "ps_ids A h' nb' = insert i (ps_ids A h nb)"
  using add_new_swarm [of A b h sw nb lk i h' nb'] assms by (simp_all add: topo_sets_swap [of A _ nb'] topo_sets_swap [of A h nb] Un_commute)

lemma add_peer_view:
  assumes ok: "peerset_ok A b" and inv: "topo_inv A t"
  obtains a t' where "neighbourhood_add_peer A (Some i) t = Inr (Some a, t')" and "topo_inv A t'"
    and "topo_view A t' =
           (case topo_view A t of (N, W, L) \<Rightarrow> (insert i N, W - {i}, if i \<in> W then L else insert i L))"
    and "a \<in> ps_set A (neighbourhood t')" and "pid (tp_peers t') a = i"
    and "tp_sent t' = tp_sent t @ [Bmap_to i]" and "topo_cfg t' = topo_cfg t"
proof -
  define h nb sw lk where d: "h = tp_peers t" "nb = neighbourhood t" "sw = swarm_bucket t" "lk = locked_neighs t"
  have inv': "topo_sets A h nb sw lk" using inv by (simp add: topo_inv_def d)
  note wf = topo_sets_wf [OF inv']
  show ?thesis
  proof (cases "i \<in> ps_ids A h sw")
    case True
    then obtain a where a: "a \<in> ps_set A sw" "pid h a = i" by (auto simp: ps_ids_def)
    from move_one [OF ok inv' a(1)] a(2) obtain sw' where
      m: "ps_pop A h sw i = (Some a, sw')" "ps_set A sw' = ps_set A sw - {a}"
        "ps_set A (ps_push A h nb a) = insert a (ps_set A nb)" "topo_sets A h (ps_push A h nb a) sw' lk" by metis
    have inj: "inj_on (pid h) (ps_set A sw)" using wf(2) by (simp add: ps_wf_def)
    have "ps_ids A h sw' = ps_ids A h sw - {i}"
      using inj a m(2) by (auto simp: ps_ids_def inj_on_def)
    then show ?thesis
      using m a True
      by (intro that [of a "t\<lparr>swarm_bucket := sw', neighbourhood := ps_push A h nb a, tp_sent := tp_sent t @ [Bmap_to i]\<rparr>"])
        (simp_all add: neighbourhood_add_peer_def d topo_inv_def topo_view_def topo_cfg_def ps_ids_def)
  next
    case False
    obtain sw' where p: "ps_pop A h sw i = (None, sw')" and s: "ps_set A sw' = ps_set A sw" "distinct (ps_peers A sw')"
      using pop_absent [OF ok wf(2) False] by (metis prod.collapse)
    have inv2: "topo_sets A h nb sw' lk" by (rule topo_sets_same_set [OF inv' s])
    have ids2: "ps_ids A h sw' = ps_ids A h sw" by (simp add: ps_ids_def s)
    obtain h' nb' where add: "ps_add A h nb i = (h', nb')" by fastforce
    have "topo_sets A h' nb' sw' lk \<and> ps_ids A h' sw' = ps_ids A h sw \<and> ps_ids A h' lk = ps_ids A h lk \<and>
      ps_ids A h' nb' = insert i (ps_ids A h nb)"
    proof (cases "i \<in> ps_ids A h nb")
      case True
      then have "h' = h" "nb' = nb" using ps_add_old [OF ok wf(1)] add by (auto simp: ps_ids_def)
      then show ?thesis using inv2 ids2 True by auto
    next
      case nn: False
      then have "i \<notin> ps_ids A h nb \<union> ps_ids A h sw'" using False ids2 by simp
      from add_new_neighbour [OF ok inv2 this add] ids2 show ?thesis by simp
    qed
    note r = this
    then have inv3: "topo_sets A h' nb' sw' lk" by simp
    have "i \<in> ps_ids A h' nb'" using r by simp
    then obtain a where g: "ps_get A h' nb' i = Some a"
      using ps_get_ids [OF ok topo_sets_wf(1) [OF inv3]] by (cases "ps_get A h' nb' i") auto
    then have a: "a \<in> ps_set A nb'" "pid h' a = i" using ps_get_Some_iff [OF ok topo_sets_wf(1) [OF inv3]] by auto
    note l = push_locked [OF ok inv3 a(1)]
    have "neighbourhood_add_peer A (Some i) t =
        Inr (Some a, t\<lparr>swarm_bucket := sw', tp_peers := h', neighbourhood := nb',
                       locked_neighs := ps_push A h' lk a, tp_sent := tp_sent t @ [Bmap_to i]\<rparr>)"
      using p add g by (simp add: neighbourhood_add_peer_def d)
    then show ?thesis
      using l a r False
      by (intro that [of a "t\<lparr>swarm_bucket := sw', tp_peers := h', neighbourhood := nb',
                       locked_neighs := ps_push A h' lk a, tp_sent := tp_sent t @ [Bmap_to i]\<rparr>"])
        (simp_all add: topo_inv_def topo_view_def topo_cfg_def d)
  qed
qed

lemma remove_peer_view:
  assumes ok: "peerset_ok A b" and inv: "topo_inv A t"
  shows "topo_inv A (neighbourhood_remove_peer A (Some i) t)"
    and "topo_view A (neighbourhood_remove_peer A (Some i) t) =
           (case topo_view A t of (N, W, L) \<Rightarrow> (N - {i}, if i \<in> N then insert i W else W, L - {i}))"
    and "topo_cfg (neighbourhood_remove_peer A (Some i) t) = topo_cfg t"
    and "tp_sent (neighbourhood_remove_peer A (Some i) t) = tp_sent t"
proof -
  define h nb sw lk where d: "h = tp_peers t" "nb = neighbourhood t" "sw = swarm_bucket t" "lk = locked_neighs t"
  have inv': "topo_sets A h nb sw lk" using inv by (simp add: topo_inv_def d)
  note wf = topo_sets_wf [OF inv']
  have "topo_inv A (neighbourhood_remove_peer A (Some i) t) \<and>
    topo_view A (neighbourhood_remove_peer A (Some i) t) =
      (case topo_view A t of (N, W, L) \<Rightarrow> (N - {i}, if i \<in> N then insert i W else W, L - {i}))"
  proof (cases "i \<in> ps_ids A h nb")
    case True
    then obtain a where a: "a \<in> ps_set A nb" "pid h a = i" by (auto simp: ps_ids_def)
    from move_one [OF ok inv' [unfolded topo_sets_swap [of A h nb]] a(1)] a(2) obtain nb' where
      m: "ps_pop A h nb i = (Some a, nb')" "ps_set A nb' = ps_set A nb - {a}"
        "ps_set A (ps_push A h sw a) = insert a (ps_set A sw)" "topo_sets A h nb' (ps_push A h sw a) lk"
      using topo_sets_swap by metis
    have inj: "inj_on (pid h) (ps_set A nb)" using wf(1) by (simp add: ps_wf_def)
    have "ps_ids A h nb' = ps_ids A h nb - {i}" using inj a m(2) by (auto simp: ps_ids_def inj_on_def)
    moreover have "ps_ids A h (ps_push A h sw a) = insert i (ps_ids A h sw)" using a m(3) by (simp add: ps_ids_def)
    moreover note pop_locked [OF ok m(4), of i]
    ultimately show ?thesis
      using True m(1) by (simp add: neighbourhood_remove_peer_def topo_inv_def topo_view_def d [symmetric])
  next
    case False
    obtain nb' where p: "ps_pop A h nb i = (None, nb')" and s: "ps_set A nb' = ps_set A nb" "distinct (ps_peers A nb')"
      using pop_absent [OF ok wf(1) False] by (metis prod.collapse)
    have inv2: "topo_sets A h nb' sw lk"
      using topo_sets_same_set [OF inv' [unfolded topo_sets_swap [of A h nb]] s] topo_sets_swap by metis
    moreover have "ps_ids A h nb' = ps_ids A h nb" by (simp add: ps_ids_def s)
    moreover note pop_locked [OF ok inv2, of i]
    ultimately show ?thesis
      using False p by (simp add: neighbourhood_remove_peer_def topo_inv_def topo_view_def d [symmetric])
  qed
  then show "topo_inv A (neighbourhood_remove_peer A (Some i) t)"
    and "topo_view A (neighbourhood_remove_peer A (Some i) t) =
           (case topo_view A t of (N, W, L) \<Rightarrow> (N - {i}, if i \<in> N then insert i W else W, L - {i}))" by simp_all
  show "topo_cfg (neighbourhood_remove_peer A (Some i) t) = topo_cfg t"
    and "tp_sent (neighbourhood_remove_peer A (Some i) t) = tp_sent t"
    by (simp_all add: neighbourhood_remove_peer_def topo_cfg_def Let_def split: prod.split)
qed

text \<open>Releasing a peer from one of two sets that share nothing.\<close>

lemma remove_release:
  assumes ok: "peerset_ok A b" and inv: "topo_sets A h nb sw lk" and lk: "i \<notin> ps_ids A h lk"
    and rem: "ps_remove A h nb i = (h', nb')"
  shows "topo_sets A h' nb' sw lk" and "ps_ids A h' nb' = ps_ids A h nb - {i}"
    and "ps_ids A h' sw = ps_ids A h sw" and "ps_ids A h' lk = ps_ids A h lk"
    and "ps_set A nb' = {a \<in> ps_set A nb. pid h a \<noteq> i}"
    and "h' = (\<lambda>a. if a \<in> ps_set A nb \<and> pid h a = i then None else h a)"
proof -
  note wf = topo_sets_wf [OF inv]
  have inj: "inj_on (pid h) (ps_set A nb)" using wf(1) by (simp add: ps_wf_def)
  show set': "ps_set A nb' = {a \<in> ps_set A nb. pid h a \<noteq> i}" using ps_remove_set [OF ok wf(1), of i] rem by simp
  have dist': "distinct (ps_peers A nb')" using ps_remove_distinct [OF ok wf(1), of i] rem by simp
  have h': "h' = (case ps_get A h nb i of Some a \<Rightarrow> h(a := None) | None \<Rightarrow> h)"
    using ps_remove_fst [OF ok wf(1), of i] rem by simp
  have live: "live_peers h (ps_set A nb \<union> ps_set A sw)" using inv by (simp add: topo_sets_def)
  have "topo_sets A h' nb' sw lk \<and> ps_ids A h' nb' = ps_ids A h nb - {i} \<and>
    ps_ids A h' sw = ps_ids A h sw \<and> ps_ids A h' lk = ps_ids A h lk \<and>
    h' = (\<lambda>a. if a \<in> ps_set A nb \<and> pid h a = i then None else h a)"
  proof (cases "ps_get A h nb i")
    case None
    then have n: "i \<notin> pid h ` ps_set A nb" using ps_get_None_iff [OF ok wf(1)] by simp
    then have "ps_set A nb' = ps_set A nb" using set' by auto
    moreover have "h' = h" using None h' by simp
    moreover have "(\<lambda>a. if a \<in> ps_set A nb \<and> pid h a = i then None else h a) = h" using n by (intro ext) auto
    ultimately show ?thesis
      using n inv dist' by (auto simp: topo_sets_def ps_ids_def)
  next
    case (Some a)
    then have a: "a \<in> ps_set A nb" "pid h a = i" using ps_get_Some_iff [OF ok wf(1)] by auto
    have s: "ps_set A nb' = ps_set A nb - {a}" using set' a inj by (auto simp: inj_on_def)
    have asw: "a \<notin> ps_set A sw" using a(1) inv by (auto simp: topo_sets_def)
    have alk: "a \<notin> ps_set A lk" using a(2) lk by (auto simp: ps_ids_def)
    have h2: "h' = h(a := None)" using Some h' by simp
    have "live_peers h' (ps_set A nb' \<union> ps_set A sw)"
      unfolding h2 by (rule live_peers_release [OF live]) (use asw s in auto)
    then have "topo_sets A h' nb' sw lk" using inv dist' s alk by (auto simp: topo_sets_def)
    moreover have "ps_ids A h' nb' = ps_ids A h nb - {i}"
      using s a inj by (auto simp: h2 ps_ids_def pid_upd_image inj_on_def)
    moreover have "ps_ids A h' sw = ps_ids A h sw" "ps_ids A h' lk = ps_ids A h lk"
      using asw alk by (simp_all add: h2 ps_ids_def pid_upd_image)
    moreover have "h' = (\<lambda>a. if a \<in> ps_set A nb \<and> pid h a = i then None else h a)"
      using a inj by (auto simp: h2 fun_eq_iff inj_on_def)
    ultimately show ?thesis by blast
  qed
  then show "topo_sets A h' nb' sw lk" "ps_ids A h' nb' = ps_ids A h nb - {i}"
    "ps_ids A h' sw = ps_ids A h sw" "ps_ids A h' lk = ps_ids A h lk"
    "h' = (\<lambda>a. if a \<in> ps_set A nb \<and> pid h a = i then None else h a)" by blast+
qed

lemma forget_peer_view:
  assumes ok: "peerset_ok A b" and inv: "topo_inv A t"
  shows "topo_inv A (topology_remove_peer A S (Some i) t)"
    and "topo_view A (topology_remove_peer A S (Some i) t) =
           (case topo_view A t of (N, W, L) \<Rightarrow> (N - {i}, W - {i}, L - {i}))"
    and "topo_cfg (topology_remove_peer A S (Some i) t) = topo_cfg t"
    and "tp_sent (topology_remove_peer A S (Some i) t) = tp_sent t"
    and "ps_set A (neighbourhood (topology_remove_peer A S (Some i) t)) = {a \<in> ps_set A (neighbourhood t). pid (tp_peers t) a \<noteq> i}"
    and "ps_set A (swarm_bucket (topology_remove_peer A S (Some i) t)) = {a \<in> ps_set A (swarm_bucket t). pid (tp_peers t) a \<noteq> i}"
    and "tp_peers (topology_remove_peer A S (Some i) t) =
      (\<lambda>a. if a \<in> ps_set A (neighbourhood t) \<union> ps_set A (swarm_bucket t) \<and> pid (tp_peers t) a = i then None else tp_peers t a)"
proof -
  define h nb sw lk where d: "h = tp_peers t" "nb = neighbourhood t" "sw = swarm_bucket t" "lk = locked_neighs t"
  have inv': "topo_sets A h nb sw lk" using inv by (simp add: topo_inv_def d)
  define lk' where lk': "lk' = snd (ps_pop A h lk i)"
  note l = pop_locked [OF ok inv', of i, folded lk']
  obtain h1 nb' where r1: "ps_remove A h nb i = (h1, nb')" by fastforce
  have nl: "i \<notin> ps_ids A h lk'" using l by simp
  note s1 = remove_release [OF ok l(1) nl r1]
  obtain h2 sw' where r2: "ps_remove A h1 sw i = (h2, sw')" by fastforce
  have nl2: "i \<notin> ps_ids A h1 lk'" using s1(4) nl by simp
  note s2 = remove_release [OF ok s1(1) [unfolded topo_sets_swap [of A h1 nb']] nl2 r2]
  have inv2: "topo_sets A h2 nb' sw' lk'" using s2(1) topo_sets_swap by metis
  have eq: "topology_remove_peer A S (Some i) t =
      t\<lparr>locked_neighs := lk', tp_tc := sa_remove_peer S (tp_tc t) i, neighbourhood := nb', swarm_bucket := sw', tp_peers := h2\<rparr>"
    using r1 r2 by (simp add: topology_remove_peer_def d [symmetric] lk')
  show "topo_inv A (topology_remove_peer A S (Some i) t)" using inv2 by (simp add: eq topo_inv_def)
  show "topo_view A (topology_remove_peer A S (Some i) t) =
           (case topo_view A t of (N, W, L) \<Rightarrow> (N - {i}, W - {i}, L - {i}))"
    using s1 s2 l by (simp add: eq topo_view_def d [symmetric])
  have disj: "ps_set A nb \<inter> ps_set A sw = {}" using inv' by (simp add: topo_sets_def)
  have same: "h1 a = h a" if "a \<in> ps_set A sw" for a using that disj s1(6) by auto
  then have pids: "pid h1 a = pid h a" if "a \<in> ps_set A sw" for a using that by (simp add: pid_def)
  show "ps_set A (neighbourhood (topology_remove_peer A S (Some i) t)) = {a \<in> ps_set A (neighbourhood t). pid (tp_peers t) a \<noteq> i}"
    using s1(5) by (simp add: eq d [symmetric])
  show "ps_set A (swarm_bucket (topology_remove_peer A S (Some i) t)) = {a \<in> ps_set A (swarm_bucket t). pid (tp_peers t) a \<noteq> i}"
    using s2(5) pids by (auto simp: eq d [symmetric])
  show "tp_peers (topology_remove_peer A S (Some i) t) =
      (\<lambda>a. if a \<in> ps_set A (neighbourhood t) \<union> ps_set A (swarm_bucket t) \<and> pid (tp_peers t) a = i then None else tp_peers t a)"
  proof
    fix a
    have "h2 a = (if a \<in> ps_set A nb \<union> ps_set A sw \<and> pid h a = i then None else h a)"
    proof (cases "a \<in> ps_set A sw")
      case True
      then show ?thesis using fun_cong [OF s2(6), of a] pids [OF True] same [OF True] by simp
    next
      case False
      then show ?thesis using fun_cong [OF s2(6), of a] fun_cong [OF s1(6), of a] by simp
    qed
    then show "tp_peers (topology_remove_peer A S (Some i) t) a =
      (if a \<in> ps_set A (neighbourhood t) \<union> ps_set A (swarm_bucket t) \<and> pid (tp_peers t) a = i then None else tp_peers t a)"
      by (simp add: eq d [symmetric])
  qed
  show "topo_cfg (topology_remove_peer A S (Some i) t) = topo_cfg t"
    and "tp_sent (topology_remove_peer A S (Some i) t) = tp_sent t" by (simp_all add: eq topo_cfg_def)
qed

section \<open>Sampling\<close>

lemma set_metadata_view:
  assumes inv: "topo_inv A t" and a: "tp_peers t a = Some p"
  shows "set_peer_metadata (Some a) m t = Inr (t\<lparr>tp_peers := (tp_peers t)(a := Some (p\<lparr>pr_metadata := Some m\<rparr>))\<rparr>)"
    and "topo_inv A (t\<lparr>tp_peers := (tp_peers t)(a := Some (p\<lparr>pr_metadata := Some m\<rparr>))\<rparr>)"
    and "topo_view A (t\<lparr>tp_peers := (tp_peers t)(a := Some (p\<lparr>pr_metadata := Some m\<rparr>))\<rparr>) = topo_view A t"
proof -
  let ?q = "p\<lparr>pr_metadata := Some m\<rparr>"
  show "set_peer_metadata (Some a) m t = Inr (t\<lparr>tp_peers := (tp_peers t)(a := Some ?q)\<rparr>)"
    using a by (simp add: set_peer_metadata_def peer_at_def peer_set_metadata_def)
  have "pid ((tp_peers t)(a := Some ?q)) = pid (tp_peers t)" using a by (auto simp: pid_def)
  then show "topo_inv A (t\<lparr>tp_peers := (tp_peers t)(a := Some ?q)\<rparr>)"
    and "topo_view A (t\<lparr>tp_peers := (tp_peers t)(a := Some ?q)\<rparr>) = topo_view A t"
    using inv live_peers_update [of "tp_peers t" _ a p ?q] a
    by (simp_all add: topo_inv_def topo_sets_def topo_view_def ps_ids_def)
qed

lemma get_peer_SomeI:
  assumes "peerset_ok A b" and "topo_inv A t" and "i \<in> fst (topo_view A t) \<union> fst (snd (topo_view A t))"
  obtains a p where "topology_get_peer A t i = Some a" and "tp_peers t a = Some p" and "pr_id p = i"
  using get_peer_None [OF assms(1,2), of i] assms(3) get_peer_Some [OF assms(1,2)] by (metis not_None_eq)

lemma swarm_add_frame [simp]:
  "topo_cfg (swarm_add A i t) = topo_cfg t" "tp_sent (swarm_add A i t) = tp_sent t"
  "neighbourhood (swarm_add A i t) = neighbourhood t" "tp_tc (swarm_add A i t) = tp_tc t"
  by (simp_all add: swarm_add_def topo_cfg_def split: prod.split)

lemma sample_loop_view:
  assumes ok: "peerset_ok A b" and "topo_inv A t" and "length ids \<le> length ms"
  shows "\<exists>t'. sample_loop A ids ms t = Inr t' \<and> topo_inv A t' \<and>
    topo_view A t' = (case topo_view A t of (N, W, L) \<Rightarrow> (N, W \<union> (set ids - N), L)) \<and>
    topo_cfg t' = topo_cfg t \<and> tp_sent t' = tp_sent t \<and> neighbourhood t' = neighbourhood t \<and> tp_tc t' = tp_tc t"
  using assms(2,3)
proof (induction ids arbitrary: ms t)
  case Nil
  then show ?case by (simp split: prod.split)
next
  case (Cons i ids)
  from Cons.prems obtain m ms' where ms: "ms = m # ms'" "length ids \<le> length ms'" by (cases ms) auto
  define t1 where t1: "t1 = (if topology_get_peer A t i = None then swarm_add A i t else t)"
  obtain N W L where v: "topo_view A t = (N, W, L)" by (cases "topo_view A t") auto
  have inv1: "topo_inv A t1" using swarm_add_view(1) [OF ok Cons.prems(1)] Cons.prems(1) by (simp add: t1)
  have v1: "topo_view A t1 = (N, W \<union> ({i} - N), L)"
    using swarm_add_view(2) [OF ok Cons.prems(1), of i] get_peer_None [OF ok Cons.prems(1), of i] v
    by (auto simp: t1 insert_absorb)
  have "i \<in> fst (topo_view A t1) \<union> fst (snd (topo_view A t1))" by (auto simp: v1)
  then obtain a p where g: "topology_get_peer A t1 i = Some a" "tp_peers t1 a = Some p" by (rule get_peer_SomeI [OF ok inv1])
  define t2 where t2: "t2 = t1\<lparr>tp_peers := (tp_peers t1)(a := Some (p\<lparr>pr_metadata := Some m\<rparr>))\<rparr>"
  note s = set_metadata_view [OF inv1 g(2), of m, folded t2]
  have v2: "topo_view A t2 = (N, W \<union> ({i} - N), L)" using s(3) v1 by simp
  have frame: "topo_cfg t2 = topo_cfg t" "tp_sent t2 = tp_sent t" "neighbourhood t2 = neighbourhood t" "tp_tc t2 = tp_tc t"
    by (simp_all add: t2 t1 topo_cfg_def) (simp_all add: swarm_add_def split: prod.split)
  have "sample_loop A (i # ids) ms t = sample_loop A ids ms' t2"
    using s(1) g(1) by (simp add: ms(1) t1 [symmetric] Let_def)
  moreover have "W \<union> ({i} - N) \<union> (set ids - N) = W \<union> (set (i # ids) - N)" by auto
  ultimately show ?case using Cons.IH [OF s(2) ms(2)] v2 frame v by simp
qed

section \<open>Shuffling and moving\<close>

lemma shuffle_loop_mset:
  assumes "j < length b \<or> j = 0" and "\<And>i. r i \<le> RAND_MAX"
  shows "mset (shuffle_loop r j b) = mset b"
  using assms(1)
proof (induction j arbitrary: b)
  case (Suc j)
  define newpos where n: "newpos = r (Suc j) * (Suc j + 1) div (RAND_MAX + 1)"
  have "r (Suc j) * (Suc j + 1) < (Suc j + 1) * (RAND_MAX + 1)"
    using assms(2) [of "Suc j"] by (metis add_gr_0 less_Suc_eq_le mult.commute mult_less_mono1 Suc_eq_plus1 zero_less_one)
  then have le: "newpos \<le> Suc j" unfolding n by (simp add: less_mult_imp_div_less less_Suc_eq_le [symmetric])
  have "mset ((b[newpos := b ! Suc j])[Suc j := b ! newpos]) = mset b"
    using mset_swap [of newpos b "Suc j"] le Suc.prems
    by (cases "newpos = Suc j") (simp_all add: list_update_swap)
  then show ?case using Suc.IH [of "(b[newpos := b ! Suc j])[Suc j := b ! newpos]"] Suc.prems
    by (simp add: n Let_def)
qed simp

lemma array_shuffle_mset: "(\<And>i. r i \<le> RAND_MAX) \<Longrightarrow> mset (array_shuffle r b) = mset b"
  using shuffle_loop_mset [of "length b - 1" b r] by (cases b) (auto simp: array_shuffle_def)

lemma move_loop_result:
  fixes criterion :: peer_choice and peers :: "nat list"
  defines "sel \<equiv> (if criterion = PEER_CHOICE_WORST then rev peers else peers)"
  assumes ok: "peerset_ok A b" and "topo_sets A h s2 s1 lk" and "i + k \<le> length peers" and "distinct peers"
    and "set (take k (drop i sel)) \<subseteq> ps_set A s1"
  shows "\<exists>s1' s2'. move_loop A h criterion peers k i s1 s2 = Inr (s1', s2') \<and> topo_sets A h s2' s1' lk \<and>
    ps_set A s1' = ps_set A s1 - set (take k (drop i sel)) \<and> ps_set A s2' = ps_set A s2 \<union> set (take k (drop i sel))"
  using assms(3-)
proof (induction k arbitrary: i s1 s2)
  case 0
  then show ?case by simp
next
  case (Suc k)
  have len: "length sel = length peers" by (simp add: sel_def)
  define a where a: "a = (if criterion = PEER_CHOICE_WORST then peers ! (length peers - i - 1) else peers ! i)"
  have asel: "sel ! i = a" using Suc.prems by (auto simp: a sel_def rev_nth)
  have tk: "take (Suc k) (drop i sel) = a # take k (drop (Suc i) sel)"
    using Suc.prems len asel by (simp add: Cons_nth_drop_Suc [symmetric])
  have dsel: "distinct sel" using Suc.prems by (simp add: sel_def)
  then have "distinct (take (Suc k) (drop i sel))" by simp
  then have anin: "a \<notin> set (take k (drop (Suc i) sel))" unfolding tk by simp
  have a1: "a \<in> ps_set A s1" using Suc.prems(4) unfolding tk by simp
  obtain s1' where m: "ps_pop A h s1 (pid h a) = (Some a, s1')" "ps_set A s1' = ps_set A s1 - {a}"
    "ps_set A (ps_push A h s2 a) = insert a (ps_set A s2)" "topo_sets A h (ps_push A h s2 a) s1' lk"
    by (rule move_one [OF ok Suc.prems(1) a1])
  obtain p where p: "h a = Some p" "pr_id p = pid h a"
    using Suc.prems(1) a1 by (fastforce simp: topo_sets_def live_peers_def pid_def)
  have "set (take k (drop (Suc i) sel)) \<subseteq> ps_set A s1'" using Suc.prems(4) anin unfolding tk m(2) by auto
  from Suc.IH [OF m(4) _ Suc.prems(3) this] Suc.prems(2)
  obtain u v where r: "move_loop A h criterion peers k (Suc i) s1' (ps_push A h s2 a) = Inr (u, v)" "topo_sets A h v u lk"
    "ps_set A u = ps_set A s1' - set (take k (drop (Suc i) sel))"
    "ps_set A v = ps_set A (ps_push A h s2 a) \<union> set (take k (drop (Suc i) sel))" by auto
  have "move_loop A h criterion peers (Suc k) i s1 s2 = Inr (u, v)"
    using r(1) p m(1) by (simp add: a [symmetric] peer_at_def)
  moreover have "ps_set A u = ps_set A s1 - set (take (Suc k) (drop i sel))"
    unfolding tk r(3) m(2) by auto
  moreover have "ps_set A v = ps_set A s2 \<union> set (take (Suc k) (drop i sel))"
    unfolding tk r(4) m(3) by auto
  ultimately show ?case using r(2) by blast
qed

text \<open>Whatever the criterion, exactly as many peers as asked for, or all that pass the filter, change sides.\<close>

lemma move_peers_result:
  fixes filter_mask :: "(nat \<Rightarrow> bool) option"
  assumes ok: "peerset_ok A b" and inv: "topo_sets A h s2 s1 lk"
    and r: "\<And>i. r i \<le> RAND_MAX" and q: "\<And>c xs. mset (qsort c xs) = mset xs"
  defines "el \<equiv> {a \<in> ps_set A s1. case filter_mask of Some f \<Rightarrow> f a | None \<Rightarrow> True}"
  obtains s1' s2' X where
    "topology_move_peers A qsort r h s1 s2 num criterion filter_mask cmp_peer = Inr (s1', s2')"
    and "X \<subseteq> el" and "card X = min (card el) (nat num)"
    and "ps_set A s1' = ps_set A s1 - X" and "ps_set A s2' = ps_set A s2 \<union> X" and "topo_sets A h s2' s1' lk"
proof -
  define peers where p: "peers = (case filter_mask of Some f \<Rightarrow> filter f (ps_peers A s1) | None \<Rightarrow> ps_peers A s1)"
  define sorted where s: "sorted = (case cmp_peer of
                      Some c \<Rightarrow> if criterion \<noteq> PEER_CHOICE_RANDOM then qsort c peers else array_shuffle r peers
                    | None \<Rightarrow> array_shuffle r peers)"
  define sel where sel: "sel = (if criterion = PEER_CHOICE_WORST then rev sorted else sorted)"
  define k where k: "k = nat (min (int (length sorted)) num)"
  have ms: "mset sorted = mset peers" unfolding s by (auto simp: q array_shuffle_mset [OF r] split: option.split)
  have dp: "distinct peers" using inv by (auto simp: p topo_sets_def split: option.split)
  have setp: "set peers = el" by (auto simp: p el_def split: option.split)
  have d: "distinct sorted" and st: "set sorted = el" and len: "length sorted = card el"
    using mset_set_distinct [OF ms] dp setp distinct_card [OF dp] by auto
  have dsel: "distinct sel" and lsel: "length sel = card el" and ssel: "set sel = el" using d st len by (auto simp: sel)
  have kk: "k = min (card el) (nat num)" by (auto simp: k len)
  have sub: "set (take k sel) \<subseteq> el" using set_take_subset [of k sel] ssel by simp
  have "\<exists>s1' s2'. move_loop A h criterion sorted k 0 s1 s2 = Inr (s1', s2') \<and> topo_sets A h s2' s1' lk \<and>
    ps_set A s1' = ps_set A s1 - set (take k sel) \<and> ps_set A s2' = ps_set A s2 \<union> set (take k sel)"
    using move_loop_result [OF ok inv, of 0 k sorted criterion, folded sel] d sub len kk
    by (auto simp: el_def)
  moreover have "topology_move_peers A qsort r h s1 s2 num criterion filter_mask cmp_peer = move_loop A h criterion sorted k 0 s1 s2"
    by (simp add: topology_move_peers_def p [symmetric] s [symmetric] k Let_def)
  moreover have "card (set (take k sel)) = k" using dsel lsel kk by (simp add: distinct_card)
  ultimately show ?thesis using that sub kk by metis
qed

section \<open>Reference copies\<close>

lemma reference_copy_add_set:
  assumes ok: "peerset_ok A b" and "ps_wf A h s" and "set as \<subseteq> dom h" and "distinct as"
    and "inj_on (pid h) (ps_set A s \<union> set as)"
  shows "ps_wf A h (fold (\<lambda>p ns. ps_push A h ns p) as s) \<and> ps_set A (fold (\<lambda>p ns. ps_push A h ns p) as s) = ps_set A s \<union> set as"
  using assms(2-)
proof (induction as arbitrary: s)
  case (Cons a as)
  have dom: "a \<in> dom h" using Cons.prems by simp
  have set': "ps_set A (ps_push A h s a) = insert a (ps_set A s)"
    using ps_push_set [OF ok Cons.prems(1) dom] Cons.prems(4) by (auto simp: inj_on_def)
  have "ps_set A s \<union> set (a # as) = ps_set A (ps_push A h s a) \<union> set as" by (simp add: set')
  then show ?case
    using Cons.IH [OF ps_push_wf [OF ok Cons.prems(1) dom]] Cons.prems by simp
qed simp

lemma reference_copy_set:
  assumes ok: "peerset_ok A b" and wf: "ps_wf A h s"
  shows "ps_wf A h (peerset_create_reference_copy A h s)" and "ps_set A (peerset_create_reference_copy A h s) = ps_set A s"
proof -
  have "ps_wf A h (ps_init A)" using wf ok by (simp add: ps_wf_def)
  from reference_copy_add_set [OF ok this, of "ps_peers A s"] wf ok
  show "ps_wf A h (peerset_create_reference_copy A h s)" "ps_set A (peerset_create_reference_copy A h s) = ps_set A s"
    by (auto simp: peerset_create_reference_copy_def ps_wf_def)
qed

lemma destroy_copy_terminates:
  assumes ok: "peerset_ok A b" and "ps_wf A h s" and "ps_size A s \<le> fuel"
  shows "destroy_copy_loop A h fuel s = Some (Inr ())"
  using assms(2-)
proof (induction fuel arbitrary: s)
  case 0
  then show ?case by (simp add: destroy_copy_loop.simps)
next
  case (Suc fuel)
  show ?case
  proof (cases "ps_peers A s")
    case Nil
    then show ?thesis by (simp add: destroy_copy_loop.simps)
  next
    case (Cons a as)
    then have a: "a \<in> ps_set A s" by simp
    then obtain p where p: "h a = Some p" using Suc.prems by (auto simp: ps_wf_def)
    then have pid: "pid h a = pr_id p" by (simp add: pid_def)
    have wf': "ps_wf A h (snd (ps_pop A h s (pr_id p)))" using ps_pop_wf [OF ok Suc.prems(1)] .
    have "ps_set A (snd (ps_pop A h s (pr_id p))) \<subset> ps_set A s"
      using ps_pop_set [OF ok Suc.prems(1)] a pid by auto
    then have "ps_size A (snd (ps_pop A h s (pr_id p))) < ps_size A s"
      using ps_wf_size [OF wf'] ps_wf_size [OF Suc.prems(1)] by (simp add: psubset_card_mono)
    then have "destroy_copy_loop A h fuel (snd (ps_pop A h s (pr_id p))) = Some (Inr ())"
      using Suc.IH [OF wf'] Suc.prems(2) by simp
    then show ?thesis using Cons p by (simp add: destroy_copy_loop.simps [of A h "Suc fuel"] peer_at_def)
  qed
qed

section \<open>Announcing\<close>

definition neigh_msg :: "int_coding \<Rightarrow> u8 \<Rightarrow> ('s, 'p, 'n, 'b) topology \<Rightarrow> 'n \<Rightarrow> 'n topo_send" where
  "neigh_msg ic ty t i =
     Neigh_msg i ([MSG_TYPE_NEIGHBOURHOOD, ty] @ int16_cpy ic (md_cb_size (my_metadata t)) @ [md_neigh_size (my_metadata t)])"

lemma c_each_announce:
  assumes "set as \<subseteq> dom (tp_peers t)"
    and "\<And>w i. tp_peers w = tp_peers t \<Longrightarrow> neighbourhood w = neighbourhood t \<Longrightarrow> C w i \<longleftrightarrow> i \<in> Q"
  shows "c_each (\<lambda>a w. c_bind (peer_at (tp_peers w) a) (\<lambda>p. Inr (if C w (pr_id p) then neighbourhood_send_msg ic p ty w else w))) as t =
    Inr (t\<lparr>tp_sent := tp_sent t @ map (neigh_msg ic ty t) (filter (\<lambda>i. i \<in> Q) (map (pid (tp_peers t)) as))\<rparr>)"
  using assms
proof (induction as arbitrary: t)
  case (Cons a as)
  then obtain p where p: "tp_peers t a = Some p" by auto
  define t1 where t1: "t1 = (if pr_id p \<in> Q then neighbourhood_send_msg ic p ty t else t)"
  have f: "tp_peers t1 = tp_peers t" "neighbourhood t1 = neighbourhood t" "my_metadata t1 = my_metadata t"
    by (simp_all add: t1 neighbourhood_send_msg_def)
  have "neigh_msg ic ty t1 = neigh_msg ic ty t" by (simp add: neigh_msg_def f fun_eq_iff)
  moreover have "c_each (\<lambda>a w. c_bind (peer_at (tp_peers w) a) (\<lambda>p. Inr (if C w (pr_id p) then neighbourhood_send_msg ic p ty w else w))) as t1 =
    Inr (t1\<lparr>tp_sent := tp_sent t1 @ map (neigh_msg ic ty t1) (filter (\<lambda>i. i \<in> Q) (map (pid (tp_peers t1)) as))\<rparr>)"
    using Cons.IH [of t1] Cons.prems f by simp
  moreover have "c_each (\<lambda>a w. c_bind (peer_at (tp_peers w) a) (\<lambda>p. Inr (if C w (pr_id p) then neighbourhood_send_msg ic p ty w else w))) (a # as) t =
    c_each (\<lambda>a w. c_bind (peer_at (tp_peers w) a) (\<lambda>p. Inr (if C w (pr_id p) then neighbourhood_send_msg ic p ty w else w))) as t1"
    using p Cons.prems(2) [of t "pr_id p"] by (simp add: peer_at_def t1)
  moreover have "t1 = (if pr_id p \<in> Q then t\<lparr>tp_sent := tp_sent t @ [neigh_msg ic ty t (pr_id p)]\<rparr> else t)"
    by (simp add: t1 neighbourhood_send_msg_def neigh_msg_def)
  moreover have "pid (tp_peers t) a = pr_id p" using p by (simp add: pid_def)
  ultimately show ?case by (simp add: f(1))
qed simp

lemma signal_change_result:
  assumes ok: "peerset_ok A b" and wfn: "ps_wf A (tp_peers t) (neighbourhood t)" and wfo: "ps_wf A (tp_peers t) old"
  shows "topology_signal_change A ic old t = Inr (t\<lparr>tp_sent := tp_sent t @
    (if topo_out t then
       map (neigh_msg ic NEIGHBOURHOOD_ADD t)
         (filter (\<lambda>i. i \<notin> ps_ids A (tp_peers t) old) (map (pid (tp_peers t)) (ps_peers A (neighbourhood t)))) @
       map (neigh_msg ic NEIGHBOURHOOD_REMOVE t)
         (filter (\<lambda>i. i \<notin> ps_ids A (tp_peers t) (neighbourhood t)) (map (pid (tp_peers t)) (ps_peers A old)))
     else [])\<rparr>)"
proof (cases "topo_out t")
  case True
  define t1 where t1: "t1 = t\<lparr>tp_sent := tp_sent t @ map (neigh_msg ic NEIGHBOURHOOD_ADD t)
         (filter (\<lambda>i. i \<in> - ps_ids A (tp_peers t) old) (map (pid (tp_peers t)) (ps_peers A (neighbourhood t))))\<rparr>"
  have 1: "c_each (\<lambda>a w. c_bind (peer_at (tp_peers w) a) (\<lambda>p.
      Inr (if ps_check A (tp_peers w) old (pr_id p) < 0 then neighbourhood_send_msg ic p NEIGHBOURHOOD_ADD w else w)))
      (ps_peers A (neighbourhood t)) t = Inr t1"
    unfolding t1 by (rule c_each_announce) (use wfn ps_check_iff [OF ok wfo] in \<open>auto simp: ps_wf_def ps_ids_def\<close>)
  have nm: "neigh_msg ic ty t1 = neigh_msg ic ty t" for ty by (simp add: t1 neigh_msg_def fun_eq_iff)
  have 2: "c_each (\<lambda>a w. c_bind (peer_at (tp_peers w) a) (\<lambda>p.
      Inr (if ps_check A (tp_peers w) (neighbourhood w) (pr_id p) < 0 then neighbourhood_send_msg ic p NEIGHBOURHOOD_REMOVE w else w)))
      (ps_peers A old) t1 = Inr (t1\<lparr>tp_sent := tp_sent t1 @ map (neigh_msg ic NEIGHBOURHOOD_REMOVE t1)
         (filter (\<lambda>i. i \<in> - ps_ids A (tp_peers t) (neighbourhood t)) (map (pid (tp_peers t1)) (ps_peers A old)))\<rparr>)"
    by (rule c_each_announce) (use wfo ps_check_iff [OF ok wfn] in \<open>auto simp: t1 ps_wf_def ps_ids_def\<close>)
  show ?thesis
    using True unfolding topology_signal_change_def 1 c_bind_simps 2 nm by (simp add: t1)
qed (simp add: topology_signal_change_def)

section \<open>Dropping the inactive\<close>

definition unactive :: "timeval \<Rightarrow> ('n, 'b) peer \<Rightarrow> bool" where
  "unactive told p \<longleftrightarrow> (\<exists>ts. peer_bmap_timestamp (Some p) = Some ts \<and>
     (\<not> timerisset ts \<and> pr_creation_timestamp p < told \<or> timerisset ts \<and> ts < told))"

lemma peer_unactive_eq: "pr_user_data p = Some u \<Longrightarrow> peer_unactive told p = Inr (unactive told p)"
  by (simp add: peer_unactive_def unactive_def peer_bmap_timestamp_def)

lemma topo_inv_peer:
  assumes "topo_inv A t" and "a \<in> ps_set A (neighbourhood t) \<union> ps_set A (swarm_bucket t)"
  obtains p u where "tp_peers t a = Some p" and "pr_user_data p = Some u"
proof -
  have "\<forall>a \<in> ps_set A (neighbourhood t) \<union> ps_set A (swarm_bucket t). \<exists>p u. tp_peers t a = Some p \<and> pr_user_data p = Some u"
    using assms(1) unfolding topo_inv_def topo_sets_def live_peers_def by blast
  then show ?thesis using assms(2) that by blast
qed

lemma topo_inv_wf:
  assumes "topo_inv A t"
  shows "ps_wf A (tp_peers t) (neighbourhood t)" "ps_wf A (tp_peers t) (swarm_bucket t)" "ps_wf A (tp_peers t) (locked_neighs t)"
  by (rule topo_sets_wf [OF assms [unfolded topo_inv_def]])+

text \<open>Releasing the neighbour at an address touches no other peer.\<close>

lemma forget_neighbour:
  fixes S :: "('p, 'n) psample_api"
  assumes ok: "peerset_ok A b" and inv: "topo_inv A t" and a: "a \<in> ps_set A (neighbourhood t)"
  defines "t' \<equiv> topology_remove_peer A S (Some (pid (tp_peers t) a)) t"
  shows "ps_set A (neighbourhood t') = ps_set A (neighbourhood t) - {a}"
    and "ps_set A (swarm_bucket t') = ps_set A (swarm_bucket t)" and "tp_peers t' = (tp_peers t)(a := None)"
proof -
  note f = forget_peer_view [OF ok inv, of S "pid (tp_peers t) a", folded t'_def]
  have inj: "inj_on (pid (tp_peers t)) (ps_set A (neighbourhood t) \<union> ps_set A (swarm_bucket t))"
    and disj: "ps_set A (neighbourhood t) \<inter> ps_set A (swarm_bucket t) = {}"
    using inv by (simp_all add: topo_inv_def topo_sets_def live_peers_def)
  have eq: "pid (tp_peers t) x = pid (tp_peers t) a \<longleftrightarrow> x = a"
    if "x \<in> ps_set A (neighbourhood t) \<union> ps_set A (swarm_bucket t)" for x
    using inj that a by (auto simp: inj_on_def)
  show "ps_set A (neighbourhood t') = ps_set A (neighbourhood t) - {a}" unfolding f(5) using eq by auto
  show "ps_set A (swarm_bucket t') = ps_set A (swarm_bucket t)" unfolding f(6) using eq a disj by auto
  show "tp_peers t' = (tp_peers t)(a := None)" unfolding f(7) using eq a by (intro ext) auto
qed

lemma drop_loop_end: "\<not> i < ps_size A (neighbourhood t) \<Longrightarrow> drop_loop A S told fuel i t = Some (Inr t)"
  by (cases fuel) (simp_all add: drop_loop.simps [of A S told])

lemma drop_loop_step:
  assumes inv: "topo_inv A t" and i: "i < ps_size A (neighbourhood t)" and a: "ps_peers A (neighbourhood t) ! i = a"
  shows "drop_loop A S told (Suc fuel) i t = drop_loop A S told fuel (Suc i)
    (if unactive told (the (tp_peers t a)) then topology_remove_peer A S (Some (pid (tp_peers t) a)) t else t)"
proof -
  have "a \<in> ps_set A (neighbourhood t)" using i a by auto
  then obtain p u where p: "tp_peers t a = Some p" "pr_user_data p = Some u" using topo_inv_peer [OF inv, of a] by blast
  then have "pid (tp_peers t) a = pr_id p" by (simp add: pid_def)
  then show ?thesis
    using i p(1) peer_unactive_eq [OF p(2), of told] by (simp add: drop_loop.simps [of A S told "Suc fuel"] a peer_at_def)
qed

lemma drop_loop_result:
  assumes ok: "peerset_ok A b" and "topo_inv A t" and "ps_size A (neighbourhood t) \<le> i + fuel"
  shows "\<exists>t' D. drop_loop A S told fuel i t = Some (Inr t') \<and> topo_inv A t' \<and> topo_cfg t' = topo_cfg t \<and> tp_sent t' = tp_sent t \<and>
    D \<subseteq> {a \<in> ps_set A (neighbourhood t). unactive told (the (tp_peers t a))} \<and>
    ps_set A (neighbourhood t') = ps_set A (neighbourhood t) - D \<and> ps_set A (swarm_bucket t') = ps_set A (swarm_bucket t) \<and>
    (\<forall>a. tp_peers t' a = (if a \<in> D then None else tp_peers t a))"
  using assms(2,3)
proof (induction fuel arbitrary: i t)
  case 0
  then show ?case by (intro exI [of _ t] exI [of _ "{}"]) (simp add: drop_loop_end)
next
  case (Suc fuel)
  show ?case
  proof (cases "i < ps_size A (neighbourhood t)")
    case False
    then show ?thesis by (intro exI [of _ t] exI [of _ "{}"]) (simp add: drop_loop_end Suc.prems(1))
  next
    case True
    define a where a: "a = ps_peers A (neighbourhood t) ! i"
    have an: "a \<in> ps_set A (neighbourhood t)" using True by (simp add: a)
    define t1 where t1: "t1 = (if unactive told (the (tp_peers t a)) then topology_remove_peer A S (Some (pid (tp_peers t) a)) t else t)"
    have step: "drop_loop A S told (Suc fuel) i t = drop_loop A S told fuel (Suc i) t1"
      unfolding t1 by (rule drop_loop_step [OF Suc.prems(1) True a [symmetric]])
    show ?thesis
    proof (cases "unactive told (the (tp_peers t a))")
      case False
      then have "t1 = t" by (simp add: t1)
      then show ?thesis using Suc.IH [OF Suc.prems(1), of "Suc i"] Suc.prems(2) step by simp
    next
      case True
      then have t1': "t1 = topology_remove_peer A S (Some (pid (tp_peers t) a)) t" by (simp add: t1)
      note v = forget_peer_view [OF ok Suc.prems(1), of S "pid (tp_peers t) a", folded t1']
      note f = forget_neighbour [OF ok Suc.prems(1) an, of S, folded t1']
      have "ps_size A (neighbourhood t1) \<le> ps_size A (neighbourhood t)"
        using ps_wf_size [OF topo_inv_wf(1) [OF v(1)]] ps_wf_size [OF topo_inv_wf(1) [OF Suc.prems(1)]] f(1)
        by (simp add: card_Diff1_le)
      then have "ps_size A (neighbourhood t1) \<le> Suc i + fuel" using Suc.prems(2) by simp
      from Suc.IH [OF v(1) this] obtain t' D where
        r: "drop_loop A S told fuel (Suc i) t1 = Some (Inr t')" "topo_inv A t'" "topo_cfg t' = topo_cfg t1" "tp_sent t' = tp_sent t1"
          "D \<subseteq> {a \<in> ps_set A (neighbourhood t1). unactive told (the (tp_peers t1 a))}"
          "ps_set A (neighbourhood t') = ps_set A (neighbourhood t1) - D" "ps_set A (swarm_bucket t') = ps_set A (swarm_bucket t1)"
          "\<forall>a. tp_peers t' a = (if a \<in> D then None else tp_peers t1 a)" by blast
      have "insert a D \<subseteq> {a \<in> ps_set A (neighbourhood t). unactive told (the (tp_peers t a))}"
        using r(5) an True unfolding f(1) f(3) by auto
      moreover have "ps_set A (neighbourhood t') = ps_set A (neighbourhood t) - insert a D" using r(6) f(1) by auto
      moreover have "\<forall>x. tp_peers t' x = (if x \<in> insert a D then None else tp_peers t x)" using r(8) f(3) by auto
      ultimately show ?thesis
        using step r(1-4,7) v(3,4) f(2) by (intro exI [of _ t'] exI [of _ "insert a D"]) simp
    qed
  qed
qed

section \<open>One update\<close>

lemma move_unfiltered:
  assumes "peerset_ok A b" and "topo_sets A h s2 s1 lk"
    and "\<And>i. r i \<le> RAND_MAX" and "\<And>c xs. mset (qsort c xs) = mset xs"
  obtains s1' s2' X where
    "topology_move_peers A qsort r h s1 s2 num PEER_CHOICE_RANDOM None None = Inr (s1', s2')"
    and "X \<subseteq> ps_set A s1" and "card X = min (ps_size A s1) (nat num)" and "finite X"
    and "ps_set A s1' = ps_set A s1 - X" and "ps_set A s2' = ps_set A s2 \<union> X" and "topo_sets A h s2' s1' lk"
proof -
  have *: "{a \<in> ps_set A s1. case (None :: (nat \<Rightarrow> bool) option) of Some f \<Rightarrow> f a | None \<Rightarrow> True} = ps_set A s1" by simp
  have "card (ps_set A s1) = ps_size A s1" using assms(2) by (simp add: topo_sets_def distinct_card)
  moreover have "finite X" if "X \<subseteq> ps_set A s1" for X using that finite_set by (rule finite_subset)
  ultimately show ?thesis
    using that
    by (rule_tac move_peers_result [OF assms, where filter_mask = None and num = num and criterion = PEER_CHOICE_RANDOM and cmp_peer = None, unfolded *]) auto
qed

lemma update_random_result:
  fixes t :: "('s, 'p, 'n, 'b) topology"
  assumes ok: "peerset_ok A b" and inv: "topo_inv A t"
    and r: "\<And>i. r1 i \<le> RAND_MAX" "\<And>i. r2 i \<le> RAND_MAX" and q: "\<And>c xs. mset (qsort c xs) = mset xs"
  defines "d \<equiv> min (ps_size A (neighbourhood t)) (nat \<lfloor>(1 - topo_mem t) * of_nat (ps_size A (neighbourhood t))\<rfloor>)"
  defines "n1 \<equiv> ps_size A (neighbourhood t) - d"
  obtains nb sw where "topology_update_random A qsort r1 r2 t = Inr (t\<lparr>neighbourhood := nb, swarm_bucket := sw\<rparr>)"
    and "topo_inv A (t\<lparr>neighbourhood := nb, swarm_bucket := sw\<rparr>)"
    and "ps_set A nb \<union> ps_set A sw = ps_set A (neighbourhood t) \<union> ps_set A (swarm_bucket t)"
    and "ps_size A nb = n1 + min (ps_size A (swarm_bucket t) + d) (nat (neighbourhood_target_size t - int n1))"
proof -
  define h nb0 sw0 where d0: "h = tp_peers t" "nb0 = neighbourhood t" "sw0 = swarm_bucket t"
  have inv0: "topo_sets A h sw0 nb0 (locked_neighs t)" using topo_sets_swap [THEN iffD1, OF inv [unfolded topo_inv_def]] by (simp add: d0)
  have disj0: "ps_set A sw0 \<inter> ps_set A nb0 = {}" using inv0 by (simp add: topo_sets_def)
  have c0: "card (ps_set A nb0) = ps_size A nb0" "card (ps_set A sw0) = ps_size A sw0"
    using inv0 by (simp_all add: topo_sets_def distinct_card)
  obtain nb1 sw1 X where m1:
    "topology_move_peers A qsort r1 h nb0 sw0 \<lfloor>(1 - topo_mem t) * of_nat (ps_size A nb0)\<rfloor> PEER_CHOICE_RANDOM None None = Inr (nb1, sw1)"
    and X': "X \<subseteq> ps_set A nb0" "card X = min (ps_size A nb0) (nat \<lfloor>(1 - topo_mem t) * of_nat (ps_size A nb0)\<rfloor>)" and fX: "finite X"
    and m1': "ps_set A nb1 = ps_set A nb0 - X" "ps_set A sw1 = ps_set A sw0 \<union> X" "topo_sets A h sw1 nb1 (locked_neighs t)"
    by (rule move_unfiltered [OF ok inv0 r(1) q])
  have X: "X \<subseteq> ps_set A nb0" "card X = d" using X' by (simp_all add: d_def d0)
  have "card (ps_set A nb1) = card (ps_set A nb0) - card X" unfolding m1'(1) by (rule card_Diff_subset [OF fX X(1)])
  moreover have "card (ps_set A nb1) = ps_size A nb1" using m1'(3) by (simp add: topo_sets_def distinct_card)
  ultimately have size1: "ps_size A nb1 = n1" using c0 X(2) by (simp add: n1_def d0)
  have "card (ps_set A sw1) = card (ps_set A sw0) + card X"
    unfolding m1'(2) using disj0 X(1) fX by (intro card_Un_disjoint) auto
  moreover have "card (ps_set A sw1) = ps_size A sw1" using m1'(3) by (simp add: topo_sets_def distinct_card)
  ultimately have sizes1: "ps_size A sw1 = ps_size A sw0 + d" using c0 X(2) by simp
  have inv1: "topo_sets A h nb1 sw1 (locked_neighs t)" by (rule topo_sets_swap [THEN iffD1, OF m1'(3)])
  obtain sw2 nb2 Y where m2:
    "topology_move_peers A qsort r2 h sw1 nb1 (max (neighbourhood_target_size t - int (ps_size A nb1)) 0) PEER_CHOICE_RANDOM None None = Inr (sw2, nb2)"
    and Y': "Y \<subseteq> ps_set A sw1" "card Y = min (ps_size A sw1) (nat (max (neighbourhood_target_size t - int (ps_size A nb1)) 0))" and fY: "finite Y"
    and m2': "ps_set A sw2 = ps_set A sw1 - Y" "ps_set A nb2 = ps_set A nb1 \<union> Y" "topo_sets A h nb2 sw2 (locked_neighs t)"
    by (rule move_unfiltered [OF ok inv1 r(2) q])
  have disj1: "ps_set A nb1 \<inter> ps_set A sw1 = {}" using inv1 by (simp add: topo_sets_def)
  have Y: "Y \<subseteq> ps_set A sw1" "card Y = min (ps_size A sw0 + d) (nat (neighbourhood_target_size t - int n1))"
    using Y' size1 sizes1 by simp_all
  have "card (ps_set A nb1 \<union> Y) = card (ps_set A nb1) + card Y"
    using disj1 Y(1) fY by (intro card_Un_disjoint) auto
  moreover have "card (ps_set A nb1) = n1" using size1 inv1 by (simp add: topo_sets_def distinct_card)
  moreover have "card (ps_set A nb2) = ps_size A nb2" using m2'(3) by (simp add: topo_sets_def distinct_card)
  ultimately have size2: "ps_size A nb2 = n1 + min (ps_size A (swarm_bucket t) + d) (nat (neighbourhood_target_size t - int n1))"
    using m2'(2) Y(2) by (simp add: d0)
  have un: "ps_set A nb2 \<union> ps_set A sw2 = ps_set A (neighbourhood t) \<union> ps_set A (swarm_bucket t)"
    using m1'(1,2) m2'(1,2) X(1) Y(1) by (auto simp: d0)
  have "topology_update_random A qsort r1 r2 t = Inr (t\<lparr>neighbourhood := nb2, swarm_bucket := sw2\<rparr>)"
    using m1 m2 by (simp add: topology_update_random_def d0 Let_def)
  moreover have "topo_inv A (t\<lparr>neighbourhood := nb2, swarm_bucket := sw2\<rparr>)" using m2'(3) by (simp add: topo_inv_def d0)
  ultimately show ?thesis using that un size2 by blast
qed

lemma c_each_pop_locked:
  assumes ok: "peerset_ok A b" and "topo_inv A t" and "set as \<subseteq> dom (tp_peers t)"
  shows "\<exists>lk. c_each (\<lambda>a w. c_bind (peer_at (tp_peers w) a) (\<lambda>p.
               Inr (w\<lparr>locked_neighs := snd (ps_pop A (tp_peers w) (locked_neighs w) (pr_id p))\<rparr>))) as t = Inr (t\<lparr>locked_neighs := lk\<rparr>) \<and>
    topo_inv A (t\<lparr>locked_neighs := lk\<rparr>) \<and> ps_ids A (tp_peers t) lk = ps_ids A (tp_peers t) (locked_neighs t) - pid (tp_peers t) ` set as"
  using assms(2,3)
proof (induction as arbitrary: t)
  case Nil
  then show ?case by (intro exI [of _ "locked_neighs t"]) simp
next
  case (Cons a as)
  then obtain p where p: "tp_peers t a = Some p" by auto
  define t1 where t1: "t1 = t\<lparr>locked_neighs := snd (ps_pop A (tp_peers t) (locked_neighs t) (pr_id p))\<rparr>"
  note l = pop_locked [OF ok Cons.prems(1) [unfolded topo_inv_def], of "pr_id p"]
  have "topo_inv A t1" using l(1) by (simp add: t1 topo_inv_def)
  moreover have "set as \<subseteq> dom (tp_peers t1)" using Cons.prems(2) by (simp add: t1)
  ultimately show ?case
    using Cons.IH [of t1] l(2) p by (auto simp: t1 peer_at_def pid_def)
qed

lemma forget_swarm_result:
  assumes ok: "peerset_ok A b" and inv: "topo_inv A t"
  obtains t' where "forget_swarm A t = Inr t'" and "topo_inv A t'" and "ps_peers A (swarm_bucket t') = []"
    and "topo_view A t' = (case topo_view A t of (N, W, L) \<Rightarrow> (N, {}, L - W))"
    and "topo_cfg t' = topo_cfg t" and "tp_sent t' = tp_sent t" and "neighbourhood t' = neighbourhood t"
proof -
  note wf = topo_inv_wf [OF inv]
  have "ps_set A (swarm_bucket t) \<subseteq> dom (tp_peers t)" using wf(2) by (simp add: ps_wf_def)
  from c_each_pop_locked [OF ok inv this] obtain lk where
    lk: "c_each (\<lambda>a w. c_bind (peer_at (tp_peers w) a) (\<lambda>p.
               Inr (w\<lparr>locked_neighs := snd (ps_pop A (tp_peers w) (locked_neighs w) (pr_id p))\<rparr>))) (ps_peers A (swarm_bucket t)) t =
           Inr (t\<lparr>locked_neighs := lk\<rparr>)" "topo_inv A (t\<lparr>locked_neighs := lk\<rparr>)"
        "ps_ids A (tp_peers t) lk = ps_ids A (tp_peers t) (locked_neighs t) - ps_ids A (tp_peers t) (swarm_bucket t)"
    unfolding ps_ids_def by blast
  define h' sw' where c: "h' = fst (ps_clear A (tp_peers t) (swarm_bucket t))" "sw' = snd (ps_clear A (tp_peers t) (swarm_bucket t))"
  have h': "h' = (\<lambda>a. if a \<in> ps_set A (swarm_bucket t) then None else tp_peers t a)" and sw': "ps_peers A sw' = []"
    using ps_clear_fst [OF ok wf(2)] ps_clear_snd [OF ok wf(2)] by (simp_all add: c)
  have sets: "topo_sets A (tp_peers t) (neighbourhood t) (swarm_bucket t) lk" using lk(2) by (simp add: topo_inv_def)
  have inj: "inj_on (pid (tp_peers t)) (ps_set A (neighbourhood t) \<union> ps_set A (swarm_bucket t))"
    and disj: "ps_set A (neighbourhood t) \<inter> ps_set A (swarm_bucket t) = {}"
    and lks: "ps_set A lk \<subseteq> ps_set A (neighbourhood t) \<union> ps_set A (swarm_bucket t)"
    and live: "live_peers (tp_peers t) (ps_set A (neighbourhood t) \<union> ps_set A (swarm_bucket t))"
    using sets by (simp_all add: topo_sets_def live_peers_def)
  have lkn: "ps_set A lk \<subseteq> ps_set A (neighbourhood t)"
  proof
    fix a assume a: "a \<in> ps_set A lk"
    then have "pid (tp_peers t) a \<notin> ps_ids A (tp_peers t) (swarm_bucket t)" using lk(3) by (auto simp: ps_ids_def)
    then show "a \<in> ps_set A (neighbourhood t)" using a lks by (auto simp: ps_ids_def)
  qed
  have same: "h' a = tp_peers t a" "pid h' a = pid (tp_peers t) a" if "a \<in> ps_set A (neighbourhood t)" for a
    using that disj by (auto simp: h' pid_def)
  have ids: "ps_ids A h' s = ps_ids A (tp_peers t) s" if "ps_set A s \<subseteq> ps_set A (neighbourhood t)" for s
    unfolding ps_ids_def by (rule image_cong) (use same that in auto)
  have "dom h' \<subseteq> dom (tp_peers t)" by (auto simp: h' split: if_splits)
  then have fin: "finite (dom h')" using live finite_subset unfolding live_peers_def by blast
  have injn: "inj_on (pid h') (ps_set A (neighbourhood t))"
    using inj same(2) by (simp add: inj_on_Un cong: inj_on_cong)
  have "live_peers h' (ps_set A (neighbourhood t))"
    unfolding live_peers_def
  proof (intro conjI fin injn ballI)
    fix a assume a: "a \<in> ps_set A (neighbourhood t)"
    then have "\<exists>p u. tp_peers t a = Some p \<and> pr_user_data p = Some u" using topo_inv_peer [OF inv, of a] by blast
    then show "\<exists>p u. h' a = Some p \<and> pr_user_data p = Some u" using same(1) [OF a] by simp
  qed
  then have inv': "topo_sets A h' (neighbourhood t) sw' lk" using sets lkn sw' by (simp add: topo_sets_def)
  define t' where t': "t' = t\<lparr>locked_neighs := lk, tp_peers := h', swarm_bucket := sw'\<rparr>"
  have "forget_swarm A t = Inr t'"
    using lk(1) by (simp add: forget_swarm_def t' c split: prod.split)
  moreover have "topo_view A t' = (case topo_view A t of (N, W, L) \<Rightarrow> (N, {}, L - W))"
    using ids [of "neighbourhood t"] ids [OF lkn] lk(3) sw' by (simp add: t' topo_view_def) (simp add: ps_ids_def)
  ultimately show ?thesis
    using that [of t'] inv' sw' by (simp add: t' topo_inv_def topo_cfg_def)
qed

lemma forget_neighbours_ids:
  assumes inv: "topo_inv A t" and D: "D \<subseteq> ps_set A (neighbourhood t)"
    and nb: "ps_set A (neighbourhood t') = ps_set A (neighbourhood t) - D" and sw: "ps_set A (swarm_bucket t') = ps_set A (swarm_bucket t)"
    and h: "\<forall>a. tp_peers t' a = (if a \<in> D then None else tp_peers t a)"
  shows "ps_ids A (tp_peers t') (neighbourhood t') \<subseteq> ps_ids A (tp_peers t) (neighbourhood t)"
    and "ps_ids A (tp_peers t') (swarm_bucket t') = ps_ids A (tp_peers t) (swarm_bucket t)"
proof -
  have "ps_set A (neighbourhood t) \<inter> ps_set A (swarm_bucket t) = {}" using inv by (simp add: topo_inv_def topo_sets_def)
  then have "pid (tp_peers t') a = pid (tp_peers t) a" if "a \<in> ps_set A (neighbourhood t') \<union> ps_set A (swarm_bucket t)" for a
    using that h D nb by (auto simp: pid_def)
  then show "ps_ids A (tp_peers t') (neighbourhood t') \<subseteq> ps_ids A (tp_peers t) (neighbourhood t)"
    and "ps_ids A (tp_peers t') (swarm_bucket t') = ps_ids A (tp_peers t) (swarm_bucket t)"
    unfolding ps_ids_def sw using nb by (auto intro!: image_cong)
qed

lemma ps_ids_card: "ps_wf A h s \<Longrightarrow> card (ps_ids A h s) = ps_size A s"
  by (simp add: ps_ids_def ps_wf_def card_image distinct_card)

lemma map_pid_props:
  assumes "ps_wf A h s"
  shows "distinct (map (pid h) (ps_peers A s))" and "set (map (pid h) (ps_peers A s)) = ps_ids A h s"
  using assms by (simp_all add: ps_wf_def distinct_map ps_ids_def)

definition keep_and_discard :: "rat \<Rightarrow> nat \<Rightarrow> nat" where
  "keep_and_discard mem n = n - min n (nat \<lfloor>(1 - mem) * of_nat n\<rfloor>)"

text \<open>The inactive neighbours, when a timeout is set.\<close>

lemma update_drop_result:
  assumes ok: "peerset_ok A b" and inv: "topo_inv A t1"
  obtains t2 D where "(if timerisset (tout_bmap t1) then neighbourhood_drop_unactives A S tnow (tout_bmap t1) t1 else Some (Inr t1)) = Some (Inr t2)"
    and "topo_inv A t2" and "topo_cfg t2 = topo_cfg t1" and "tp_sent t2 = tp_sent t1"
    and "D \<subseteq> ps_set A (neighbourhood t1)" and "ps_set A (neighbourhood t2) = ps_set A (neighbourhood t1) - D"
    and "ps_set A (swarm_bucket t2) = ps_set A (swarm_bucket t1)" and "\<forall>a. tp_peers t2 a = (if a \<in> D then None else tp_peers t1 a)"
proof (cases "timerisset (tout_bmap t1)")
  case True
  have "ps_size A (neighbourhood t1) \<le> 0 + ps_size A (neighbourhood t1)" by simp
  from drop_loop_result [OF ok inv this, where S = S and told = "timersub tnow (tout_bmap t1)"] obtain u D where
    u: "drop_loop A S (timersub tnow (tout_bmap t1)) (ps_size A (neighbourhood t1)) 0 t1 = Some (Inr u)" "topo_inv A u"
       "topo_cfg u = topo_cfg t1" "tp_sent u = tp_sent t1"
       "D \<subseteq> {a \<in> ps_set A (neighbourhood t1). unactive (timersub tnow (tout_bmap t1)) (the (tp_peers t1 a))}"
       "ps_set A (neighbourhood u) = ps_set A (neighbourhood t1) - D" "ps_set A (swarm_bucket u) = ps_set A (swarm_bucket t1)"
       "\<forall>a. tp_peers u a = (if a \<in> D then None else tp_peers t1 a)" by blast
  then show ?thesis using that [of u D] True by (auto simp: neighbourhood_drop_unactives_def)
next
  case False
  then show ?thesis using that [of t1 "{}"] inv by simp
qed

text \<open>The sampled and pruned topology draws its new neighbourhood and tells the peers that came and went.\<close>

lemma update_change_result:
  assumes ok: "peerset_ok A b" and inv: "topo_inv A t2" and v: "topo_view A t2 = (old, W, L)"
    and r: "\<And>i. r1 i \<le> RAND_MAX" "\<And>i. r2 i \<le> RAND_MAX" and q: "\<And>c xs. mset (qsort c xs) = mset xs"
    and cp: "cp = peerset_create_reference_copy A (tp_peers t2) (neighbourhood t2)"
  obtains t3 t4 N' W' L' ads rms where "topology_update_random A qsort r1 r2 t2 = Inr t3" and "topology_signal_change A ic cp t3 = Inr t4"
    and "peerset_destroy_reference_copy A (tp_peers t4) cp = Some (Inr ())" and "topo_inv A t4" and "topo_cfg t4 = topo_cfg t2"
    and "topo_view A t4 = (N', W', L')" and "N' \<union> W' = old \<union> W"
    and "card N' = (let n1 = keep_and_discard (topo_mem t2) (card old)
           in n1 + min (card W + (card old - n1)) (nat (neighbourhood_target_size t2 - int n1)))"
    and "tp_sent t4 = tp_sent t2 @ (if topo_out t2 then map (neigh_msg ic NEIGHBOURHOOD_ADD t2) ads @ map (neigh_msg ic NEIGHBOURHOOD_REMOVE t2) rms else [])"
    and "distinct ads" and "set ads = N' - old" and "distinct rms" and "set rms = old - N'"
proof -
  have o: "old = ps_ids A (tp_peers t2) (neighbourhood t2)" and w: "W = ps_ids A (tp_peers t2) (swarm_bucket t2)" using v by (simp_all add: topo_view_def)
  note wf2 = topo_inv_wf [OF inv]
  let ?n = "ps_size A (neighbourhood t2)" and ?k = "keep_and_discard (topo_mem t2) (card old)"
  have co: "card old = ?n" "card W = ps_size A (swarm_bucket t2)" using ps_ids_card [OF wf2(1)] ps_ids_card [OF wf2(2)] by (simp_all add: o w)
  have wfc: "ps_wf A (tp_peers t2) cp" and sc: "ps_set A cp = ps_set A (neighbourhood t2)"
    using reference_copy_set [OF ok wf2(1)] by (simp_all add: cp)
  obtain nb sw where ur: "topology_update_random A qsort r1 r2 t2 = Inr (t2\<lparr>neighbourhood := nb, swarm_bucket := sw\<rparr>)"
    and inv3: "topo_inv A (t2\<lparr>neighbourhood := nb, swarm_bucket := sw\<rparr>)"
    and un: "ps_set A nb \<union> ps_set A sw = ps_set A (neighbourhood t2) \<union> ps_set A (swarm_bucket t2)"
    and size: "ps_size A nb = ?n - min ?n (nat \<lfloor>(1 - topo_mem t2) * of_nat ?n\<rfloor>) +
       min (ps_size A (swarm_bucket t2) + min ?n (nat \<lfloor>(1 - topo_mem t2) * of_nat ?n\<rfloor>))
         (nat (neighbourhood_target_size t2 - int (?n - min ?n (nat \<lfloor>(1 - topo_mem t2) * of_nat ?n\<rfloor>))))"
    by (rule update_random_result [OF ok inv r q])
  define t3 where t3: "t3 = t2\<lparr>neighbourhood := nb, swarm_bucket := sw\<rparr>"
  have wf3: "ps_wf A (tp_peers t2) nb" using topo_inv_wf(1) [OF inv3] by simp
  define N' where N': "N' = ps_ids A (tp_peers t2) nb"
  have ids_cp: "ps_ids A (tp_peers t2) cp = old" by (simp add: ps_ids_def sc o)
  define ads where ads: "ads = filter (\<lambda>i. i \<notin> old) (map (pid (tp_peers t2)) (ps_peers A nb))"
  define rms where rms: "rms = filter (\<lambda>i. i \<notin> N') (map (pid (tp_peers t2)) (ps_peers A cp))"
  have f3: "tp_peers t3 = tp_peers t2" "neighbourhood t3 = nb" "tp_sent t3 = tp_sent t2" "topo_out t3 = topo_out t2" by (simp_all add: t3)
  have nm: "neigh_msg ic ty t3 = neigh_msg ic ty t2" for ty by (simp add: neigh_msg_def fun_eq_iff t3)
  define t4 where t4: "t4 = t3\<lparr>tp_sent := tp_sent t2 @ (if topo_out t2 then map (neigh_msg ic NEIGHBOURHOOD_ADD t2) ads @ map (neigh_msg ic NEIGHBOURHOOD_REMOVE t2) rms else [])\<rparr>"
  have sig: "topology_signal_change A ic cp t3 = Inr t4"
    using signal_change_result [OF ok, of t3 cp ic] wf3 wfc
    by (simp only: f3 nm t4 ads rms ids_cp N')
  have dest: "peerset_destroy_reference_copy A (tp_peers t4) cp = Some (Inr ())"
    using destroy_copy_terminates [OF ok wfc] by (simp add: peerset_destroy_reference_copy_def t4 t3)
  have inv4: "topo_inv A t4" and cfg: "topo_cfg t4 = topo_cfg t2" using inv3 by (simp_all add: t4 t3 topo_inv_def topo_cfg_def)
  obtain W' L' where v4: "topo_view A t4 = (N', W', L')" "W' = ps_ids A (tp_peers t2) sw" by (simp add: topo_view_def t4 t3 N')
  have all: "N' \<union> W' = old \<union> W" unfolding N' v4(2) o w ps_ids_def by (simp only: image_Un [symmetric] un)
  have card: "card N' = (let n1 = ?k in n1 + min (card W + (card old - n1)) (nat (neighbourhood_target_size t2 - int n1)))"
    using ps_ids_card [OF wf3] size unfolding N' co keep_and_discard_def Let_def by (simp add: min_def)
  have ads': "distinct ads" "set ads = N' - old" using map_pid_props [OF wf3] by (auto simp: ads N')
  have rms': "distinct rms" "set rms = old - N'" using map_pid_props [OF wfc] ids_cp by (auto simp: rms)
  show thesis by (rule that [OF ur [folded t3] sig dest inv4 cfg v4(1) all card _ ads' rms']) (simp add: t4)
qed

lemma topology_update_lemma:
  fixes t :: "('s, 'p, 'n, 'b) topology" and src :: bool and bs :: int and S :: "('p, 'n) psample_api"
  assumes ok: "peerset_ok A b" and inv: "topo_inv A t" and v: "topo_view A t = (N, W, L)"
    and r: "\<And>i. r1 i \<le> RAND_MAX" "\<And>i. r2 i \<le> RAND_MAX" and q: "\<And>c xs. mset (qsort c xs) = mset xs"
    and samples: "\<And>p. length (sa_cache S p) \<le> length (sa_metadata S p)"
  defines "m \<equiv> \<lparr>md_cb_size = (if src then 0 else word_of_int bs), md_neigh_size = of_nat (card N)\<rparr>"
  defines "C \<equiv> set (sa_cache S (sa_change_metadata S (sa_parse_data S (tp_tc t) None) m))"
  shows "\<exists>t' old N' L' ads rms. topology_update A S ic qsort tnow r1 r2 src bs t = Some (Inr t') \<and> topo_inv A t' \<and>
    topo_view A t' = (N', {}, L') \<and> old \<subseteq> N \<and> N' \<subseteq> old \<union> W \<union> C \<and> L' \<subseteq> N' \<and>
    card N' = (let n1 = keep_and_discard (topo_mem t) (card old)
               in n1 + min (card (W \<union> (C - N)) + (card old - n1)) (nat (neighbourhood_target_size t - int n1))) \<and>
    tp_sent t' = tp_sent t @ (if topo_out t then map (neigh_msg ic NEIGHBOURHOOD_ADD t') ads @ map (neigh_msg ic NEIGHBOURHOOD_REMOVE t') rms else []) \<and>
    distinct ads \<and> set ads = N' - old \<and> distinct rms \<and> set rms = old - N' \<and> my_metadata t' = m"
proof -
  have cN: "card N = ps_size A (neighbourhood t)" using ps_ids_card [OF topo_inv_wf(1) [OF inv]] v by (simp add: topo_view_def)
  define t0 where t0: "t0 = update_metadata A S src bs (t\<lparr>tp_tc := sa_parse_data S (tp_tc t) None\<rparr>)"
  have t0': "t0 = t\<lparr>my_metadata := m, tp_tc := sa_change_metadata S (sa_parse_data S (tp_tc t) None) m\<rparr>"
    by (cases "my_metadata t") (simp add: t0 update_metadata_def metadata_update_def m_def cN Let_def)
  have inv0: "topo_inv A t0" and v0: "topo_view A t0 = (N, W, L)" using inv v by (simp_all add: t0' topo_inv_def topo_view_def)
  obtain t1 where s: "topology_sample_peers A S t0 = Inr t1" and inv1: "topo_inv A t1" and v1: "topo_view A t1 = (N, W \<union> (C - N), L)"
    and f1: "topo_cfg t1 = topo_cfg t0" "tp_sent t1 = tp_sent t0"
    using sample_loop_view [OF ok inv0 samples [of "tp_tc t0"]] v0 unfolding topology_sample_peers_def by (auto simp: C_def t0')
  obtain t2 D where dr: "(if timerisset (tout_bmap t1) then neighbourhood_drop_unactives A S tnow (tout_bmap t1) t1 else Some (Inr t1)) = Some (Inr t2)"
    and inv2: "topo_inv A t2" and f2: "topo_cfg t2 = topo_cfg t1" "tp_sent t2 = tp_sent t1"
    and D: "D \<subseteq> ps_set A (neighbourhood t1)" and nb2: "ps_set A (neighbourhood t2) = ps_set A (neighbourhood t1) - D"
    and sw2: "ps_set A (swarm_bucket t2) = ps_set A (swarm_bucket t1)"
    and h2: "\<forall>a. tp_peers t2 a = (if a \<in> D then None else tp_peers t1 a)"
    by (rule update_drop_result [OF ok inv1])
  obtain old L2 where v2: "topo_view A t2 = (old, W \<union> (C - N), L2)" and "old \<subseteq> N"
    using forget_neighbours_ids [OF inv1 D nb2 sw2 h2] v1 by (auto simp: topo_view_def)
  define cp where cp: "cp = peerset_create_reference_copy A (tp_peers t2) (neighbourhood t2)"
  obtain t3 t4 N' W' L4 ads rms where ur: "topology_update_random A qsort r1 r2 t2 = Inr t3" and sig: "topology_signal_change A ic cp t3 = Inr t4"
    and dest: "peerset_destroy_reference_copy A (tp_peers t4) cp = Some (Inr ())" and inv4: "topo_inv A t4" and f4: "topo_cfg t4 = topo_cfg t2"
    and v4: "topo_view A t4 = (N', W', L4)" and all: "N' \<union> W' = old \<union> (W \<union> (C - N))"
    and size: "card N' = (let n1 = keep_and_discard (topo_mem t2) (card old)
           in n1 + min (card (W \<union> (C - N)) + (card old - n1)) (nat (neighbourhood_target_size t2 - int n1)))"
    and sent: "tp_sent t4 = tp_sent t2 @ (if topo_out t2 then map (neigh_msg ic NEIGHBOURHOOD_ADD t2) ads @ map (neigh_msg ic NEIGHBOURHOOD_REMOVE t2) rms else [])"
    and tell: "distinct ads" "set ads = N' - old" "distinct rms" "set rms = old - N'"
    by (rule update_change_result [OF ok inv2 v2 r q cp])
  obtain t5 where fs: "forget_swarm A t4 = Inr t5" and inv5: "topo_inv A t5" and fv: "topo_view A t5 = (case topo_view A t4 of (N, W, L) \<Rightarrow> (N, {}, L - W))"
    and f5: "topo_cfg t5 = topo_cfg t4" "tp_sent t5 = tp_sent t4"
    by (rule forget_swarm_result [OF ok inv4])
  have v5: "topo_view A t5 = (N', {}, L4 - W')" unfolding fv v4 by simp
  have upd: "topology_update A S ic qsort tnow r1 r2 src bs t = Some (Inr t5)"
    by (simp add: topology_update_def t0 [symmetric] s dr cp [symmetric] ur sig dest fs)
  have sub: "L4 - W' \<subseteq> N'" using topo_sets_locked_ids(1) [OF inv5 [unfolded topo_inv_def]] v5 by (simp add: topo_view_def)
  have new: "N' \<subseteq> old \<union> W \<union> C" using all by blast
  have cfg: "topo_mem t2 = topo_mem t" "neighbourhood_target_size t2 = neighbourhood_target_size t" "topo_out t2 = topo_out t"
    "my_metadata t2 = m" "my_metadata t5 = m"
    using f1(1) f2(1) f4 f5(1) by (simp_all add: topo_cfg_def t0')
  have nm: "neigh_msg ic ty t2 = neigh_msg ic ty t5" for ty by (simp add: neigh_msg_def fun_eq_iff cfg)
  have "tp_sent t2 = tp_sent t" using f2(2) f1(2) by (simp add: t0')
  then have sent5: "tp_sent t5 = tp_sent t @
      (if topo_out t then map (neigh_msg ic NEIGHBOURHOOD_ADD t5) ads @ map (neigh_msg ic NEIGHBOURHOOD_REMOVE t5) rms else [])"
    using sent f5(2) by (simp only: nm cfg)
  show ?thesis
    by (intro exI conjI, rule upd, rule inv5, rule v5, rule \<open>old \<subseteq> N\<close>, rule new, rule sub, rule size [unfolded cfg], rule sent5,
        rule tell(1), rule tell(2), rule tell(3), rule tell(4), rule cfg(5))
qed

section \<open>An instance of the peer sets\<close>

text \<open>A peer set kept as the list of its peers satisfies the laws; the examples use it.\<close>

definition fresh_address :: "('n, 'b) peer_store \<Rightarrow> nat" where
  "fresh_address h = while (\<lambda>a. h a \<noteq> None) Suc 0"

definition list_peerset :: "'b \<Rightarrow> (nat list, 'n, 'b) peerset_api" where
  "list_peerset b =
     \<lparr>ps_init = [], ps_peers = (\<lambda>s. s),
      ps_check = (\<lambda>h s i. if i \<in> pid h ` set s then 0 else -1),
      ps_get = (\<lambda>h s i. find (\<lambda>a. pid h a = i) s),
      ps_add = (\<lambda>h s i. if i \<in> pid h ` set s then (h, s)
                 else (h(fresh_address h :=
                          peer_data_init b (Some \<lparr>pr_id = i, pr_creation_timestamp = Timeval 0 0, pr_metadata = None, pr_user_data = None\<rparr>)),
                       s @ [fresh_address h])),
      ps_push = (\<lambda>h s a. if pid h a \<in> pid h ` set s then s else s @ [a]),
      ps_pop = (\<lambda>h s i. (find (\<lambda>a. pid h a = i) s, filter (\<lambda>a. pid h a \<noteq> i) s)),
      ps_remove = (\<lambda>h s i. (case find (\<lambda>a. pid h a = i) s of Some a \<Rightarrow> h(a := None) | None \<Rightarrow> h, filter (\<lambda>a. pid h a \<noteq> i) s)),
      ps_clear = (\<lambda>h s. (\<lambda>a. if a \<in> set s then None else h a, []))\<rparr>"

lemma fresh_address_free:
  assumes "finite (dom h)"
  shows "h (fresh_address h) = None"
  unfolding fresh_address_def
proof (rule while_rule [where P = "\<lambda>_. True" and r = "measure (\<lambda>a. card {x \<in> dom h. a \<le> x})"])
  fix a assume "h a \<noteq> None"
  then have "a \<in> {x \<in> dom h. a \<le> x}" "a \<notin> {x \<in> dom h. Suc a \<le> x}" by auto
  moreover have "{x \<in> dom h. Suc a \<le> x} \<subseteq> {x \<in> dom h. a \<le> x}" by auto
  ultimately have "{x \<in> dom h. Suc a \<le> x} \<subset> {x \<in> dom h. a \<le> x}" by blast
  then show "(Suc a, a) \<in> measure (\<lambda>a. card {x \<in> dom h. a \<le> x})" using assms by (simp add: psubset_card_mono)
qed auto

lemma find_pid_iff:
  assumes "inj_on (pid h) (set s)"
  shows "find (\<lambda>a. pid h a = i) s = Some a \<longleftrightarrow> a \<in> set s \<and> pid h a = i"
proof
  assume "find (\<lambda>a. pid h a = i) s = Some a"
  then show "a \<in> set s \<and> pid h a = i" by (auto simp: find_Some_iff)
next
  assume a: "a \<in> set s \<and> pid h a = i"
  then obtain x where x: "find (\<lambda>a. pid h a = i) s = Some x" by (cases "find (\<lambda>a. pid h a = i) s") (auto simp: find_None_iff)
  then have "x \<in> set s" "pid h x = i" by (auto simp: find_Some_iff)
  then show "find (\<lambda>a. pid h a = i) s = Some a" using x a assms by (auto simp: inj_on_def)
qed

lemma list_peerset_ok: "peerset_ok (list_peerset b :: (nat list, 'n, 'b) peerset_api) b"
proof -
  let ?A = "list_peerset b :: (nat list, 'n, 'b) peerset_api"
  have 1: "peerset_reads ?A"
    by (auto simp: peerset_reads_def list_peerset_def ps_wf_def find_pid_iff)
  have 2: "peerset_moves ?A"
    by (simp add: peerset_moves_def list_peerset_def)
  have 3: "peerset_owns ?A b"
    unfolding peerset_owns_def
  proof (intro allI impI conjI)
    fix h :: "('n, 'b) peer_store" and s :: "nat list" and i :: 'n
    assume wf: "ps_wf ?A h s"
    then have "h (fresh_address h) = None" by (simp add: fresh_address_free ps_wf_def)
    then show "if i \<in> pid h ` ps_set ?A s then ps_add ?A h s i = (h, s)
         else \<exists>a raw. h a = None \<and> pr_id raw = i \<and>
                fst (ps_add ?A h s i) = h(a := peer_data_init b (Some raw)) \<and>
                mset (ps_peers ?A (snd (ps_add ?A h s i))) = mset (a # ps_peers ?A s)"
      by (auto simp: list_peerset_def intro!: exI [of _ "fresh_address h"]
            exI [of _ "\<lparr>pr_id = i, pr_creation_timestamp = Timeval 0 0, pr_metadata = None, pr_user_data = None\<rparr>"])
    show "fst (ps_remove ?A h s i) = (case ps_get ?A h s i of Some a \<Rightarrow> h(a := None) | None \<Rightarrow> h)"
      and "mset (ps_peers ?A (snd (ps_remove ?A h s i))) = mset (filter (\<lambda>a. pid h a \<noteq> i) (ps_peers ?A s))"
      and "fst (ps_clear ?A h s) = (\<lambda>a. if a \<in> ps_set ?A s then None else h a)"
      and "ps_peers ?A (snd (ps_clear ?A h s)) = []"
      by (simp_all add: list_peerset_def)
  qed
  show ?thesis using 1 2 3 by (simp add: peerset_ok_def)
qed

section \<open>Messages\<close>

definition view_message :: "'n \<Rightarrow> u8 \<Rightarrow> 'n set \<times> 'n set \<times> 'n set \<Rightarrow> 'n set \<times> 'n set \<times> 'n set" where
  "view_message i ty v =
     (case v of (N, W, L) \<Rightarrow>
        if ty = NEIGHBOURHOOD_ADD then (insert i N, W - {i}, if i \<in> W then L else insert i L)
        else if ty = NEIGHBOURHOOD_REMOVE then (N - {i}, if i \<in> N then insert i W else W, L - {i})
        else if ty = NEIGHBOURHOOD_QUIT then (N - {i}, W - {i}, L - {i})
        else (N, W, L))"

text \<open>What a neighbourhood message needs: a type, and not only the first half of the sizes it announces.\<close>

definition neigh_complete :: "bytes \<Rightarrow> bool" where
  "neigh_complete buff \<longleftrightarrow> length buff \<ge> 2 \<and> \<not> (length buff = 4 \<and> buff ! 1 = NEIGHBOURHOOD_ADD)"

lemma neigh_type_distinct:
  "NEIGHBOURHOOD_REMOVE \<noteq> NEIGHBOURHOOD_ADD" "NEIGHBOURHOOD_QUIT \<noteq> NEIGHBOURHOOD_ADD" "NEIGHBOURHOOD_QUIT \<noteq> NEIGHBOURHOOD_REMOVE"
  by (simp_all add: NEIGHBOURHOOD_ADD_def NEIGHBOURHOOD_REMOVE_def NEIGHBOURHOOD_QUIT_def)

lemma neighbourhood_message_view:
  assumes ok: "peerset_ok A b" and inv: "topo_inv A t" and c: "neigh_complete buff"
  obtains t' where "neighbourhood_message_parse A S ic (Some i) (drop 1 buff) (length buff) t = Inr t'" and "topo_inv A t'"
    and "topo_view A t' = view_message i (buff ! 1) (topo_view A t)" and "topo_cfg t' = topo_cfg t"
    and "tp_sent t' = tp_sent t @ (if buff ! 1 = NEIGHBOURHOOD_ADD then [Bmap_to i] else [])"
proof -
  obtain ty x rest where buff: "buff = ty # x # rest" using c by (cases buff; cases "tl buff") (auto simp: neigh_complete_def)
  show ?thesis
  proof (cases "x = NEIGHBOURHOOD_ADD")
    case True
    obtain a t1 where p: "neighbourhood_add_peer A (Some i) t = Inr (Some a, t1)" "topo_inv A t1"
      "topo_view A t1 = (case topo_view A t of (N, W, L) \<Rightarrow> (insert i N, W - {i}, if i \<in> W then L else insert i L))"
      "a \<in> ps_set A (neighbourhood t1)" "tp_sent t1 = tp_sent t @ [Bmap_to i]" "topo_cfg t1 = topo_cfg t"
      by (rule add_peer_view [OF ok inv])
    show ?thesis
    proof (cases "length buff \<ge> 4")
      case False
      then show ?thesis
        using that [of t1] p True
        by (simp add: neighbourhood_message_parse_def buff sizeof_metadata_def view_message_def)
    next
      case len: True
      then have len5: "length rest \<ge> 3" using c True by (cases rest; cases "tl rest"; cases "tl (tl rest)") (auto simp: neigh_complete_def buff)
      obtain q where q: "tp_peers t1 a = Some q" using topo_inv_peer [OF p(2), of a] p(4) by blast
      let ?m = "\<lparr>md_cb_size = int16_rcpy ic rest, md_neigh_size = (x # rest) ! 3\<rparr>"
      note s = set_metadata_view [OF p(2) q, of ?m]
      have "neighbourhood_message_parse A S ic (Some i) (drop 1 buff) (length buff) t =
          Inr (t1\<lparr>tp_peers := (tp_peers t1)(a := Some (q\<lparr>pr_metadata := Some ?m\<rparr>))\<rparr>)"
        using p(1) s(1) True len len5 by (simp add: neighbourhood_message_parse_def buff sizeof_metadata_def)
      then show ?thesis
        using that s(2,3) p True by (simp add: buff view_message_def topo_cfg_def)
    qed
  next
    case False
    then show ?thesis
      using that remove_peer_view [OF ok inv, of i] forget_peer_view [OF ok inv, of S i] neigh_type_distinct
        inv by (cases "x = NEIGHBOURHOOD_REMOVE"; cases "x = NEIGHBOURHOOD_QUIT")
          (auto simp: neighbourhood_message_parse_def buff view_message_def split: prod.split)
  qed
qed

lemma nodeid_to_peer_view:
  assumes ok: "peerset_ok A b" and inv: "topo_inv A t"
  obtains p t' where "nodeid_to_peer A S ic i reg t = Inr (p, t')" and "topo_inv A t'"
    and "topo_view A t' = (case topo_view A t of (N, W, L) \<Rightarrow>
           if i \<in> N \<union> W \<or> \<not> reg then (N, W, L) else (insert i N, W, L))"
    and "p = topology_get_peer A t' i" and "topo_cfg t' = topo_cfg t" and "p = None \<longrightarrow> \<not> reg"
    and "tp_sent t' = tp_sent t @
           (if topology_get_peer A t i = None \<and> reg then [Bmap_to i] @ (if topo_out t then [neigh_msg ic NEIGHBOURHOOD_ADD t i] else []) else [])"
proof (cases "topology_get_peer A t i = None \<and> reg")
  case False
  show ?thesis
  proof -
    obtain N W L where v: "topo_view A t = (N, W, L)" by (cases "topo_view A t") auto
    have "i \<in> N \<union> W \<or> \<not> reg" using False get_peer_None [OF ok inv, of i] v by auto
    then show ?thesis
      using that [of "topology_get_peer A t i" t] inv False v by (auto simp: nodeid_to_peer_def)
  qed
next
  case True
  define t1 where t1: "t1 = snd (topology_node_insert A S i t)"
  note n = node_insert_view [OF ok inv, of S i, folded t1]
  have f1: "topo_cfg t1 = topo_cfg t" "tp_sent t1 = tp_sent t"
    by (simp_all add: t1 topology_node_insert_def topo_cfg_def swarm_add_def Let_def split: prod.split)
  obtain a t2 where p: "neighbourhood_add_peer A (Some i) t1 = Inr (Some a, t2)" "topo_inv A t2"
    "topo_view A t2 = (case topo_view A t1 of (N, W, L) \<Rightarrow> (insert i N, W - {i}, if i \<in> W then L else insert i L))"
    "tp_sent t2 = tp_sent t1 @ [Bmap_to i]" "topo_cfg t2 = topo_cfg t1"
    by (rule add_peer_view [OF ok n(1)])
  have "i \<in> fst (topo_view A t2) \<union> fst (snd (topo_view A t2))" using p(3) by (simp split: prod.split)
  then obtain c q where g: "topology_get_peer A t2 i = Some c" "tp_peers t2 c = Some q" "pr_id q = i"
    by (rule get_peer_SomeI [OF ok p(2)])
  have new: "i \<notin> fst (topo_view A t) \<union> fst (snd (topo_view A t))" using get_peer_None [OF ok inv] True by simp
  have v2: "topo_view A t2 = (case topo_view A t of (N, W, L) \<Rightarrow> if i \<in> N \<union> W \<or> \<not> reg then (N, W, L) else (insert i N, W, L))"
    using p(3) n(2) new True by (auto split: prod.split)
  define t3 where t3: "t3 = (if topo_out t2 then neighbourhood_send_msg ic q NEIGHBOURHOOD_ADD t2 else t2)"
  have same: "topo_inv A t3 = topo_inv A t2" "topo_view A t3 = topo_view A t2" "topology_get_peer A t3 i = topology_get_peer A t2 i"
    "topo_cfg t3 = topo_cfg t2"
    by (simp_all add: t3 neighbourhood_send_msg_def topo_inv_def topo_view_def topology_get_peer_def topo_cfg_def
        split: option.split)
  have eq: "nodeid_to_peer A S ic i reg t = Inr (Some c, t3)"
    using True p(1) g by (simp add: nodeid_to_peer_def t1 [symmetric] peer_at_def Let_def t3)
  have mm: "my_metadata t2 = my_metadata t" "topo_out t2 = topo_out t" using p(5) f1(1) by (simp_all add: topo_cfg_def)
  have "tp_sent t3 = tp_sent t @ [Bmap_to i] @ (if topo_out t then [neigh_msg ic NEIGHBOURHOOD_ADD t i] else [])"
    using p(4) f1(2) g(3) by (simp add: t3 neighbourhood_send_msg_def neigh_msg_def mm)
  then have sent: "tp_sent t3 = tp_sent t @ (if topology_get_peer A t i = None \<and> reg
      then [Bmap_to i] @ (if topo_out t then [neigh_msg ic NEIGHBOURHOOD_ADD t i] else []) else [])" using True by simp
  show ?thesis
  proof (rule that [OF eq])
    show "topo_inv A t3" using same(1) p(2) by simp
    show "topo_view A t3 = (case topo_view A t of (N, W, L) \<Rightarrow> if i \<in> N \<union> W \<or> \<not> reg then (N, W, L) else (insert i N, W, L))"
      using same(2) v2 by simp
    show "Some c = topology_get_peer A t3 i" using same(3) g(1) by simp
    show "topo_cfg t3 = topo_cfg t" using same(4) p(5) f1(1) by simp
  qed (use sent in simp_all)
qed

lemma message_parse_view:
  assumes ok: "peerset_ok A b" and inv: "topo_inv A t"
  shows "if buff = [] \<or> buff ! 0 = MSG_TYPE_NEIGHBOURHOOD \<and> topo_in t \<and> \<not> neigh_complete buff
    then topology_message_parse A S ic (Some i) buff t = Inl Uninit_Read
    else \<exists>t'. topology_message_parse A S ic (Some i) buff t = Inr t' \<and> topo_inv A t' \<and> topo_cfg t' = topo_cfg t \<and>
      topo_view A t' = (if buff ! 0 = MSG_TYPE_NEIGHBOURHOOD \<and> topo_in t then view_message i (buff ! 1) (topo_view A t) else topo_view A t)"
proof (cases "buff \<noteq> [] \<and> buff ! 0 = MSG_TYPE_NEIGHBOURHOOD \<and> topo_in t")
  case False
  then show ?thesis
    using inv by (auto simp: topology_message_parse_def topo_inv_def topo_view_def topo_cfg_def)
next
  case True
  show ?thesis
  proof (cases "neigh_complete buff")
    case c: True
    then show ?thesis
      using True neighbourhood_message_view [OF ok inv c, of S ic i]
      by (simp add: topology_message_parse_def) metis
  next
    case c: False
    show ?thesis
    proof (cases "length buff \<ge> 2")
      case short: False
      then have "drop 1 buff = []" by simp
      then show ?thesis using True c by (simp add: topology_message_parse_def neighbourhood_message_parse_def)
    next
      case len: True
      then obtain ty x rest where b: "buff = ty # x # rest" by (cases buff; cases "tl buff") auto
      obtain a t1 where p: "neighbourhood_add_peer A (Some i) t = Inr (Some a, t1)"
        by (rule add_peer_view [OF ok inv])
      then show ?thesis
        using True c len by (simp add: topology_message_parse_def neighbourhood_message_parse_def neigh_complete_def b sizeof_metadata_def)
    qed
  qed
qed

section \<open>Runs\<close>

text \<open>What the rest of the engine does with a topology, in any order: the bootstrap node is inserted, messages
  arrive, peers are looked up, the topology is updated.\<close>

inductive topo_step ::
  "('s, 'n, 'b) peerset_api \<Rightarrow> ('p, 'n) psample_api \<Rightarrow> int_coding \<Rightarrow> ((nat \<Rightarrow> nat \<Rightarrow> int) \<Rightarrow> nat list \<Rightarrow> nat list) \<Rightarrow>
   ('s, 'p, 'n, 'b) topology \<Rightarrow> ('s, 'p, 'n, 'b) topology \<Rightarrow> bool"
  for A S ic qsort where
  step_insert: "topology_node_insert A S i t = (r, t') \<Longrightarrow> topo_step A S ic qsort t t'"
| step_message: "topology_message_parse A S ic (Some i) buff t = Inr t' \<Longrightarrow> topo_step A S ic qsort t t'"
| step_lookup: "nodeid_to_peer A S ic i reg t = Inr (p, t') \<Longrightarrow> topo_step A S ic qsort t t'"
| step_update: "(\<And>i. r1 i \<le> RAND_MAX) \<Longrightarrow> (\<And>i. r2 i \<le> RAND_MAX) \<Longrightarrow>
    topology_update A S ic qsort tnow r1 r2 src bs t = Some (Inr t') \<Longrightarrow> topo_step A S ic qsort t t'"

inductive topo_reach ::
  "('s, 'n, 'b) peerset_api \<Rightarrow> ('p, 'n) psample_api \<Rightarrow> int_coding \<Rightarrow> ((nat \<Rightarrow> nat \<Rightarrow> int) \<Rightarrow> nat list \<Rightarrow> nat list) \<Rightarrow>
   ('s, 'p, 'n, 'b) topology \<Rightarrow> bool"
  for A S ic qsort where
  reach_create: "finite (dom (tp_peers raw)) \<Longrightarrow> topo_reach A S ic qsort (topology_create A S tc src bs nsize tout raw)"
| reach_step: "topo_reach A S ic qsort t \<Longrightarrow> topo_step A S ic qsort t t' \<Longrightarrow> topo_reach A S ic qsort t'"

inductive_cases topo_stepE: "topo_step A S ic qsort t t'"

definition samples_ok :: "('p, 'n) psample_api \<Rightarrow> bool" where
  "samples_ok S \<longleftrightarrow> (\<forall>p. length (sa_cache S p) \<le> length (sa_metadata S p))"

definition qsort_ok :: "((nat \<Rightarrow> nat \<Rightarrow> int) \<Rightarrow> nat list \<Rightarrow> nat list) \<Rightarrow> bool" where
  "qsort_ok qsort \<longleftrightarrow> (\<forall>c xs. mset (qsort c xs) = mset xs)"

lemma topo_inv_create:
  assumes "peerset_ok A b" and "finite (dom (tp_peers raw))"
  shows "topo_inv A (topology_create A S tc src bs nsize tout raw)"
  using assms
  by (simp add: topology_create_def topology_init_def update_metadata_def topo_inv_def topo_sets_def live_peers_def Let_def)

lemma topo_step_inv:
  assumes ok: "peerset_ok A b" and "samples_ok S" and "qsort_ok qsort" and inv: "topo_inv A t" and "topo_step A S ic qsort t t'"
  shows "topo_inv A t'"
proof -
  consider (1) i r where "topology_node_insert A S i t = (r, t')"
    | (2) i buff where "topology_message_parse A S ic (Some i) buff t = Inr t'"
    | (3) i reg p where "nodeid_to_peer A S ic i reg t = Inr (p, t')"
    | (4) r1 r2 tnow src bs where "\<And>i. r1 i \<le> RAND_MAX" "\<And>i. r2 i \<le> RAND_MAX"
        "topology_update A S ic qsort tnow r1 r2 src bs t = Some (Inr t')"
    using assms(5) by (elim topo_stepE) metis+
  then show ?thesis
  proof cases
  case (1 i r)
  then show ?thesis using node_insert_view(1) [OF ok inv, of S i] by simp
next
  case (2 i buff)
  then show ?thesis using message_parse_view [OF ok inv, of buff S ic i] by (auto split: if_split_asm)
next
  case (3 i reg p)
  then show ?thesis using nodeid_to_peer_view [OF ok inv, of S ic i reg] by (metis Inr_inject prod.inject)
next
  case (4 r1 r2 tnow src bs)
  obtain N W L where v: "topo_view A t = (N, W, L)" by (cases "topo_view A t") auto
  have "\<exists>u. topology_update A S ic qsort tnow r1 r2 src bs t = Some (Inr u) \<and> topo_inv A u"
    using topology_update_lemma [OF ok inv v, of r1 r2 qsort S ic tnow src bs] 4(1,2) assms(2,3)
    unfolding samples_ok_def qsort_ok_def by blast
  then show ?thesis using 4(3) by auto
  qed
qed

lemma topo_reach_inv:
  assumes "peerset_ok A b" and "samples_ok S" and "qsort_ok qsort" and "topo_reach A S ic qsort t"
  shows "topo_inv A t"
  using assms(4)
  by (induction rule: topo_reach.induct)
    (auto intro: topo_inv_create [OF assms(1)] topo_step_inv [OF assms(1-3)])

section \<open>Quitting\<close>

lemma c_each_quit:
  assumes "set as \<subseteq> dom (tp_peers t)"
  shows "c_each (\<lambda>a w. c_bind (peer_at (tp_peers w) a) (\<lambda>p. Inr (neighbourhood_send_msg ic p ty w))) as t =
    Inr (t\<lparr>tp_sent := tp_sent t @ map (neigh_msg ic ty t) (map (pid (tp_peers t)) as)\<rparr>)"
  using c_each_announce [OF assms, of "\<lambda>_ _. True" UNIV ic ty] by (simp cong: if_cong)

lemma quit_overlay_result:
  assumes "topo_inv A t"
  shows "topology_quit_overlay A ic t = Inr (t\<lparr>tp_sent := tp_sent t @ map (neigh_msg ic NEIGHBOURHOOD_QUIT t)
    (map (pid (tp_peers t)) (ps_peers A (neighbourhood t) @ ps_peers A (swarm_bucket t)))\<rparr>)"
proof -
  have n: "ps_set A (neighbourhood t) \<subseteq> dom (tp_peers t)" and s: "ps_set A (swarm_bucket t) \<subseteq> dom (tp_peers t)"
    using topo_inv_wf [OF assms] by (simp_all add: ps_wf_def)
  define t1 where t1: "t1 = t\<lparr>tp_sent := tp_sent t @ map (neigh_msg ic NEIGHBOURHOOD_QUIT t) (map (pid (tp_peers t)) (ps_peers A (neighbourhood t)))\<rparr>"
  have "neigh_msg ic NEIGHBOURHOOD_QUIT t1 = neigh_msg ic NEIGHBOURHOOD_QUIT t" by (simp add: t1 neigh_msg_def fun_eq_iff)
  then show ?thesis
    using c_each_quit [OF n, of ic NEIGHBOURHOOD_QUIT, folded t1] c_each_quit [of "ps_peers A (swarm_bucket t)" t1 ic NEIGHBOURHOOD_QUIT] s
    by (simp add: topology_quit_overlay_def t1)
qed

lemma destroy_result:
  assumes ok: "peerset_ok A b" and inv: "topo_inv A t"
  shows "topology_destroy A ic (Some t) = Some (Inr (\<lambda>a. if a \<in> ps_set A (neighbourhood t) \<union> ps_set A (swarm_bucket t) then None else tp_peers t a,
    tp_sent t @ map (neigh_msg ic NEIGHBOURHOOD_QUIT t) (map (pid (tp_peers t)) (ps_peers A (neighbourhood t) @ ps_peers A (swarm_bucket t)))))"
proof -
  note wf = topo_inv_wf [OF inv]
  have d: "peerset_destroy_reference_copy A (tp_peers t) (locked_neighs t) = Some (Inr ())"
    using destroy_copy_terminates [OF ok wf(3)] by (simp add: peerset_destroy_reference_copy_def)
  define h1 where h1: "h1 = fst (ps_clear A (tp_peers t) (neighbourhood t))"
  have h1': "h1 = (\<lambda>a. if a \<in> ps_set A (neighbourhood t) then None else tp_peers t a)"
    using ps_clear_fst [OF ok wf(1)] by (simp add: h1)
  have disj: "ps_set A (neighbourhood t) \<inter> ps_set A (swarm_bucket t) = {}" using inv by (simp add: topo_inv_def topo_sets_def)
  have "ps_wf A h1 (swarm_bucket t)"
  proof (rule ps_wf_cong [OF wf(2)])
    fix a assume a: "a \<in> ps_set A (swarm_bucket t)"
    then obtain p where "tp_peers t a = Some p" using topo_inv_peer [OF inv, of a] by blast
    then show "\<exists>p. h1 a = Some p \<and> pr_id p = pid (tp_peers t) a" using a disj by (auto simp: h1' pid_def)
  next
    have "dom h1 \<subseteq> dom (tp_peers t)" by (auto simp: h1' split: if_splits)
    then show "finite (dom h1)" using wf(1) finite_subset unfolding ps_wf_def by blast
  qed
  then have "fst (ps_clear A h1 (swarm_bucket t)) = (\<lambda>a. if a \<in> ps_set A (swarm_bucket t) then None else h1 a)"
    by (rule ps_clear_fst [OF ok])
  also have "\<dots> = (\<lambda>a. if a \<in> ps_set A (neighbourhood t) \<union> ps_set A (swarm_bucket t) then None else tp_peers t a)"
    by (auto simp: h1' fun_eq_iff)
  finally show ?thesis using d by (simp add: topology_destroy_def quit_overlay_result [OF inv] h1)
qed

section \<open>Which inactive neighbours are dropped\<close>

fun drop_alternate :: "('x \<Rightarrow> bool) \<Rightarrow> 'x list \<Rightarrow> 'x list" where
  "drop_alternate old [] = []"
| "drop_alternate old [x] = (if old x then [] else [x])"
| "drop_alternate old (x # y # ys) = (if old x then y # drop_alternate old ys else x # drop_alternate old (y # ys))"

definition closes_up :: "('s, 'n, 'b) peerset_api \<Rightarrow> bool" where
  "closes_up A \<longleftrightarrow> (\<forall>h s i. ps_wf A h s \<longrightarrow> ps_peers A (snd (ps_remove A h s i)) = filter (\<lambda>a. pid h a \<noteq> i) (ps_peers A s))"

lemma drop_alternate_cong: "(\<And>x. x \<in> set xs \<Longrightarrow> f x = g x) \<Longrightarrow> drop_alternate f xs = drop_alternate g xs"
  by (induction f xs rule: drop_alternate.induct) auto

lemma remove_neighbour_peers:
  fixes S :: "('p, 'n) psample_api"
  assumes cl: "closes_up A" and inv: "topo_inv A t" and a: "ps_peers A (neighbourhood t) = pre @ a # ys"
  shows "ps_peers A (neighbourhood (topology_remove_peer A S (Some (pid (tp_peers t) a)) t)) = pre @ ys"
proof -
  have "inj_on (pid (tp_peers t)) (set (pre @ a # ys))" "distinct (pre @ a # ys)"
    using topo_inv_wf(1) [OF inv] by (simp_all add: ps_wf_def a [symmetric])
  then have "filter (\<lambda>x. pid (tp_peers t) x \<noteq> pid (tp_peers t) a) (pre @ a # ys) = pre @ ys"
    by (auto simp: inj_on_def intro!: arg_cong2 [where f = append] filter_True)
  moreover have "ps_peers A (snd (ps_remove A (tp_peers t) (neighbourhood t) (pid (tp_peers t) a))) =
      filter (\<lambda>x. pid (tp_peers t) x \<noteq> pid (tp_peers t) a) (ps_peers A (neighbourhood t))"
    using cl topo_inv_wf(1) [OF inv] unfolding closes_up_def by blast
  ultimately show ?thesis by (auto simp: topology_remove_peer_def a Let_def split: prod.split)
qed

lemma drop_loop_alternate:
  assumes ok: "peerset_ok A b" and cl: "closes_up A" and "topo_inv A t" and "length rest \<le> fuel"
    and "ps_peers A (neighbourhood t) = pre @ rest"
  shows "\<exists>t'. drop_loop A S told fuel (length pre) t = Some (Inr t') \<and> topo_inv A t' \<and>
    ps_peers A (neighbourhood t') = pre @ drop_alternate (\<lambda>a. unactive told (the (tp_peers t a))) rest"
  using assms(3-)
proof (induction fuel arbitrary: pre rest t)
  case 0
  then show ?case by (simp add: drop_loop_end)
next
  case (Suc fuel)
  show ?case
  proof (cases rest)
    case Nil
    then show ?thesis using Suc.prems by (simp add: drop_loop_end)
  next
    case (Cons a ys)
    then have peers: "ps_peers A (neighbourhood t) = pre @ a # ys" using Suc.prems by simp
    then have an: "a \<in> ps_set A (neighbourhood t)" by simp
    define t1 where t1: "t1 = (if unactive told (the (tp_peers t a)) then topology_remove_peer A S (Some (pid (tp_peers t) a)) t else t)"
    have step: "drop_loop A S told (Suc fuel) (length pre) t = drop_loop A S told fuel (length (pre @ [a])) t1"
      using drop_loop_step [OF Suc.prems(1), of "length pre" a S told fuel] by (simp add: peers t1)
    show ?thesis
    proof (cases "unactive told (the (tp_peers t a))")
      case False
      then have "t1 = t" by (simp add: t1)
      then show ?thesis
        using Suc.IH [OF Suc.prems(1), of ys "pre @ [a]"] Suc.prems(2) step peers False
        by (cases ys) (auto simp: Cons)
    next
      case True
      then have t1': "t1 = topology_remove_peer A S (Some (pid (tp_peers t) a)) t" by (simp add: t1)
      have inv1: "topo_inv A t1" unfolding t1' by (rule forget_peer_view(1) [OF ok Suc.prems(1)])
      have peers1: "ps_peers A (neighbourhood t1) = pre @ ys"
        unfolding t1' by (rule remove_neighbour_peers [OF cl Suc.prems(1) peers])
      have h1: "tp_peers t1 = (tp_peers t)(a := None)" unfolding t1' by (rule forget_neighbour(3) [OF ok Suc.prems(1) an])
      have ny: "a \<notin> set ys" using topo_inv_wf(1) [OF Suc.prems(1)] by (simp add: ps_wf_def peers)
      show ?thesis
      proof (cases ys)
        case Nil
        then have "drop_loop A S told fuel (length (pre @ [a])) t1 = Some (Inr t1)"
          using peers1 by (simp add: drop_loop_end)
        then show ?thesis using step peers1 inv1 Nil True by (auto simp: Cons)
      next
        case (Cons y zs)
        have "drop_alternate (\<lambda>x. unactive told (the (tp_peers t1 x))) zs = drop_alternate (\<lambda>x. unactive told (the (tp_peers t x))) zs"
          by (rule drop_alternate_cong) (use ny Cons h1 in auto)
        then show ?thesis
          using Suc.IH [OF inv1, of zs "pre @ [y]"] Suc.prems(2) step peers1 True
          by (auto simp: \<open>rest = a # ys\<close> Cons)
      qed
    qed
  qed
qed

text \<open>An ADD message and its effect.\<close>

lemma handshake_result:
  assumes "int_coding_ok ic" and "peerset_ok A b" and "topo_inv A t2" and "topo_in t2"
  shows "\<exists>msg t2' a q. length msg = 5 \<and> msg ! 0 = MSG_TYPE_NEIGHBOURHOOD \<and> tp_sent (neighbourhood_send_msg ic p NEIGHBOURHOOD_ADD t1) = tp_sent t1 @ [Neigh_msg (pr_id p) msg] \<and>
    topology_message_parse A S ic (Some i) msg t2 = Inr t2' \<and> topo_inv A t2' \<and>
    a \<in> ps_set A (neighbourhood t2') \<and> tp_peers t2' a = Some q \<and> pr_id q = i \<and>
    peer_cb_size (Some q) = md_cb_size (my_metadata t1) \<and> peer_neigh_size (Some q) = ucast (md_neigh_size (my_metadata t1)) \<and>
    tp_sent t2' = tp_sent t2 @ [Bmap_to i]"
proof -
  define msg where msg: "msg = [MSG_TYPE_NEIGHBOURHOOD, NEIGHBOURHOOD_ADD] @ int16_cpy ic (md_cb_size (my_metadata t1)) @ [md_neigh_size (my_metadata t1)]"
  have sent: "tp_sent (neighbourhood_send_msg ic p NEIGHBOURHOOD_ADD t1) = tp_sent t1 @ [Neigh_msg (pr_id p) msg]"
    by (simp add: neighbourhood_send_msg_def msg)
  have l2: "length (int16_cpy ic v) = 2" and rd: "int16_rcpy ic (int16_cpy ic v @ rest) = v" for v rest
    using assms(1) by simp_all
  have len: "length msg = 5" by (simp add: msg l2)
  obtain a t' where p: "neighbourhood_add_peer A (Some i) t2 = Inr (Some a, t')" "topo_inv A t'"
    "a \<in> ps_set A (neighbourhood t')" "pid (tp_peers t') a = i" "tp_sent t' = tp_sent t2 @ [Bmap_to i]"
    by (rule add_peer_view [OF assms(2,3)])
  obtain x where x: "tp_peers t' a = Some x" using topo_inv_peer [OF p(2), of a] p(3) by blast
  let ?m = "\<lparr>md_cb_size = md_cb_size (my_metadata t1), md_neigh_size = md_neigh_size (my_metadata t1)\<rparr>"
  note s = set_metadata_view [OF p(2) x, of ?m]
  have drop2: "drop 1 (drop 1 msg) = int16_cpy ic (md_cb_size (my_metadata t1)) @ [md_neigh_size (my_metadata t1)]"
    by (simp add: msg)
  have nth3: "drop 1 msg ! 3 = md_neigh_size (my_metadata t1)"
    using l2 [of "md_cb_size (my_metadata t1)"] by (simp add: msg nth_append)
  have "topology_message_parse A S ic (Some i) msg t2 = neighbourhood_message_parse A S ic (Some i) (drop 1 msg) 5 t2"
    using assms(4) len by (simp add: topology_message_parse_def msg)
  also have "\<dots> = set_peer_metadata (Some a) ?m t'"
    using p(1) len nth3 drop2 rd
    by (simp add: neighbourhood_message_parse_def sizeof_metadata_def) (simp add: msg)
  finally have "topology_message_parse A S ic (Some i) msg t2 =
      Inr (t'\<lparr>tp_peers := (tp_peers t')(a := Some (x\<lparr>pr_metadata := Some ?m\<rparr>))\<rparr>)" using s(1) by simp
  moreover have "pr_id x = i" using p(4) x by (simp add: pid_def)
  ultimately show ?thesis
    using sent s(2) p(3,5) len
    by (intro exI [of _ msg] exI [of _ "t'\<lparr>tp_peers := (tp_peers t')(a := Some (x\<lparr>pr_metadata := Some ?m\<rparr>))\<rparr>"] exI [of _ a]
        exI [of _ "x\<lparr>pr_metadata := Some ?m\<rparr>"]) (simp add: peer_cb_size_def peer_neigh_size_def msg)
qed

section \<open>Properties\<close>

definition no_samples :: "(unit, 'n) psample_api" where
  "no_samples =
     \<lparr>sa_parse_data = (\<lambda>p _. p), sa_cache = (\<lambda>_. []), sa_metadata = (\<lambda>_. []), sa_add_peer = (\<lambda>p _ _. (0, p)),
      sa_remove_peer = (\<lambda>p _. p), sa_change_metadata = (\<lambda>p _. p), MSG_TYPE_TOPOLOGY = 0x11\<rparr>"

definition empty_topology :: "(nat list, unit, 'n, 'b) topology" where
  "empty_topology =
     \<lparr>topo_mem = 0, topo_out = False, topo_in = False, neighbourhood_target_size = 0, tout_bmap = Timeval 0 0,
      my_metadata = \<lparr>md_cb_size = 0, md_neigh_size = 0\<rparr>, tp_tc = (), neighbourhood = [], swarm_bucket = [],
      locked_neighs = [], tp_peers = (\<lambda>_. None), tp_sent = []\<rparr>"

definition new_topology :: "(nat list, unit, nat, unit) topology" where
  "new_topology = topology_create (list_peerset ()) no_samples () True 0 None None empty_topology"

lemma new_topology_inv: "topo_inv (list_peerset ()) new_topology"
  unfolding new_topology_def by (rule topo_inv_create [OF list_peerset_ok]) (simp add: empty_topology_def)

lemma samples_ok_none: "samples_ok no_samples"
  by (simp add: samples_ok_def no_samples_def)

lemma list_peerset_peers [simp]: "ps_peers (list_peerset b) s = s" "ps_init (list_peerset b) = []"
  by (simp_all add: list_peerset_def)

lemma update_swarm_empty:
  assumes "peerset_ok A b" and "topo_inv A t"
    and "\<And>i. r1 i \<le> RAND_MAX" "\<And>i. r2 i \<le> RAND_MAX" and "\<And>c xs. mset (qsort c xs) = mset xs"
    and "\<And>p. length (sa_cache S p) \<le> length (sa_metadata S p)"
  obtains t' N' L' where "topology_update A S ic qsort tnow r1 r2 src bs t = Some (Inr t')" and "topo_view A t' = (N', {}, L')"
proof -
  obtain N W L where v: "topo_view A t = (N, W, L)" by (cases "topo_view A t") auto
  show ?thesis
    using topology_update_lemma [where ?r1.0 = r1 and ?r2.0 = r2 and qsort = qsort and S = S, OF assms(1,2) v assms(3-6), where ic = ic and tnow = tnow and src = src and bs = bs]
    by (elim exE conjE) (rule that; assumption)
qed





text \<open>C20: Dropping inactive neighbours skips: when the array of neighbours closes up on a removal, the neighbour
  that moves into the freed place is not looked at.  What is left is exactly the result of \<open>drop_alternate\<close>, so of two
  adjacent inactive neighbours the second stays until another update.\<close>

theorem drop_unactives_result:
  fixes A :: "('s, 'n, 'b) peerset_api" and t :: "('s, 'p, 'n, 'b) topology" and tnow timeout :: timeval
  assumes "peerset_ok A b" and "closes_up A" and "topo_inv A t"
  defines "old \<equiv> (\<lambda>a. unactive (timersub tnow timeout) (the (tp_peers t a)))"
  shows "\<exists>t'. neighbourhood_drop_unactives A S tnow timeout t = Some (Inr t') \<and> topo_inv A t' \<and>
    ps_peers A (neighbourhood t') = drop_alternate old (ps_peers A (neighbourhood t))"
  using drop_loop_alternate [OF assms(1-3), where rest = "ps_peers A (neighbourhood t)" and pre = "[]" and S = S
      and fuel = "ps_size A (neighbourhood t)" and told = "timersub tnow timeout"]
  by (simp add: neighbourhood_drop_unactives_def old_def)

definition two_neighbours :: "(nat list, unit, nat, unit) topology" where
  "two_neighbours =
     (let p = (\<lambda>i. \<lparr>pr_id = i, pr_creation_timestamp = Timeval 5 0, pr_metadata = None,
                    pr_user_data = Some \<lparr>ud_bmap_timestamp = Timeval 0 0, ud_bmap = ()\<rparr>\<rparr>)
      in empty_topology\<lparr>neighbourhood := [0, 1], tp_peers := (\<lambda>_. None)(0 := Some (p 10), 1 := Some (p 11))\<rparr>)"

lemma closes_up_list: "closes_up (list_peerset b)"
  by (simp add: closes_up_def list_peerset_def)

lemma two_neighbours_inv: "topo_inv (list_peerset ()) two_neighbours"
  by (simp add: topo_inv_def topo_sets_def live_peers_def two_neighbours_def empty_topology_def list_peerset_def pid_def Let_def)

theorem drop_unactives_result_witness:
  "\<exists>t'. neighbourhood_drop_unactives (list_peerset ()) no_samples (Timeval 100 0) (Timeval 10 0) two_neighbours = Some (Inr t') \<and>
     neighbourhood t' = [1]"
proof -
  have "drop_alternate (\<lambda>a. unactive (timersub (Timeval 100 0) (Timeval 10 0)) (the (tp_peers two_neighbours a)))
      (ps_peers (list_peerset ()) (neighbourhood two_neighbours)) = [1]"
    by (simp add: two_neighbours_def Let_def empty_topology_def unactive_def peer_bmap_timestamp_def
        timersub_def timerisset_def less_timeval_def)
  then show ?thesis
    using drop_unactives_result [OF list_peerset_ok closes_up_list two_neighbours_inv, of no_samples "Timeval 100 0" "Timeval 10 0"]
    by auto
qed

text \<open>C18: Choosing peers at random loses and invents none: the shuffle is a permutation whatever
  \<open>rand()\<close> returns, and exactly \<open>min n num\<close> of the $n$ peers that pass the filter change from the first set to the second.\<close>

theorem shuffle_and_move:
  fixes A :: "('s, 'n, 'b) peerset_api" and filter_mask :: "(nat \<Rightarrow> bool) option"
  assumes "peerset_ok A b" and "topo_sets A h s2 s1 lk" and "\<And>i. r i \<le> RAND_MAX" and "qsort_ok qsort"
  defines "el \<equiv> {a \<in> ps_set A s1. case filter_mask of Some f \<Rightarrow> f a | None \<Rightarrow> True}"
  shows "mset (array_shuffle r xs) = mset xs \<and>
    (\<exists>s1' s2' X. topology_move_peers A qsort r h s1 s2 num criterion filter_mask cmp_peer = Inr (s1', s2') \<and>
      X \<subseteq> el \<and> card X = min (card el) (nat num) \<and> ps_set A s1' = ps_set A s1 - X \<and> ps_set A s2' = ps_set A s2 \<union> X)"
proof (intro conjI)
  show "mset (array_shuffle r xs) = mset xs" by (rule array_shuffle_mset [OF assms(3)])
  have q: "\<And>c xs. mset (qsort c xs) = mset xs" using assms(4) by (simp add: qsort_ok_def)
  show "\<exists>s1' s2' X. topology_move_peers A qsort r h s1 s2 num criterion filter_mask cmp_peer = Inr (s1', s2') \<and>
      X \<subseteq> el \<and> card X = min (card el) (nat num) \<and> ps_set A s1' = ps_set A s1 - X \<and> ps_set A s2' = ps_set A s2 \<union> X"
    unfolding el_def
    by (rule move_peers_result [OF assms(1-3) q, where filter_mask = filter_mask and num = num and criterion = criterion and cmp_peer = cmp_peer])
      (intro exI conjI)
qed

theorem shuffle_and_move_witness:
  "\<exists>s1' s2' X. topology_move_peers (list_peerset ()) (\<lambda>c xs. xs) (\<lambda>_. 7) (tp_peers two_neighbours) [0, 1] [] 1 PEER_CHOICE_RANDOM None None = Inr (s1', s2') \<and>
     X \<subseteq> {0, 1} \<and> card X = 1 \<and> set s1' = {0, 1} - X \<and> set s2' = X"
proof -
  have "topo_sets (list_peerset ()) (tp_peers two_neighbours) [] [0, 1] []"
    by (simp add: topo_sets_def live_peers_def two_neighbours_def empty_topology_def list_peerset_def pid_def Let_def)
  note sets = this
  show ?thesis
  proof -
    have r: "(\<lambda>_. 7) i \<le> RAND_MAX" for i :: nat by (simp add: RAND_MAX_def)
    have q: "qsort_ok (\<lambda>c xs. xs)" by (simp add: qsort_ok_def)
    have e: "{a \<in> ps_set (list_peerset ()) [0, 1]. case (None :: (nat \<Rightarrow> bool) option) of Some f \<Rightarrow> f a | None \<Rightarrow> True} = {0, 1}"
      by (auto simp: list_peerset_def)
    have c2: "card {0, Suc 0} = 2" "{a. a = 0 \<or> a = Suc 0} = {0, Suc 0}" by auto
    have p: "ps_set (list_peerset ()) s = set s" for s by (simp add: list_peerset_def)
    show ?thesis
      using conjunct2 [OF shuffle_and_move [OF list_peerset_ok sets r q, where num = 1 and criterion = PEER_CHOICE_RANDOM and filter_mask = None and cmp_peer = None]]
      unfolding e p by (simp add: c2)
  qed
qed

text \<open>C11: A message from another node does what the sets of identifiers say: ADD moves the sender into the
  neighbourhood (and locks it when it is new), REMOVE moves it back to the swarm, QUIT forgets it, anything else changes
  nothing.  It is read beyond its end exactly when it is empty, consists of the neighbourhood type alone, or is an ADD of
  four bytes: the length passed on counts the type byte that was skipped.\<close>

theorem topology_message_refines:
  assumes "peerset_ok A b" and "topo_inv A t"
  shows "if buff = [] \<or> buff ! 0 = MSG_TYPE_NEIGHBOURHOOD \<and> topo_in t \<and> (length buff < 2 \<or> length buff = 4 \<and> buff ! 1 = NEIGHBOURHOOD_ADD)
    then topology_message_parse A S ic (Some i) buff t = Inl Uninit_Read
    else \<exists>t'. topology_message_parse A S ic (Some i) buff t = Inr t' \<and> topo_inv A t' \<and>
      topo_view A t' = (if buff ! 0 = MSG_TYPE_NEIGHBOURHOOD \<and> topo_in t then view_message i (buff ! 1) (topo_view A t) else topo_view A t)"
  using message_parse_view [OF assms, of buff S ic i] unfolding neigh_complete_def de_Morgan_conj not_not not_le
  by (auto split: if_split_asm)

theorem topology_message_refines_witness:
  "topology_message_parse (list_peerset ()) no_samples big_endian (Some 7) [0x22, 0, 1, 2] new_topology = Inl Uninit_Read"
proof -
  have i: "topo_in new_topology"
    by (simp add: new_topology_def topology_create_def topology_init_def update_metadata_def Let_def)
  show ?thesis
    using topology_message_refines [OF list_peerset_ok new_topology_inv, of "[0x22, 0, 1, 2]" no_samples big_endian 7] i
    by (simp add: MSG_TYPE_NEIGHBOURHOOD_def NEIGHBOURHOOD_ADD_def)
qed

text \<open>C19: Destroying a topology ends and is safe in any state the invariant allows: the loop that empties the set of locked
  neighbours stops, every known peer is told QUIT once, neighbours first, and every peer of the
  neighbourhood and the swarm is released, and no other.  A NULL argument is dereferenced before it is tested.\<close>

theorem topology_destroy_releases:
  assumes "peerset_ok A b" and "topo_inv A t"
  shows "\<exists>h. topology_destroy A ic (Some t) = Some (Inr (h,
      tp_sent t @ map (neigh_msg ic NEIGHBOURHOOD_QUIT t) (map (pid (tp_peers t)) (ps_peers A (neighbourhood t) @ ps_peers A (swarm_bucket t))))) \<and>
    dom h = dom (tp_peers t) - (ps_set A (neighbourhood t) \<union> ps_set A (swarm_bucket t)) \<and>
    topology_destroy A ic (None :: ('s, 'p, 'n, 'b) topology option) = Some (Inl Null_Deref)"
  unfolding destroy_result [OF assms] by (auto simp: topology_destroy_def split: if_split_asm)

theorem topology_destroy_releases_witness:
  "\<exists>h. topology_destroy (list_peerset ()) big_endian (Some two_neighbours) =
     Some (Inr (h, [Neigh_msg 10 [0x22, 2, 0, 0, 0], Neigh_msg 11 [0x22, 2, 0, 0, 0]])) \<and> dom h = {}"
proof -
  have e1: "tp_sent two_neighbours @ map (neigh_msg big_endian NEIGHBOURHOOD_QUIT two_neighbours)
      (map (pid (tp_peers two_neighbours)) (ps_peers (list_peerset ()) (neighbourhood two_neighbours) @ ps_peers (list_peerset ()) (swarm_bucket two_neighbours))) =
    [Neigh_msg 10 [0x22, 2, 0, 0, 0], Neigh_msg 11 [0x22, 2, 0, 0, 0]]"
    by (simp add: two_neighbours_def empty_topology_def pid_def neigh_msg_def Let_def MSG_TYPE_NEIGHBOURHOOD_def NEIGHBOURHOOD_QUIT_def big_endian_def)
  have e2: "dom (tp_peers two_neighbours) - (ps_set (list_peerset ()) (neighbourhood two_neighbours) \<union> ps_set (list_peerset ()) (swarm_bucket two_neighbours)) = {}"
    by (auto simp: two_neighbours_def empty_topology_def Let_def split: if_split_asm)
  show ?thesis
    using topology_destroy_releases [OF list_peerset_ok two_neighbours_inv, of big_endian] unfolding e1 e2 by blast
qed

end
