(* ===== verification/Chunk_Trader.thy ===== *)
theory Chunk_Trader
  imports Topology Chunk_Locks Transactions
begin

text \<open>
  \<open>src/chunk_trader.c\<close>: which chunks are offered, asked for, sent and acknowledged.

  The chunk buffer, the chunk identifier sets, the scheduler and the encoding of the signalling messages belong to the
  GRAPES library: they are the parameters \<open>chunkbuf_api\<close>, \<open>idset_api\<close>, the scheduling functions given to
  \<open>chunk_trader_send_offer\<close> and \<open>chunk_trader_push_chunk\<close>, and the results of parsing.  What the
  code relies on is \<open>idset_ok\<close>.  A peer is an address in the store of peers of the \<open>topology\<close>, whose
  user data holds the buffer map; so an operation that changes peers takes the topology and returns it.
  What is sent to other peers is recorded in \<open>ct_sent\<close>.  The \<open>double\<close> values are rationals.
\<close>

section \<open>The library interfaces\<close>

text \<open>\<open>struct chunk\<close> of GRAPES, with the fields the engine uses; \<open>None\<close> is a NULL data pointer.\<close>

record gchunk = attr_chunk +
  gc_id :: int
  gc_timestamp :: "64 word"
  gc_data :: "bytes option"

record 'k chunkbuf_api =
  cb_add_chunk :: "'k \<Rightarrow> gchunk \<Rightarrow> int \<times> 'k"
  cb_get_chunk :: "'k \<Rightarrow> int \<Rightarrow> gchunk option"
  cb_get_chunks :: "'k \<Rightarrow> gchunk list"

record 'i idset_api =
  is_init :: 'i
  is_add :: "'i \<Rightarrow> int \<Rightarrow> 'i"
  is_check :: "'i \<Rightarrow> int \<Rightarrow> int"
  is_size :: "'i \<Rightarrow> nat"
  is_get :: "'i \<Rightarrow> nat \<Rightarrow> int"
  is_union :: "'i \<Rightarrow> 'i \<Rightarrow> 'i"
  is_trim :: "'i \<Rightarrow> int \<Rightarrow> 'i"
  is_clear :: "'i \<Rightarrow> 'i"
  is_earliest :: "'i \<Rightarrow> u32"
  is_latest :: "'i \<Rightarrow> u32"

text \<open>The peers and chunks to choose from, the largest number of pairs, the filter and the evaluation of peers, the evaluation of
  chunks; the result is a list of pairs of a peer and a chunk.\<close>

type_synonym sched = "nat list \<Rightarrow> int list \<Rightarrow> nat \<Rightarrow> (nat \<Rightarrow> int \<Rightarrow> int c_result) option \<Rightarrow> (nat \<Rightarrow> rat c_result) \<Rightarrow>
  (int \<Rightarrow> rat) \<Rightarrow> (nat \<times> int) list c_result"

section \<open>The state\<close>

datatype distribution_type = DIST_UNIFORM | DIST_TURBO

datatype signaling_type = Sig_send_buffermap | Sig_offer | Sig_accept | Sig_ack | Sig_other

datatype 'i trade_send =
    Send_chunk nodeID gchunk u16
  | Send_offer nodeID 'i int u16
  | Send_accept nodeID 'i u16
  | Send_ack nodeID 'i u16
  | Send_bmap nodeID 'i int u16

record ('k, 'i) chunk_trader =
  ct_cb :: 'k
  ch_locks :: chunk_locks
  ct_cb_size :: int
  ct_dist_type :: distribution_type
  offer_per_period :: int
  ct_transactions :: service_times
  peers_per_offer :: int
  chunks_per_peer_offer :: int
  ct_sent :: "'i trade_send list"

type_synonym ('s, 'p, 'i) peer_topology = "('s, 'p, nodeID, 'i) topology"

section \<open>Creating\<close>

definition chunk_trader_buffer_size :: "('k, 'i) chunk_trader \<Rightarrow> int" where
  "chunk_trader_buffer_size ct = ct_cb_size ct"

definition config_default :: "int option \<Rightarrow> int \<Rightarrow> int" where
  "config_default v d = (case v of Some n \<Rightarrow> n | None \<Rightarrow> d)"

text \<open>The options are \<open>None\<close> when the configuration does not set them; \<open>cb_init\<close> makes the buffer from its size.\<close>

definition chunk_trader_create ::
  "(int \<Rightarrow> 'k) \<Rightarrow> bool \<Rightarrow> int option \<Rightarrow> int option \<Rightarrow> int option \<Rightarrow> int option \<Rightarrow> ('k, 'i) chunk_trader" where
  "chunk_trader_create cb_init turbo opp ppo cppo cbsize =
     \<lparr>ct_cb = cb_init (config_default cbsize 50), ch_locks = chunk_locks_create 80,
      ct_cb_size = config_default cbsize 50, ct_dist_type = (if turbo then DIST_TURBO else DIST_UNIFORM),
      offer_per_period = config_default opp 1, ct_transactions = [], peers_per_offer = config_default ppo 1,
      chunks_per_peer_offer = config_default cppo 1, ct_sent = []\<rparr>"

definition chunk_trader_add_chunk ::
  "'k chunkbuf_api \<Rightarrow> ('k, 'i) chunk_trader option \<Rightarrow> gchunk option \<Rightarrow> int \<times> ('k, 'i) chunk_trader option" where
  "chunk_trader_add_chunk B ct c =
     (case (ct, c) of
        (Some x, Some k) \<Rightarrow>
          (case cb_add_chunk B (ct_cb x) k of
             (res, cb) \<Rightarrow> (if res < 0 then -1 else 0, Some (x\<lparr>ct_cb := cb\<rparr>)))
      | _ \<Rightarrow> (-1, ct))"

text \<open>The result: NULL.  The memory of the chunk is released.\<close>

definition chunk_destroy :: "gchunk option \<Rightarrow> gchunk option c_result" where
  "chunk_destroy c =
     (case c of
        None \<Rightarrow> Inr None
      | Some k \<Rightarrow>
          c_bind (chunk_attributes_deinit (Some \<lparr>ac_attributes_size = ac_attributes_size k, ac_attributes = ac_attributes k\<rparr>))
            (\<lambda>_. Inr None))"

section \<open>Peers\<close>

definition peer_user :: "('n, 'i) peer_store \<Rightarrow> nat \<Rightarrow> 'i user_data c_result" where
  "peer_user h a =
     c_bind (peer_at h a) (\<lambda>p. case pr_user_data p of Some u \<Rightarrow> Inr u | None \<Rightarrow> Inl Null_Deref)"

text \<open>Replacing the buffer map of a peer, and its time stamp.\<close>

definition set_bmap :: "nat \<Rightarrow> ('i \<Rightarrow> 'i) \<Rightarrow> timeval option \<Rightarrow> ('s, 'p, 'i) peer_topology \<Rightarrow> ('s, 'p, 'i) peer_topology c_result" where
  "set_bmap a f ts t =
     c_bind (peer_at (tp_peers t) a) (\<lambda>p.
       case pr_user_data p of
         None \<Rightarrow> Inl Null_Deref
       | Some u \<Rightarrow>
           Inr (t\<lparr>tp_peers := (tp_peers t)(a := Some (p\<lparr>pr_user_data :=
             Some \<lparr>ud_bmap_timestamp = (case ts of Some now \<Rightarrow> now | None \<Rightarrow> ud_bmap_timestamp u), ud_bmap = f (ud_bmap u)\<rparr>\<rparr>))\<rparr>))"

definition trader_peer_neigh_size :: "('n, 'i) peer \<Rightarrow> rat c_result" where
  "trader_peer_neigh_size p =
     (case pr_metadata p of
        None \<Rightarrow> Inl Null_Deref
      | Some m \<Rightarrow> (let res = of_nat (unat (md_neigh_size m)) in Inr (if res > 0 then res else 1)))"

definition peer_evaluation_turbo :: "('n, 'i) peer_store \<Rightarrow> nat \<Rightarrow> rat c_result" where
  "peer_evaluation_turbo h a = c_bind (peer_at h a) (\<lambda>p. c_bind (trader_peer_neigh_size p) (\<lambda>n. Inr (1 / n)))"

definition peer_evaluation_uniform :: "nat \<Rightarrow> rat c_result" where
  "peer_evaluation_uniform a = Inr 1"

definition chunk_evaluation_latest :: "int \<Rightarrow> rat" where
  "chunk_evaluation_latest cid = of_int cid"

text \<open>The smallest identifier the peer has room for is computed on 32-bit unsigned values and read as an \<open>int\<close>.\<close>

definition peer_needs_chunk_filter :: "'i idset_api \<Rightarrow> (nodeID, 'i) peer_store \<Rightarrow> nat \<Rightarrow> int \<Rightarrow> int c_result" where
  "peer_needs_chunk_filter I h a cid =
     c_bind (peer_at h a) (\<lambda>p.
       if peer_cb_size (Some p) = 0 then Inr 0
       else c_bind (peer_user h a) (\<lambda>u.
         let bmap = ud_bmap u; cb = uint (peer_cb_size (Some p)) in
         if is_check I bmap cid < 0 then
           (let m = sint (is_earliest I bmap - word_of_int cb + of_nat (is_size I bmap)) in
            if cb > int (is_size I bmap) \<and> cid \<ge> max m 0 then Inr 1
            else if sint (is_earliest I bmap) < cid then Inr 1
            else Inr 0)
         else Inr 0))"

section \<open>Sending chunks\<close>

text \<open>\<open>sres i\<close> is what \<open>sendChunk\<close> returns for the \<open>i\<close>-th pair; it reads the chunk, so a NULL chunk is a
  NULL dereference.  The result is that of the last one.\<close>

fun chunk_send_loop ::
  "'k chunkbuf_api \<Rightarrow> 'i idset_api \<Rightarrow> (nat \<Rightarrow> int) \<Rightarrow> u16 \<Rightarrow> nat \<Rightarrow> int \<Rightarrow> (nat \<times> int) list \<Rightarrow>
   ('k, 'i) chunk_trader \<Rightarrow> ('s, 'p, 'i) peer_topology \<Rightarrow> (int \<times> ('k, 'i) chunk_trader \<times> ('s, 'p, 'i) peer_topology) c_result" where
  "chunk_send_loop B I sres transid i res [] ct t = Inr (res, ct, t)"
| "chunk_send_loop B I sres transid i res ((a, cid) # pairs) ct t =
     c_bind (peer_at (tp_peers t) a) (\<lambda>p.
       case cb_get_chunk B (ct_cb ct) cid of
         None \<Rightarrow> Inl Null_Deref
       | Some c \<Rightarrow>
           (let ct' = ct\<lparr>ct_sent := ct_sent ct @ [Send_chunk (pr_id p) c transid]\<rparr> in
            c_bind (if sres i \<ge> 0 then set_bmap a (\<lambda>b. is_add I b (gc_id c)) None t else Inr t)
              (chunk_send_loop B I sres transid (Suc i) (sres i) pairs ct')))"

definition peer_chunk_send ::
  "'k chunkbuf_api \<Rightarrow> 'i idset_api \<Rightarrow> (nat \<Rightarrow> int) \<Rightarrow> (nat \<times> int) list \<Rightarrow> u16 \<Rightarrow>
   ('k, 'i) chunk_trader \<Rightarrow> ('s, 'p, 'i) peer_topology \<Rightarrow> (int \<times> ('k, 'i) chunk_trader \<times> ('s, 'p, 'i) peer_topology) c_result" where
  "peer_chunk_send B I sres pairs transid ct t =
     c_bind (chunk_send_loop B I sres transid 0 (-1) pairs ct t) (\<lambda>(res, ct', t').
       Inr (if res \<ge> 0 then 0 else -1, ct', t'))"

definition peer_evaluation :: "('k, 'i) chunk_trader \<Rightarrow> ('n, 'i) peer_store \<Rightarrow> nat \<Rightarrow> rat c_result" where
  "peer_evaluation ct h = (if ct_dist_type ct = DIST_TURBO then peer_evaluation_turbo h else peer_evaluation_uniform)"

text \<open>The result is -1 also when the chunk was sent.\<close>

definition chunk_trader_push_chunk ::
  "('s, nodeID, 'i) peerset_api \<Rightarrow> 'k chunkbuf_api \<Rightarrow> 'i idset_api \<Rightarrow> sched \<Rightarrow> (nat \<Rightarrow> int) \<Rightarrow>
   ('k, 'i) chunk_trader \<Rightarrow> gchunk option \<Rightarrow> int \<Rightarrow> ('s, 'p, 'i) peer_topology \<Rightarrow>
   (int \<times> ('k, 'i) chunk_trader \<times> ('s, 'p, 'i) peer_topology) c_result" where
  "chunk_trader_push_chunk A B I schedSelectChunkFirst sres ct c multiplicity t =
     (case c of
        Some k \<Rightarrow>
          if multiplicity > 0 then
            (let peers = ps_peers A (topology_get_neighbours t);
                 pairs_len = nat (min multiplicity (int (length peers)))
             in c_bind (schedSelectChunkFirst peers [gc_id k] pairs_len None (peer_evaluation ct (tp_peers t)) chunk_evaluation_latest)
                  (\<lambda>pairs. c_bind (peer_chunk_send B I sres pairs INVALID_TRANSID ct t) (\<lambda>(_, ct', t').
                    Inr (-1, ct', t'))))
          else Inr (-1, ct, t)
      | None \<Rightarrow> Inr (-1, ct, t))"

section \<open>Receiving chunks\<close>

definition chunk_buffer_to_idarray :: "'k chunkbuf_api \<Rightarrow> 'k \<Rightarrow> int list" where
  "chunk_buffer_to_idarray B cb = map gc_id (cb_get_chunks B cb)"

definition chunk_buffer_to_idset :: "'k chunkbuf_api \<Rightarrow> 'i idset_api \<Rightarrow> 'k \<Rightarrow> 'i" where
  "chunk_buffer_to_idset B I cb = fold (\<lambda>c s. is_add I s (gc_id c)) (cb_get_chunks B cb) (is_init I)"

definition chunk_trader_send_ack ::
  "'k chunkbuf_api \<Rightarrow> 'i idset_api \<Rightarrow> nodeID \<Rightarrow> u16 \<Rightarrow> ('k, 'i) chunk_trader \<Rightarrow> ('k, 'i) chunk_trader" where
  "chunk_trader_send_ack B I to transid ct =
     ct\<lparr>ct_sent := ct_sent ct @ [Send_ack to (chunk_buffer_to_idset B I (ct_cb ct)) transid]\<rparr>"

text \<open>The attributes of a chunk, as \<open>Chunk_Data\<close> treats them.\<close>

definition chunk_received :: "gchunk \<Rightarrow> gchunk c_result" where
  "chunk_received c =
     c_bind (chunk_attributes_update_upon_reception (Some \<lparr>ac_attributes_size = ac_attributes_size c, ac_attributes = ac_attributes c\<rparr>))
       (\<lambda>(_, r). case r of Some a \<Rightarrow> Inr (c\<lparr>ac_attributes := ac_attributes a\<rparr>) | None \<Rightarrow> Inr c)"

text \<open>\<open>parseChunkMsg\<close> reads a chunk and a transaction identifier from the bytes after the type, or fails.\<close>

definition chunk_trader_parse_chunk ::
  "('s, nodeID, 'i) peerset_api \<Rightarrow> ('p, nodeID) psample_api \<Rightarrow> int_coding \<Rightarrow> 'k chunkbuf_api \<Rightarrow> 'i idset_api \<Rightarrow>
   (bytes \<Rightarrow> (gchunk \<times> u16) option) \<Rightarrow> nodeID option \<Rightarrow> bytes \<Rightarrow>
   ('k, 'i) chunk_trader \<Rightarrow> ('s, 'p, 'i) peer_topology \<Rightarrow>
   (gchunk option \<times> ('k, 'i) chunk_trader \<times> ('s, 'p, 'i) peer_topology) c_result" where
  "chunk_trader_parse_chunk A S ic B I parseChunkMsg from buff ct t =
     (case from of
        Some fr \<Rightarrow>
          if length buff > 1 then
            (case parseChunkMsg (drop 1 buff) of
               None \<Rightarrow> Inr (None, ct, t)
             | Some (c0, transid) \<Rightarrow>
                 c_bind (chunk_received c0) (\<lambda>c.
                   let ct1 = ct\<lparr>ch_locks := the (chunk_unlock (Some (ch_locks ct)) (gc_id c))\<rparr> in
                   c_bind (nodeid_to_peer A S ic fr False t) (\<lambda>(p, t1).
                     c_bind (case p of Some a \<Rightarrow> set_bmap a (\<lambda>b. is_add I b (gc_id c)) None t1 | None \<Rightarrow> Inr t1) (\<lambda>t2.
                       Inr (Some c, chunk_trader_send_ack B I fr transid ct1, t2)))))
          else Inr (None, ct, t)
      | None \<Rightarrow> Inr (None, ct, t))"

section \<open>Offering\<close>

text \<open>\<open>k\<close> rounds are left.  \<open>sched j\<close> is the scheduler in round \<open>j\<close>, \<open>clk j\<close> the two readings of the clock.\<close>

fun offer_loop ::
  "'i idset_api \<Rightarrow> (nat \<Rightarrow> sched) \<Rightarrow> (nat \<Rightarrow> timeval \<times> timeval) \<Rightarrow> nat list \<Rightarrow> int list \<Rightarrow> nat \<Rightarrow> nat \<Rightarrow>
   (nodeID, 'i) peer_store \<Rightarrow> nat \<Rightarrow> ('k, 'i) chunk_trader \<Rightarrow> (nat \<times> ('k, 'i) chunk_trader) c_result" where
  "offer_loop I sched clk neighs ch_buff 0 j h res ct = Inr (res, ct)"
| "offer_loop I sched clk neighs ch_buff (Suc k) j h res ct =
     c_bind (sched j neighs ch_buff (length ch_buff) (Some (peer_needs_chunk_filter I h)) (peer_evaluation ct h) chunk_evaluation_latest)
       (\<lambda>pairs. case pairs of
          [] \<Rightarrow> offer_loop I sched clk neighs ch_buff k (Suc j) h res ct
        | (a, _) # _ \<Rightarrow>
            c_bind (peer_at h a) (\<lambda>p.
              let offer_cset = fold (\<lambda>pr s. is_add I s (snd pr)) pairs (is_init I);
                  (transid, trs) = transaction_create (fst (clk j)) (snd (clk j)) (Some (ct_transactions ct)) (Some (pr_id p));
                  ct' = ct\<lparr>ct_transactions := the trs,
                           ct_sent := ct_sent ct @ [Send_offer (pr_id p) offer_cset (chunks_per_peer_offer ct) transid]\<rparr>
              in offer_loop I sched clk neighs ch_buff k (Suc j) h (Suc res) ct'))"

text \<open>The result is the number of offers as an \<open>int8_t\<close>.\<close>

definition chunk_trader_send_offer ::
  "('s, nodeID, 'i) peerset_api \<Rightarrow> 'k chunkbuf_api \<Rightarrow> 'i idset_api \<Rightarrow> (nat \<Rightarrow> sched) \<Rightarrow> (nat \<Rightarrow> timeval \<times> timeval) \<Rightarrow>
   ('s, 'p, 'i) peer_topology \<Rightarrow> ('k, 'i) chunk_trader \<Rightarrow> (int \<times> ('k, 'i) chunk_trader) c_result" where
  "chunk_trader_send_offer A B I schedSelectPeerFirst clk t ct =
     c_bind (offer_loop I schedSelectPeerFirst clk (ps_peers A (topology_get_neighbours t)) (chunk_buffer_to_idarray B (ct_cb ct))
               (nat (peers_per_offer ct)) 0 (tp_peers t) 0 ct) (\<lambda>(res, ct'). Inr (sint (of_nat res :: 8 word), ct'))"

section \<open>Answering an offer\<close>

text \<open>The counting array: how often each identifier from \<open>mn\<close> on is in the set.\<close>

fun count_loop :: "'i idset_api \<Rightarrow> 'i \<Rightarrow> int \<Rightarrow> nat \<Rightarrow> nat \<Rightarrow> int list \<Rightarrow> int list c_result" where
  "count_loop I cset mn 0 i ids = Inr ids"
| "count_loop I cset mn (Suc k) i ids =
     (let j = is_get I cset i - mn in
      if 0 \<le> j \<and> j < int (length ids) then count_loop I cset mn k (Suc i) (ids[nat j := ids ! nat j + 1])
      else Inl Out_Of_Bounds)"

text \<open>\<open>k\<close> identifiers are left to look at, the next is \<open>mn + k - 1\<close>.  \<open>clk cid\<close> are the clock readings of
  \<open>chunk_islocked\<close>, \<open>now cid\<close> that of \<open>chunk_lock\<close>.\<close>

fun accept_loop ::
  "'k chunkbuf_api \<Rightarrow> 'i idset_api \<Rightarrow> (int \<Rightarrow> nat \<Rightarrow> timeval) \<Rightarrow> (int \<Rightarrow> timeval) \<Rightarrow> nodeID \<Rightarrow> int \<Rightarrow> int list \<Rightarrow> int \<Rightarrow>
   nat \<Rightarrow> 'k \<Rightarrow> 'i \<Rightarrow> chunk_locks \<Rightarrow> ('i \<times> chunk_locks) c_result" where
  "accept_loop B I clk now peer mn ids max_deliver 0 cb acc ls = Inr (acc, ls)"
| "accept_loop B I clk now peer mn ids max_deliver (Suc k) cb acc ls =
     (if int (is_size I acc) < max_deliver then
        (let cid = mn + int k in
         if ids ! k \<noteq> 0 \<and> cb_get_chunk B cb cid = None then
           (case chunk_islocked (clk cid) (Some ls) cid of
              (locked, ls1) \<Rightarrow>
                if locked = 0 then
                  c_bind (chunk_lock (now cid) ls1 cid (Some peer)) (\<lambda>ls2.
                    accept_loop B I clk now peer mn ids max_deliver k cb (is_add I acc cid) (the ls2))
                else accept_loop B I clk now peer mn ids max_deliver k cb acc (the ls1))
         else accept_loop B I clk now peer mn ids max_deliver k cb acc ls)
      else Inr (acc, ls))"

definition update_peer_bmap ::
  "'i idset_api \<Rightarrow> timeval \<Rightarrow> nat \<Rightarrow> 'i \<Rightarrow> ('s, 'p, 'i) peer_topology \<Rightarrow> ('s, 'p, 'i) peer_topology c_result" where
  "update_peer_bmap I tnow a cset t =
     c_bind (peer_at (tp_peers t) a) (\<lambda>p.
       set_bmap a (\<lambda>b. is_trim I (is_union I b cset) (uint (peer_cb_size (Some p)))) (Some tnow) t)"

definition chunk_trader_handle_offer ::
  "'k chunkbuf_api \<Rightarrow> 'i idset_api \<Rightarrow> timeval \<Rightarrow> (int \<Rightarrow> nat \<Rightarrow> timeval) \<Rightarrow> (int \<Rightarrow> timeval) \<Rightarrow> nat \<Rightarrow> 'i \<Rightarrow> int \<Rightarrow> u16 \<Rightarrow>
   ('k, 'i) chunk_trader \<Rightarrow> ('s, 'p, 'i) peer_topology \<Rightarrow> (int \<times> ('k, 'i) chunk_trader \<times> ('s, 'p, 'i) peer_topology) c_result" where
  "chunk_trader_handle_offer B I tnow clk now a cset max_deliver trans_id ct t =
     c_bind (update_peer_bmap I tnow a cset t) (\<lambda>t1.
       c_bind (peer_at (tp_peers t1) a) (\<lambda>p.
         let mn = sint (is_earliest I cset); mx = sint (is_latest I cset); n = nat (mx - mn + 1) in
         c_bind (count_loop I cset mn (is_size I cset) 0 (replicate n 0)) (\<lambda>ids.
           c_bind (accept_loop B I clk now (pr_id p) mn ids max_deliver n (ct_cb ct) (is_init I) (ch_locks ct)) (\<lambda>(acc_set, ls).
             Inr (0, ct\<lparr>ch_locks := ls, ct_sent := ct_sent ct @ [Send_accept (pr_id p) acc_set trans_id]\<rparr>, t1)))))"

section \<open>Answering an accept\<close>

fun pairs_loop :: "'k chunkbuf_api \<Rightarrow> 'i idset_api \<Rightarrow> 'k \<Rightarrow> 'i \<Rightarrow> nat \<Rightarrow> int \<Rightarrow> nat \<Rightarrow> nat \<Rightarrow> (nat \<times> int) list \<Rightarrow> (nat \<times> int) list" where
  "pairs_loop B I cb cset a max_chunks 0 i pairs = pairs"
| "pairs_loop B I cb cset a max_chunks (Suc k) i pairs =
     (if int (length pairs) < max_chunks then
        (let cid = is_get I cset i in
         pairs_loop B I cb cset a max_chunks k (Suc i) (if cb_get_chunk B cb cid \<noteq> None then pairs @ [(a, cid)] else pairs))
      else pairs)"

definition chunk_trader_handle_accept ::
  "'k chunkbuf_api \<Rightarrow> 'i idset_api \<Rightarrow> timeval \<Rightarrow> (nat \<Rightarrow> int) \<Rightarrow> nat \<Rightarrow> 'i \<Rightarrow> int \<Rightarrow> u16 \<Rightarrow>
   ('k, 'i) chunk_trader \<Rightarrow> ('s, 'p, 'i) peer_topology \<Rightarrow> (int \<times> ('k, 'i) chunk_trader \<times> ('s, 'p, 'i) peer_topology) c_result" where
  "chunk_trader_handle_accept B I tnow sres a cset max_deliver transid ct t =
     c_bind (peer_at (tp_peers t) a) (\<lambda>p.
       let max_chunks = min (int (is_size I cset)) (chunks_per_peer_offer ct);
           ct1 = ct\<lparr>ct_transactions := snd (transaction_reg_accept tnow (ct_transactions ct) transid (Some (pr_id p)))\<rparr>;
           pairs = pairs_loop B I (ct_cb ct) cset a max_chunks (is_size I cset) 0 []
       in c_bind (peer_chunk_send B I sres pairs transid ct1 t) (\<lambda>(_, ct', t'). Inr (0, ct', t')))"

definition chunk_trader_handle_ack ::
  "'i idset_api \<Rightarrow> timeval \<Rightarrow> nat \<Rightarrow> 'i \<Rightarrow> u16 \<Rightarrow>
   ('k, 'i) chunk_trader \<Rightarrow> ('s, 'p, 'i) peer_topology \<Rightarrow> (int \<times> ('k, 'i) chunk_trader \<times> ('s, 'p, 'i) peer_topology) c_result" where
  "chunk_trader_handle_ack I tnow a cset transid ct t =
     c_bind (update_peer_bmap I tnow a cset t) (\<lambda>t1.
       Inr (0, ct\<lparr>ct_transactions := snd (transaction_remove (ct_transactions ct) transid)\<rparr>, t1))"

section \<open>Signalling\<close>

record 'i signal =
  sg_type :: signaling_type
  sg_cset :: 'i
  sg_max_deliver :: int
  sg_trans_id :: u16

text \<open>The clock readings and \<open>sendChunk\<close> results one message may need.\<close>

record trade_env =
  te_now :: timeval
  te_islocked :: "int \<Rightarrow> nat \<Rightarrow> timeval"
  te_lock :: "int \<Rightarrow> timeval"
  te_sres :: "nat \<Rightarrow> int"

text \<open>\<open>parseSignaling\<close> fails or gives a signal.  An offer looks the peer up once more, now adding it when it is
  unknown; but this is reached only when it is known.\<close>

definition chunk_trader_msg_parse ::
  "('s, nodeID, 'i) peerset_api \<Rightarrow> ('p, nodeID) psample_api \<Rightarrow> int_coding \<Rightarrow> 'k chunkbuf_api \<Rightarrow> 'i idset_api \<Rightarrow>
   (bytes \<Rightarrow> 'i signal option) \<Rightarrow> trade_env \<Rightarrow> nodeID \<Rightarrow> bytes \<Rightarrow>
   ('k, 'i) chunk_trader \<Rightarrow> ('s, 'p, 'i) peer_topology \<Rightarrow> (int \<times> ('k, 'i) chunk_trader \<times> ('s, 'p, 'i) peer_topology) c_result" where
  "chunk_trader_msg_parse A S ic B I parseSignaling E from buff ct t =
     (case parseSignaling (drop 1 buff) of
        None \<Rightarrow> Inr (-1, ct, t)
      | Some sg \<Rightarrow>
          c_bind (nodeid_to_peer A S ic from False t) (\<lambda>(p, t1).
            case p of
              None \<Rightarrow> Inr (0, ct, t1)
            | Some a \<Rightarrow>
                (case sg_type sg of
                   Sig_send_buffermap \<Rightarrow>
                     c_bind (set_bmap a (\<lambda>b. is_union I (is_clear I b) (sg_cset sg)) (Some (te_now E)) t1) (\<lambda>t2. Inr (0, ct, t2))
                 | Sig_offer \<Rightarrow>
                     c_bind (nodeid_to_peer A S ic from True t1) (\<lambda>(p', t2).
                       case p' of
                         None \<Rightarrow> Inl Null_Deref
                       | Some a' \<Rightarrow>
                           c_bind (chunk_trader_handle_offer B I (te_now E) (te_islocked E) (te_lock E) a' (sg_cset sg)
                                     (sg_max_deliver sg) (sg_trans_id sg) ct t2) (\<lambda>(_, ct', t'). Inr (0, ct', t')))
                 | Sig_accept \<Rightarrow>
                     c_bind (chunk_trader_handle_accept B I (te_now E) (te_sres E) a (sg_cset sg) (sg_max_deliver sg) (sg_trans_id sg) ct t1)
                       (\<lambda>(_, ct', t'). Inr (0, ct', t'))
                 | Sig_ack \<Rightarrow>
                     c_bind (chunk_trader_handle_ack I (te_now E) a (sg_cset sg) (sg_trans_id sg) ct t1)
                       (\<lambda>(_, ct', t'). Inr (0, ct', t'))
                 | Sig_other \<Rightarrow> Inr (-1, ct, t1))))"

definition chunk_trader_send_bmap ::
  "'k chunkbuf_api \<Rightarrow> 'i idset_api \<Rightarrow> bool \<Rightarrow> nodeID \<Rightarrow> ('k, 'i) chunk_trader \<Rightarrow> ('k, 'i) chunk_trader" where
  "chunk_trader_send_bmap B I is_source to ct =
     ct\<lparr>ct_sent := ct_sent ct @ [Send_bmap to (chunk_buffer_to_idset B I (ct_cb ct)) (if is_source then 0 else ct_cb_size ct) INVALID_TRANSID]\<rparr>"

section \<open>The offer interval\<close>

fun load_loop :: "('n, 'i) peer_store \<Rightarrow> nat list \<Rightarrow> rat \<Rightarrow> rat c_result" where
  "load_loop h [] load = Inr load"
| "load_loop h (a # as) load = c_bind (peer_evaluation_turbo h a) (\<lambda>e. load_loop h as (load + e))"

definition rat_trunc :: "rat \<Rightarrow> int" where
  "rat_trunc q = (if q \<ge> 0 then \<lfloor>q\<rfloor> else \<lceil>q\<rceil>)"

text \<open>\<open>interval\<close> is what \<open>chunk_interval_measure\<close> returns.  A \<open>double\<close> divided by zero is no number an
  integer can be made of.\<close>

definition chunk_trader_offer_interval ::
  "('s, nodeID, 'i) peerset_api \<Rightarrow> int \<Rightarrow> ('s, 'p, 'i) peer_topology \<Rightarrow> ('k, 'i) chunk_trader \<Rightarrow> int c_result" where
  "chunk_trader_offer_interval A interval t ct =
     (let ms_int = of_int interval * (3 / 4) in
      c_bind (if ct_dist_type ct = DIST_TURBO
              then c_bind (load_loop (tp_peers t) (ps_peers A (topology_get_neighbours t)) 0) (\<lambda>load.
                     if load = 0 then Inl Div_By_Zero else Inr (ms_int / load))
              else Inr ms_int) (\<lambda>ms.
        if offer_per_period ct = 0 then Inl Div_By_Zero else Inr (rat_trunc (ms / of_int (offer_per_period ct)))))"

section \<open>What the code relies on\<close>

definition is_elems :: "'i idset_api \<Rightarrow> 'i \<Rightarrow> int list" where
  "is_elems I s = map (is_get I s) [0..<is_size I s]"

text \<open>The laws of the identifier sets, for the sets that satisfy \<open>V\<close>: adding and reading back, no duplicates, the
  first and the last identifier, both \<open>CHUNKID_INVALID\<close> when there is none.\<close>

definition idset_ok :: "'i idset_api \<Rightarrow> ('i \<Rightarrow> bool) \<Rightarrow> bool" where
  "idset_ok I V \<longleftrightarrow> V (is_init I) \<and> is_size I (is_init I) = 0 \<and>
     (\<forall>s c. V s \<and> 0 \<le> c \<and> c < 2 ^ 31 \<longrightarrow> V (is_add I s c) \<and> set (is_elems I (is_add I s c)) = insert c (set (is_elems I s))) \<and>
     (\<forall>s. V s \<longrightarrow> distinct (is_elems I s) \<and> (\<forall>c \<in> set (is_elems I s). 0 \<le> c \<and> c < 2 ^ 31) \<and>
        (\<forall>c. is_check I s c < 0 \<longleftrightarrow> c \<notin> set (is_elems I s)) \<and>
        (is_elems I s \<noteq> [] \<longrightarrow> sint (is_earliest I s) = Min (set (is_elems I s)) \<and> sint (is_latest I s) = Max (set (is_elems I s))) \<and>
        (is_elems I s = [] \<longrightarrow> is_earliest I s = -1 \<and> is_latest I s = -1))"

lemma idset_init: "idset_ok I V \<Longrightarrow> V (is_init I)" "idset_ok I V \<Longrightarrow> is_elems I (is_init I) = []"
  "idset_ok I V \<Longrightarrow> is_size I (is_init I) = 0"
  by (simp_all add: idset_ok_def is_elems_def)

lemma idset_add:
  assumes "idset_ok I V" and "V s" and "0 \<le> c" and "c < 2 ^ 31"
  shows "V (is_add I s c)" and "set (is_elems I (is_add I s c)) = insert c (set (is_elems I s))"
  using assms unfolding idset_ok_def by blast+

lemma idset_at:
  assumes "idset_ok I V" and "V s"
  shows "distinct (is_elems I s)" and "\<forall>c \<in> set (is_elems I s). 0 \<le> c \<and> c < 2 ^ 31"
    and "is_check I s c < 0 \<longleftrightarrow> c \<notin> set (is_elems I s)"
    and "is_elems I s \<noteq> [] \<Longrightarrow> sint (is_earliest I s) = Min (set (is_elems I s)) \<and> sint (is_latest I s) = Max (set (is_elems I s))"
    and "is_elems I s = [] \<Longrightarrow> is_earliest I s = -1 \<and> is_latest I s = -1"
  using assms unfolding idset_ok_def by blast+

lemma is_size_elems: "is_size I s = length (is_elems I s)"
  by (simp add: is_elems_def)

lemma idset_size_card: "idset_ok I V \<Longrightarrow> V s \<Longrightarrow> is_size I s = card (set (is_elems I s))"
  using idset_at(1) [of I V s] by (simp add: is_size_elems distinct_card)

section \<open>The latest useful chunks\<close>

lemma count_loop_result:
  assumes "\<forall>c \<in> set (map (is_get I cset) [i..<i + k]). mn \<le> c \<and> c < mn + int (length ids)"
  shows "\<exists>ids'. count_loop I cset mn k i ids = Inr ids' \<and> length ids' = length ids \<and>
    (\<forall>j < length ids. ids' ! j = ids ! j + int (count_list (map (is_get I cset) [i..<i + k]) (mn + int j)))"
  using assms
proof (induction k arbitrary: i ids)
  case (Suc k)
  define j where j: "j = nat (is_get I cset i - mn)"
  have up: "[i..<i + Suc k] = i # [Suc i..<Suc i + k]" by (simp add: upt_rec [of i])
  have r: "mn \<le> is_get I cset i" "is_get I cset i < mn + int (length ids)" using Suc.prems unfolding up by simp_all
  then have jl: "j < length ids" "is_get I cset i = mn + int j" by (simp_all add: j)
  have "\<forall>c \<in> set (map (is_get I cset) [Suc i..<Suc i + k]). mn \<le> c \<and> c < mn + int (length (ids[j := ids ! j + 1]))"
    using Suc.prems unfolding up by simp
  from Suc.IH [OF this] obtain ids' where ids': "count_loop I cset mn k (Suc i) (ids[j := ids ! j + 1]) = Inr ids'"
    "length ids' = length ids"
    "\<forall>x < length ids. ids' ! x = ids[j := ids ! j + 1] ! x + int (count_list (map (is_get I cset) [Suc i..<Suc i + k]) (mn + int x))"
    by auto
  have "count_loop I cset mn (Suc k) i ids = Inr ids'" using ids'(1) r by (simp add: Let_def j)
  moreover have "\<forall>x < length ids. ids' ! x = ids ! x + int (count_list (map (is_get I cset) [i..<i + Suc k]) (mn + int x))"
    unfolding up using ids'(3) jl by (auto simp: nth_list_update)
  ultimately show ?case using ids'(2) by blast
qed simp

definition free_chunk :: "'k chunkbuf_api \<Rightarrow> 'k \<Rightarrow> timeval \<Rightarrow> chunk_locks \<Rightarrow> int \<Rightarrow> bool" where
  "free_chunk B cb now ls c \<longleftrightarrow> cb_get_chunk B cb c = None \<and> \<not> (\<exists>l \<in> set (cl_locks ls). lk_chunkid l = c \<and> lock_live now ls l)"

lemma islocked_frame:
  assumes "chunk_islocked (\<lambda>_. now) (Some ls) c = (r, ls')"
  shows "\<exists>x. ls' = Some x \<and> cl_locks x = filter (lock_live now ls) (cl_locks ls) \<and> cl_toutdiff x = cl_toutdiff ls \<and> cl_lsize x = cl_lsize ls \<and>
    (r = 0 \<longleftrightarrow> \<not> (\<exists>l \<in> set (cl_locks ls). lk_chunkid l = c \<and> lock_live now ls l))"
  using assms islocked_eq [of now ls c] cleanup_at [of now ls] cleanup_eq(2,3) [of "\<lambda>_. now" ls]
  by (auto simp: chunk_islocked_def Let_def split: if_splits)

lemma lock_live_cong: "cl_toutdiff x = cl_toutdiff y \<Longrightarrow> lock_live now x = lock_live now y"
  by (simp add: lock_live_def chunk_lock_timed_out_def fun_eq_iff)

text \<open>One step of the loop, from identifier \<open>mn + k\<close> down: it is passed over, because it is not wanted or already in the buffer; it is
  passed over because it is locked; or it is locked and accepted.\<close>

definition candidates :: "'k chunkbuf_api \<Rightarrow> 'k \<Rightarrow> timeval \<Rightarrow> chunk_locks \<Rightarrow> int \<Rightarrow> int list \<Rightarrow> nat \<Rightarrow> int list" where
  "candidates B cb now ls mn ids k =
     filter (free_chunk B cb now ls) (map (\<lambda>j. mn + int j) (filter (\<lambda>j. ids ! j \<noteq> 0) (rev [0..<k])))"

lemma candidates_Suc:
  "candidates B cb now ls mn ids (Suc k) =
     (if ids ! k \<noteq> 0 \<and> free_chunk B cb now ls (mn + int k) then [mn + int k] else []) @ candidates B cb now ls mn ids k"
  by (simp add: candidates_def)

lemma candidates_cong:
  assumes "\<And>j. j < k \<Longrightarrow> free_chunk B cb now x (mn + int j) = free_chunk B cb now y (mn + int j)"
  shows "candidates B cb now x mn ids k = candidates B cb now y mn ids k"
  unfolding candidates_def by (rule filter_cong) (auto simp: assms)

lemma accept_step_passed:
  assumes "int (is_size I acc) < max_deliver" and "\<not> (ids ! k \<noteq> 0 \<and> cb_get_chunk B cb (mn + int k) = None)"
  shows "accept_loop B I (\<lambda>_ _. now) (\<lambda>_. now) peer mn ids max_deliver (Suc k) cb acc ls =
      accept_loop B I (\<lambda>_ _. now) (\<lambda>_. now) peer mn ids max_deliver k cb acc ls"
    and "candidates B cb now ls mn ids (Suc k) = candidates B cb now ls mn ids k"
  using assms by (cases "ids ! k = 0"; auto simp: Let_def candidates_Suc free_chunk_def)+

lemma accept_step_wanted:
  assumes wf: "cl_wf ls" and room: "int (is_size I acc) < max_deliver" and cand: "ids ! k \<noteq> 0" "cb_get_chunk B cb (mn + int k) = None"
  obtains x where "cl_wf x" and "cl_locks x = filter (lock_live now ls) (cl_locks ls)" and "cl_toutdiff x = cl_toutdiff ls"
    and "lock_live now x = lock_live now ls"
    and "accept_loop B I (\<lambda>_ _. now) (\<lambda>_. now) peer mn ids max_deliver (Suc k) cb acc ls =
      (if free_chunk B cb now ls (mn + int k)
       then c_bind (chunk_lock now (Some x) (mn + int k) (Some peer)) (\<lambda>y.
              accept_loop B I (\<lambda>_ _. now) (\<lambda>_. now) peer mn ids max_deliver k cb (is_add I acc (mn + int k)) (the y))
       else accept_loop B I (\<lambda>_ _. now) (\<lambda>_. now) peer mn ids max_deliver k cb acc x)"
proof -
  obtain r x where il: "chunk_islocked (\<lambda>_. now) (Some ls) (mn + int k) = (r, Some x)"
    and x: "cl_locks x = filter (lock_live now ls) (cl_locks ls)" "cl_toutdiff x = cl_toutdiff ls" "cl_lsize x = cl_lsize ls"
      "r = 0 \<longleftrightarrow> \<not> (\<exists>l \<in> set (cl_locks ls). lk_chunkid l = mn + int k \<and> lock_live now ls l)"
    using islocked_frame [of now ls "mn + int k"] by (metis surj_pair)
  have r: "r = 0 \<longleftrightarrow> free_chunk B cb now ls (mn + int k)" using x(4) cand by (simp add: free_chunk_def)
  have "cl_wf x" using wf x(1,3) by (simp add: cl_wf_def le_less_trans [OF length_filter_le])
  then show thesis using that [OF _ x(1,2) lock_live_cong [OF x(2)]] room cand il r by (simp add: Let_def)
qed

lemma free_chunk_locked:
  assumes "cl_locks y = filter (lock_live now ls) (cl_locks ls) @ ys" and "cl_toutdiff y = cl_toutdiff ls"
    and "\<forall>l \<in> set ys. lk_chunkid l \<noteq> c"
  shows "free_chunk B cb now y c = free_chunk B cb now ls c"
  using assms lock_live_cong [OF assms(2), of now] by (auto simp: free_chunk_def)

text \<open>What the loop has done when it is at its end, with \<open>C\<close> the free identifiers it met.\<close>

definition accepted :: "'i idset_api \<Rightarrow> ('i \<Rightarrow> bool) \<Rightarrow> timeval \<Rightarrow> nodeID \<Rightarrow> int \<Rightarrow> int list \<Rightarrow> 'i \<Rightarrow> chunk_locks \<Rightarrow> 'i \<Rightarrow> chunk_locks \<Rightarrow> bool" where
  "accepted I V now peer max_deliver C acc ls acc' ls' \<longleftrightarrow> V acc' \<and> cl_wf ls' \<and> cl_toutdiff ls' = cl_toutdiff ls \<and>
     set (is_elems I acc') = set (is_elems I acc) \<union> set (take (nat (max_deliver - int (is_size I acc))) C) \<and>
     (\<forall>l \<in> set (cl_locks ls). lock_live now ls l \<longrightarrow> l \<in> set (cl_locks ls')) \<and>
     (\<forall>c \<in> set (is_elems I acc') - set (is_elems I acc). \<lparr>lk_chunkid = c, lk_peer = Some peer, lk_timestamp = now\<rparr> \<in> set (cl_locks ls'))"

lemma accepted_passed:
  assumes "accepted I V now peer max_deliver C acc x acc' ls'" and "cl_locks x = filter (lock_live now ls) (cl_locks ls)"
    and "cl_toutdiff x = cl_toutdiff ls"
  shows "accepted I V now peer max_deliver C acc ls acc' ls'"
  using assms lock_live_cong [OF assms(3), of now] by (auto simp: accepted_def)

lemma accepted_taken:
  assumes a: "accepted I V now peer max_deliver C (is_add I acc c) y acc' ls'" and ok: "idset_ok I V" and "V acc"
    and c: "0 \<le> c" "c < 2 ^ 31" "c \<notin> set (is_elems I acc)" and room: "int (is_size I acc) < max_deliver"
    and y: "cl_locks y = filter (lock_live now ls) (cl_locks ls) @ [\<lparr>lk_chunkid = c, lk_peer = Some peer, lk_timestamp = now\<rparr>]"
      "cl_toutdiff y = cl_toutdiff ls"
    and t: "now \<le> timeradd now (cl_toutdiff ls)"
  shows "accepted I V now peer max_deliver (c # C) acc ls acc' ls'"
proof -
  let ?l = "\<lparr>lk_chunkid = c, lk_peer = Some peer, lk_timestamp = now\<rparr>"
  note add = idset_add [OF ok assms(3) c(1,2)]
  have size: "is_size I (is_add I acc c) = Suc (is_size I acc)"
    using idset_size_card [OF ok add(1)] idset_size_card [OF ok assms(3)] add(2) c(3) by simp
  have n: "nat (max_deliver - int (is_size I acc)) = Suc (nat (max_deliver - int (Suc (is_size I acc))))" using room by simp
  have ly: "lock_live now y = lock_live now ls" by (rule lock_live_cong [OF y(2)])
  have "lock_live now ls ?l" using t by (simp add: lock_live_def chunk_lock_timed_out_def not_less)
  then have locks: "?l \<in> set (cl_locks ls')" "\<forall>l \<in> set (cl_locks ls). lock_live now ls l \<longrightarrow> l \<in> set (cl_locks ls')"
    using a by (auto simp: accepted_def y(1) ly)
  have new: "\<forall>d \<in> set (is_elems I acc') - set (is_elems I acc). \<lparr>lk_chunkid = d, lk_peer = Some peer, lk_timestamp = now\<rparr> \<in> set (cl_locks ls')"
    using a locks(1) unfolding accepted_def add(2) by blast
  show ?thesis using a locks(2) new unfolding accepted_def n size add(2) by (simp add: y(2))
qed

lemma accept_loop_accepts:
  assumes ok: "idset_ok I V" and "V acc" and "cl_wf ls" and "k \<le> length ids"
    and "\<forall>j < length ids. ids ! j \<noteq> 0 \<longrightarrow> 0 \<le> mn + int j \<and> mn + int j < 2 ^ 31"
    and "\<forall>c \<in> set (is_elems I acc). c \<ge> mn + int k" and "now \<le> timeradd now (cl_toutdiff ls)"
  shows "\<exists>acc' ls'. accept_loop B I (\<lambda>_ _. now) (\<lambda>_. now) peer mn ids max_deliver k cb acc ls = Inr (acc', ls') \<and>
    accepted I V now peer max_deliver (candidates B cb now ls mn ids k) acc ls acc' ls'"
  using assms(2-)
proof (induction k arbitrary: acc ls)
  case 0
  then show ?case by (simp add: accepted_def candidates_def)
next
  case (Suc k)
  note IH = Suc.IH [OF _ _ _ Suc.prems(4)]
  let ?c = "mn + int k"
  have weak: "\<forall>c \<in> set (is_elems I acc). c \<ge> ?c" and new: "?c \<notin> set (is_elems I acc)" using Suc.prems(5) by auto
  consider "\<not> int (is_size I acc) < max_deliver" | "int (is_size I acc) < max_deliver" "\<not> (ids ! k \<noteq> 0 \<and> cb_get_chunk B cb ?c = None)"
    | "int (is_size I acc) < max_deliver" "ids ! k \<noteq> 0" "cb_get_chunk B cb ?c = None" by blast
  then show ?case
  proof cases
    case 1
    then show ?thesis using Suc.prems(1,2) by (intro exI [of _ acc] exI [of _ ls]) (simp add: accepted_def)
  next
    case 2
    show ?thesis unfolding accept_step_passed [OF 2] using IH [OF Suc.prems(1,2) _ weak Suc.prems(6)] Suc.prems(3) by simp
  next
    case 3
    obtain x where x: "cl_wf x" "cl_locks x = filter (lock_live now ls) (cl_locks ls)" "cl_toutdiff x = cl_toutdiff ls"
      "lock_live now x = lock_live now ls"
      and step: "accept_loop B I (\<lambda>_ _. now) (\<lambda>_. now) peer mn ids max_deliver (Suc k) cb acc ls =
        (if free_chunk B cb now ls ?c
         then c_bind (chunk_lock now (Some x) ?c (Some peer)) (\<lambda>y.
                accept_loop B I (\<lambda>_ _. now) (\<lambda>_. now) peer mn ids max_deliver k cb (is_add I acc ?c) (the y))
         else accept_loop B I (\<lambda>_ _. now) (\<lambda>_. now) peer mn ids max_deliver k cb acc x)"
      by (rule accept_step_wanted [OF Suc.prems(2) 3])
    show ?thesis
    proof (cases "free_chunk B cb now ls ?c")
      case False
      have "candidates B cb now x mn ids k = candidates B cb now ls mn ids k"
        by (rule candidates_cong, rule free_chunk_locked [of x now ls "[]"]) (use x(2,3) in simp_all)
      then have "candidates B cb now x mn ids k = candidates B cb now ls mn ids (Suc k)" using False by (simp add: candidates_Suc)
      then show ?thesis
        using IH [OF Suc.prems(1) x(1) _ weak] Suc.prems(3,6) x(3) accepted_passed [OF _ x(2,3)] False step by fastforce
    next
      case True
      obtain y where y: "chunk_lock now (Some x) ?c (Some peer) = Inr (Some y)" "cl_wf y"
        "cl_locks y = cl_locks x @ [\<lparr>lk_chunkid = ?c, lk_peer = Some peer, lk_timestamp = now\<rparr>]" "cl_toutdiff y = cl_toutdiff x"
        by (rule cl_wf_lock [OF x(1)])
      have range: "0 \<le> ?c" "?c < 2 ^ 31" using Suc.prems(3,4) 3(2) by (auto dest: spec [of _ k])
      note add = idset_add [OF ok Suc.prems(1) range]
      have "candidates B cb now y mn ids k = candidates B cb now ls mn ids k"
        by (rule candidates_cong, rule free_chunk_locked [OF y(3) [unfolded x(2)]]) (use y(4) x(3) in simp_all)
      then have C: "candidates B cb now ls mn ids (Suc k) = ?c # candidates B cb now y mn ids k"
        using True 3(2) by (simp add: candidates_Suc)
      have low: "\<forall>c \<in> set (is_elems I (is_add I acc ?c)). c \<ge> ?c" unfolding add(2) using weak by auto
      have "now \<le> timeradd now (cl_toutdiff y)" using Suc.prems(6) y(4) x(3) by simp
      from IH [OF add(1) y(2) _ low this] Suc.prems(3) obtain acc' ls' where
        r: "accept_loop B I (\<lambda>_ _. now) (\<lambda>_. now) peer mn ids max_deliver k cb (is_add I acc ?c) y = Inr (acc', ls')"
          "accepted I V now peer max_deliver (candidates B cb now y mn ids k) (is_add I acc ?c) y acc' ls'" by auto
      have "accepted I V now peer max_deliver (?c # candidates B cb now y mn ids k) acc ls acc' ls'"
        using accepted_taken [OF r(2) ok Suc.prems(1) range new 3(1)] y(3,4) x(2,3) Suc.prems(6) by simp
      then show ?thesis unfolding C step using True y(1) r(1) by simp
    qed
  qed
qed

lemmas accept_loop_result = accept_loop_accepts [unfolded accepted_def candidates_def]

lemma filter_free_useful:
  assumes "set ids = S" and "sorted (rev ids)" and "distinct ids"
  shows "filter P ids = rev (sorted_list_of_set {c \<in> S. P c})"
proof -
  have "sorted (rev (filter P ids))" using sorted_wrt_filter [OF assms(2), of P] by (simp only: rev_filter)
  moreover have "distinct (rev (filter P ids))" using assms(3) by simp
  moreover have "set (rev (filter P ids)) = {c \<in> S. P c}" using assms(1) by auto
  ultimately have "rev (filter P ids) = sorted_list_of_set {c \<in> S. P c}"
    by (metis sorted_list_of_set.idem_if_sorted_distinct)
  then show ?thesis by (metis rev_rev_ident)
qed

lemma descending_map:
  fixes mn :: int
  shows "sorted (rev (map (\<lambda>j. mn + int j) (filter P (rev [0..<n]))))" and "distinct (map (\<lambda>j. mn + int j) (filter P (rev [0..<n])))"
proof -
  have "rev (map (\<lambda>j. mn + int j) (filter P (rev [0..<n]))) = map (\<lambda>j. mn + int j) (filter P [0..<n])"
    by (simp add: rev_map rev_filter)
  moreover have "sorted (map (\<lambda>j. mn + int j) (filter P [0..<n]))"
    by (simp add: sorted_map sorted_wrt_filter sorted_wrt_upt)
  ultimately show "sorted (rev (map (\<lambda>j. mn + int j) (filter P (rev [0..<n]))))" by simp
  show "distinct (map (\<lambda>j. mn + int j) (filter P (rev [0..<n])))" by (simp add: distinct_map inj_on_def)
qed

text \<open>The array of the counting sort and its limits.\<close>

lemma offered_array:
  assumes ok: "idset_ok I V" and V: "V cset"
  defines "mn \<equiv> sint (is_earliest I cset)" and "n \<equiv> nat (sint (is_latest I cset) - sint (is_earliest I cset) + 1)"
  obtains ids where "count_loop I cset mn (is_size I cset) 0 (replicate n 0) = Inr ids" and "length ids = n"
    and "\<And>j. j < n \<Longrightarrow> ids ! j \<noteq> 0 \<longleftrightarrow> mn + int j \<in> set (is_elems I cset)"
    and "(\<lambda>j. mn + int j) ` {j. j < n \<and> ids ! j \<noteq> 0} = set (is_elems I cset)"
proof -
  have bounds: "mn \<le> c \<and> c < mn + int n" if "c \<in> set (is_elems I cset)" for c
  proof -
    have ne: "is_elems I cset \<noteq> []" using that by auto
    have "mn \<le> c" "c \<le> sint (is_latest I cset)"
      using idset_at(4) [OF ok V ne] that by (simp_all add: mn_def)
    then show ?thesis by (simp add: n_def mn_def)
  qed
  have "\<forall>c \<in> set (map (is_get I cset) [0..<0 + is_size I cset]). mn \<le> c \<and> c < mn + int (length (replicate n (0 :: int)))"
    using bounds by (simp add: is_elems_def)
  from count_loop_result [OF this] obtain ids where ids: "count_loop I cset mn (is_size I cset) 0 (replicate n 0) = Inr ids"
    "length ids = n" "\<forall>j < n. ids ! j = int (count_list (is_elems I cset) (mn + int j))"
    by (auto simp: is_elems_def)
  have iff: "ids ! j \<noteq> 0 \<longleftrightarrow> mn + int j \<in> set (is_elems I cset)" if "j < n" for j
    using ids(3) that by (simp add: count_list_0_iff)
  have "(\<lambda>j. mn + int j) ` {j. j < n \<and> ids ! j \<noteq> 0} = set (is_elems I cset)"
  proof (intro subset_antisym subsetI)
    fix c assume "c \<in> (\<lambda>j. mn + int j) ` {j. j < n \<and> ids ! j \<noteq> 0}"
    then show "c \<in> set (is_elems I cset)" using iff by auto
  next
    fix c assume c: "c \<in> set (is_elems I cset)"
    then obtain j where "c = mn + int j" "j < n" using bounds [OF c] by (metis add_diff_cancel_left' add_less_cancel_left of_nat_less_iff zle_iff_zadd)
    then show "c \<in> (\<lambda>j. mn + int j) ` {j. j < n \<and> ids ! j \<noteq> 0}" using iff c by blast
  qed
  then show ?thesis using that ids(1,2) iff by blast
qed

definition useful_chunks :: "'k chunkbuf_api \<Rightarrow> 'i idset_api \<Rightarrow> timeval \<Rightarrow> ('k, 'i) chunk_trader \<Rightarrow> 'i \<Rightarrow> int set" where
  "useful_chunks B I now ct cset = {c \<in> set (is_elems I cset). free_chunk B (ct_cb ct) now (ch_locks ct) c}"

lemma set_bmap_result:
  assumes "tp_peers t a = Some p" and "pr_user_data p = Some u"
  shows "set_bmap a f ts t = Inr (t\<lparr>tp_peers := (tp_peers t)(a := Some (p\<lparr>pr_user_data :=
             Some \<lparr>ud_bmap_timestamp = (case ts of Some now \<Rightarrow> now | None \<Rightarrow> ud_bmap_timestamp u), ud_bmap = f (ud_bmap u)\<rparr>\<rparr>))\<rparr>)"
  using assms by (simp add: set_bmap_def peer_at_def)

lemma handle_offer_lemma:
  assumes ok: "idset_ok I V" and V: "V cset" and wf: "cl_wf (ch_locks ct)" and p: "tp_peers t a = Some p" "pr_user_data p = Some u"
    and now: "now \<le> timeradd now (cl_toutdiff (ch_locks ct))"
  obtains acc ls t' where "chunk_trader_handle_offer B I tnow (\<lambda>_ _. now) (\<lambda>_. now) a cset max_deliver tid ct t =
      Inr (0, ct\<lparr>ch_locks := ls, ct_sent := ct_sent ct @ [Send_accept (pr_id p) acc tid]\<rparr>, t')"
    and "V acc" and "cl_wf ls" and "cl_toutdiff ls = cl_toutdiff (ch_locks ct)"
    and "set (is_elems I acc) = set (take (nat max_deliver) (rev (sorted_list_of_set (useful_chunks B I now ct cset))))"
    and "\<forall>l \<in> set (cl_locks (ch_locks ct)). lock_live now (ch_locks ct) l \<longrightarrow> l \<in> set (cl_locks ls)"
    and "\<forall>c \<in> set (is_elems I acc). \<lparr>lk_chunkid = c, lk_peer = Some (pr_id p), lk_timestamp = now\<rparr> \<in> set (cl_locks ls)"
    and "tp_peers t' a = Some (p\<lparr>pr_user_data := Some \<lparr>ud_bmap_timestamp = tnow,
           ud_bmap = is_trim I (is_union I (ud_bmap u) cset) (uint (peer_cb_size (Some p)))\<rparr>\<rparr>)"
proof -
  define mn where mn: "mn = sint (is_earliest I cset)"
  define n where n: "n = nat (sint (is_latest I cset) - mn + 1)"
  obtain ids where ids: "count_loop I cset mn (is_size I cset) 0 (replicate n 0) = Inr ids" "length ids = n"
    "\<And>j. j < n \<Longrightarrow> ids ! j \<noteq> 0 \<longleftrightarrow> mn + int j \<in> set (is_elems I cset)"
    "(\<lambda>j. mn + int j) ` {j. j < n \<and> ids ! j \<noteq> 0} = set (is_elems I cset)"
    using offered_array [OF ok V] unfolding mn n by blast
  define q where q: "q = p\<lparr>pr_user_data := Some \<lparr>ud_bmap_timestamp = tnow,
           ud_bmap = is_trim I (is_union I (ud_bmap u) cset) (uint (peer_cb_size (Some p)))\<rparr>\<rparr>"
  define t1 where t1: "t1 = t\<lparr>tp_peers := (tp_peers t)(a := Some q)\<rparr>"
  have up: "update_peer_bmap I tnow a cset t = Inr t1"
    using set_bmap_result [OF p, of _ "Some tnow"] p by (simp add: update_peer_bmap_def peer_at_def t1 q)
  have q': "tp_peers t1 a = Some q" "pr_id q = pr_id p" by (simp_all add: t1 q)
  let ?cands = "map (\<lambda>j. mn + int j) (filter (\<lambda>j. ids ! j \<noteq> 0) (rev [0..<n]))"
  have range: "\<forall>j < length ids. ids ! j \<noteq> 0 \<longrightarrow> 0 \<le> mn + int j \<and> mn + int j < 2 ^ 31"
    using ids(2,3) idset_at(2) [OF ok V] by auto
  obtain acc ls where al: "accept_loop B I (\<lambda>_ _. now) (\<lambda>_. now) (pr_id p) mn ids max_deliver n (ct_cb ct) (is_init I) (ch_locks ct) = Inr (acc, ls)"
    "V acc" "cl_wf ls" "cl_toutdiff ls = cl_toutdiff (ch_locks ct)"
    "set (is_elems I acc) = set (take (nat max_deliver) (filter (free_chunk B (ct_cb ct) now (ch_locks ct)) ?cands))"
    "\<forall>l \<in> set (cl_locks (ch_locks ct)). lock_live now (ch_locks ct) l \<longrightarrow> l \<in> set (cl_locks ls)"
    "\<forall>c \<in> set (is_elems I acc). \<lparr>lk_chunkid = c, lk_peer = Some (pr_id p), lk_timestamp = now\<rparr> \<in> set (cl_locks ls)"
    using accept_loop_result [OF ok idset_init(1) [OF ok] wf, of n ids mn now B "pr_id p" max_deliver "ct_cb ct"] range now ids(2)
    by (auto simp: idset_init [OF ok])
  have "set ?cands = set (is_elems I cset)" using ids(4) by (auto simp: image_iff)
  then have cands: "filter (free_chunk B (ct_cb ct) now (ch_locks ct)) ?cands = rev (sorted_list_of_set (useful_chunks B I now ct cset))"
    unfolding useful_chunks_def by (rule filter_free_useful [OF _ descending_map])
  have "chunk_trader_handle_offer B I tnow (\<lambda>_ _. now) (\<lambda>_. now) a cset max_deliver tid ct t =
      Inr (0, ct\<lparr>ch_locks := ls, ct_sent := ct_sent ct @ [Send_accept (pr_id p) acc tid]\<rparr>, t1)"
    using up q' ids(1) al(1)
    by (simp add: chunk_trader_handle_offer_def peer_at_def Let_def mn [symmetric] n [symmetric])
  then show ?thesis
    by (rule that) (use al cands q' q in simp_all)
qed

section \<open>Sending\<close>

definition has_data :: "('n, 'i) peer_store \<Rightarrow> nat \<Rightarrow> bool" where
  "has_data h a \<longleftrightarrow> (\<exists>p u. h a = Some p \<and> pr_user_data p = Some u)"

lemma chunk_send_loop_sent:
  assumes "\<forall>(a, c) \<in> set pairs. has_data (tp_peers t) a \<and> cb_get_chunk B (ct_cb ct) c \<noteq> None"
  shows "\<exists>r ct' t'. chunk_send_loop B I sres tid i res pairs ct t = Inr (r, ct', t') \<and>
    ct_sent ct' = ct_sent ct @ map (\<lambda>(a, c). Send_chunk (pid (tp_peers t) a) (the (cb_get_chunk B (ct_cb ct) c)) tid) pairs \<and>
    ct_cb ct' = ct_cb ct \<and> ct_transactions ct' = ct_transactions ct \<and> ch_locks ct' = ch_locks ct \<and>
    r = (if pairs = [] then res else sres (i + length pairs - 1))"
  using assms
proof (induction pairs arbitrary: i res ct t)
  case (Cons pr pairs)
  obtain a c where pr: "pr = (a, c)" by (cases pr)
  obtain p u k where k: "tp_peers t a = Some p" "pr_user_data p = Some u" "cb_get_chunk B (ct_cb ct) c = Some k"
    using Cons.prems pr by (auto simp: has_data_def)
  define ct1 where ct1: "ct1 = ct\<lparr>ct_sent := ct_sent ct @ [Send_chunk (pr_id p) k tid]\<rparr>"
  define q where q: "q = p\<lparr>pr_user_data := Some \<lparr>ud_bmap_timestamp = ud_bmap_timestamp u, ud_bmap = is_add I (ud_bmap u) (gc_id k)\<rparr>\<rparr>"
  define t1 where t1: "t1 = (if sres i \<ge> 0 then t\<lparr>tp_peers := (tp_peers t)(a := Some q)\<rparr> else t)"
  have step: "chunk_send_loop B I sres tid i res (pr # pairs) ct t = chunk_send_loop B I sres tid (Suc i) (sres i) pairs ct1 t1"
    using k set_bmap_result [OF k(1,2), of "\<lambda>b. is_add I b (gc_id k)" None]
    by (simp add: pr peer_at_def ct1 t1 q)
  have pid1: "pid (tp_peers t1) = pid (tp_peers t)" using k(1) by (auto simp: t1 q pid_def)
  have data1: "has_data (tp_peers t) x \<Longrightarrow> has_data (tp_peers t1) x" for x
    by (auto simp: t1 q has_data_def)
  have "\<forall>(x, c) \<in> set pairs. has_data (tp_peers t1) x \<and> cb_get_chunk B (ct_cb ct1) c \<noteq> None"
    using Cons.prems data1 by (auto simp: ct1)
  from Cons.IH [OF this, of "Suc i" "sres i"] show ?case
    using step k by (auto simp: ct1 pr pid1 pid_def)
qed simp

lemma pairs_loop_eq:
  "pairs_loop B I cb cset a m k i pairs =
     pairs @ map (\<lambda>c. (a, c)) (take (nat (m - int (length pairs))) (filter (\<lambda>c. cb_get_chunk B cb c \<noteq> None) (map (is_get I cset) [i..<i + k])))"
proof (induction k arbitrary: i pairs)
  case (Suc k)
  have up: "[i..<i + Suc k] = i # [Suc i..<Suc i + k]" by (simp add: upt_rec [of i])
  show ?case
  proof (cases "int (length pairs) < m")
    case True
    then have n: "nat (m - int (length pairs)) = Suc (nat (m - int (Suc (length pairs))))" by simp
    show ?thesis
      using True Suc.IH [of "Suc i" pairs] Suc.IH [of "Suc i" "pairs @ [(a, is_get I cset i)]"]
      unfolding up by (simp add: Let_def n)
  qed simp
qed simp

section \<open>Instances of the library interfaces\<close>

text \<open>A list of identifiers and a list of chunks satisfy what the code relies on; the examples use them.\<close>

definition list_idset :: "int list idset_api" where
  "list_idset =
     \<lparr>is_init = [], is_add = (\<lambda>s c. if c \<in> set s then s else s @ [c]), is_check = (\<lambda>s c. if c \<in> set s then 0 else -1),
      is_size = length, is_get = (\<lambda>s i. s ! i), is_union = (\<lambda>a b. a @ filter (\<lambda>c. c \<notin> set a) b), is_trim = (\<lambda>s n. s),
      is_clear = (\<lambda>s. []), is_earliest = (\<lambda>s. if s = [] then -1 else word_of_int (Min (set s))),
      is_latest = (\<lambda>s. if s = [] then -1 else word_of_int (Max (set s)))\<rparr>"

definition list_idset_valid :: "int list \<Rightarrow> bool" where
  "list_idset_valid s \<longleftrightarrow> distinct s \<and> (\<forall>c \<in> set s. 0 \<le> c \<and> c < 2 ^ 31)"

definition list_chunkbuf :: "gchunk list chunkbuf_api" where
  "list_chunkbuf = \<lparr>cb_add_chunk = (\<lambda>b c. (0, b @ [c])), cb_get_chunk = (\<lambda>b i. find (\<lambda>c. gc_id c = i) b), cb_get_chunks = (\<lambda>b. b)\<rparr>"

lemma list_idset_elems [simp]: "is_elems list_idset s = s"
  by (simp add: is_elems_def list_idset_def map_nth)

lemma sint_chunk_id: "0 \<le> c \<Longrightarrow> c < 2 ^ 31 \<Longrightarrow> sint (word_of_int c :: u32) = c"
  by (simp add: sint_sbintrunc' signed_take_bit_int_eq_self)

lemma list_idset_ok: "idset_ok list_idset list_idset_valid"
proof -
  have "sint (is_earliest list_idset s) = Min (set s) \<and> sint (is_latest list_idset s) = Max (set s)"
    if "list_idset_valid s" and "s \<noteq> []" for s
  proof -
    have "Min (set s) \<in> set s" "Max (set s) \<in> set s" using that(2) by simp_all
    then have "sint (word_of_int (Min (set s)) :: u32) = Min (set s)" "sint (word_of_int (Max (set s)) :: u32) = Max (set s)"
      using that(1) sint_chunk_id unfolding list_idset_valid_def by blast+
    then show ?thesis using that(2) by (simp add: list_idset_def)
  qed
  then show ?thesis
    unfolding idset_ok_def list_idset_elems
    by (auto simp: list_idset_valid_def list_idset_def)
qed

definition peer_node :: nodeID where
  "peer_node = empty_node"

definition trader_world :: "(nat list, unit, int list) peer_topology" where
  "trader_world = empty_topology\<lparr>neighbourhood := [0],
     tp_peers := (\<lambda>_. None)(0 := Some \<lparr>pr_id = peer_node, pr_creation_timestamp = Timeval 0 0, pr_metadata = None,
       pr_user_data = Some \<lparr>ud_bmap_timestamp = Timeval 0 0, ud_bmap = []\<rparr>\<rparr>)\<rparr>"

definition sample_chunk :: "int \<Rightarrow> gchunk" where
  "sample_chunk i = \<lparr>ac_attributes_size = 0, ac_attributes = Attr_null, gc_id = i, gc_timestamp = 0, gc_data = None\<rparr>"

definition sample_trader :: "int list \<Rightarrow> (gchunk list, int list) chunk_trader" where
  "sample_trader ids = (chunk_trader_create (\<lambda>n. []) False None None None None)\<lparr>ct_cb := map sample_chunk ids\<rparr>"

lemma trader_world_peer:
  "tp_peers trader_world 0 = Some \<lparr>pr_id = peer_node, pr_creation_timestamp = Timeval 0 0, pr_metadata = None,
       pr_user_data = Some \<lparr>ud_bmap_timestamp = Timeval 0 0, ud_bmap = []\<rparr>\<rparr>"
  by (simp add: trader_world_def)

lemma sample_trader_locks: "cl_wf (ch_locks (sample_trader ids))"
  "cl_toutdiff (ch_locks (sample_trader ids)) = Timeval 0 80000"
  by (simp_all add: sample_trader_def chunk_trader_create_def chunk_locks_create_def cl_wf_def LSIZE_INCREMENT_def)

text \<open>Answering an accept.\<close>

lemma handle_accept_lemma:
  assumes "tp_peers t a = Some p" and "pr_user_data p = Some u"
  shows "\<exists>ct' t'. chunk_trader_handle_accept B I tnow sres a cset max_deliver tid ct t = Inr (0, ct', t') \<and>
    ct_sent ct' = ct_sent ct @ map (\<lambda>c. Send_chunk (pr_id p) (the (cb_get_chunk B (ct_cb ct) c)) tid)
      (take (nat (min (int (is_size I cset)) (chunks_per_peer_offer ct))) (filter (\<lambda>c. cb_get_chunk B (ct_cb ct) c \<noteq> None) (is_elems I cset))) \<and>
    ct_transactions ct' = snd (transaction_reg_accept tnow (ct_transactions ct) tid (Some (pr_id p))) \<and> ct_cb ct' = ct_cb ct"
proof -
  define cs where cs: "cs = take (nat (min (int (is_size I cset)) (chunks_per_peer_offer ct))) (filter (\<lambda>c. cb_get_chunk B (ct_cb ct) c \<noteq> None) (is_elems I cset))"
  define ct1 where ct1: "ct1 = ct\<lparr>ct_transactions := snd (transaction_reg_accept tnow (ct_transactions ct) tid (Some (pr_id p)))\<rparr>"
  have pairs: "pairs_loop B I (ct_cb ct) cset a (min (int (is_size I cset)) (chunks_per_peer_offer ct)) (is_size I cset) 0 [] = map (\<lambda>c. (a, c)) cs"
    by (simp add: pairs_loop_eq cs is_elems_def)
  have "set cs \<subseteq> {c. cb_get_chunk B (ct_cb ct) c \<noteq> None}" unfolding cs using set_take_subset by fastforce
  then have "\<forall>(x, c) \<in> set (map (\<lambda>c. (a, c)) cs). has_data (tp_peers t) x \<and> cb_get_chunk B (ct_cb ct1) c \<noteq> None"
    using assms by (auto simp: has_data_def ct1)
  from chunk_send_loop_sent [OF this, of I sres tid 0 "-1"] obtain r ct' t' where
    r: "chunk_send_loop B I sres tid 0 (-1) (map (\<lambda>c. (a, c)) cs) ct1 t = Inr (r, ct', t')"
       "ct_sent ct' = ct_sent ct1 @ map (\<lambda>(a, c). Send_chunk (pid (tp_peers t) a) (the (cb_get_chunk B (ct_cb ct1) c)) tid) (map (\<lambda>c. (a, c)) cs)"
       "ct_cb ct' = ct_cb ct1" "ct_transactions ct' = ct_transactions ct1" by blast
  have "chunk_trader_handle_accept B I tnow sres a cset max_deliver tid ct t = Inr (0, ct', t')"
    using assms(1) r(1) pairs by (simp add: chunk_trader_handle_accept_def peer_at_def Let_def ct1 peer_chunk_send_def)
  moreover have "pid (tp_peers t) a = pr_id p" using assms(1) by (simp add: pid_def)
  ultimately show ?thesis using r(2-4) unfolding cs [symmetric] by (simp add: ct1 comp_def)
qed

section \<open>Properties\<close>

text \<open>C13: Latest useful chunk selection.  Of an offer a node accepts exactly the \<open>max_deliver\<close> latest of the useful chunks, those
  offered that are not in its buffer and not locked; it locks each of them for the peer, keeps every lock that is
  still alive, never reads outside the counting array, and remembers that the peer has what it offered.\<close>

theorem handle_offer_result:
  assumes "idset_ok I V" and "V cset" and "cl_wf (ch_locks ct)" and "tp_peers t a = Some p" and "pr_user_data p = Some u"
    and "now \<le> timeradd now (cl_toutdiff (ch_locks ct))"
  shows "\<exists>acc ls t'. chunk_trader_handle_offer B I tnow (\<lambda>_ _. now) (\<lambda>_. now) a cset max_deliver tid ct t =
      Inr (0, ct\<lparr>ch_locks := ls, ct_sent := ct_sent ct @ [Send_accept (pr_id p) acc tid]\<rparr>, t') \<and>
    set (is_elems I acc) = set (take (nat max_deliver) (rev (sorted_list_of_set
      {c \<in> set (is_elems I cset). cb_get_chunk B (ct_cb ct) c = None \<and>
         \<not> (\<exists>l \<in> set (cl_locks (ch_locks ct)). lk_chunkid l = c \<and> lock_live now (ch_locks ct) l)}))) \<and>
    (\<forall>c \<in> set (is_elems I acc). \<lparr>lk_chunkid = c, lk_peer = Some (pr_id p), lk_timestamp = now\<rparr> \<in> set (cl_locks ls)) \<and>
    (\<forall>l \<in> set (cl_locks (ch_locks ct)). lock_live now (ch_locks ct) l \<longrightarrow> l \<in> set (cl_locks ls)) \<and> cl_wf ls \<and>
    peer_bmap (tp_peers t' a) = Some (is_trim I (is_union I (ud_bmap u) cset) (uint (peer_cb_size (Some p)))) \<and>
    peer_bmap_timestamp (tp_peers t' a) = Some tnow"
proof (rule handle_offer_lemma [OF assms, of B tnow max_deliver tid], goal_cases)
  case r: (1 acc ls t')
  have "peer_bmap (tp_peers t' a) = Some (is_trim I (is_union I (ud_bmap u) cset) (uint (peer_cb_size (Some p))))"
    and "peer_bmap_timestamp (tp_peers t' a) = Some tnow"
    unfolding r(8) by (simp_all add: peer_bmap_def peer_bmap_timestamp_def)
  then show ?case using r(1,3,5-7) unfolding useful_chunks_def free_chunk_def by blast
qed

theorem handle_offer_result_witness:
  "\<exists>acc ls t'. chunk_trader_handle_offer list_chunkbuf list_idset (Timeval 9 0) (\<lambda>_ _. Timeval 9 0) (\<lambda>_. Timeval 9 0) 0 [3, 7, 5, 4] 2 1 (sample_trader [5]) trader_world =
     Inr (0, (sample_trader [5])\<lparr>ch_locks := ls, ct_sent := [Send_accept peer_node acc 1]\<rparr>, t') \<and> set acc = {4, 7}"
proof -
  have v: "list_idset_valid [3, 7, 5, 4]" by (simp add: list_idset_valid_def)
  have n: "Timeval 9 0 \<le> timeradd (Timeval 9 0) (cl_toutdiff (ch_locks (sample_trader [5])))"
    by (simp add: sample_trader_locks timeradd_def less_eq_timeval_def less_timeval_def)
  have s: "{c \<in> set (is_elems list_idset [3, 7, 5, 4]). cb_get_chunk list_chunkbuf (ct_cb (sample_trader [5])) c = None \<and>
         \<not> (\<exists>l \<in> set (cl_locks (ch_locks (sample_trader [5]))). lk_chunkid l = c \<and> lock_live (Timeval 9 0) (ch_locks (sample_trader [5])) l)} = {3, 4, 7}"
    by (auto simp: sample_trader_def chunk_trader_create_def chunk_locks_create_def list_chunkbuf_def sample_chunk_def)
  have e: "ct_sent (sample_trader [5]) = []" by (simp add: sample_trader_def chunk_trader_create_def)
  have k: "set (take (nat 2) (rev (sorted_list_of_set {3, 4, 7 :: int}))) = {4, 7}" by (simp add: numeral_2_eq_2) blast
  show ?thesis
    using handle_offer_result [OF list_idset_ok v sample_trader_locks(1) trader_world_peer _ n, of _ list_chunkbuf "Timeval 9 0" 2 1]
    unfolding s e k by fastforce
qed



text \<open>C15: An accepted offer: of the chunks asked for, in the order of the set, the first \<open>chunks_per_peer_offer\<close> that are
  still in the buffer are sent, each exactly as the buffer has it, with the transaction of the offer; nothing that is no longer
  held is sent, and the time of the accept is registered.\<close>

theorem handle_accept_result:
  assumes "tp_peers t a = Some p" and "pr_user_data p = Some u"
  shows "\<exists>ct' t'. chunk_trader_handle_accept B I tnow sres a cset max_deliver tid ct t = Inr (0, ct', t') \<and>
    ct_sent ct' = ct_sent ct @ map (\<lambda>c. Send_chunk (pr_id p) (the (cb_get_chunk B (ct_cb ct) c)) tid)
      (take (nat (min (int (is_size I cset)) (chunks_per_peer_offer ct))) (filter (\<lambda>c. cb_get_chunk B (ct_cb ct) c \<noteq> None) (is_elems I cset))) \<and>
    ct_transactions ct' = snd (transaction_reg_accept tnow (ct_transactions ct) tid (Some (pr_id p))) \<and> ct_cb ct' = ct_cb ct"
  by (rule handle_accept_lemma [OF assms])

theorem handle_accept_result_witness:
  "\<exists>ct' t'. chunk_trader_handle_accept list_chunkbuf list_idset (Timeval 1 0) (\<lambda>_. 0) 0 [9, 3, 4] 5 1 (sample_trader [3, 4]) trader_world = Inr (0, ct', t') \<and>
     ct_sent ct' = [Send_chunk peer_node (sample_chunk 3) 1]"
proof -
  have e: "ct_sent (sample_trader [3, 4]) = []" "chunks_per_peer_offer (sample_trader [3, 4]) = 1" "is_size list_idset [9, 3, 4] = 3"
    by (simp_all add: sample_trader_def chunk_trader_create_def config_default_def list_idset_def)
  have c: "cb_get_chunk list_chunkbuf (ct_cb (sample_trader [3, 4])) = (\<lambda>i. if i = 3 then Some (sample_chunk 3) else if i = 4 then Some (sample_chunk 4) else None)"
    by (auto simp: sample_trader_def list_chunkbuf_def sample_chunk_def fun_eq_iff)
  show ?thesis
    using handle_accept_result [OF trader_world_peer, of _ list_chunkbuf list_idset "Timeval 1 0" "\<lambda>_. 0" "[9, 3, 4]" 5 1 "sample_trader [3, 4]"]
    unfolding e c by simp blast
qed

text \<open>A source pushes a new chunk to as many neighbours as the scheduler picks, at most \<open>multiplicity\<close>; but
  the function reports failure: whatever was sent, and even when every send succeeded, the result is -1.\<close>

lemma push_chunk_result:
  fixes t :: "('s, 'p, 'i) peer_topology"
  assumes "multiplicity > 0" and "cb_get_chunk B (ct_cb ct) (gc_id k) = Some k'"
    and "sched (ps_peers A (neighbourhood t)) [gc_id k] (nat (min multiplicity (int (ps_size A (neighbourhood t))))) None (peer_evaluation ct (tp_peers t)) chunk_evaluation_latest = Inr pairs"
    and "\<forall>(a, c) \<in> set pairs. a \<in> ps_set A (neighbourhood t) \<and> c = gc_id k" and "topo_inv A t"
  shows "\<exists>ct' t'. chunk_trader_push_chunk A B I sched sres ct (Some k) multiplicity t = Inr (-1, ct', t') \<and>
    ct_sent ct' = ct_sent ct @ map (\<lambda>(a, c). Send_chunk (pid (tp_peers t) a) k' INVALID_TRANSID) pairs"
proof -
  have data: "has_data (tp_peers t) a" if "a \<in> ps_set A (neighbourhood t)" for a
  proof -
    obtain p u where "tp_peers t a = Some p" "pr_user_data p = Some u" using topo_inv_peer [OF assms(5), of a] \<open>a \<in> _\<close> by blast
    then show ?thesis by (auto simp: has_data_def)
  qed
  have "\<forall>(a, c) \<in> set pairs. has_data (tp_peers t) a \<and> cb_get_chunk B (ct_cb ct) c \<noteq> None"
    using assms(2,4) data by fastforce
  from chunk_send_loop_sent [OF this, of I sres INVALID_TRANSID 0 "-1"] obtain r ct' t' where
    r: "chunk_send_loop B I sres INVALID_TRANSID 0 (-1) pairs ct t = Inr (r, ct', t')"
       "ct_sent ct' = ct_sent ct @ map (\<lambda>(a, c). Send_chunk (pid (tp_peers t) a) (the (cb_get_chunk B (ct_cb ct) c)) INVALID_TRANSID) pairs" by blast
  have "map (\<lambda>(a, c). Send_chunk (pid (tp_peers t) a) (the (cb_get_chunk B (ct_cb ct) c)) INVALID_TRANSID) pairs =
      map (\<lambda>(a, c). Send_chunk (pid (tp_peers t) a) k' INVALID_TRANSID) pairs"
    using assms(2,4) by (intro map_cong) auto
  moreover have "chunk_trader_push_chunk A B I sched sres ct (Some k) multiplicity t = Inr (-1, ct', t')"
    using assms(1,3) r(1) by (simp add: chunk_trader_push_chunk_def topology_get_neighbours_def peer_chunk_send_def)
  ultimately show ?thesis using r(2) by auto
qed

lemma trader_world_inv: "topo_inv (list_peerset []) trader_world"
  by (simp add: topo_inv_def topo_sets_def live_peers_def trader_world_def empty_topology_def)

text \<open>What a scheduler guarantees: a result whenever the filter and the evaluation give one, at most as many pairs
  as asked for, of the given peers and chunks.\<close>

definition sched_ok :: "sched \<Rightarrow> bool" where
  "sched_ok sched \<longleftrightarrow> (\<forall>peers chunks n filt ev cev.
     (\<forall>a \<in> set peers. \<exists>x. ev a = Inr x) \<and> (\<forall>f. filt = Some f \<longrightarrow> (\<forall>a \<in> set peers. \<forall>c \<in> set chunks. \<exists>x. f a c = Inr x)) \<longrightarrow>
     (\<exists>pairs. sched peers chunks n filt ev cev = Inr pairs \<and> length pairs \<le> n \<and> set pairs \<subseteq> set peers \<times> set chunks))"

definition good_offer :: "'i idset_api \<Rightarrow> nodeID set \<Rightarrow> int list \<Rightarrow> int \<Rightarrow> 'i trade_send \<Rightarrow> bool" where
  "good_offer I peers chunks m ev \<longleftrightarrow>
     (\<exists>i s tid. ev = Send_offer i s m tid \<and> i \<in> peers \<and> set (is_elems I s) \<noteq> {} \<and> set (is_elems I s) \<subseteq> set chunks)"

lemma filter_total: "has_data h a \<Longrightarrow> \<exists>x. peer_needs_chunk_filter I h a c = Inr x"
  by (auto simp: has_data_def peer_needs_chunk_filter_def peer_user_def peer_at_def Let_def)

lemma fold_add_elems:
  assumes "idset_ok I V" and "V s" and "\<forall>pr \<in> set prs. 0 \<le> snd pr \<and> snd pr < 2 ^ 31"
  shows "V (fold (\<lambda>pr s. is_add I s (snd pr)) prs s) \<and>
    set (is_elems I (fold (\<lambda>pr s. is_add I s (snd pr)) prs s)) = set (is_elems I s) \<union> snd ` set prs"
  using assms(2,3)
proof (induction prs arbitrary: s)
  case (Cons pr prs)
  then show ?case using idset_add [OF assms(1), of s "snd pr"] by auto
qed simp

lemma offer_loop_result:
  assumes ok: "idset_ok I V" and chunks: "\<forall>c \<in> set ch_buff. 0 \<le> c \<and> c < 2 ^ 31" and sched: "\<And>j. sched_ok (sched j)"
    and data: "\<forall>a \<in> set neighs. has_data h a" and ev: "ct_dist_type ct = DIST_TURBO \<longrightarrow> (\<forall>a \<in> set neighs. pr_metadata (the (h a)) \<noteq> None)"
  shows "\<exists>ct' offers. offer_loop I sched clk neighs ch_buff k j h res ct = Inr (res + length offers, ct') \<and> ct_sent ct' = ct_sent ct @ offers \<and>
    length offers \<le> k \<and> (\<forall>ev \<in> set offers. good_offer I (pid h ` set neighs) ch_buff (chunks_per_peer_offer ct) ev) \<and> ct_cb ct' = ct_cb ct \<and> ch_locks ct' = ch_locks ct"
  using ev
proof (induction k arbitrary: j res ct)
  case 0
  then show ?case by (intro exI [of _ ct] exI [of _ "[]"]) simp
next
  case (Suc k)
  have "\<forall>a \<in> set neighs. \<exists>x. peer_evaluation ct h a = Inr x"
    using data Suc.prems by (fastforce simp: peer_evaluation_def peer_evaluation_turbo_def peer_evaluation_uniform_def trader_peer_neigh_size_def has_data_def peer_at_def Let_def)
  then obtain pairs where pairs: "sched j neighs ch_buff (length ch_buff) (Some (peer_needs_chunk_filter I h)) (peer_evaluation ct h) chunk_evaluation_latest = Inr pairs"
    "set pairs \<subseteq> set neighs \<times> set ch_buff"
    using sched [of j] filter_total [of h _ I] data unfolding sched_ok_def by (metis option.inject)
  show ?case
  proof (cases pairs)
    case Nil
    then have "offer_loop I sched clk neighs ch_buff (Suc k) j h res ct = offer_loop I sched clk neighs ch_buff k (Suc j) h res ct"
      using pairs(1) by simp
    then show ?thesis using Suc.IH [OF Suc.prems, of "Suc j" res] by (auto intro: le_SucI)
  next
    case (Cons pr prs)
    obtain a c where pr: "pr = (a, c)" by (cases pr)
    have a: "a \<in> set neighs" using pairs(2) Cons pr by auto
    then obtain p where p: "h a = Some p" using data by (auto simp: has_data_def)
    define s where s: "s = fold (\<lambda>pr s. is_add I s (snd pr)) pairs (is_init I)"
    obtain tid trs where tr: "transaction_create (fst (clk j)) (snd (clk j)) (Some (ct_transactions ct)) (Some (pr_id p)) = (tid, trs)" by fastforce
    define ct1 where ct1: "ct1 = ct\<lparr>ct_transactions := the trs, ct_sent := ct_sent ct @ [Send_offer (pr_id p) s (chunks_per_peer_offer ct) tid]\<rparr>"
    have step: "offer_loop I sched clk neighs ch_buff (Suc k) j h res ct = offer_loop I sched clk neighs ch_buff k (Suc j) h (Suc res) ct1"
      using pairs(1) p tr by (simp add: Cons pr peer_at_def Let_def ct1 s)
    have "\<forall>pr \<in> set pairs. 0 \<le> snd pr \<and> snd pr < 2 ^ 31" using pairs(2) chunks by auto
    then have "set (is_elems I s) = snd ` set pairs"
      using fold_add_elems [OF ok idset_init(1) [OF ok], of pairs] idset_init(2) [OF ok] by (auto simp: s)
    then have good: "good_offer I (pid h ` set neighs) ch_buff (chunks_per_peer_offer ct) (Send_offer (pr_id p) s (chunks_per_peer_offer ct) tid)"
      using pairs(2) a p by (auto simp: good_offer_def Cons pid_def image_iff intro!: bexI [of _ a])
    obtain ct' offers where r: "offer_loop I sched clk neighs ch_buff k (Suc j) h (Suc res) ct1 = Inr (Suc res + length offers, ct')"
      "ct_sent ct' = ct_sent ct1 @ offers" "length offers \<le> k"
      "\<forall>ev \<in> set offers. good_offer I (pid h ` set neighs) ch_buff (chunks_per_peer_offer ct1) ev" "ct_cb ct' = ct_cb ct1" "ch_locks ct' = ch_locks ct1"
      using Suc.IH [of ct1 "Suc j" "Suc res"] Suc.prems by (auto simp: ct1)
    show ?thesis
      unfolding step
      by (intro exI [of _ ct'] exI [of _ "Send_offer (pr_id p) s (chunks_per_peer_offer ct) tid # offers"]) (use r good in \<open>auto simp: ct1\<close>)
  qed
qed

text \<open>C21: An offer round sends at most \<open>peers_per_offer\<close> offers, each to a neighbour, of at least one chunk and only of chunks that
  were in the buffer, announcing \<open>chunks_per_peer_offer\<close>; the result counts them as an 8-bit number.  It is safe when
  every neighbour has metadata, or the distribution is uniform.\<close>

theorem send_offer_result:
  assumes "idset_ok I V" and "\<forall>c \<in> set (chunk_buffer_to_idarray B (ct_cb ct)). 0 \<le> c \<and> c < 2 ^ 31" and "\<And>j. sched_ok (sched j)" and "topo_inv A t"
    and "ct_dist_type ct = DIST_TURBO \<longrightarrow> (\<forall>a \<in> ps_set A (neighbourhood t). pr_metadata (the (tp_peers t a)) \<noteq> None)"
  shows "\<exists>ct' offers. chunk_trader_send_offer A B I sched clk t ct = Inr (sint (of_nat (length offers) :: 8 word), ct') \<and>
    ct_sent ct' = ct_sent ct @ offers \<and> int (length offers) \<le> max 0 (peers_per_offer ct) \<and>
    (\<forall>ev \<in> set offers. \<exists>i s tid. ev = Send_offer i s (chunks_per_peer_offer ct) tid \<and> i \<in> ps_ids A (tp_peers t) (neighbourhood t) \<and>
       set (is_elems I s) \<noteq> {} \<and> set (is_elems I s) \<subseteq> set (chunk_buffer_to_idarray B (ct_cb ct)))"
proof -
  have "has_data (tp_peers t) a" if "a \<in> ps_set A (neighbourhood t)" for a
    using topo_inv_peer [OF assms(4), of a] that unfolding has_data_def by blast
  then have data: "\<forall>a \<in> ps_set A (neighbourhood t). has_data (tp_peers t) a" by blast
  obtain ct' offers where r: "offer_loop I sched clk (ps_peers A (neighbourhood t)) (chunk_buffer_to_idarray B (ct_cb ct)) (nat (peers_per_offer ct)) 0 (tp_peers t) 0 ct =
      Inr (0 + length offers, ct')" "ct_sent ct' = ct_sent ct @ offers" "length offers \<le> nat (peers_per_offer ct)"
    "\<forall>ev \<in> set offers. good_offer I (pid (tp_peers t) ` ps_set A (neighbourhood t)) (chunk_buffer_to_idarray B (ct_cb ct)) (chunks_per_peer_offer ct) ev"
    using offer_loop_result [where sched = sched, OF assms(1-3) data assms(5), where clk = clk and k = "nat (peers_per_offer ct)" and j = 0 and res = 0] by blast
  have "chunk_trader_send_offer A B I sched clk t ct = Inr (sint (of_nat (length offers) :: 8 word), ct')"
    using r(1) by (simp add: chunk_trader_send_offer_def topology_get_neighbours_def)
  then show ?thesis using r(2-4) unfolding good_offer_def ps_ids_def by (intro exI [of _ ct'] exI [of _ offers]) auto
qed

definition first_pair_sched :: sched where
  "first_pair_sched peers chunks n filt ev cev =
     (case (peers, chunks, n) of (a # _, c # _, Suc _) \<Rightarrow> Inr [(a, c)] | _ \<Rightarrow> Inr [])"

theorem send_offer_result_witness:
  "\<exists>ct' offers. chunk_trader_send_offer (list_peerset []) list_chunkbuf list_idset (\<lambda>_. first_pair_sched) (\<lambda>_. (Timeval 1 0, Timeval 1 0)) trader_world (sample_trader [6, 8]) =
     Inr (sint (of_nat (length offers) :: 8 word), ct') \<and> ct_sent ct' = offers \<and> length offers \<le> 1"
proof -
  have s: "\<And>j. sched_ok ((\<lambda>_. first_pair_sched) j)"
    by (auto simp: sched_ok_def first_pair_sched_def split: list.split nat.split)
  have b: "chunk_buffer_to_idarray list_chunkbuf (ct_cb (sample_trader [6, 8])) = [6, 8]"
    by (simp add: chunk_buffer_to_idarray_def list_chunkbuf_def sample_trader_def sample_chunk_def)
  have d: "ct_dist_type (sample_trader [6, 8]) = DIST_UNIFORM" "ct_sent (sample_trader [6, 8]) = []" "peers_per_offer (sample_trader [6, 8]) = 1"
    by (simp_all add: sample_trader_def chunk_trader_create_def config_default_def)
  show ?thesis
    using send_offer_result [where sched = "\<lambda>_. first_pair_sched", OF list_idset_ok _ s trader_world_inv, of list_chunkbuf "sample_trader [6, 8]" "\<lambda>_. (Timeval 1 0, Timeval 1 0)"]
    unfolding b d by auto
qed

text \<open>C24: A signalling message from a node that is not known changes nothing and answers nothing, an offer included: the
  handler looks the sender up with registration only after a lookup without registration has found it, so an offer
  never makes its sender a neighbour.\<close>

theorem unknown_peer_ignored:
  assumes "peerset_ok A b" and "topo_inv A t" and "topo_view A t = (N, W, L)" and "from \<notin> N \<union> W"
  shows "chunk_trader_msg_parse A S ic B I parse E from buff ct t = Inr (if parse (drop 1 buff) = None then -1 else 0, ct, t)"
proof -
  have "topology_get_peer A t from = None" using get_peer_None [OF assms(1,2), of "from"] assms(3,4) by simp
  then show ?thesis
    by (simp add: chunk_trader_msg_parse_def nodeid_to_peer_def split: option.split)
qed

theorem unknown_peer_ignored_witness:
  "chunk_trader_msg_parse (list_peerset []) no_samples big_endian list_chunkbuf list_idset
     (\<lambda>_. Some \<lparr>sg_type = Sig_offer, sg_cset = [3], sg_max_deliver = 1, sg_trans_id = 1\<rparr>) \<lparr>te_now = Timeval 1 0, te_islocked = \<lambda>_ _. Timeval 1 0, te_lock = \<lambda>_. Timeval 1 0, te_sres = \<lambda>_. 0\<rparr>
     peer_node [0x12, 0] (sample_trader []) (empty_topology :: (nat list, unit, int list) peer_topology) = Inr (0, sample_trader [], empty_topology)"
proof -
  have inv: "topo_inv (list_peerset []) (empty_topology :: (nat list, unit, int list) peer_topology)"
    by (simp add: topo_inv_def topo_sets_def live_peers_def empty_topology_def)
  have v: "topo_view (list_peerset []) (empty_topology :: (nat list, unit, int list) peer_topology) = ({}, {}, {})"
    by (simp add: topo_view_def ps_ids_def empty_topology_def)
  show ?thesis
    using unknown_peer_ignored [OF list_peerset_ok inv v, of peer_node no_samples big_endian list_chunkbuf list_idset
        "\<lambda>_. Some \<lparr>sg_type = Sig_offer, sg_cset = [3], sg_max_deliver = 1, sg_trans_id = 1\<rparr>"] by simp
qed

text \<open>C25: The offer interval.  With uniform distribution it is three quarters of the chunk interval, divided by the
  offers per period and truncated.  With the turbo distribution it is divided by the load too, so it is undefined as long as the
  node has no neighbour, and it reads through a NULL pointer when the first neighbour has not told its sizes.\<close>

theorem offer_interval_result:
  fixes t :: "('s, 'p, 'i) peer_topology"
  assumes "topo_inv A t" and "offer_per_period ct \<noteq> 0"
  shows "chunk_trader_offer_interval A interval t ct =
    (case ct_dist_type ct of
       DIST_UNIFORM \<Rightarrow> Inr (rat_trunc (3 * of_int interval / (4 * of_int (offer_per_period ct))))
     | DIST_TURBO \<Rightarrow>
         (if ps_peers A (neighbourhood t) = [] then Inl Div_By_Zero
          else if \<exists>a \<in> ps_set A (neighbourhood t). pr_metadata (the (tp_peers t a)) = None then Inl Null_Deref
          else Inr (rat_trunc (3 * of_int interval /
            (4 * of_int (offer_per_period ct) * (\<Sum>a \<leftarrow> ps_peers A (neighbourhood t). 1 / rat_of_int (max 1 (uint (md_neigh_size (the (pr_metadata (the (tp_peers t a)))))))))))))"
proof (cases "ct_dist_type ct")
  case DIST_UNIFORM
  then show ?thesis using assms(2) by (simp add: chunk_trader_offer_interval_def mult.commute)
next
  case turbo: DIST_TURBO
  let ?w = "\<lambda>a. 1 / rat_of_int (max 1 (uint (md_neigh_size (the (pr_metadata (the (tp_peers t a)))))))"
  have live: "\<forall>a \<in> ps_set A (neighbourhood t). \<exists>p. tp_peers t a = Some p"
    using topo_inv_peer [OF assms(1)] by blast
  have loop: "load_loop (tp_peers t) as x = (if \<exists>a \<in> set as. pr_metadata (the (tp_peers t a)) = None then Inl Null_Deref else Inr (x + (\<Sum>a \<leftarrow> as. ?w a)))"
    if "\<forall>a \<in> set as. \<exists>p. tp_peers t a = Some p" for as x
    using that
  proof (induction as arbitrary: x)
    case (Cons a as)
    then obtain p where p: "tp_peers t a = Some p" by auto
    have "(if rat_of_nat (unat m) > 0 then rat_of_nat (unat m) else 1) = rat_of_int (max 1 (uint m))" for m :: u8
    proof -
      define u where u: "u = unat m"
      have um: "uint m = int u" by (simp add: u)
      show ?thesis unfolding um u [symmetric] by (cases u) auto
    qed
    note nb = this
    have ev: "peer_evaluation_turbo (tp_peers t) a = (case pr_metadata p of None \<Rightarrow> Inl Null_Deref | Some m \<Rightarrow> Inr (?w a))"
      unfolding peer_evaluation_turbo_def peer_at_def p trader_peer_neigh_size_def Let_def nb by (simp split: option.split)
    have IH: "load_loop (tp_peers t) as y = (if \<exists>a \<in> set as. pr_metadata (the (tp_peers t a)) = None then Inl Null_Deref else Inr (y + (\<Sum>a \<leftarrow> as. ?w a)))" for y
      using Cons by simp
    show ?case
    proof (cases "pr_metadata p")
      case None
      then show ?thesis by (simp add: ev p)
    next
      case (Some m)
      then have "load_loop (tp_peers t) (a # as) x = load_loop (tp_peers t) as (x + ?w a)" by (simp add: ev)
      then show ?thesis using Some p unfolding IH by (simp add: add.assoc)
    qed
  qed simp
  have pos: "(\<Sum>a \<leftarrow> as. ?w a) > 0" if "as \<noteq> []" for as :: "nat list"
    using that by (cases as) (auto intro!: add_pos_nonneg sum_list_nonneg)
  define peers where peers: "peers = ps_peers A (neighbourhood t)"
  define load where load: "load = (\<Sum>a \<leftarrow> peers. ?w a)"
  have interval: "chunk_trader_offer_interval A interval t ct = c_bind (load_loop (tp_peers t) peers 0) (\<lambda>l.
      if l = 0 then Inl Div_By_Zero else Inr (rat_trunc (of_int interval * (3 / 4) / l / of_int (offer_per_period ct))))"
    using turbo assms(2)
    by (simp add: chunk_trader_offer_interval_def topology_get_neighbours_def peers c_bind_def split: sum.split)
  have l: "load_loop (tp_peers t) peers 0 = (if \<exists>a \<in> set peers. pr_metadata (the (tp_peers t a)) = None then Inl Null_Deref else Inr load)"
    using loop [of peers 0] live by (simp add: peers load)
  have frac: "of_int interval * (3 / 4) / load / of_int (offer_per_period ct) = 3 * of_int interval / (4 * of_int (offer_per_period ct) * load)"
    by (simp add: ac_simps)
  have "peers = [] \<Longrightarrow> load = 0" "peers \<noteq> [] \<Longrightarrow> load > 0" using pos [of peers] by (simp_all add: load)
  then show ?thesis
    unfolding interval l frac peers [symmetric] load [symmetric] using turbo by (auto simp: mult.commute mult.left_commute)
qed

theorem offer_interval_result_witness:
  "chunk_trader_offer_interval (list_peerset []) 40000 trader_world (sample_trader []) = Inr 30000 \<and>
   chunk_trader_offer_interval (list_peerset []) 40000 trader_world ((sample_trader [])\<lparr>ct_dist_type := DIST_TURBO\<rparr>) = Inl Null_Deref"
proof -
  have d: "ct_dist_type (sample_trader []) = DIST_UNIFORM" "offer_per_period (sample_trader []) = 1"
    by (simp_all add: sample_trader_def chunk_trader_create_def config_default_def)
  have n: "neighbourhood trader_world = [0]" "pr_metadata (the (tp_peers trader_world 0)) = None" by (simp_all add: trader_world_def)
  have o: "offer_per_period (sample_trader []) \<noteq> 0" "offer_per_period ((sample_trader [])\<lparr>ct_dist_type := DIST_TURBO\<rparr>) \<noteq> 0" by (simp_all add: d)
  show ?thesis
    unfolding offer_interval_result [OF trader_world_inv o(1)] offer_interval_result [OF trader_world_inv o(2)]
    by (simp add: d n rat_trunc_def)
qed

end
