(* ===== verification/Chunk_Input.thy ===== *)
theory Chunk_Input
  imports Chunk_Trader
begin

text \<open>
  \<open>src/input-grapes.c\<close>: the chunks a source makes out of its input.

  The input stream of GRAPES is a value of a parameter type: \<open>input_stream_open\<close>, \<open>input_get_fds\<close> and \<open>chunkise\<close> enter as
  their results or as functions.  \<open>uint64_t\<close> values are 64-bit words; a time difference is computed on them and then read as a
  signed number.  \<open>exit\<close> is the result \<open>None\<close>.
\<close>

type_synonym u64 = "64 word"

record 'src input_desc =
  in_s :: 'src
  in_id :: int
  in_interframe :: int
  in_start_time :: u64
  in_first_ts :: u64

definition INITIAL_ID :: int where
  "INITIAL_ID = 0"

definition DEFAULT_DATA_INTERVAL :: int where
  "DEFAULT_DATA_INTERVAL = 3000"

definition tv_u64 :: "timeval \<Rightarrow> u64" where
  "tv_u64 t = word_of_int (tv_usec t) + word_of_int (tv_sec t) * 1000000"

text \<open>The file name is cut at the first comma.  The descriptors of the stream are copied up to and including the closing -1, into an
  array of the length of \<open>fds\<close>: the size passed along is not looked at.\<close>

fun copy_fds :: "int list \<Rightarrow> nat \<Rightarrow> int list \<Rightarrow> int list c_result" where
  "copy_fds [] i fds = Inl Out_Of_Bounds"
| "copy_fds (fd # my_fds) i fds =
     (if i < length fds then
        (if fd = -1 then Inr (fds[i := -1]) else copy_fds my_fds (Suc i) (fds[i := fd]))
      else Inl Out_Of_Bounds)"

definition input_open ::
  "(string \<Rightarrow> ('src \<times> int) option) \<Rightarrow> ('src \<Rightarrow> int list) \<Rightarrow> timeval \<Rightarrow> string \<Rightarrow> int list \<Rightarrow> int \<Rightarrow>
   ('src input_desc option \<times> int list) c_result" where
  "input_open input_stream_open input_get_fds tv fname fds fds_size =
     (case input_stream_open (takeWhile (\<lambda>c. c \<noteq> CHR '','') fname) of
        None \<Rightarrow> Inr (None, fds)
      | Some (s, interframe) \<Rightarrow>
          if interframe = 0 then
            c_bind (copy_fds (input_get_fds s) 0 fds) (\<lambda>fds'.
              Inr (Some \<lparr>in_s = s, in_id = 0, in_interframe = 0, in_start_time = 0, in_first_ts = 0\<rparr>, fds'))
          else if fds_size \<ge> 1 \<and> fds = [] then Inl Out_Of_Bounds
          else Inr (Some \<lparr>in_s = s, in_id = INITIAL_ID, in_interframe = interframe, in_start_time = tv_u64 tv, in_first_ts = 0\<rparr>,
                    if fds_size \<ge> 1 then fds[0 := -1] else fds))"

text \<open>The result is an \<open>int\<close>: the 64-bit difference is cut to 32 bits.\<close>

definition input_get ::
  "('src \<Rightarrow> gchunk \<Rightarrow> int \<times> gchunk \<times> 'src) \<Rightarrow> timeval \<Rightarrow> 'src input_desc \<Rightarrow> gchunk \<Rightarrow> int \<times> 'src input_desc \<times> gchunk" where
  "input_get chunkise now s c =
     (case chunkise (in_s s) (c\<lparr>ac_attributes_size := 0, ac_attributes := Attr_null, gc_id := in_id s\<rparr>) of
        (res, c1, src) \<Rightarrow>
          let s1 = s\<lparr>in_s := src\<rparr> in
          if res < 0 then (-1, s1, c1)
          else
            let s2 = (if res > 0 then s1\<lparr>in_id := in_id s1 + 1\<rparr> else s1);
                s3 = (if in_first_ts s2 = 0 then s2\<lparr>in_first_ts := gc_timestamp c1\<rparr> else s2);
                delta = (if in_interframe s3 \<noteq> 0
                         then max 0 (sint (gc_timestamp c1 - in_first_ts s3 + word_of_int (in_interframe s3) + in_start_time s3 -
                                word_of_int (tv_sec now) * 1000000 - word_of_int (tv_usec now)))
                         else DEFAULT_DATA_INTERVAL)
            in (sint (word_of_int delta :: u32), s3, c1\<lparr>gc_timestamp := tv_u64 now\<rparr>))"

definition input_chunk ::
  "('src \<Rightarrow> gchunk \<Rightarrow> int \<times> gchunk \<times> 'src) \<Rightarrow> timeval \<Rightarrow> 'src input_desc \<Rightarrow> (gchunk option \<times> int \<times> 'src input_desc) option" where
  "input_chunk chunkise now s =
     (case input_get chunkise now s \<lparr>ac_attributes_size = 0, ac_attributes = Attr_null, gc_id = 0, gc_timestamp = 0, gc_data = None\<rparr> of
        (delta, s', c) \<Rightarrow>
          if delta < 0 then None
          else if gc_data c = None then Some (None, delta, s')
          else
            (case snd (chunk_attributes_init (Some \<lparr>ac_attributes_size = ac_attributes_size c, ac_attributes = ac_attributes c\<rparr>)) of
               Some a \<Rightarrow> Some (Some (c\<lparr>ac_attributes_size := ac_attributes_size a, ac_attributes := ac_attributes a\<rparr>), delta, s')
             | None \<Rightarrow> Some (Some c, delta, s')))"

section \<open>Properties\<close>

text \<open>The delay as an integer.\<close>

definition input_delay :: "timeval \<Rightarrow> 'src input_desc \<Rightarrow> u64 \<Rightarrow> int" where
  "input_delay now s ts =
     (let first = (if in_first_ts s = 0 then ts else in_first_ts s)
      in uint ts - uint first + in_interframe s + uint (in_start_time s) - tv_us now)"

lemma sint_small:
  fixes x :: int
  assumes "- (2 ^ 63) \<le> x" and "x < 2 ^ 63"
  shows "sint (word_of_int x :: u64) = x"
  using assms by (simp add: sint_sbintrunc' signed_take_bit_int_eq_self)

lemma input_get_delay_lemma:
  assumes "chunkise (in_s s) (c\<lparr>ac_attributes_size := 0, ac_attributes := Attr_null, gc_id := in_id s\<rparr>) = (res, c1, src)" and "res \<ge> 0"
    and "in_interframe s \<noteq> 0" and "- (2 ^ 63) \<le> input_delay now s (gc_timestamp c1)" and "input_delay now s (gc_timestamp c1) < 2 ^ 63"
  shows "fst (input_get chunkise now s c) = sint (word_of_int (max 0 (input_delay now s (gc_timestamp c1))) :: u32)"
proof -
  define first where first: "first = (if in_first_ts s = 0 then gc_timestamp c1 else in_first_ts s)"
  have d: "input_delay now s (gc_timestamp c1) = uint (gc_timestamp c1) - uint first + in_interframe s + uint (in_start_time s) - tv_us now"
    by (simp add: input_delay_def first Let_def)
  have w: "gc_timestamp c1 - first + word_of_int (in_interframe s) + in_start_time s - word_of_int (tv_sec now) * 1000000 - word_of_int (tv_usec now) =
      word_of_int (input_delay now s (gc_timestamp c1))"
    unfolding d tv_us_def by (simp add: algebra_simps)
  have "fst (input_get chunkise now s c) = sint (word_of_int (max 0 (sint (gc_timestamp c1 - first + word_of_int (in_interframe s) + in_start_time s -
      word_of_int (tv_sec now) * 1000000 - word_of_int (tv_usec now)))) :: u32)"
    using assms(1-3) by (simp add: input_get_def Let_def first)
  then show ?thesis unfolding w sint_small [OF assms(4,5)] .
qed

text \<open>C35: The time until the next chunk of a timed input: the time stamp of the chunk, counted from the first one, plus one
  interframe time after the start, less the current time, and 0 when that has passed.  The difference is returned as a 32-bit
  number, so a delay from $2^{31}$ up to $2^{32}$ microseconds reads as an error and ends the program.\<close>

theorem input_delay_result:
  assumes "chunkise (in_s s) \<lparr>ac_attributes_size = 0, ac_attributes = Attr_null, gc_id = in_id s, gc_timestamp = 0, gc_data = None\<rparr> = (res, c1, src)"
    and "res \<ge> 0" and "in_interframe s \<noteq> 0" and "- (2 ^ 63) \<le> input_delay now s (gc_timestamp c1)"
  shows "(input_delay now s (gc_timestamp c1) < 2 ^ 31 \<longrightarrow>
      (\<exists>c s'. input_chunk chunkise now s = Some (c, max 0 (input_delay now s (gc_timestamp c1)), s') \<and> (c = None \<longleftrightarrow> gc_data c1 = None))) \<and>
    (2 ^ 31 \<le> input_delay now s (gc_timestamp c1) \<and> input_delay now s (gc_timestamp c1) < 2 ^ 32 \<longrightarrow> input_chunk chunkise now s = None)"
proof (cases "input_delay now s (gc_timestamp c1) < 2 ^ 63")
  case True
  let ?c0 = "\<lparr>ac_attributes_size = 0, ac_attributes = Attr_null, gc_id = 0, gc_timestamp = 0, gc_data = None\<rparr>"
  let ?d = "input_delay now s (gc_timestamp c1)"
  have c: "chunkise (in_s s) (?c0\<lparr>ac_attributes_size := 0, ac_attributes := Attr_null, gc_id := in_id s\<rparr>) = (res, c1, src)" using assms(1) by simp
  obtain delta s' c' where g: "input_get chunkise now s ?c0 = (delta, s', c')" by (metis surj_pair)
  have delta: "delta = sint (word_of_int (max 0 ?d) :: u32)"
    using input_get_delay_lemma [where chunkise = chunkise and s = s and c = ?c0 and now = now, OF c assms(2-4) True] g by simp
  have data: "gc_data c' = gc_data c1" using g c assms(2) by (auto simp: input_get_def Let_def)
  have run: "input_chunk chunkise now s = (if delta < 0 then None else if gc_data c' = None then Some (None, delta, s')
      else Some (Some (c'\<lparr>ac_attributes_size := 2, ac_attributes := Attr 0\<rparr>), delta, s'))"
    using g by (simp add: input_chunk_def chunk_attributes_init_def)
  have small: "?d < 2 ^ 31 \<Longrightarrow> delta = max 0 ?d"
    unfolding delta by (simp add: sint_sbintrunc' signed_take_bit_int_eq_self)
  have big: "delta < 0" if "2 ^ 31 \<le> ?d" "?d < 2 ^ 32"
  proof -
    have "(?d + 2 ^ 31) mod 2 ^ 32 = (?d - 2 ^ 31) mod 2 ^ 32"
      using mod_add_self2 [of "?d - 2 ^ 31" "2 ^ 32"] by (simp add: algebra_simps)
    also have "\<dots> = ?d - 2 ^ 31" using that by (intro mod_pos_pos_trivial) simp_all
    finally have "signed_take_bit 31 ?d = ?d - 2 ^ 32" by (simp add: signed_take_bit_eq_take_bit_shift take_bit_eq_mod)
    then show ?thesis unfolding delta using that by (simp add: sint_sbintrunc' max_def)
  qed
  show ?thesis
    unfolding run using small big data by auto
qed auto

text \<open>What reading a stream guarantees: it does not fail, keeps the identifier, and a positive result means data.\<close>

definition chunkise_ok :: "('src \<Rightarrow> gchunk \<Rightarrow> int \<times> gchunk \<times> 'src) \<Rightarrow> bool" where
  "chunkise_ok ch \<longleftrightarrow> (\<forall>s c. case ch s c of (r, c', s') \<Rightarrow> gc_id c' = gc_id c \<and> r \<ge> 0 \<and> (r > 0 \<longleftrightarrow> gc_data c' \<noteq> None))"

lemma chunkise_okD:
  assumes "chunkise_ok ch" and "ch s c = (r, c', s')"
  shows "gc_id c' = gc_id c \<and> r \<ge> 0 \<and> (r > 0 \<longleftrightarrow> gc_data c' \<noteq> None)"
  using assms(1) [unfolded chunkise_ok_def, THEN spec [where x = s], THEN spec [where x = c]] unfolding assms(2) by simp

fun input_run :: "('src \<Rightarrow> gchunk \<Rightarrow> int \<times> gchunk \<times> 'src) \<Rightarrow> timeval list \<Rightarrow> 'src input_desc \<Rightarrow> (gchunk list \<times> 'src input_desc) option" where
  "input_run ch [] s = Some ([], s)"
| "input_run ch (now # nows) s =
     (case input_chunk ch now s of
        None \<Rightarrow> None
      | Some (c, delta, s') \<Rightarrow>
          (case input_run ch nows s' of None \<Rightarrow> None | Some (cs, s'') \<Rightarrow> Some ((case c of Some x \<Rightarrow> x # cs | None \<Rightarrow> cs), s'')))"

lemma input_chunk_ids:
  assumes "chunkise_ok ch" and "input_chunk ch now s = Some (c, delta, s')"
  shows "case c of Some x \<Rightarrow> gc_id x = in_id s \<and> ac_attributes x = Attr 0 \<and> gc_timestamp x = tv_u64 now \<and> in_id s' = in_id s + 1 | None \<Rightarrow> in_id s' = in_id s"
proof -
  let ?c0 = "\<lparr>ac_attributes_size = 0, ac_attributes = Attr_null, gc_id = 0, gc_timestamp = 0, gc_data = None\<rparr>"
  obtain res c1 src where c: "ch (in_s s) (?c0\<lparr>ac_attributes_size := 0, ac_attributes := Attr_null, gc_id := in_id s\<rparr>) = (res, c1, src)" by (metis surj_pair)
  have ok: "gc_id c1 = in_id s" "res \<ge> 0" "res > 0 \<longleftrightarrow> gc_data c1 \<noteq> None"
    using chunkise_okD [OF assms(1) c] by simp_all
  obtain d s2 c2 where g: "input_get ch now s ?c0 = (d, s2, c2)" by (metis surj_pair)
  have r: "gc_id c2 = in_id s" "gc_data c2 = gc_data c1" "gc_timestamp c2 = tv_u64 now" "in_id s2 = (if res > 0 then in_id s + 1 else in_id s)"
    using g c ok by (auto simp: input_get_def Let_def)
  show ?thesis
    using assms(2) g r ok(3) by (auto simp: input_chunk_def chunk_attributes_init_def split: if_split_asm)
qed


definition sample_chunkise :: "nat \<Rightarrow> gchunk \<Rightarrow> int \<times> gchunk \<times> nat" where
  "sample_chunkise n c = (if even n then (1, c\<lparr>gc_data := Some [1], gc_timestamp := of_nat n\<rparr>, n + 1) else (0, c\<lparr>gc_data := None\<rparr>, n + 1))"

definition sample_input :: "nat input_desc" where
  "sample_input = \<lparr>in_s = 0, in_id = INITIAL_ID, in_interframe = 40000, in_start_time = 5, in_first_ts = 0\<rparr>"

theorem input_delay_result_witness:
  "\<exists>c s'. input_chunk sample_chunkise (Timeval 0 10005) sample_input = Some (c, 30000, s')"
proof -
  let ?c1 = "\<lparr>ac_attributes_size = 0, ac_attributes = Attr_null, gc_id = 0, gc_timestamp = 0, gc_data = Some [1]\<rparr>"
  have c: "sample_chunkise (in_s sample_input) \<lparr>ac_attributes_size = 0, ac_attributes = Attr_null, gc_id = in_id sample_input, gc_timestamp = 0, gc_data = None\<rparr> = (1, ?c1, 1)"
    by (simp add: sample_chunkise_def sample_input_def INITIAL_ID_def)
  have d: "input_delay (Timeval 0 10005) sample_input (gc_timestamp ?c1) = 30000" by (simp add: input_delay_def sample_input_def tv_us_def)
  have i: "in_interframe sample_input \<noteq> 0" by (simp add: sample_input_def)
  show ?thesis
    using input_delay_result [where chunkise = sample_chunkise and s = sample_input and now = "Timeval 0 10005", OF c _ i] unfolding d by auto
qed


end
