(* ===== verification/Host_Address.thy ===== *)
theory Host_Address
  imports Net_Helper
begin

text \<open>
  \<open>Lib/net_helper/net_helpers.c\<close>: the address of this host, guessed from the routing table when the configuration names no
  interface, and the text of a node identifier.  \<open>iface_addr\<close> is in \<open>Net_Helper\<close>.

  The routing table is the list of the lines of \<open>/proc/net/route\<close>, each split at white space, or \<open>None\<close> when the file
  cannot be opened; \<open>if_addr\<close> is what \<open>getifaddrs\<close> returns.  \<open>hostname_ip_addr\<close> is what a system without that
  table uses instead.
\<close>

text \<open>\<open>IFNAMSIZ\<close>, the length of the interface buffer, and the length of \<open>dst\<close>.\<close>

definition IFNAMSIZ :: nat where
  "IFNAMSIZ = 16"

definition dst_len :: nat where
  "dst_len = 32"

text \<open>The loop.  \<open>sscanf\<close> stores the first field even when there is no second one.  The condition that should find the
  default route calls \<open>strcpy\<close>, which returns its first argument and never NULL: the loop is never left early.\<close>

fun route_loop :: "string list list \<Rightarrow> string \<Rightarrow> string c_result" where
  "route_loop [] iface = Inr iface"
| "route_loop ([] # lines) iface = route_loop lines iface"
| "route_loop ((i # rest) # lines) iface =
     (if length i < IFNAMSIZ \<and> (case rest of [] \<Rightarrow> True | d # _ \<Rightarrow> length d < dst_len)
      then route_loop lines i else Inl Out_Of_Bounds)"

definition autodetect_ip_address ::
  "string list list option \<Rightarrow> (string \<times> (family \<times> string) option) list option \<Rightarrow> l3protocol \<Rightarrow> string option c_result" where
  "autodetect_ip_address route if_addr l3 =
     (case route of
        None \<Rightarrow> Inr None
      | Some lines \<Rightarrow> c_bind (route_loop lines '''') (\<lambda>iface. iface_addr if_addr iface l3))"

definition default_ip_addr ::
  "string list list option \<Rightarrow> (string \<times> (family \<times> string) option) list option \<Rightarrow> l3protocol \<Rightarrow> string option c_result" where
  "default_ip_addr route if_addr l3 = autodetect_ip_address route if_addr l3"

text \<open>\<open>hostname_ip_addr\<close>, as it is compiled outside Windows: \<open>hostname\<close> is what \<open>gethostname\<close> returns, \<open>resolve\<close> what
  \<open>getaddrinfo\<close> finds for it.  Each result is the four bytes read as \<open>sin_addr\<close>, whatever the family of the address is.
  \<open>ip\<close> has no value before the first result.\<close>

definition inet_ntoa :: "u8 \<times> u8 \<times> u8 \<times> u8 \<Rightarrow> string" where
  "inet_ntoa addr =
     (case addr of (a, b, c, d) \<Rightarrow>
        nat_dec (unat a) @ ''.'' @ nat_dec (unat b) @ ''.'' @ nat_dec (unat c) @ ''.'' @ nat_dec (unat d))"

fun hostname_loop :: "(u8 \<times> u8 \<times> u8 \<times> u8) list \<Rightarrow> string option c_result \<Rightarrow> string option c_result" where
  "hostname_loop [] ip = ip"
| "hostname_loop (res # rest) _ =
     (let ip = inet_ntoa res
      in if take 4 ip = ''127.'' then hostname_loop rest (Inr None) else Inr (Some ip))"

definition hostname_ip_addr ::
  "string option \<Rightarrow> (string \<Rightarrow> (u8 \<times> u8 \<times> u8 \<times> u8) list option) \<Rightarrow> string option c_result" where
  "hostname_ip_addr hostname resolve =
     (case hostname of
        None \<Rightarrow> Inr None
      | Some name \<Rightarrow>
          (case resolve name of
             None \<Rightarrow> Inr None
           | Some result \<Rightarrow> hostname_loop result (Inl Uninit_Read)))"

text \<open>The static buffer has 80 bytes.\<close>

definition nodeid_static_str :: "nodeID option \<Rightarrow> string option" where
  "nodeid_static_str i = snd (node_addr i 80)"

section \<open>What is detected\<close>

definition route_line_ok :: "string list \<Rightarrow> bool" where
  "route_line_ok l \<longleftrightarrow> l \<noteq> [] \<and> length (hd l) < IFNAMSIZ \<and> (\<forall>f \<in> set (tl l). length f < dst_len)"

lemma route_loop_last:
  "\<forall>l \<in> set lines. route_line_ok l \<Longrightarrow> route_loop lines iface = Inr (if lines = [] then iface else hd (last lines))"
  by (induction lines iface rule: route_loop.induct) (auto simp: route_line_ok_def split: list.splits)

lemma iface_loop_result:
  "iface_loop l iface l3 =
     (case find (\<lambda>(name, a). name = iface \<and> map_option fst a = Some (if l3 = IP4 then Fam_inet else Fam_inet6)) l of
        Some (_, Some (_, ip)) \<Rightarrow> Inr (Some ip)
      | _ \<Rightarrow> Inl Uninit_Read)"
proof (induction l iface l3 rule: iface_loop.induct)
  case (3 name fam ip rest iface l3)
  then show ?case by (cases l3; cases fam) auto
qed simp_all

text \<open>The address of the host name is its first address outside 127.0.0.0/8: the test on the text is the test on the first byte.\<close>

lemma dotted_prefix:
  assumes "\<forall>c \<in> set xs. c \<noteq> CHR ''.''" and "\<forall>c \<in> set ys. c \<noteq> CHR ''.''"
  shows "take (length ys + 1) (xs @ CHR ''.'' # rest) = ys @ [CHR ''.''] \<longleftrightarrow> xs = ys"
  using assms
proof (induction xs arbitrary: ys)
  case Nil
  then show ?case by (cases ys) auto
next
  case (Cons x xs)
  then show ?case by (cases ys) auto
qed

lemma nat_dec_no_dot: "c \<in> set (nat_dec n) \<Longrightarrow> c \<noteq> CHR ''.''"
  using nat_dec_digits by (fastforce simp: is_digit_def)

lemma inet_ntoa_loopback: "take 4 (inet_ntoa (a, b, c, d)) = ''127.'' \<longleftrightarrow> a = 127"
proof -
  have n: "nat_dec 127 = ''127''" by (simp add: nat_dec.simps digit_char_def char_of_def bit_0)
  have "nat_dec (unat a) = nat_dec 127 \<longleftrightarrow> unat a = 127" using atoi_nat_dec by metis
  moreover have "unat a = 127 \<longleftrightarrow> a = 127" by (auto simp: word_unat_eq_iff)
  moreover have "take 4 (nat_dec (unat a) @ CHR ''.'' # rest) = ''127'' @ [CHR ''.''] \<longleftrightarrow> nat_dec (unat a) = ''127''" for rest
    using dotted_prefix [of "nat_dec (unat a)" "''127''" rest] nat_dec_no_dot by (simp add: eval_nat_numeral)
  ultimately show ?thesis by (simp add: inet_ntoa_def n del: take_append)
qed

lemma hostname_loop_result:
  "hostname_loop l ip =
     (case find (\<lambda>r. fst r \<noteq> 127) l of
        Some r \<Rightarrow> Inr (Some (inet_ntoa r))
      | None \<Rightarrow> if l = [] then ip else Inr None)"
  by (induction l ip rule: hostname_loop.induct) (auto simp: inet_ntoa_loopback Let_def split: option.split)

lemma hostname_ip_addr_result:
  "hostname_ip_addr (Some name) resolve =
     (case resolve name of
        None \<Rightarrow> Inr None
      | Some l \<Rightarrow>
          (case find (\<lambda>r. fst r \<noteq> 127) l of
             Some r \<Rightarrow> Inr (Some (inet_ntoa r))
           | None \<Rightarrow> if l = [] then Inl Uninit_Read else Inr None))"
  by (simp add: hostname_ip_addr_def hostname_loop_result split: option.split)

text \<open>C33: Without a configured interface the node takes its address from the interface on the last line of the routing
  table, whatever the destination on that line is: the test for the default route compares nothing.  When that
  interface has no address of the wanted family, an uninitialised pointer is returned as the address.\<close>

theorem default_address_is_last_route:
  assumes "lines \<noteq> []" and "\<forall>l \<in> set lines. route_line_ok l"
  shows "default_ip_addr (Some lines) (Some addrs) l3 =
    (case find (\<lambda>(name, a). name = hd (last lines) \<and> map_option fst a = Some (if l3 = IP4 then Fam_inet else Fam_inet6)) addrs of
       Some (_, Some (_, ip)) \<Rightarrow> Inr (Some ip)
     | _ \<Rightarrow> Inl Uninit_Read)"
  using assms by (simp add: default_ip_addr_def autodetect_ip_address_def route_loop_last iface_addr_def iface_loop_result)

theorem default_address_is_last_route_witness:
  "default_ip_addr (Some [[''Iface'', ''Destination''], [''eth0'', ''00000000''], [''docker0'', ''000011AC'']])
     (Some [(''lo'', Some (Fam_inet, ''127.0.0.1'')), (''eth0'', Some (Fam_inet, ''10.0.0.2'')), (''docker0'', Some (Fam_inet, ''172.17.0.1''))]) IP4 =
   Inr (Some ''172.17.0.1'')"
  using default_address_is_last_route [of "[[''Iface'', ''Destination''], [''eth0'', ''00000000''], [''docker0'', ''000011AC'']]"
      "[(''lo'', Some (Fam_inet, ''127.0.0.1'')), (''eth0'', Some (Fam_inet, ''10.0.0.2'')), (''docker0'', Some (Fam_inet, ''172.17.0.1''))]" IP4]
  by (simp add: route_line_ok_def IFNAMSIZ_def dst_len_def)

end
