(* ===== verification/Psinstance.thy ===== *)
theory Psinstance
  imports Host_Address Streaming_Timers Output_Buffer Chunk_Input
begin

text \<open>
  \<open>src/psinstance.c\<close>: the engine, which owns one instance of every component and runs them.

  \<open>struct psinstance\<close> is a record of pointers to the components: \<open>None\<close> is NULL, and following it is a NULL dereference.
  The GRAPES library is the parameter \<open>grapes\<close>, the record of what the components take from it; the operating system is in
  \<open>host\<close> (for creation) and \<open>poll_env\<close> (the clocks, \<open>select\<close>, \<open>recvfrom\<close> and the random numbers of one call).

  A call may also not come back: \<open>exit\<close> is \<open>Exited\<close>, and a loop whose observation ended first is \<open>Not_Returned\<close>.

  The components record what they send; \<open>ps_hand_over\<close> gives these messages to \<open>send_to_peer\<close>, in their order.  The calls the
  topology makes to the trader (\<open>Bmap_to\<close>) are made by \<open>send_bmaps\<close>.
\<close>

section \<open>Calls that may not return\<close>

datatype 'a outcome = Returned 'a | Exited | Not_Returned

type_synonym 'a ps_result = "'a outcome c_result"

definition ps_bind :: "'a ps_result \<Rightarrow> ('a \<Rightarrow> 'b ps_result) \<Rightarrow> 'b ps_result" where
  "ps_bind r f = c_bind r (\<lambda>oc. case oc of Returned x \<Rightarrow> f x | Exited \<Rightarrow> Inr Exited | Not_Returned \<Rightarrow> Inr Not_Returned)"

definition ps_ret :: "'a c_result \<Rightarrow> 'a ps_result" where
  "ps_ret r = c_bind r (\<lambda>x. Inr (Returned x))"

definition ps_loop :: "'a c_result option \<Rightarrow> 'a ps_result" where
  "ps_loop r = (case r of None \<Rightarrow> Inr Not_Returned | Some x \<Rightarrow> ps_ret x)"

definition deref :: "'a option \<Rightarrow> 'a c_result" where
  "deref p = (case p of Some x \<Rightarrow> Inr x | None \<Rightarrow> Inl Null_Deref)"

lemma ps_bind_simps [simp, fault_simps]:
  "ps_bind (Inl e) f = Inl e" "ps_bind (Inr (Returned x)) f = f x"
  "ps_bind (Inr Exited) f = Inr Exited" "ps_bind (Inr Not_Returned) f = Inr Not_Returned"
  "ps_ret (Inl e) = Inl e" "ps_ret (Inr x) = Inr (Returned x)"
  "ps_loop None = Inr Not_Returned" "ps_loop (Some r) = ps_ret r"
  "deref (Some x) = Inr x" "deref None = Inl Null_Deref"
  by (simp_all add: ps_bind_def ps_ret_def ps_loop_def deref_def)

section \<open>The state\<close>

record ('s, 'p, 'k, 'i, 'src) grapes =
  g_peersets :: "('s, nodeID, 'i) peerset_api"
  g_psample :: "('p, nodeID) psample_api"
  g_coding :: int_coding
  g_chunkbuf :: "'k chunkbuf_api"
  g_idset :: "'i idset_api"
  g_parse_chunk :: "bytes \<Rightarrow> (gchunk \<times> u16) option"
  g_parse_signaling :: "bytes \<Rightarrow> 'i signal option"
  g_chunkise :: "'src \<Rightarrow> gchunk \<Rightarrow> int \<times> gchunk \<times> 'src"
  g_peer_first :: "nat \<Rightarrow> sched"
  g_chunk_first :: sched
  g_encode :: "'i trade_send \<Rightarrow> bytes"
  g_qsort :: "(nat \<Rightarrow> nat \<Rightarrow> int) \<Rightarrow> nat list \<Rightarrow> nat list"
  MSG_TYPE_TMAN :: u8
  MSG_TYPE_CHUNK :: u8
  MSG_TYPE_SIGNALLING :: u8

record input_context =
  inc_filename :: string
  inc_fds :: "int list"
  inc_fds_size :: nat

record ('s, 'p, 'k, 'i, 'src) psinstance =
  my_sock :: "local_node option"
  chunk_out :: "chunk_output option"
  ps_measure :: "chunk_interval_estimate option"
  ps_topology :: "('s, 'p, 'i) peer_topology option"
  ps_trader :: "('k, 'i) chunk_trader option"
  ps_inc :: input_context
  ps_input :: "'src input_desc option"
  ps_timers :: streaming_timers
  ps_iface :: "string option"
  ps_port :: int
  chunk_time_interval :: int
  chunk_offer_interval :: int
  source_multiplicity :: int
  ps_l3 :: l3protocol

definition MSG_BUFFSIZE :: nat where
  "MSG_BUFFSIZE = 512 * 1024"

definition FDSSIZE :: nat where
  "FDSSIZE = 16"

definition psinstance_nodeid :: "('s, 'p, 'k, 'i, 'src) psinstance \<Rightarrow> nodeID option" where
  "psinstance_nodeid ps = map_option ln_id (my_sock ps)"

definition psinstance_is_source :: "('s, 'p, 'k, 'i, 'src) psinstance \<Rightarrow> bool" where
  "psinstance_is_source ps \<longleftrightarrow> chunk_out ps = None"

definition psinstance_topology :: "('s, 'p, 'k, 'i, 'src) psinstance \<Rightarrow> ('s, 'p, 'i) peer_topology option" where
  "psinstance_topology ps = ps_topology ps"

definition psinstance_measures :: "('s, 'p, 'k, 'i, 'src) psinstance \<Rightarrow> chunk_interval_estimate option" where
  "psinstance_measures ps = ps_measure ps"

definition psinstance_output :: "('s, 'p, 'k, 'i, 'src) psinstance \<Rightarrow> chunk_output option" where
  "psinstance_output ps = chunk_out ps"

definition psinstance_trader :: "('s, 'p, 'k, 'i, 'src) psinstance \<Rightarrow> ('k, 'i) chunk_trader option" where
  "psinstance_trader ps = ps_trader ps"

definition psinstance_offer_interval :: "('s, 'p, 'k, 'i, 'src) psinstance \<Rightarrow> int" where
  "psinstance_offer_interval ps = chunk_offer_interval ps"

section \<open>What the components ask of each other\<close>

text \<open>The buffer maps the topology has the trader send to new neighbours.\<close>

fun send_bmaps ::
  "('s, 'p, 'k, 'i, 'src) grapes \<Rightarrow> bool \<Rightarrow> nodeID topo_send list \<Rightarrow> ('k, 'i) chunk_trader option \<Rightarrow> ('k, 'i) chunk_trader option c_result" where
  "send_bmaps G src [] ct = Inr ct"
| "send_bmaps G src (Neigh_msg i b # ms) ct = send_bmaps G src ms ct"
| "send_bmaps G src (Bmap_to i # ms) ct =
     c_bind (deref ct) (\<lambda>x. send_bmaps G src ms (Some (chunk_trader_send_bmap (g_chunkbuf G) (g_idset G) src i x)))"

text \<open>A chunk of GRAPES as the output writes it: the hop count is stored as the machine stores it, low byte first.\<close>

definition attr_bytes :: "attr_ptr \<Rightarrow> bytes" where
  "attr_bytes a = (case a of Attr h \<Rightarrow> [ucast h, ucast (drop_bit 8 h)] | _ \<Rightarrow> [])"

definition output_chunk :: "gchunk \<Rightarrow> chunk" where
  "output_chunk c =
     \<lparr>ch_id = gc_id c, ch_data = (case gc_data c of Some d \<Rightarrow> d | None \<Rightarrow> []), ch_timestamp = unat (gc_timestamp c),
      ch_attributes = attr_bytes (ac_attributes c)\<rparr>"

fun topo_outgoing :: "nodeID topo_send list \<Rightarrow> (nodeID \<times> bytes) list" where
  "topo_outgoing [] = []"
| "topo_outgoing (Neigh_msg i b # ms) = (i, b) # topo_outgoing ms"
| "topo_outgoing (Bmap_to i # ms) = topo_outgoing ms"

fun trade_to :: "'i trade_send \<Rightarrow> nodeID" where
  "trade_to (Send_chunk i c t) = i"
| "trade_to (Send_offer i s n t) = i"
| "trade_to (Send_accept i s t) = i"
| "trade_to (Send_ack i s t) = i"
| "trade_to (Send_bmap i s n t) = i"

text \<open>The \<open>j\<close>-th message is sent at the clock readings \<open>clk j\<close>.\<close>

fun send_all_to_peers :: "(nat \<Rightarrow> int \<times> timeval) \<Rightarrow> nat \<Rightarrow> (nodeID \<times> bytes) list \<Rightarrow> local_node \<Rightarrow> local_node c_result" where
  "send_all_to_peers clk j [] s = Inr s"
| "send_all_to_peers clk j ((to, msg) # ms) s =
     c_bind (send_to_peer (fst (clk j)) (snd (clk j)) (Some s) (Some to) (Some msg)) (\<lambda>(_, s').
       c_bind (deref s') (send_all_to_peers clk (Suc j) ms))"

text \<open>The messages of one call of \<open>psinstance_poll\<close> in the order they are sent: the action is performed before the topology is
  updated, so those of the trader come first (the topology itself sends none while it handles a message).  All are sent
  after the datagram of the call was received.\<close>

definition ps_pending :: "('s, 'p, 'k, 'i, 'src) grapes \<Rightarrow> ('s, 'p, 'k, 'i, 'src) psinstance \<Rightarrow> (nodeID \<times> bytes) list" where
  "ps_pending G ps =
     (case ps_trader ps of Some ct \<Rightarrow> map (\<lambda>m. (trade_to m, g_encode G m)) (ct_sent ct) | None \<Rightarrow> []) @
     (case ps_topology ps of Some t \<Rightarrow> topo_outgoing (tp_sent t) | None \<Rightarrow> [])"

definition ps_hand_over ::
  "('s, 'p, 'k, 'i, 'src) grapes \<Rightarrow> (nat \<Rightarrow> int \<times> timeval) \<Rightarrow> ('s, 'p, 'k, 'i, 'src) psinstance \<Rightarrow>
   ('s, 'p, 'k, 'i, 'src) psinstance c_result" where
  "ps_hand_over G clk ps =
     c_bind (deref (my_sock ps)) (\<lambda>s.
       c_bind (send_all_to_peers clk 0 (ps_pending G ps) s) (\<lambda>s'.
         Inr (ps\<lparr>my_sock := Some s', ps_trader := map_option (\<lambda>ct. ct\<lparr>ct_sent := []\<rparr>) (ps_trader ps),
                 ps_topology := map_option (\<lambda>t. t\<lparr>tp_sent := []\<rparr>) (ps_topology ps)\<rparr>)))"

section \<open>Offering and seeding\<close>

definition psinstance_send_offer ::
  "('s, 'p, 'k, 'i, 'src) grapes \<Rightarrow> (nat \<Rightarrow> timeval \<times> timeval) \<Rightarrow> ('s, 'p, 'k, 'i, 'src) psinstance \<Rightarrow>
   (int \<times> ('s, 'p, 'k, 'i, 'src) psinstance) c_result" where
  "psinstance_send_offer G clk ps =
     c_bind (deref (ps_trader ps)) (\<lambda>ct.
     c_bind (deref (ps_topology ps)) (\<lambda>t.
     c_bind (chunk_trader_send_offer (g_peersets G) (g_chunkbuf G) (g_idset G) (g_peer_first G) clk t ct) (\<lambda>(_, ct').
       Inr (0, ps\<lparr>ps_trader := Some ct'\<rparr>))))"

text \<open>\<open>now\<close> is the clock of \<open>input_get\<close>, \<open>sres\<close> the results of \<open>sendChunk\<close>.  The result of the push is not used.\<close>

definition psinstance_inject_chunk ::
  "('s, 'p, 'k, 'i, 'src) grapes \<Rightarrow> timeval \<Rightarrow> (nat \<Rightarrow> int) \<Rightarrow> ('s, 'p, 'k, 'i, 'src) psinstance option \<Rightarrow>
   (int \<times> ('s, 'p, 'k, 'i, 'src) psinstance option) ps_result" where
  "psinstance_inject_chunk G now sres pso =
     (case pso of
        None \<Rightarrow> Inr (Returned (1, None))
      | Some ps \<Rightarrow>
          if psinstance_is_source ps then
            ps_bind (ps_ret (deref (ps_input ps))) (\<lambda>inp.
              case input_chunk (g_chunkise G) now inp of
                None \<Rightarrow> Inr Exited
              | Some (c, delta, inp') \<Rightarrow>
                  (let ps1 = ps\<lparr>ps_input := Some inp', chunk_time_interval := delta\<rparr> in
                   case c of
                     None \<Rightarrow> Inr (Returned (-1, Some ps1))
                   | Some k \<Rightarrow>
                       (case chunk_trader_add_chunk (g_chunkbuf G) (ps_trader ps1) c of
                          (r, tr) \<Rightarrow>
                            if r = 0 then
                              ps_bind (ps_ret (deref tr)) (\<lambda>ct.
                              ps_bind (ps_ret (deref (ps_topology ps1))) (\<lambda>t.
                              ps_bind (ps_ret (chunk_trader_push_chunk (g_peersets G) (g_chunkbuf G) (g_idset G) (g_chunk_first G) sres
                                                 ct c (source_multiplicity ps1) t)) (\<lambda>(_, ct', t').
                                Inr (Returned (0, Some (ps1\<lparr>ps_trader := Some ct', ps_topology := Some t'\<rparr>))))))
                            else ps_bind (ps_ret (chunk_destroy c)) (\<lambda>_.
                              Inr (Returned (0, Some (ps1\<lparr>ps_trader := tr\<rparr>)))))))
          else Inr (Returned (1, Some ps)))"

section \<open>Receiving\<close>

text \<open>The three kinds of messages.\<close>

definition handle_topology_msg ::
  "('s, 'p, 'k, 'i, 'src) grapes \<Rightarrow> nodeID option \<Rightarrow> bytes \<Rightarrow> ('s, 'p, 'k, 'i, 'src) psinstance \<Rightarrow>
   ('s, 'p, 'k, 'i, 'src) psinstance c_result" where
  "handle_topology_msg G remote buff ps =
     c_bind (deref (ps_topology ps)) (\<lambda>t.
     c_bind (topology_message_parse (g_peersets G) (g_psample G) (g_coding G) remote buff t) (\<lambda>t'.
     c_bind (send_bmaps G (psinstance_is_source ps) (drop (length (tp_sent t)) (tp_sent t')) (ps_trader ps)) (\<lambda>tr.
       Inr (ps\<lparr>ps_topology := Some t', ps_trader := tr\<rparr>))))"

definition handle_chunk_msg ::
  "('s, 'p, 'k, 'i, 'src) grapes \<Rightarrow> nodeID option \<Rightarrow> bytes \<Rightarrow> ('s, 'p, 'k, 'i, 'src) psinstance \<Rightarrow>
   ('s, 'p, 'k, 'i, 'src) psinstance ps_result" where
  "handle_chunk_msg G remote buff ps =
     (if psinstance_is_source ps then Inr (Returned ps)
      else
        ps_bind (ps_ret (deref (ps_trader ps))) (\<lambda>ct.
        ps_bind (ps_ret (deref (ps_topology ps))) (\<lambda>t.
        ps_bind (ps_ret (chunk_trader_parse_chunk (g_peersets G) (g_psample G) (g_coding G) (g_chunkbuf G) (g_idset G) (g_parse_chunk G)
                           remote buff ct t)) (\<lambda>(c, ct', t').
          let ps1 = ps\<lparr>ps_trader := Some ct', ps_topology := Some t'\<rparr> in
          case c of
            None \<Rightarrow> Inr (Returned ps1)
          | Some k \<Rightarrow>
              (case chunk_trader_add_chunk (g_chunkbuf G) (ps_trader ps1) c of
                 (r, tr) \<Rightarrow>
                   (let ps2 = ps1\<lparr>ps_trader := tr\<rparr> in
                    if r = 0 then
                      ps_bind (ps_ret (reg_chunk_receive (ps_measure ps2) (Some (gc_id k, gc_timestamp k)))) (\<lambda>(_, m).
                      ps_bind (ps_loop (output_deliver (chunk_out ps2) (Some (output_chunk k)))) (\<lambda>(_, out).
                        Inr (Returned (ps2\<lparr>ps_measure := m, chunk_out := out\<rparr>))))
                    else ps_bind (ps_ret (chunk_destroy c)) (\<lambda>_. Inr (Returned ps2))))))))"

definition handle_signalling_msg ::
  "('s, 'p, 'k, 'i, 'src) grapes \<Rightarrow> trade_env \<Rightarrow> nodeID option \<Rightarrow> bytes \<Rightarrow> ('s, 'p, 'k, 'i, 'src) psinstance \<Rightarrow>
   ('s, 'p, 'k, 'i, 'src) psinstance c_result" where
  "handle_signalling_msg G E remote buff ps =
     c_bind (deref (ps_trader ps)) (\<lambda>ct.
     c_bind (deref (ps_topology ps)) (\<lambda>t.
     c_bind (deref remote) (\<lambda>from.
     c_bind (chunk_trader_msg_parse (g_peersets G) (g_psample G) (g_coding G) (g_chunkbuf G) (g_idset G) (g_parse_signaling G) E
               from buff ct t) (\<lambda>(_, ct', t').
       Inr (ps\<lparr>ps_trader := Some ct', ps_topology := Some t'\<rparr>)))))"

text \<open>\<open>incoming\<close> is what \<open>recvfrom\<close> delivers, at the clock readings \<open>now\<close> and \<open>now'\<close>.  The buffer is not initialised, so
  when nothing was put into it the type of the message is read from uninitialised memory.\<close>

definition psinstance_handle_msg ::
  "('s, 'p, 'k, 'i, 'src) grapes \<Rightarrow> int \<Rightarrow> int \<Rightarrow> (sock_addr \<times> bytes) option \<Rightarrow> trade_env \<Rightarrow>
   ('s, 'p, 'k, 'i, 'src) psinstance \<Rightarrow> (int \<times> ('s, 'p, 'k, 'i, 'src) psinstance) ps_result" where
  "psinstance_handle_msg G now now' incoming E ps =
     ps_bind (ps_ret (deref (my_sock ps))) (\<lambda>s.
     ps_bind (ps_ret (recv_from_peer (g_coding G) now now' s incoming MSG_BUFFSIZE)) (\<lambda>(len, remote, buff, s').
       let ps1 = ps\<lparr>my_sock := Some s'\<rparr> in
       if len < 0 then Inr (Returned (-1, ps1))
       else if len = 0 then Inr (Returned (0, ps1))
       else if buff = [] then Inl Uninit_Read
       else if buff ! 0 = MSG_TYPE_TMAN G \<or> buff ! 0 = MSG_TYPE_NEIGHBOURHOOD \<or> buff ! 0 = MSG_TYPE_TOPOLOGY (g_psample G) then
         ps_bind (ps_ret (handle_topology_msg G remote buff ps1)) (\<lambda>ps2. Inr (Returned (1, ps2)))
       else if buff ! 0 = MSG_TYPE_CHUNK G then
         ps_bind (handle_chunk_msg G remote buff ps1) (\<lambda>ps2. Inr (Returned (2, ps2)))
       else if buff ! 0 = MSG_TYPE_SIGNALLING G then
         ps_bind (ps_ret (handle_signalling_msg G E remote buff ps1)) (\<lambda>ps2. Inr (Returned (3, ps2)))
       else Inr (Returned (-2, ps1))))"

section \<open>The polling loop\<close>

text \<open>What the operating system delivers during one call: the clock of \<open>streaming_timers_set_timeout\<close>, the rounds of
  \<open>wait4data\<close> with the descriptors \<open>select\<close> marks, the clock of \<open>streaming_timers_state_handler\<close>; then what the action and
  the update of the topology may need.\<close>

record poll_env =
  pe_now :: timeval
  pe_rounds :: "(timeval \<times> timeval \<times> int) list"
  pe_isset :: "int \<Rightarrow> bool"
  pe_epoch :: timeval
  pe_incoming :: "(sock_addr \<times> bytes) option"
  pe_recv_now :: int
  pe_pop_now :: int
  pe_trade :: trade_env
  pe_offer_clk :: "nat \<Rightarrow> timeval \<times> timeval"
  pe_input_now :: timeval
  pe_push_res :: "nat \<Rightarrow> int"
  pe_topo_now :: timeval
  pe_rand1 :: "nat \<Rightarrow> nat"
  pe_rand2 :: "nat \<Rightarrow> nat"

definition run_topology_update ::
  "('s, 'p, 'k, 'i, 'src) grapes \<Rightarrow> poll_env \<Rightarrow> ('s, 'p, 'k, 'i, 'src) psinstance \<Rightarrow> ('s, 'p, 'k, 'i, 'src) psinstance ps_result" where
  "run_topology_update G E ps =
     ps_bind (ps_ret (deref (ps_topology ps))) (\<lambda>t.
     ps_bind (ps_ret (if psinstance_is_source ps then Inr 0
                      else c_bind (deref (psinstance_trader ps)) (\<lambda>ct. Inr (chunk_trader_buffer_size ct)))) (\<lambda>size.
     ps_bind (ps_loop (topology_update (g_peersets G) (g_psample G) (g_coding G) (g_qsort G) (pe_topo_now E) (pe_rand1 E) (pe_rand2 E)
                         (psinstance_is_source ps) size t)) (\<lambda>t'.
       Inr (Returned (ps\<lparr>ps_topology := Some t'\<rparr>)))))"

definition poll_offer ::
  "('s, 'p, 'k, 'i, 'src) grapes \<Rightarrow> poll_env \<Rightarrow> ('s, 'p, 'k, 'i, 'src) psinstance \<Rightarrow> ('s, 'p, 'k, 'i, 'src) psinstance c_result" where
  "poll_offer G E ps =
     c_bind (psinstance_send_offer G (pe_offer_clk E) ps) (\<lambda>(_, ps1).
     c_bind (deref (psinstance_trader ps1)) (\<lambda>ct.
     c_bind (deref (psinstance_topology ps1)) (\<lambda>t.
     c_bind (deref (psinstance_measures ps1)) (\<lambda>m.
     c_bind (chunk_trader_offer_interval (g_peersets G) (chunk_interval_measure m) t ct) (\<lambda>interval.
       Inr (ps1\<lparr>chunk_offer_interval := interval,
                ps_timers := streaming_timers_update_offer_time (ps_timers ps1) interval\<rparr>))))))"

definition poll_inject ::
  "('s, 'p, 'k, 'i, 'src) grapes \<Rightarrow> poll_env \<Rightarrow> ('s, 'p, 'k, 'i, 'src) psinstance \<Rightarrow> ('s, 'p, 'k, 'i, 'src) psinstance ps_result" where
  "poll_inject G E ps =
     ps_bind (psinstance_inject_chunk G (pe_input_now E) (pe_push_res E) (Some ps)) (\<lambda>(_, pso).
     ps_bind (ps_ret (deref pso)) (\<lambda>ps1.
       Inr (Returned (ps1\<lparr>ps_timers := streaming_timers_update_chunk_time (ps_timers ps1) (chunk_time_interval ps1)\<rparr>))))"

definition poll_action ::
  "('s, 'p, 'k, 'i, 'src) grapes \<Rightarrow> poll_env \<Rightarrow> streaming_action \<Rightarrow> ('s, 'p, 'k, 'i, 'src) psinstance \<Rightarrow>
   ('s, 'p, 'k, 'i, 'src) psinstance ps_result" where
  "poll_action G E action ps =
     (case action of
        OFFER_ACTION \<Rightarrow> ps_ret (poll_offer G E ps)
      | INJECT_ACTION \<Rightarrow> poll_inject G E ps
      | PARSE_MSG_ACTION \<Rightarrow>
          ps_bind (psinstance_handle_msg G (pe_recv_now E) (pe_pop_now E) (pe_incoming E) (pe_trade E) ps) (\<lambda>(_, ps1). Inr (Returned ps1))
      | NO_ACTION \<Rightarrow> Inr (Returned ps))"

text \<open>The result, the state and the datagrams \<open>wait4data\<close> sent.  Without an instance the result is never set.\<close>

definition psinstance_poll ::
  "('s, 'p, 'k, 'i, 'src) grapes \<Rightarrow> poll_env \<Rightarrow> ('s, 'p, 'k, 'i, 'src) psinstance option \<Rightarrow> int \<Rightarrow>
   (int \<times> ('s, 'p, 'k, 'i, 'src) psinstance \<times> datagram list) ps_result" where
  "psinstance_poll G E pso delta =
     (case pso of
        None \<Rightarrow> Inl Uninit_Read
      | Some ps \<Rightarrow>
          (let timers = streaming_timers_set_timeout (pe_now E) (ps_timers ps) delta
                          (psinstance_is_source ps \<and> inc_fds (ps_inc ps) ! 0 = -1) in
           ps_bind (ps_ret (deref (my_sock ps))) (\<lambda>s.
           ps_bind (ps_ret (wait4data (g_coding G) (pe_rounds E) (pe_isset E) s (sleep_timer timers) (Some (inc_fds (ps_inc ps))))) (\<lambda>w.
             case w of
               None \<Rightarrow> Inr Not_Returned
             | Some (data_state, s', tout, fds, out) \<Rightarrow>
                 (case streaming_timers_state_handler (pe_epoch E) (timers\<lparr>sleep_timer := tout\<rparr>) data_state (psinstance_is_source ps) of
                    (action, timers') \<Rightarrow>
                      ps_bind (poll_action G E action
                        (ps\<lparr>my_sock := Some s', ps_inc := (ps_inc ps)\<lparr>inc_fds := the fds\<rparr>, ps_timers := timers'\<rparr>)) (\<lambda>ps2.
                        (case streaming_timers_update_flag (ps_timers ps2) of
                           (flag, timers2) \<Rightarrow>
                             ps_bind (if flag \<noteq> 0 then run_topology_update G E (ps2\<lparr>ps_timers := timers2\<rparr>)
                                      else Inr (Returned (ps2\<lparr>ps_timers := timers2\<rparr>))) (\<lambda>ps3.
                               Inr (Returned (data_state, ps3, out))))))))))"

text \<open>A turn of the program: a call of \<open>psinstance_poll\<close>, whose messages are handed to the socket layer.\<close>

definition psinstance_turn ::
  "('s, 'p, 'k, 'i, 'src) grapes \<Rightarrow> poll_env \<Rightarrow> (nat \<Rightarrow> int \<times> timeval) \<Rightarrow> ('s, 'p, 'k, 'i, 'src) psinstance \<Rightarrow> int \<Rightarrow>
   (('s, 'p, 'k, 'i, 'src) psinstance \<times> datagram list) ps_result" where
  "psinstance_turn G E clk ps delta =
     ps_bind (psinstance_poll G E (Some ps) delta) (\<lambda>(_, ps1, out).
     ps_bind (ps_ret (ps_hand_over G clk ps1)) (\<lambda>ps2. Inr (Returned (ps2, out))))"

definition psinstance_topology_update ::
  "('s, 'p, 'k, 'i, 'src) grapes \<Rightarrow> poll_env \<Rightarrow> ('s, 'p, 'k, 'i, 'src) psinstance option \<Rightarrow>
   (int \<times> ('s, 'p, 'k, 'i, 'src) psinstance option) ps_result" where
  "psinstance_topology_update G E pso =
     (case pso of
        Some ps \<Rightarrow>
          if ps_topology ps \<noteq> None
          then ps_bind (run_topology_update G E ps) (\<lambda>ps'. Inr (Returned (0, Some ps')))
          else Inr (Returned (0, pso))
      | None \<Rightarrow> Inr (Returned (0, None)))"

text \<open>The delay in milliseconds.  The interval is set by \<open>net_helper_periodic\<close>.\<close>

definition psinstance_network_periodic ::
  "('s, 'p, 'k, 'i, 'src) grapes \<Rightarrow> timeval \<Rightarrow> timeval \<Rightarrow> ('s, 'p, 'k, 'i, 'src) psinstance option \<Rightarrow>
   (int \<times> ('s, 'p, 'k, 'i, 'src) psinstance option \<times> datagram list) c_result" where
  "psinstance_network_periodic G tv tv' pso =
     (case pso of
        Some ps \<Rightarrow>
          if my_sock ps \<noteq> None then
            c_bind (net_helper_periodic (g_coding G) tv tv' (my_sock ps) (Some (Timeval 0 0))) (\<lambda>(s', interval, out).
            c_bind (deref interval) (\<lambda>i.
              Inr (tv_sec i * 1000 + tv_usec i sdiv 1000, Some (ps\<lparr>my_sock := s'\<rparr>), out)))
          else Inr (500, pso, [])
      | None \<Rightarrow> Inr (500, None, []))"

definition pstreamer_register_fds :: "('s, 'p, 'k, 'i, 'src) psinstance \<Rightarrow> int \<times> (int \<times> char) list" where
  "pstreamer_register_fds ps = (0, snd (register_network_fds (psinstance_nodeid ps)))"

definition psinstance_ip_address :: "('s, 'p, 'k, 'i, 'src) psinstance option \<Rightarrow> int \<times> string option" where
  "psinstance_ip_address pso =
     (case pso of
        Some ps \<Rightarrow> (case my_sock ps of Some s \<Rightarrow> (case node_ip (Some (ln_id s)) of (ip, r) \<Rightarrow> (r, Some ip)) | None \<Rightarrow> (-1, None))
      | None \<Rightarrow> (-1, None))"

definition psinstance_port :: "('s, 'p, 'k, 'i, 'src) psinstance option \<Rightarrow> int" where
  "psinstance_port pso =
     (case pso of
        Some ps \<Rightarrow> (case my_sock ps of Some s \<Rightarrow> node_port (Some (ln_id s)) | None \<Rightarrow> -1)
      | None \<Rightarrow> -1)"

section \<open>Creating and destroying\<close>

text \<open>What the configuration sets, and what the operating system and GRAPES deliver during creation.\<close>

record config =
  cfg_str :: "string \<Rightarrow> string option"
  cfg_int :: "string \<Rightarrow> int option"
  cfg_double :: "string \<Rightarrow> rat option"

record ('s, 'p, 'k, 'i, 'src) host =
  h_route :: "string list list option"
  h_if_addr :: "(string \<times> (family \<times> string) option) list option"
  h_numeric_host :: "string \<Rightarrow> (family \<times> string) option"
  h_socket :: int
  h_bind :: int
  h_bound_port :: u16
  h_shaper_now :: timeval
  h_raw_measures :: chunk_interval_estimate
  h_raw_topology :: "('s, 'p, 'i) peer_topology"
  h_psample :: 'p
  h_cb_init :: "int \<Rightarrow> 'k"
  h_timers_now :: timeval
  h_stream_ok :: bool
  h_raw_chunk :: chunk
  h_input_open :: "string \<Rightarrow> ('src \<times> int) option"
  h_input_fds :: "'src \<Rightarrow> int list"
  h_input_now :: timeval

definition zero_psinstance :: "('s, 'p, 'k, 'i, 'src) psinstance" where
  "zero_psinstance =
     \<lparr>my_sock = None, chunk_out = None, ps_measure = None, ps_topology = None, ps_trader = None,
      ps_inc = \<lparr>inc_filename = '''', inc_fds = replicate FDSSIZE 0, inc_fds_size = 0\<rparr>, ps_input = None,
      ps_timers = \<lparr>sleep_timer = Timeval 0 0, awake_epoch = Timeval 0 0, offer_epoch = Timeval 0 0, chunk_epoch = Timeval 0 0, loop_counter = 0\<rparr>,
      ps_iface = None, ps_port = 0, chunk_time_interval = 0, chunk_offer_interval = 0, source_multiplicity = 0, ps_l3 = IP4\<rparr>"

text \<open>The file name goes into an array of 80 characters.\<close>

definition FILENAME_LEN :: nat where
  "FILENAME_LEN = 80"

definition config_parse ::
  "config \<Rightarrow> ('s, 'p, 'k, 'i, 'src) psinstance \<Rightarrow> (int \<times> ('s, 'p, 'k, 'i, 'src) psinstance) c_result" where
  "config_parse cfg ps =
     (let ps1 = ps\<lparr>ps_iface := cfg_str cfg ''iface'', ps_port := config_default (cfg_int cfg ''port'') 0,
                   source_multiplicity := config_default (cfg_int cfg ''source_multiplicity'') 3\<rparr>;
          filename = (case cfg_str cfg ''filename'' of Some f \<Rightarrow> f | None \<Rightarrow> '''')
      in if length filename < FILENAME_LEN then
           Inr (0, ps1\<lparr>ps_inc := (ps_inc ps1)\<lparr>inc_filename := filename\<rparr>,
                       ps_l3 := (if cfg_str cfg ''AF'' = Some ''INET6'' then IP6 else IP4)\<rparr>)
         else Inl Out_Of_Bounds)"

definition node_init ::
  "('s, 'p, 'k, 'i, 'src) host \<Rightarrow> config \<Rightarrow> ('s, 'p, 'k, 'i, 'src) psinstance \<Rightarrow>
   (int \<times> ('s, 'p, 'k, 'i, 'src) psinstance) c_result" where
  "node_init H cfg ps =
     c_bind (case ps_iface ps of
               Some iface \<Rightarrow> iface_addr (h_if_addr H) iface (ps_l3 ps)
             | None \<Rightarrow> default_ip_addr (h_route H) (h_if_addr H) (ps_l3 ps)) (\<lambda>my_addr.
       if my_addr = None then Inr (-1, ps)
       else c_bind (net_helper_init (h_numeric_host H) (h_socket H) (h_bind H) (h_bound_port H) (h_shaper_now H) my_addr (ps_port ps)
                      (Some (cfg_int cfg)) (Some (cfg_double cfg))) (\<lambda>s.
              Inr (if s \<noteq> None then 0 else -2, ps\<lparr>my_sock := s\<rparr>)))"

text \<open>The messages of the topology leave through the socket before it is closed.  The datagrams are the result.\<close>

definition psinstance_destroy ::
  "('s, 'p, 'k, 'i, 'src) grapes \<Rightarrow> (nat \<Rightarrow> int \<times> timeval) \<Rightarrow> ('s, 'p, 'k, 'i, 'src) psinstance option \<Rightarrow> datagram list ps_result" where
  "psinstance_destroy G clk pso =
     (case pso of
        None \<Rightarrow> Inr (Returned [])
      | Some ps \<Rightarrow>
          ps_bind (case ps_topology ps of
                     None \<Rightarrow> Inr (Returned [])
                   | Some t \<Rightarrow>
                       ps_bind (ps_loop (topology_destroy (g_peersets G) (g_coding G) (Some t))) (\<lambda>(_, sent).
                         Inr (Returned (topo_outgoing (drop (length (tp_sent t)) sent))))) (\<lambda>msgs.
            case my_sock ps of
              None \<Rightarrow> Inr (Returned [])
            | Some s \<Rightarrow>
                ps_bind (ps_ret (send_all_to_peers clk 0 msgs s)) (\<lambda>s'.
                  ps_loop (net_helper_deinit (g_coding G) s'))))"

text \<open>The parts common to both roles: no chunk output is set yet, so the topology takes the new instance for a source.\<close>

definition create_components ::
  "('s, 'p, 'k, 'i, 'src) grapes \<Rightarrow> ('s, 'p, 'k, 'i, 'src) host \<Rightarrow> config \<Rightarrow> ('s, 'p, 'k, 'i, 'src) psinstance \<Rightarrow>
   ('s, 'p, 'k, 'i, 'src) psinstance" where
  "create_components G H cfg ps =
     ps\<lparr>ps_measure := Some (measures_create (h_raw_measures H)),
        ps_topology := Some (topology_create (g_peersets G) (g_psample G) (h_psample H) (psinstance_is_source ps) 0
                               (cfg_int cfg ''neighbourhood_size'') (cfg_int cfg ''peer_timeout'') (h_raw_topology H)),
        ps_trader := Some (chunk_trader_create (h_cb_init H) (cfg_str cfg ''dist_type'' = Some ''turbo'')
                             (cfg_int cfg ''offer_per_period'') (cfg_int cfg ''peers_per_offer'') (cfg_int cfg ''chunks_per_peer_offer'')
                             (cfg_int cfg ''chunkbuffer_size'')),
        ps_timers := snd (streaming_timers_init (h_timers_now H) (ps_timers ps) (chunk_offer_interval ps)),
        chunk_out := None\<rparr>"

definition create_peer ::
  "('s, 'p, 'k, 'i, 'src) grapes \<Rightarrow> ('s, 'p, 'k, 'i, 'src) host \<Rightarrow> config \<Rightarrow> nodeID \<Rightarrow> ('s, 'p, 'k, 'i, 'src) psinstance \<Rightarrow>
   ('s, 'p, 'k, 'i, 'src) psinstance c_result" where
  "create_peer G H cfg srv ps =
     c_bind (deref (ps_topology ps)) (\<lambda>t.
       Inr (ps\<lparr>ps_inc := (ps_inc ps)\<lparr>inc_fds := (inc_fds (ps_inc ps))[0 := -1]\<rparr>, ps_input := None,
               ps_topology := Some (snd (topology_node_insert (g_peersets G) (g_psample G) srv t)),
               chunk_out := output_create (cfg_int cfg ''outbuff_size'') (cfg_int cfg ''outbuff_reorder'') (h_stream_ok H) (h_raw_chunk H)\<rparr>))"

text \<open>\<open>fds_size\<close> is never set: it is 0, and the terminator goes to the first place, over what \<open>input_open\<close> stored.\<close>

definition create_source ::
  "('s, 'p, 'k, 'i, 'src) host \<Rightarrow> ('s, 'p, 'k, 'i, 'src) psinstance \<Rightarrow> ('s, 'p, 'k, 'i, 'src) psinstance c_result" where
  "create_source H ps =
     c_bind (input_open (h_input_open H) (h_input_fds H) (h_input_now H) (inc_filename (ps_inc ps)) (inc_fds (ps_inc ps))
               (int (inc_fds_size (ps_inc ps)))) (\<lambda>(inp, fds).
       Inr (ps\<lparr>ps_input := inp,
               ps_inc := (ps_inc ps)\<lparr>inc_filename := takeWhile (\<lambda>c. c \<noteq> CHR '','') (inc_filename (ps_inc ps)),
                                     inc_fds := fds[inc_fds_size (ps_inc ps) := -1]\<rparr>\<rparr>))"

definition psinstance_create ::
  "('s, 'p, 'k, 'i, 'src) grapes \<Rightarrow> ('s, 'p, 'k, 'i, 'src) host \<Rightarrow> config \<Rightarrow> (nat \<Rightarrow> int \<times> timeval) \<Rightarrow> string option \<Rightarrow> int \<Rightarrow>
   ('s, 'p, 'k, 'i, 'src) psinstance option ps_result" where
  "psinstance_create G H cfg clk srv_ip srv_port =
     (if srv_ip \<noteq> None \<and> 0 \<le> srv_port \<and> srv_port < 65536 then
        ps_bind (ps_ret (config_parse cfg (zero_psinstance\<lparr>chunk_time_interval := 0, chunk_offer_interval := 1000000 div 25\<rparr>))) (\<lambda>(_, ps0).
        ps_bind (ps_ret (node_init H cfg ps0)) (\<lambda>(res, ps1).
          if res = 0 then
            (let ps2 = create_components G H cfg ps1 in
             if srv_port \<noteq> 0 then
               (case create_node (h_numeric_host H) srv_ip srv_port of
                  Some srv \<Rightarrow> ps_bind (ps_ret (create_peer G H cfg srv ps2)) (\<lambda>ps3. Inr (Returned (Some ps3)))
                | None \<Rightarrow> ps_bind (psinstance_destroy G clk (Some ps2)) (\<lambda>_. Inr (Returned None)))
             else ps_bind (ps_ret (create_source H ps2)) (\<lambda>ps3. Inr (Returned (Some ps3))))
          else ps_bind (psinstance_destroy G clk (Some ps1)) (\<lambda>_. Inr (Returned None))))
      else Inr (Returned None))"

end
