(* ===== verification/Engine_Safety.thy ===== *)
theory Engine_Safety
  imports Psinstance
begin

text \<open>
  What holds of the engine of \<open>src/psinstance.c\<close> as a whole: the invariants of the components, put together in \<open>ps_inv\<close>, are
  established by \<open>psinstance_create\<close> and kept by every turn of \<open>psinstance_poll\<close>, whatever the clocks, the network, the input
  and the random numbers deliver.  The faults that remain possible are the constructors of \<open>poll_hazard\<close>.

  The proof goes from the components (what each call of the trader and the output keeps of the topology and of its own state) to
  the handlers of the three kinds of messages, the offers and the input, and then to the call of \<open>psinstance_poll\<close>, with the
  rules of \<open>ps_post\<close>: a computation faults only as allowed, and its result satisfies a condition.
\<close>

section \<open>Changing what is kept for a peer\<close>

text \<open>The trader changes only the user data of peers.\<close>

definition data_only :: "('s, 'p, 'n, 'b) topology \<Rightarrow> ('s, 'p, 'n, 'b) topology \<Rightarrow> bool" where
  "data_only t t' \<longleftrightarrow> (\<exists>h. t' = t\<lparr>tp_peers := h\<rparr> \<and> dom h = dom (tp_peers t) \<and>
     (\<forall>a p. tp_peers t a = Some p \<longrightarrow> (\<exists>p'. h a = Some p' \<and> pr_id p' = pr_id p \<and> pr_metadata p' = pr_metadata p \<and>
        (pr_user_data p \<noteq> None \<longrightarrow> pr_user_data p' \<noteq> None))))"

lemma data_only_refl [simp]: "data_only t t"
  by (auto simp: data_only_def intro!: exI [of _ "tp_peers t"])

lemma data_only_trans:
  assumes "data_only t t1" and "data_only t1 t2"
  shows "data_only t t2"
proof -
  obtain h1 where 1: "t1 = t\<lparr>tp_peers := h1\<rparr>" "dom h1 = dom (tp_peers t)"
    "\<forall>a p. tp_peers t a = Some p \<longrightarrow> (\<exists>p'. h1 a = Some p' \<and> pr_id p' = pr_id p \<and> pr_metadata p' = pr_metadata p \<and>
        (pr_user_data p \<noteq> None \<longrightarrow> pr_user_data p' \<noteq> None))"
    using assms(1) unfolding data_only_def by (elim exE conjE)
  obtain h2 where 2: "t2 = t1\<lparr>tp_peers := h2\<rparr>" "dom h2 = dom (tp_peers t1)"
    "\<forall>a p. tp_peers t1 a = Some p \<longrightarrow> (\<exists>p'. h2 a = Some p' \<and> pr_id p' = pr_id p \<and> pr_metadata p' = pr_metadata p \<and>
        (pr_user_data p \<noteq> None \<longrightarrow> pr_user_data p' \<noteq> None))"
    using assms(2) unfolding data_only_def by (elim exE conjE)
  show ?thesis
    unfolding data_only_def
  proof (intro exI [of _ h2] conjI allI impI)
    show "t2 = t\<lparr>tp_peers := h2\<rparr>" "dom h2 = dom (tp_peers t)" using 1 2 by simp_all
    fix a p assume "tp_peers t a = Some p"
    then show "\<exists>p'. h2 a = Some p' \<and> pr_id p' = pr_id p \<and> pr_metadata p' = pr_metadata p \<and> (pr_user_data p \<noteq> None \<longrightarrow> pr_user_data p' \<noteq> None)"
      using 1(1,3) 2(3) by fastforce
  qed
qed

lemma data_only_inv:
  assumes "data_only t t'" and "topo_inv A t"
  shows "topo_inv A t'"
proof -
  obtain h where h: "t' = t\<lparr>tp_peers := h\<rparr>" "dom h = dom (tp_peers t)"
    "\<forall>a p. tp_peers t a = Some p \<longrightarrow> (\<exists>p'. h a = Some p' \<and> pr_id p' = pr_id p \<and> pr_metadata p' = pr_metadata p \<and>
        (pr_user_data p \<noteq> None \<longrightarrow> pr_user_data p' \<noteq> None))"
    using assms(1) unfolding data_only_def by (elim exE conjE)
  let ?X = "ps_set A (neighbourhood t) \<union> ps_set A (swarm_bucket t)"
  have live: "live_peers (tp_peers t) ?X" using assms(2) by (simp add: topo_inv_def topo_sets_def)
  then have ex: "\<forall>a \<in> ?X. \<exists>p u. tp_peers t a = Some p \<and> pr_user_data p = Some u" unfolding live_peers_def by (elim conjE)
  have same: "\<exists>p u. h a = Some p \<and> pr_user_data p = Some u \<and> pid h a = pid (tp_peers t) a" if a: "a \<in> ?X" for a
  proof -
    obtain p u where p: "tp_peers t a = Some p" "pr_user_data p = Some u" using ex a by metis
    then obtain p' where "h a = Some p'" "pr_id p' = pr_id p" "pr_user_data p' \<noteq> None" using h(3) by fastforce
    then show ?thesis using p by (auto simp: pid_def)
  qed
  have "inj_on (pid h) ?X"
    using live same unfolding live_peers_def by (metis (no_types, lifting) inj_on_def)
  moreover have "finite (dom h)" using live h(2) by (simp add: live_peers_def)
  ultimately have "live_peers h ?X" unfolding live_peers_def using same by blast
  then show ?thesis using assms(2) by (simp add: topo_inv_def topo_sets_def h(1))
qed

lemma set_bmap_data:
  assumes "tp_peers t a = Some p" and "pr_user_data p = Some u"
  obtains t' where "set_bmap a f ts t = Inr t'" and "data_only t t'"
proof (rule that [OF set_bmap_result [OF assms]])
  show "data_only t (t\<lparr>tp_peers := (tp_peers t)(a := Some (p\<lparr>pr_user_data :=
             Some \<lparr>ud_bmap_timestamp = (case ts of Some now \<Rightarrow> now | None \<Rightarrow> ud_bmap_timestamp u), ud_bmap = f (ud_bmap u)\<rparr>\<rparr>))\<rparr>)"
    unfolding data_only_def by (rule exI, rule conjI, rule refl) (use assms in \<open>auto split: if_split_asm\<close>)
qed

lemma data_only_sets:
  "data_only t t' \<Longrightarrow> neighbourhood t' = neighbourhood t \<and> swarm_bucket t' = swarm_bucket t \<and> topo_cfg t' = topo_cfg t \<and> tp_sent t' = tp_sent t"
  by (auto simp: data_only_def topo_cfg_def)

lemma data_only_has_data:
  assumes "data_only t t'" and "has_data (tp_peers t) a"
  shows "has_data (tp_peers t') a"
proof -
  obtain p u where p: "tp_peers t a = Some p" "pr_user_data p = Some u" using assms(2) by (auto simp: has_data_def)
  then obtain p' where "tp_peers t' a = Some p'" "pr_user_data p' \<noteq> None"
    using assms(1) unfolding data_only_def by fastforce
  then show ?thesis by (auto simp: has_data_def)
qed

lemma topo_inv_has_data:
  "topo_inv A t \<Longrightarrow> a \<in> ps_set A (neighbourhood t) \<union> ps_set A (swarm_bucket t) \<Longrightarrow> has_data (tp_peers t) a"
  by (rule topo_inv_peer) (auto simp: has_data_def)

section \<open>The output\<close>

text \<open>Without reordering the buffer is not used.\<close>

definition out_inv :: "chunk_output \<Rightarrow> bool" where
  "out_inv co \<longleftrightarrow> (co_reorder co \<longrightarrow> co_ok co \<or> co_fresh co)"

lemma deliver_fresh_invalid:
  assumes "co_fresh co" and "co_reorder co" and "ch_id c = -1"
  obtains co' where "output_deliver (Some co) (Some c) = Some (Inr (0, Some co'))" and "co_fresh co'" and "co_reorder co'"
proof -
  have f: "0 < co_buff_length co" "co_head co < co_buff_length co" "co_next_out co = -1" "\<forall>x \<in> set (co_buff co). ch_id x = -1" "co_written co = []"
    using assms(1) by (simp_all add: co_fresh_def)
  have np: "nat ((int (co_head co) + ch_id c - co_next_out co) mod int (co_buff_length co)) = co_head co"
    using f assms(3) by (simp add: zmod_int [symmetric])
  define co1 where co1: "co1 = output_place (co\<lparr>co_next_out := -1\<rparr>) c (co_head co)"
  have fresh: "co_fresh co1"
    using f assms(3) by (auto simp: co1 output_place_def co_fresh_def chunk_clone_def Let_def set_update_memI dest!: set_update_subset_insert [THEN subsetD])
  have re: "co_reorder co1" using assms(2) by (simp add: co1 output_place_def Let_def)
  have "ch_id (co_buff co1 ! co_head co1) = -1"
    using fresh unfolding co_fresh_def by simp
  then have "output_drain co1 0 = Some (0, co1)" by (subst output_drain.simps) simp
  then have "output_deliver (Some co) (Some c) = Some (Inr (0, Some co1))"
    using assms(2,3) f np by (simp add: output_deliver_def Let_def co1)
  then show ?thesis using that fresh re by blast
qed

lemma deliver_ok_inv:
  assumes "co_ok co" and "co_reorder co"
  shows "\<exists>r co'. output_deliver (Some co) (Some c) = Some (Inr (r, Some co')) \<and> out_inv co'"
proof (cases "co_next_out co \<le> ch_id c")
  case True
  show ?thesis by (rule deliver_spec [OF assms True]) (auto simp: out_inv_def)
next
  case False
  then show ?thesis using deliver_late [of co c] assms by (simp add: out_inv_def)
qed

lemma deliver_inv:
  assumes "out_inv co"
  shows "\<exists>r co'. output_deliver (Some co) (Some c) = Some (Inr (r, Some co')) \<and> out_inv co'"
proof (cases "co_reorder co")
  case False
  then show ?thesis by (simp add: output_deliver_def out_inv_def)
next
  case re: True
  consider (ok) "co_ok co" | (fresh) "co_fresh co" using assms re by (auto simp: out_inv_def)
  then show ?thesis
  proof cases
    case ok
    then show ?thesis by (rule deliver_ok_inv [OF _ re])
  next
    case fresh
    consider "ch_id c < -1" | "ch_id c = -1" | "0 \<le> ch_id c" by linarith
    then show ?thesis
    proof cases
      case 1
      then show ?thesis using deliver_late [of co c] re fresh by (simp add: co_fresh_def out_inv_def)
    next
      case 2
      show ?thesis by (rule deliver_fresh_invalid [OF fresh re 2]) (auto simp: out_inv_def)
    next
      case 3
      show ?thesis
        unfolding deliver_fresh [OF fresh re 3] by (rule deliver_ok_inv [OF fresh_start(1) [OF fresh 3]]) (simp add: re)
    qed
  qed
qed

section \<open>The trader\<close>

definition trader_cfg :: "('k, 'i) chunk_trader \<Rightarrow> distribution_type \<times> int \<times> int \<times> int \<times> int" where
  "trader_cfg ct = (ct_dist_type ct, offer_per_period ct, peers_per_offer ct, chunks_per_peer_offer ct, ct_cb_size ct)"

text \<open>What an operation of the trader keeps.\<close>

definition trade_keeps ::
  "('k, 'i) chunk_trader \<Rightarrow> ('s, 'p, 'i) peer_topology \<Rightarrow> ('k, 'i) chunk_trader \<Rightarrow> ('s, 'p, 'i) peer_topology \<Rightarrow> bool" where
  "trade_keeps ct t ct' t' \<longleftrightarrow> (cl_wf (ch_locks ct) \<longrightarrow> cl_wf (ch_locks ct')) \<and> trader_cfg ct' = trader_cfg ct \<and> data_only t t'"

lemma trade_keeps_refl [simp]: "trade_keeps ct t ct t"
  by (simp add: trade_keeps_def)

lemma trade_keeps_trans: "trade_keeps ct t ct1 t1 \<Longrightarrow> trade_keeps ct1 t1 ct2 t2 \<Longrightarrow> trade_keeps ct t ct2 t2"
  unfolding trade_keeps_def using data_only_trans by auto

lemma known_peer_has_data:
  assumes "peerset_ok A b" and "topo_inv A t" and "topology_get_peer A t i = Some a"
  shows "has_data (tp_peers t) a"
  by (rule get_peer_Some [OF assms]) (auto simp: has_data_def)

lemma set_bmap_safe:
  "has_data (tp_peers t) a \<Longrightarrow> \<exists>t'. set_bmap a f ts t = Inr t' \<and> data_only t t'"
  unfolding has_data_def using set_bmap_data by blast

lemma lookup_eq: "nodeid_to_peer A S ic i False t = Inr (topology_get_peer A t i, t)"
  by (simp add: nodeid_to_peer_def)

lemma parse_chunk_safe:
  assumes ok: "peerset_ok A b" and inv: "topo_inv A t"
    and parse: "\<forall>x c tid. parse x = Some (c, tid) \<longrightarrow> ac_attributes c \<noteq> Attr_freed"
  shows "\<exists>c ct' t'. chunk_trader_parse_chunk A S ic B I parse (Some fr) buff ct t = Inr (c, ct', t') \<and> trade_keeps ct t ct' t' \<and>
    (\<forall>k. c = Some k \<longrightarrow> ac_attributes k \<noteq> Attr_freed)"
proof (cases "length buff > 1 \<and> parse (drop 1 buff) \<noteq> None")
  case False
  then show ?thesis by (auto simp: chunk_trader_parse_chunk_def split: option.splits)
next
  case True
  then obtain c0 tid where p: "parse (drop 1 buff) = Some (c0, tid)" by auto
  note attr = parse [rule_format, OF p]
  obtain c where c: "chunk_received c0 = Inr c" "ac_attributes c \<noteq> Attr_freed"
    using attr by (cases "ac_attributes c0") (auto simp: chunk_received_def chunk_attributes_update_upon_reception_def)
  define ct1 where ct1: "ct1 = ct\<lparr>ch_locks := the (chunk_unlock (Some (ch_locks ct)) (gc_id c))\<rparr>"
  have wf: "cl_wf (ch_locks ct) \<longrightarrow> cl_wf (ch_locks ct1)" using cl_wf_unlock [of "ch_locks ct" "gc_id c"] by (auto simp: ct1)
  obtain t' where t': "(case topology_get_peer A t fr of Some a \<Rightarrow> set_bmap a (\<lambda>b. is_add I b (gc_id c)) None t | None \<Rightarrow> Inr t) = Inr t'" "data_only t t'"
    by (cases "topology_get_peer A t fr") (use set_bmap_safe [OF known_peer_has_data [OF ok inv, of fr], of _ "\<lambda>b. is_add I b (gc_id c)" None] in auto)
  have "chunk_trader_parse_chunk A S ic B I parse (Some fr) buff ct t = Inr (Some c, chunk_trader_send_ack B I fr tid ct1, t')"
    using True p c(1) t'(1) by (simp add: chunk_trader_parse_chunk_def lookup_eq ct1 Let_def)
  moreover have "trade_keeps ct t (chunk_trader_send_ack B I fr tid ct1) t'"
    using wf t'(2) by (simp add: trade_keeps_def chunk_trader_send_ack_def trader_cfg_def ct1)
  ultimately show ?thesis using c(2) by blast
qed

lemma add_chunk_keeps:
  "\<exists>r ct'. chunk_trader_add_chunk B (Some ct) (Some c) = (r, Some ct') \<and> trade_keeps ct t ct' t \<and>
     (r = 0 \<longleftrightarrow> fst (cb_add_chunk B (ct_cb ct) c) \<ge> 0) \<and> ct_cb ct' = snd (cb_add_chunk B (ct_cb ct) c)"
  by (simp add: chunk_trader_add_chunk_def trade_keeps_def trader_cfg_def split: prod.split)

lemma accept_loop_safe:
  "cl_wf ls \<Longrightarrow> \<exists>acc' ls'. accept_loop B I clk now peer mn ids max_deliver k cb acc ls = Inr (acc', ls') \<and> cl_wf ls'"
proof (induction k arbitrary: acc ls)
  case (Suc k)
  define cid where cid: "cid = mn + int k"
  define ls1 where ls1: "ls1 = chunk_locks_cleanup (clk cid) ls"
  have wf1: "cl_wf ls1" unfolding ls1 by (rule cl_wf_cleanup [OF Suc.prems])
  obtain locked where l: "chunk_islocked (clk cid) (Some ls) cid = (locked, Some ls1)"
    by (simp add: chunk_islocked_def ls1 Let_def)
  obtain ls2 where l2: "chunk_lock (now cid) (Some ls1) cid (Some peer) = Inr (Some ls2)" "cl_wf ls2"
    by (rule cl_wf_lock [OF wf1])
  show ?case
  proof (cases "int (is_size I acc) < max_deliver \<and> ids ! k \<noteq> 0 \<and> cb_get_chunk B cb cid = None")
    case True
    have "accept_loop B I clk now peer mn ids max_deliver (Suc k) cb acc ls =
        (if locked = 0 then accept_loop B I clk now peer mn ids max_deliver k cb (is_add I acc cid) ls2
         else accept_loop B I clk now peer mn ids max_deliver k cb acc ls1)"
      using True l l2(1) unfolding cid by (simp add: Let_def)
    then show ?thesis using Suc.IH [OF wf1] Suc.IH [OF l2(2)] by presburger
  next
    case False
    then have "accept_loop B I clk now peer mn ids max_deliver (Suc k) cb acc ls = Inr (acc, ls) \<or>
        accept_loop B I clk now peer mn ids max_deliver (Suc k) cb acc ls = accept_loop B I clk now peer mn ids max_deliver k cb acc ls"
      unfolding cid by (auto simp: Let_def)
    then show ?thesis using Suc.IH [OF Suc.prems] Suc.prems by metis
  qed
qed simp

lemma update_bmap_safe:
  "has_data (tp_peers t) a \<Longrightarrow> \<exists>t'. update_peer_bmap I tnow a cset t = Inr t' \<and> data_only t t'"
  unfolding has_data_def update_peer_bmap_def peer_at_def by (elim exE conjE) (simp, rule set_bmap_safe, simp add: has_data_def)

lemma handle_offer_safe:
  assumes ok: "idset_ok I V" and V: "V cset" and wf: "cl_wf (ch_locks ct)" and a: "has_data (tp_peers t) a"
  shows "\<exists>ct' t'. chunk_trader_handle_offer B I tnow clk now a cset max_deliver tid ct t = Inr (0, ct', t') \<and> trade_keeps ct t ct' t'"
proof -
  obtain t1 where t1: "update_peer_bmap I tnow a cset t = Inr t1" "data_only t t1" using update_bmap_safe [OF a] by blast
  obtain p u where p: "tp_peers t1 a = Some p" "pr_user_data p = Some u" using data_only_has_data [OF t1(2) a] by (auto simp: has_data_def)
  define mn where mn: "mn = sint (is_earliest I cset)"
  define n where n: "n = nat (sint (is_latest I cset) - mn + 1)"
  have "\<exists>ids. count_loop I cset mn (is_size I cset) 0 (replicate n 0) = Inr ids"
    unfolding n mn by (rule offered_array [OF ok V]) (rule exI)
  then obtain ids where ids: "count_loop I cset mn (is_size I cset) 0 (replicate n 0) = Inr ids" by (elim exE)
  obtain acc ls where al: "accept_loop B I clk now (pr_id p) mn ids max_deliver n (ct_cb ct) (is_init I) (ch_locks ct) = Inr (acc, ls)" "cl_wf ls"
    using accept_loop_safe [OF wf, of B I clk now "pr_id p" mn ids max_deliver n "ct_cb ct" "is_init I"] by blast
  have "chunk_trader_handle_offer B I tnow clk now a cset max_deliver tid ct t =
      Inr (0, ct\<lparr>ch_locks := ls, ct_sent := ct_sent ct @ [Send_accept (pr_id p) acc tid]\<rparr>, t1)"
    using t1(1) p ids al(1) by (simp add: chunk_trader_handle_offer_def peer_at_def Let_def mn [symmetric] n [symmetric])
  then show ?thesis using t1(2) al(2) by (auto simp: trade_keeps_def trader_cfg_def)
qed

lemma chunk_send_loop_safe:
  assumes "\<forall>(a, c) \<in> set pairs. has_data (tp_peers t) a \<and> cb_get_chunk B (ct_cb ct) c \<noteq> None"
  shows "\<exists>r ct' t'. chunk_send_loop B I sres tid i res pairs ct t = Inr (r, ct', t') \<and> trade_keeps ct t ct' t'"
  using assms
proof (induction pairs arbitrary: i res ct t)
  case (Cons pr pairs)
  obtain a c where pr: "pr = (a, c)" by (cases pr)
  obtain p u k where k: "tp_peers t a = Some p" "pr_user_data p = Some u" "cb_get_chunk B (ct_cb ct) c = Some k"
    using Cons.prems pr by (auto simp: has_data_def)
  define ct1 where ct1: "ct1 = ct\<lparr>ct_sent := ct_sent ct @ [Send_chunk (pr_id p) k tid]\<rparr>"
  obtain t1 where t1: "(if sres i \<ge> 0 then set_bmap a (\<lambda>b. is_add I b (gc_id k)) None t else Inr t) = Inr t1" "data_only t t1"
    by (cases "sres i \<ge> 0") (use set_bmap_data [OF k(1,2)] in auto)
  have step: "chunk_send_loop B I sres tid i res (pr # pairs) ct t = chunk_send_loop B I sres tid (Suc i) (sres i) pairs ct1 t1"
    using k t1(1) by (simp add: pr peer_at_def ct1 Let_def)
  have "\<forall>(x, c) \<in> set pairs. has_data (tp_peers t1) x \<and> cb_get_chunk B (ct_cb ct1) c \<noteq> None"
    using Cons.prems data_only_has_data [OF t1(2)] by (auto simp: ct1)
  from Cons.IH [OF this, of "Suc i" "sres i"] obtain r ct' t' where
    r: "chunk_send_loop B I sres tid (Suc i) (sres i) pairs ct1 t1 = Inr (r, ct', t')" "trade_keeps ct1 t1 ct' t'" by blast
  have "trade_keeps ct t ct1 t1" using t1(2) by (simp add: trade_keeps_def ct1 trader_cfg_def)
  then show ?case using step r trade_keeps_trans by metis
qed simp

lemma chunk_send_safe:
  assumes "\<forall>(a, c) \<in> set pairs. has_data (tp_peers t) a \<and> cb_get_chunk B (ct_cb ct) c \<noteq> None"
  shows "\<exists>r ct' t'. peer_chunk_send B I sres pairs tid ct t = Inr (r, ct', t') \<and> trade_keeps ct t ct' t'"
  using chunk_send_loop_safe [OF assms, of I sres tid 0 "-1"] by (auto simp: peer_chunk_send_def)

lemma handle_accept_safe:
  assumes a: "has_data (tp_peers t) a"
  shows "\<exists>ct' t'. chunk_trader_handle_accept B I tnow sres a cset max_deliver tid ct t = Inr (0, ct', t') \<and> trade_keeps ct t ct' t'"
proof -
  obtain p where p: "tp_peers t a = Some p" using a by (auto simp: has_data_def)
  define ct1 where ct1: "ct1 = ct\<lparr>ct_transactions := snd (transaction_reg_accept tnow (ct_transactions ct) tid (Some (pr_id p)))\<rparr>"
  define pairs where pairs: "pairs = pairs_loop B I (ct_cb ct) cset a (min (int (is_size I cset)) (chunks_per_peer_offer ct)) (is_size I cset) 0 []"
  have "\<forall>(a, c) \<in> set pairs. has_data (tp_peers t) a \<and> cb_get_chunk B (ct_cb ct1) c \<noteq> None"
    using a by (auto simp: pairs pairs_loop_eq ct1 dest!: in_set_takeD)
  from chunk_send_safe [OF this, of I sres tid] obtain r ct' t' where
    r: "peer_chunk_send B I sres pairs tid ct1 t = Inr (r, ct', t')" "trade_keeps ct1 t ct' t'" by blast
  have "trade_keeps ct t ct1 t" by (simp add: trade_keeps_def ct1 trader_cfg_def)
  then have "trade_keeps ct t ct' t'" using r(2) by (rule trade_keeps_trans)
  then show ?thesis using p r(1) by (simp add: chunk_trader_handle_accept_def peer_at_def Let_def ct1 [symmetric] pairs [symmetric])
qed

lemma msg_parse_safe:
  assumes ok: "peerset_ok A b" and inv: "topo_inv A t" and ids: "idset_ok I V" and wf: "cl_wf (ch_locks ct)"
    and parse: "\<forall>x sg. parse x = Some sg \<longrightarrow> V (sg_cset sg)"
  shows "\<exists>r ct' t'. chunk_trader_msg_parse A S ic B I parse E i buff ct t = Inr (r, ct', t') \<and> trade_keeps ct t ct' t'"
proof (cases "parse (drop 1 buff)")
  case None
  then show ?thesis by (simp add: chunk_trader_msg_parse_def)
next
  case (Some sg)
  show ?thesis
  proof (cases "topology_get_peer A t i")
    case None
    then show ?thesis using Some by (simp add: chunk_trader_msg_parse_def lookup_eq)
  next
    case a: (Some a)
    note data = known_peer_has_data [OF ok inv a]
    have again: "nodeid_to_peer A S ic i True t = Inr (Some a, t)" using a by (simp add: nodeid_to_peer_def)
    note V = parse [rule_format, OF Some]
    obtain t1 where t1: "set_bmap a (\<lambda>b. is_union I (is_clear I b) (sg_cset sg)) (Some (te_now E)) t = Inr t1" "data_only t t1"
      using set_bmap_safe [OF data] by blast
    obtain t2 where t2: "update_peer_bmap I (te_now E) a (sg_cset sg) t = Inr t2" "data_only t t2"
      using update_bmap_safe [OF data] by blast
    obtain ct3 t3 where t3: "chunk_trader_handle_offer B I (te_now E) (te_islocked E) (te_lock E) a (sg_cset sg) (sg_max_deliver sg) (sg_trans_id sg) ct t = Inr (0, ct3, t3)"
      "trade_keeps ct t ct3 t3" using handle_offer_safe [OF ids V wf data] by blast
    obtain ct4 t4 where t4: "chunk_trader_handle_accept B I (te_now E) (te_sres E) a (sg_cset sg) (sg_max_deliver sg) (sg_trans_id sg) ct t = Inr (0, ct4, t4)"
      "trade_keeps ct t ct4 t4" using handle_accept_safe [OF data] by blast
    show ?thesis
    proof (cases "sg_type sg")
      case Sig_ack
      have "trade_keeps ct t (ct\<lparr>ct_transactions := snd (transaction_remove (ct_transactions ct) (sg_trans_id sg))\<rparr>) t2"
        using t2(2) by (simp add: trade_keeps_def trader_cfg_def)
      then show ?thesis using Sig_ack Some a t2(1) by (simp add: chunk_trader_msg_parse_def lookup_eq chunk_trader_handle_ack_def)
    next
      case Sig_send_buffermap
      have "trade_keeps ct t ct t1" using t1(2) by (simp add: trade_keeps_def)
      then show ?thesis using Sig_send_buffermap Some a t1(1) by (simp add: chunk_trader_msg_parse_def lookup_eq)
    qed (use Some a again t3 t4 in \<open>simp_all add: chunk_trader_msg_parse_def lookup_eq\<close>)
  qed
qed

lemma offer_loop_safe:
  assumes sched: "\<And>j. sched_ok (sched j)" and data: "\<forall>a \<in> set neighs. has_data h a"
    and ev: "ct_dist_type ct = DIST_TURBO \<longrightarrow> (\<forall>a \<in> set neighs. pr_metadata (the (h a)) \<noteq> None)"
  shows "\<exists>r ct'. offer_loop I sched clk neighs ch_buff k j h res ct = Inr (r, ct') \<and> trader_cfg ct' = trader_cfg ct \<and> ch_locks ct' = ch_locks ct"
  using ev
proof (induction k arbitrary: j res ct)
  case (Suc k)
  have "\<forall>a \<in> set neighs. \<exists>x. peer_evaluation ct h a = Inr x"
    using data Suc.prems by (fastforce simp: peer_evaluation_def peer_evaluation_turbo_def peer_evaluation_uniform_def trader_peer_neigh_size_def has_data_def peer_at_def Let_def)
  then obtain pairs where pairs: "sched j neighs ch_buff (length ch_buff) (Some (peer_needs_chunk_filter I h)) (peer_evaluation ct h) chunk_evaluation_latest = Inr pairs"
    "set pairs \<subseteq> set neighs \<times> set ch_buff"
    using sched [of j] filter_total [of h _ I] data unfolding sched_ok_def by (metis option.inject)
  show ?case
  proof (cases pairs)
    case Nil
    then have "offer_loop I sched clk neighs ch_buff (Suc k) j h res ct = offer_loop I sched clk neighs ch_buff k (Suc j) h res ct"
      using pairs(1) by simp
    then show ?thesis using Suc.IH [OF Suc.prems, of "Suc j" res] by simp
  next
    case (Cons pr prs)
    obtain a c where pr: "pr = (a, c)" by (cases pr)
    have a: "a \<in> set neighs" using pairs(2) Cons pr by auto
    then obtain p where p: "h a = Some p" using data by (auto simp: has_data_def)
    obtain tid trs where tr: "transaction_create (fst (clk j)) (snd (clk j)) (Some (ct_transactions ct)) (Some (pr_id p)) = (tid, trs)" by fastforce
    define s where s: "s = fold (\<lambda>pr s. is_add I s (snd pr)) pairs (is_init I)"
    define ct1 where ct1: "ct1 = ct\<lparr>ct_transactions := the trs, ct_sent := ct_sent ct @ [Send_offer (pr_id p) s (chunks_per_peer_offer ct) tid]\<rparr>"
    have step: "offer_loop I sched clk neighs ch_buff (Suc k) j h res ct = offer_loop I sched clk neighs ch_buff k (Suc j) h (Suc res) ct1"
      using pairs(1) p tr by (simp add: Cons pr peer_at_def Let_def ct1 s)
    have same: "trader_cfg ct1 = trader_cfg ct" "ch_locks ct1 = ch_locks ct" "ct_dist_type ct1 = ct_dist_type ct"
      by (simp_all add: ct1 trader_cfg_def)
    show ?thesis using Suc.IH [of ct1 "Suc j" "Suc res"] Suc.prems unfolding step same by simp
  qed
qed simp

lemma neighbours_have_data: "topo_inv A t \<Longrightarrow> \<forall>a \<in> ps_set A (neighbourhood t). has_data (tp_peers t) a"
  using topo_inv_has_data by blast

lemma send_offer_safe:
  assumes sched: "\<And>j. sched_ok (sched j)" and inv: "topo_inv A t"
    and ev: "ct_dist_type ct = DIST_TURBO \<longrightarrow> (\<forall>a \<in> ps_set A (neighbourhood t). pr_metadata (the (tp_peers t a)) \<noteq> None)"
  shows "\<exists>r ct'. chunk_trader_send_offer A B I sched clk t ct = Inr (r, ct') \<and> trade_keeps ct t ct' t"
proof -
  obtain r ct' where "offer_loop I sched clk (ps_peers A (neighbourhood t)) (chunk_buffer_to_idarray B (ct_cb ct)) (nat (peers_per_offer ct)) 0 (tp_peers t) 0 ct =
      Inr (r, ct')" "trader_cfg ct' = trader_cfg ct" "ch_locks ct' = ch_locks ct"
    using offer_loop_safe [where sched = sched, OF sched neighbours_have_data [OF inv] ev] by blast
  then show ?thesis by (simp add: chunk_trader_send_offer_def topology_get_neighbours_def trade_keeps_def)
qed

text \<open>What the code relies on in a chunk buffer: a chunk that was added can be found.\<close>

definition chunkbuf_ok :: "'k chunkbuf_api \<Rightarrow> bool" where
  "chunkbuf_ok B \<longleftrightarrow> (\<forall>cb c. fst (cb_add_chunk B cb c) \<ge> 0 \<longrightarrow> cb_get_chunk B (snd (cb_add_chunk B cb c)) (gc_id c) \<noteq> None)"

lemma sched_okD:
  assumes "sched_ok sched" and "\<forall>a \<in> set peers. \<exists>x. ev a = Inr x"
    and "\<forall>f. filt = Some f \<longrightarrow> (\<forall>a \<in> set peers. \<forall>c \<in> set chunks. \<exists>x. f a c = Inr x)"
  shows "\<exists>pairs. sched peers chunks n filt ev cev = Inr pairs \<and> length pairs \<le> n \<and> set pairs \<subseteq> set peers \<times> set chunks"
  using assms unfolding sched_ok_def by simp

lemma push_chunk_safe:
  assumes sched: "sched_ok sched" and inv: "topo_inv A t" and cb: "cb_get_chunk B (ct_cb ct) (gc_id k) \<noteq> None"
    and ev: "ct_dist_type ct = DIST_TURBO \<longrightarrow> (\<forall>a \<in> ps_set A (neighbourhood t). pr_metadata (the (tp_peers t a)) \<noteq> None)"
  shows "\<exists>ct' t'. chunk_trader_push_chunk A B I sched sres ct (Some k) m t = Inr (-1, ct', t') \<and> trade_keeps ct t ct' t'"
proof (cases "m > 0")
  case False
  then show ?thesis by (simp add: chunk_trader_push_chunk_def)
next
  case True
  note data = neighbours_have_data [OF inv]
  have "\<forall>a \<in> ps_set A (neighbourhood t). \<exists>x. peer_evaluation ct (tp_peers t) a = Inr x"
    using data ev by (fastforce simp: peer_evaluation_def peer_evaluation_turbo_def peer_evaluation_uniform_def trader_peer_neigh_size_def has_data_def peer_at_def Let_def)
  from sched_okD [OF sched this, of None "[gc_id k]" "nat (min m (int (ps_size A (neighbourhood t))))" chunk_evaluation_latest]
  obtain pairs where pairs: "sched (ps_peers A (neighbourhood t)) [gc_id k] (nat (min m (int (ps_size A (neighbourhood t))))) None (peer_evaluation ct (tp_peers t)) chunk_evaluation_latest = Inr pairs"
    "set pairs \<subseteq> ps_set A (neighbourhood t) \<times> {gc_id k}"
    by auto
  have "\<forall>(a, c) \<in> set pairs. has_data (tp_peers t) a \<and> cb_get_chunk B (ct_cb ct) c \<noteq> None"
    using pairs(2) data cb by fastforce
  from chunk_send_safe [OF this, of I sres INVALID_TRANSID] show ?thesis
    using True pairs(1) by (auto simp: chunk_trader_push_chunk_def topology_get_neighbours_def)
qed

section \<open>The engine\<close>

definition grapes_ok :: "('s, 'p, 'k, 'i, 'src) grapes \<Rightarrow> 'i \<Rightarrow> ('i \<Rightarrow> bool) \<Rightarrow> bool" where
  "grapes_ok G b V \<longleftrightarrow> peerset_ok (g_peersets G) b \<and> samples_ok (g_psample G) \<and> int_coding_ok (g_coding G) \<and> chunkbuf_ok (g_chunkbuf G) \<and>
     idset_ok (g_idset G) V \<and> qsort_ok (g_qsort G) \<and> (\<forall>j. sched_ok (g_peer_first G j)) \<and> sched_ok (g_chunk_first G) \<and>
     (\<forall>x c tid. g_parse_chunk G x = Some (c, tid) \<longrightarrow> ac_attributes c \<noteq> Attr_freed) \<and>
     (\<forall>x sg. g_parse_signaling G x = Some sg \<longrightarrow> V (sg_cset sg))"

text \<open>Every component is there and keeps its own invariant, and no input descriptor is watched.\<close>

definition ps_inv :: "('s, 'p, 'k, 'i, 'src) grapes \<Rightarrow> ('s, 'p, 'k, 'i, 'src) psinstance \<Rightarrow> bool" where
  "ps_inv G ps \<longleftrightarrow>
     (\<exists>s. my_sock ps = Some s \<and> node_inv s \<and> nd_fd (ln_id s) < FD_SETSIZE) \<and>
     (\<exists>t. ps_topology ps = Some t \<and> topo_inv (g_peersets G) t) \<and>
     (\<exists>ct. ps_trader ps = Some ct \<and> cl_wf (ch_locks ct)) \<and>
     (\<exists>m. ps_measure ps = Some m \<and> cie_state m \<noteq> Ready) \<and>
     (\<forall>co. chunk_out ps = Some co \<longrightarrow> out_inv co) \<and>
     inc_fds (ps_inc ps) \<noteq> [] \<and> inc_fds (ps_inc ps) ! 0 = -1"

text \<open>What stays as it was created.\<close>

definition ps_same :: "('s, 'p, 'k, 'i, 'src) psinstance \<Rightarrow> ('s, 'p, 'k, 'i, 'src) psinstance \<Rightarrow> bool" where
  "ps_same ps ps' \<longleftrightarrow> map_option ln_id (my_sock ps') = map_option ln_id (my_sock ps) \<and>
     (chunk_out ps' = None \<longleftrightarrow> chunk_out ps = None) \<and> (ps_input ps' = None \<longleftrightarrow> ps_input ps = None) \<and>
     map_option trader_cfg (ps_trader ps') = map_option trader_cfg (ps_trader ps)"

text \<open>The ways a call of \<open>psinstance_poll\<close> can run into undefined behaviour.\<close>

inductive poll_hazard ::
  "('s, 'p, 'k, 'i, 'src) grapes \<Rightarrow> poll_env \<Rightarrow> ('s, 'p, 'k, 'i, 'src) psinstance \<Rightarrow> c_fault \<Rightarrow> bool"
  for G E ps where
  malformed_datagram: "my_sock ps = Some s \<Longrightarrow> pe_incoming E = Some (addr, dg) \<Longrightarrow> dg \<noteq> [] \<Longrightarrow>
    \<forall>m. net_msg_decode (g_coding G) (Some (ln_id s)) (Some (empty_node\<lparr>nd_addr := addr\<rparr>)) dg \<noteq> Inr (Some m) \<Longrightarrow> poll_hazard G E ps e"
| truncated_message: "recv_from_peer (g_coding G) (pe_recv_now E) (pe_pop_now E) s (pe_incoming E) MSG_BUFFSIZE = Inr (len, remote, buff, s') \<Longrightarrow>
    len > 0 \<Longrightarrow> buff = [] \<or> buff ! 0 = MSG_TYPE_NEIGHBOURHOOD \<and> \<not> neigh_complete buff \<Longrightarrow> poll_hazard G E ps Uninit_Read"
| no_input: "chunk_out ps = None \<Longrightarrow> ps_input ps = None \<Longrightarrow> poll_hazard G E ps Null_Deref"
| no_offers: "ps_trader ps = Some ct \<Longrightarrow> offer_per_period ct = 0 \<Longrightarrow> poll_hazard G E ps Div_By_Zero"
| turbo_alone: "ps_trader ps = Some ct \<Longrightarrow> ct_dist_type ct = DIST_TURBO \<Longrightarrow> ps_topology ps = Some t \<Longrightarrow>
    ps_peers (g_peersets G) (neighbourhood t) = [] \<Longrightarrow> poll_hazard G E ps Div_By_Zero"
| turbo_unknown: "ps_trader ps = Some ct \<Longrightarrow> ct_dist_type ct = DIST_TURBO \<Longrightarrow> ps_topology ps = Some t \<Longrightarrow>
    a \<in> ps_set (g_peersets G) (neighbourhood t) \<Longrightarrow> pr_metadata (the (tp_peers t a)) = None \<Longrightarrow> poll_hazard G E ps e"

text \<open>A call that faults only as \<open>H\<close> says, and whose result satisfies \<open>Q\<close>.\<close>

definition ps_post :: "(c_fault \<Rightarrow> bool) \<Rightarrow> 'a ps_result \<Rightarrow> ('a \<Rightarrow> bool) \<Rightarrow> bool" where
  "ps_post H r Q \<longleftrightarrow> (case r of Inl e \<Rightarrow> H e | Inr (Returned x) \<Rightarrow> Q x | Inr _ \<Rightarrow> True)"

lemma ps_post_simps [simp]:
  "ps_post H (Inl e) Q = H e" "ps_post H (Inr (Returned x)) Q = Q x" "ps_post H (Inr Exited) Q" "ps_post H (Inr Not_Returned) Q"
  by (simp_all add: ps_post_def)

lemma ps_post_bind: "ps_post H r P \<Longrightarrow> (\<And>x. P x \<Longrightarrow> ps_post H (f x) Q) \<Longrightarrow> ps_post H (ps_bind r f) Q"
  by (auto simp: ps_post_def ps_bind_def c_bind_def split: sum.split_asm outcome.split_asm)

lemma ps_post_ret: "r = Inr x \<Longrightarrow> Q x \<Longrightarrow> ps_post H (ps_ret r) Q"
  by simp

lemma ps_post_weaken: "ps_post H r P \<Longrightarrow> (\<And>x. P x \<Longrightarrow> Q x) \<Longrightarrow> (\<And>e. H e \<Longrightarrow> H' e) \<Longrightarrow> ps_post H' r Q"
  by (auto simp: ps_post_def split: sum.splits outcome.splits)

lemma ps_same_refl [simp]: "ps_same ps ps"
  by (simp add: ps_same_def)

lemma ps_same_trans: "ps_same a b \<Longrightarrow> ps_same b c \<Longrightarrow> ps_same a c"
  by (simp add: ps_same_def)

lemma send_bmaps_safe:
  "\<exists>ct'. send_bmaps G src ms (Some ct) = Inr (Some ct') \<and> trader_cfg ct' = trader_cfg ct \<and> ch_locks ct' = ch_locks ct"
proof (induction ms arbitrary: ct)
  case (Cons m ms)
  show ?case
  proof (cases m)
    case (Neigh_msg i b)
    then show ?thesis using Cons by simp
  next
    case (Bmap_to i)
    define ct1 where "ct1 = chunk_trader_send_bmap (g_chunkbuf G) (g_idset G) src i ct"
    have "trader_cfg ct1 = trader_cfg ct" "ch_locks ct1 = ch_locks ct"
      by (simp_all add: ct1_def chunk_trader_send_bmap_def trader_cfg_def)
    then show ?thesis using Cons [of ct1] Bmap_to by (simp add: ct1_def [symmetric])
  qed
qed simp

lemma handle_topology_post:
  assumes G: "grapes_ok G b V" and inv: "ps_inv G ps" and b: "buff \<noteq> []"
  shows "ps_post (\<lambda>e. e = Uninit_Read \<and> buff ! 0 = MSG_TYPE_NEIGHBOURHOOD \<and> \<not> neigh_complete buff)
    (ps_ret (handle_topology_msg G (Some i) buff ps)) (\<lambda>ps'. ps_inv G ps' \<and> ps_same ps ps')"
proof -
  obtain t ct where t: "ps_topology ps = Some t" "topo_inv (g_peersets G) t" and ct: "ps_trader ps = Some ct" "cl_wf (ch_locks ct)"
    using inv unfolding ps_inv_def by blast
  have ok: "peerset_ok (g_peersets G) b" using G by (simp add: grapes_ok_def)
  note view = message_parse_view [OF ok t(2), of buff "g_psample G" "g_coding G" i]
  show ?thesis
  proof (cases "buff ! 0 = MSG_TYPE_NEIGHBOURHOOD \<and> topo_in t \<and> \<not> neigh_complete buff")
    case True
    then have "topology_message_parse (g_peersets G) (g_psample G) (g_coding G) (Some i) buff t = Inl Uninit_Read"
      using view by simp
    then show ?thesis using True t(1) by (simp add: handle_topology_msg_def)
  next
    case False
    then obtain t' where t': "topology_message_parse (g_peersets G) (g_psample G) (g_coding G) (Some i) buff t = Inr t'"
      "topo_inv (g_peersets G) t'" using view b by auto
    obtain ct' where ct': "send_bmaps G (psinstance_is_source ps) (drop (length (tp_sent t)) (tp_sent t')) (Some ct) = Inr (Some ct')"
      "trader_cfg ct' = trader_cfg ct" "ch_locks ct' = ch_locks ct"
      using send_bmaps_safe by blast
    have "handle_topology_msg G (Some i) buff ps = Inr (ps\<lparr>ps_topology := Some t', ps_trader := Some ct'\<rparr>)"
      using t(1) ct(1) t'(1) ct'(1) by (simp add: handle_topology_msg_def)
    then show ?thesis using inv t'(2) ct ct' by (simp add: ps_inv_def ps_same_def)
  qed
qed

lemma handle_signalling_post:
  assumes G: "grapes_ok G b V" and inv: "ps_inv G ps"
  shows "ps_post (\<lambda>_. False) (ps_ret (handle_signalling_msg G E (Some i) buff ps)) (\<lambda>ps'. ps_inv G ps' \<and> ps_same ps ps')"
proof -
  obtain t ct where t: "ps_topology ps = Some t" "topo_inv (g_peersets G) t" and ct: "ps_trader ps = Some ct" "cl_wf (ch_locks ct)"
    using inv unfolding ps_inv_def by blast
  have laws: "peerset_ok (g_peersets G) b" "idset_ok (g_idset G) V" "\<forall>x sg. g_parse_signaling G x = Some sg \<longrightarrow> V (sg_cset sg)"
    using G by (simp_all add: grapes_ok_def)
  obtain r ct' t' where r: "chunk_trader_msg_parse (g_peersets G) (g_psample G) (g_coding G) (g_chunkbuf G) (g_idset G) (g_parse_signaling G) E i buff ct t =
      Inr (r, ct', t')" "trade_keeps ct t ct' t'"
    using msg_parse_safe [where S = "g_psample G" and ic = "g_coding G" and B = "g_chunkbuf G" and E = E and i = i and buff = buff and
        parse = "g_parse_signaling G", OF laws(1) t(2) laws(2) ct(2) laws(3)] by blast
  have "handle_signalling_msg G E (Some i) buff ps = Inr (ps\<lparr>ps_trader := Some ct', ps_topology := Some t'\<rparr>)"
    using t(1) ct(1) r(1) by (simp add: handle_signalling_msg_def)
  moreover have "topo_inv (g_peersets G) t'" using data_only_inv r(2) t(2) by (auto simp: trade_keeps_def)
  ultimately show ?thesis using inv r(2) ct by (simp add: ps_inv_def ps_same_def trade_keeps_def)
qed

lemma measure_safe:
  assumes "cie_state m \<noteq> Ready"
  shows "\<exists>r m'. reg_chunk_receive (Some m) (Some c) = Inr (r, Some m') \<and> cie_state m' \<noteq> Ready"
  using assms by (cases "cie_state m") (auto simp: reg_chunk_receive_def split: prod.split)

lemma handle_chunk_post:
  assumes G: "grapes_ok G b V" and inv: "ps_inv G ps"
  shows "ps_post (\<lambda>_. False) (handle_chunk_msg G (Some i) buff ps) (\<lambda>ps'. ps_inv G ps' \<and> ps_same ps ps')"
proof (cases "chunk_out ps")
  case None
  then show ?thesis using inv by (simp add: handle_chunk_msg_def psinstance_is_source_def)
next
  case out: (Some co)
  obtain t ct m where t: "ps_topology ps = Some t" "topo_inv (g_peersets G) t" and ct: "ps_trader ps = Some ct" "cl_wf (ch_locks ct)"
    and m: "ps_measure ps = Some m" "cie_state m \<noteq> Ready" and co: "out_inv co"
    using inv out unfolding ps_inv_def by blast
  have ok: "peerset_ok (g_peersets G) b" and attr: "\<forall>x c tid. g_parse_chunk G x = Some (c, tid) \<longrightarrow> ac_attributes c \<noteq> Attr_freed"
    using G by (simp_all add: grapes_ok_def)
  obtain c ct1 t1 where p: "chunk_trader_parse_chunk (g_peersets G) (g_psample G) (g_coding G) (g_chunkbuf G) (g_idset G) (g_parse_chunk G) (Some i) buff ct t =
      Inr (c, ct1, t1)" "trade_keeps ct t ct1 t1" "\<And>k. c = Some k \<Longrightarrow> ac_attributes k \<noteq> Attr_freed"
    using parse_chunk_safe [where S = "g_psample G" and ic = "g_coding G" and B = "g_chunkbuf G" and I = "g_idset G" and fr = i and buff = buff and ct = ct and
        parse = "g_parse_chunk G", OF ok t(2) attr] by blast
  have t1: "topo_inv (g_peersets G) t1" using data_only_inv p(2) t(2) by (auto simp: trade_keeps_def)
  have run: "handle_chunk_msg G (Some i) buff ps =
      (let ps1 = ps\<lparr>ps_trader := Some ct1, ps_topology := Some t1\<rparr> in
          case c of
            None \<Rightarrow> Inr (Returned ps1)
          | Some k \<Rightarrow>
              (case chunk_trader_add_chunk (g_chunkbuf G) (ps_trader ps1) c of
                 (r, tr) \<Rightarrow>
                   (let ps2 = ps1\<lparr>ps_trader := tr\<rparr> in
                    if r = 0 then
                      ps_bind (ps_ret (reg_chunk_receive (ps_measure ps2) (Some (gc_id k, gc_timestamp k)))) (\<lambda>(_, m).
                      ps_bind (ps_loop (output_deliver (chunk_out ps2) (Some (output_chunk k)))) (\<lambda>(_, out).
                        Inr (Returned (ps2\<lparr>ps_measure := m, chunk_out := out\<rparr>))))
                    else ps_bind (ps_ret (chunk_destroy c)) (\<lambda>_. Inr (Returned ps2)))))"
    using out t(1) ct(1) p(1) by (simp add: handle_chunk_msg_def psinstance_is_source_def)
  show ?thesis
  proof (cases c)
    case None
    then show ?thesis using run inv t1 p(2) ct by (simp add: ps_inv_def ps_same_def trade_keeps_def)
  next
    case (Some k)
    obtain r ct2 where add: "chunk_trader_add_chunk (g_chunkbuf G) (Some ct1) (Some k) = (r, Some ct2)" "trade_keeps ct1 t1 ct2 t1"
      using add_chunk_keeps by blast
    have keep: "trade_keeps ct t ct2 t1" by (rule trade_keeps_trans [OF p(2) add(2)])
    have d: "\<exists>x. chunk_destroy (Some k) = Inr x"
      using p(3) [OF Some] by (cases "ac_attributes k") (auto simp: chunk_destroy_def chunk_attributes_deinit_def)
    obtain q m' where m': "reg_chunk_receive (Some m) (Some (gc_id k, gc_timestamp k)) = Inr (q, Some m')" "cie_state m' \<noteq> Ready"
      using measure_safe [OF m(2)] by blast
    obtain q' co' where co': "output_deliver (Some co) (Some (output_chunk k)) = Some (Inr (q', Some co'))" "out_inv co'"
      using deliver_inv [OF co] by blast
    have "handle_chunk_msg G (Some i) buff ps =
        Inr (Returned (if r = 0 then ps\<lparr>ps_trader := Some ct2, ps_topology := Some t1, ps_measure := Some m', chunk_out := Some co'\<rparr>
          else ps\<lparr>ps_trader := Some ct2, ps_topology := Some t1\<rparr>))"
      using run Some add(1) m m'(1) out co'(1) d by (auto simp: Let_def)
    then show ?thesis using inv t1 keep ct m'(2) co'(2) out by (simp add: ps_inv_def ps_same_def trade_keeps_def)
  qed
qed

lemma recv_remote:
  "recv_from_peer ic now now' s incoming sz = Inr (len, remote, buff, s') \<Longrightarrow> len > 0 \<Longrightarrow> remote \<noteq> None"
proof (cases incoming)
  case (Some x)
  then show "len > 0 \<Longrightarrow> recv_from_peer ic now now' s incoming sz = Inr (len, remote, buff, s') \<Longrightarrow> remote \<noteq> None"
    using recv_from_node by (cases x) fastforce
qed (simp add: recv_from_peer_def)

text \<open>The hazards of a call do not depend on the socket, the descriptors and the timers.\<close>

lemma poll_hazard_cong:
  assumes "poll_hazard G E ps' e" and "ps_same ps ps'" and "ps_topology ps' = ps_topology ps" and "ps_trader ps' = ps_trader ps"
  shows "poll_hazard G E ps e"
  using assms(1)
proof cases
  case (malformed_datagram s addr dg)
  then obtain s0 where "my_sock ps = Some s0" "ln_id s0 = ln_id s" using assms(2) by (cases "my_sock ps") (auto simp: ps_same_def)
  then show ?thesis using poll_hazard.malformed_datagram [of ps s0 E addr dg G e] malformed_datagram by simp
next
  case truncated_message
  then show ?thesis using poll_hazard.truncated_message by metis
next
  case no_input
  then show ?thesis using poll_hazard.no_input [of ps G E] assms(2) by (simp add: ps_same_def)
next
  case (no_offers ct)
  then show ?thesis using poll_hazard.no_offers [of ps ct G E] assms(4) by simp
next
  case (turbo_alone ct t)
  then show ?thesis using poll_hazard.turbo_alone [of ps ct t G E] assms(3,4) by simp
next
  case (turbo_unknown ct t a)
  then show ?thesis using poll_hazard.turbo_unknown [of ps ct t a G E e] assms(3,4) by simp
qed

lemma handle_msg_post:
  assumes G: "grapes_ok G b V" and inv: "ps_inv G ps"
  shows "ps_post (poll_hazard G E ps) (psinstance_handle_msg G (pe_recv_now E) (pe_pop_now E) (pe_incoming E) (pe_trade E) ps)
    (\<lambda>(r, ps'). ps_inv G ps' \<and> ps_same ps ps')"
proof -
  obtain s where s: "my_sock ps = Some s" "node_inv s" "nd_fd (ln_id s) < FD_SETSIZE" using inv unfolding ps_inv_def by blast
  let ?recv = "recv_from_peer (g_coding G) (pe_recv_now E) (pe_pop_now E) s (pe_incoming E) MSG_BUFFSIZE"
  show ?thesis
  proof (cases "\<exists>addr dg. pe_incoming E = Some (addr, dg) \<and> dg \<noteq> [] \<and>
      (\<forall>m. net_msg_decode (g_coding G) (Some (ln_id s)) (Some (empty_node\<lparr>nd_addr := addr\<rparr>)) dg \<noteq> Inr (Some m))")
    case True
    then obtain addr dg where d: "pe_incoming E = Some (addr, dg)" "dg \<noteq> []"
      "\<forall>m. net_msg_decode (g_coding G) (Some (ln_id s)) (Some (empty_node\<lparr>nd_addr := addr\<rparr>)) dg \<noteq> Inr (Some m)" by blast
    then have "\<exists>e. ?recv = Inl e"
      using recv_from_peer_decodes [of "g_coding G" "pe_recv_now E" "pe_pop_now E" s addr dg MSG_BUFFSIZE] by (cases ?recv) auto
    then show ?thesis
      using s(1) poll_hazard.malformed_datagram [OF s(1) d] by (auto simp: psinstance_handle_msg_def)
  next
    case False
    then have dec: "\<exists>m. net_msg_decode (g_coding G) (Some (ln_id s)) (Some (empty_node\<lparr>nd_addr := addr\<rparr>)) dg = Inr (Some m)"
      if "pe_incoming E = Some (addr, dg)" "dg \<noteq> []" for addr dg using that by blast
    obtain len remote buff s' where r: "?recv = Inr (len, remote, buff, s')" and s': "node_inv s'" "ln_id s' = ln_id s"
      by (rule recv_from_peer_ok [OF s(2) dec])
    define ps1 where ps1: "ps1 = ps\<lparr>my_sock := Some s'\<rparr>"
    have inv1: "ps_inv G ps1" "ps_same ps ps1" using inv s s' by (simp_all add: ps1 ps_inv_def ps_same_def)
    have run: "psinstance_handle_msg G (pe_recv_now E) (pe_pop_now E) (pe_incoming E) (pe_trade E) ps =
      (if len < 0 then Inr (Returned (-1, ps1))
       else if len = 0 then Inr (Returned (0, ps1))
       else if buff = [] then Inl Uninit_Read
       else if buff ! 0 = MSG_TYPE_TMAN G \<or> buff ! 0 = MSG_TYPE_NEIGHBOURHOOD \<or> buff ! 0 = MSG_TYPE_TOPOLOGY (g_psample G) then
         ps_bind (ps_ret (handle_topology_msg G remote buff ps1)) (\<lambda>ps2. Inr (Returned (1, ps2)))
       else if buff ! 0 = MSG_TYPE_CHUNK G then
         ps_bind (handle_chunk_msg G remote buff ps1) (\<lambda>ps2. Inr (Returned (2, ps2)))
       else if buff ! 0 = MSG_TYPE_SIGNALLING G then
         ps_bind (ps_ret (handle_signalling_msg G (pe_trade E) remote buff ps1)) (\<lambda>ps2. Inr (Returned (3, ps2)))
       else Inr (Returned (-2, ps1)))"
      using s(1) r by (simp add: psinstance_handle_msg_def ps1 Let_def)
    show ?thesis
    proof (cases "len > 0 \<and> buff \<noteq> []")
      case False
      then show ?thesis
        unfolding run using inv1 poll_hazard.truncated_message [OF r] by auto
    next
      case True
      then obtain i where i: "remote = Some i" using recv_remote [OF r] by blast
      have fin: "ps_post (poll_hazard G E ps) (ps_bind r' (\<lambda>ps2. Inr (Returned (x, ps2)))) (\<lambda>(r, ps'). ps_inv G ps' \<and> ps_same ps ps')"
        if "ps_post H r' (\<lambda>ps'. ps_inv G ps' \<and> ps_same ps1 ps')" and "\<And>e. H e \<Longrightarrow> poll_hazard G E ps e" for r' H and x :: int
        by (rule ps_post_bind [OF ps_post_weaken [OF that(1) _ that(2)]]) (use inv1(2) ps_same_trans in auto)
      show ?thesis
        unfolding run
        using fin [OF handle_topology_post [OF G inv1(1), of buff i]] fin [OF handle_chunk_post [OF G inv1(1), of i buff]]
          fin [OF handle_signalling_post [OF G inv1(1), of "pe_trade E" i buff]] True i inv1 poll_hazard.truncated_message [OF r]
        by auto
    qed
  qed
qed

lemma load_loop_positive:
  assumes "\<forall>a \<in> set bs. \<exists>x > 0. peer_evaluation_turbo h a = Inr x" and "x \<ge> 0"
  shows "\<exists>l. load_loop h bs x = Inr l \<and> l \<ge> x \<and> (bs \<noteq> [] \<longrightarrow> l > x)"
  using assms
proof (induction bs arbitrary: x)
  case (Cons a bs)
  then obtain y where y: "y > 0" "peer_evaluation_turbo h a = Inr y" by auto
  have "\<exists>l. load_loop h bs (x + y) = Inr l \<and> l \<ge> x + y \<and> (bs \<noteq> [] \<longrightarrow> l > x + y)"
    by (rule Cons.IH) (use Cons.prems y in auto)
  then show ?case using y by auto
qed simp

lemma offer_interval_cases:
  assumes inv: "topo_inv A t"
    and "ct_dist_type ct = DIST_TURBO \<longrightarrow> (\<forall>a \<in> ps_set A (neighbourhood t). pr_metadata (the (tp_peers t a)) \<noteq> None)"
  shows "if offer_per_period ct = 0 \<or> ct_dist_type ct = DIST_TURBO \<and> ps_peers A (neighbourhood t) = []
    then chunk_trader_offer_interval A interval t ct = Inl Div_By_Zero
    else \<exists>i. chunk_trader_offer_interval A interval t ct = Inr i"
proof (cases "ct_dist_type ct")
  case DIST_UNIFORM
  then show ?thesis by (simp add: chunk_trader_offer_interval_def)
next
  case DIST_TURBO
  define as where as: "as = ps_peers A (neighbourhood t)"
  have ev: "\<forall>a \<in> set as. \<exists>x > 0. peer_evaluation_turbo (tp_peers t) a = Inr x"
    using neighbours_have_data [OF inv] assms(2) DIST_TURBO
    by (fastforce simp: as peer_evaluation_turbo_def trader_peer_neigh_size_def has_data_def peer_at_def Let_def)
  obtain l where l: "load_loop (tp_peers t) as 0 = Inr l" "l \<ge> 0" "as \<noteq> [] \<longrightarrow> l > 0"
    using load_loop_positive [OF ev, of 0] by auto
  have eq: "chunk_trader_offer_interval A interval t ct =
      (if l = 0 then Inl Div_By_Zero
       else if offer_per_period ct = 0 then Inl Div_By_Zero
       else Inr (rat_trunc (of_int interval * (3 / 4) / l / of_int (offer_per_period ct))))"
    using DIST_TURBO l(1) by (simp add: chunk_trader_offer_interval_def topology_get_neighbours_def as)
  have "as = [] \<Longrightarrow> l = 0" using l(1) by simp
  then show ?thesis using l(3) DIST_TURBO unfolding eq as [symmetric] by auto
qed

lemma offer_loop_cfg:
  "offer_loop I sched clk neighs ch_buff k j h res ct = Inr (r, ct') \<Longrightarrow> trader_cfg ct' = trader_cfg ct"
proof (induction k arbitrary: j res ct)
  case (Suc k)
  obtain pairs where p: "sched j neighs ch_buff (length ch_buff) (Some (peer_needs_chunk_filter I h)) (peer_evaluation ct h) chunk_evaluation_latest = Inr pairs"
    using Suc.prems by (auto simp: c_bind_Inr_conv)
  show ?case
  proof (cases pairs)
    case Nil
    then show ?thesis using Suc p by simp
  next
    case (Cons pr prs)
    obtain a c x where pr: "pr = (a, c)" "peer_at h a = Inr x" using Suc.prems p Cons by (cases pr) (auto simp: c_bind_Inr_conv)
    obtain tid trs where tr: "transaction_create (fst (clk j)) (snd (clk j)) (Some (ct_transactions ct)) (Some (pr_id x)) = (tid, trs)" by fastforce
    show ?thesis
      using Suc.prems p pr(2) tr by (auto simp: Cons pr(1) Let_def trader_cfg_def dest!: Suc.IH)
  qed
qed simp

lemma send_offer_cfg: "chunk_trader_send_offer A B I sched clk t ct = Inr (r, ct') \<Longrightarrow> trader_cfg ct' = trader_cfg ct"
  by (auto simp: chunk_trader_send_offer_def c_bind_Inr_conv dest: offer_loop_cfg)

lemma load_loop_unknown:
  assumes "a \<in> set as" and "h a = Some p" and "pr_metadata p = None"
  shows "\<exists>e. load_loop h as x = Inl e"
  using assms(1)
proof (induction as arbitrary: x)
  case (Cons c cs)
  show ?case
  proof (cases "c = a")
    case True
    then show ?thesis using assms(2,3) by (simp add: peer_evaluation_turbo_def peer_at_def trader_peer_neigh_size_def)
  next
    case False
    then show ?thesis using Cons by (cases "peer_evaluation_turbo h c") auto
  qed
qed simp

lemma poll_offer_fails:
  assumes t: "ps_topology ps = Some t" "topo_inv (g_peersets G) t" and ct: "ps_trader ps = Some ct" "ct_dist_type ct = DIST_TURBO"
    and a: "a \<in> ps_set (g_peersets G) (neighbourhood t)" "pr_metadata (the (tp_peers t a)) = None"
  shows "\<exists>e. poll_offer G E ps = Inl e"
proof (cases "poll_offer G E ps")
  case (Inr ps')
  then obtain m r ct' i where s: "chunk_trader_send_offer (g_peersets G) (g_chunkbuf G) (g_idset G) (g_peer_first G) (pe_offer_clk E) t ct = Inr (r, ct')"
    and i: "chunk_trader_offer_interval (g_peersets G) (chunk_interval_measure m) t ct' = Inr i"
    using t(1) ct(1)
    by (cases "ps_measure ps") (auto simp: poll_offer_def psinstance_send_offer_def psinstance_trader_def psinstance_topology_def psinstance_measures_def c_bind_Inr_conv)
  have "ct_dist_type ct' = DIST_TURBO" using send_offer_cfg [OF s] ct(2) by (simp add: trader_cfg_def)
  moreover obtain p where "tp_peers t a = Some p" using neighbours_have_data [OF t(2)] a(1) by (auto simp: has_data_def)
  then have "\<exists>e. load_loop (tp_peers t) (ps_peers (g_peersets G) (neighbourhood t)) 0 = Inl e" using load_loop_unknown [OF a(1)] a(2) by simp
  ultimately show ?thesis using i by (auto simp: chunk_trader_offer_interval_def topology_get_neighbours_def)
qed simp

lemma poll_offer_post:
  assumes G: "grapes_ok G b V" and inv: "ps_inv G ps"
  shows "ps_post (poll_hazard G E ps) (ps_ret (poll_offer G E ps)) (\<lambda>ps'. ps_inv G ps' \<and> ps_same ps ps')"
proof -
  obtain t ct m where t: "ps_topology ps = Some t" "topo_inv (g_peersets G) t" and ct: "ps_trader ps = Some ct" "cl_wf (ch_locks ct)"
    and m: "ps_measure ps = Some m"
    using inv unfolding ps_inv_def by blast
  have sched: "\<And>j. sched_ok (g_peer_first G j)" using G by (simp add: grapes_ok_def)
  show ?thesis
  proof (cases "ct_dist_type ct = DIST_TURBO \<and> (\<exists>a \<in> ps_set (g_peersets G) (neighbourhood t). pr_metadata (the (tp_peers t a)) = None)")
    case True
    then obtain a where a: "a \<in> ps_set (g_peersets G) (neighbourhood t)" "pr_metadata (the (tp_peers t a)) = None" by blast
    have h: "poll_hazard G E ps e" for e by (rule poll_hazard.turbo_unknown [OF ct(1) _ t(1) a]) (use True in simp)
    show ?thesis using poll_offer_fails [OF t ct(1) _ a, of E] True h by auto
  next
    case meta: False
    then have meta': "ct_dist_type ct = DIST_TURBO \<longrightarrow> (\<forall>a \<in> ps_set (g_peersets G) (neighbourhood t). pr_metadata (the (tp_peers t a)) \<noteq> None)"
      by simp
    obtain r ct' where o: "chunk_trader_send_offer (g_peersets G) (g_chunkbuf G) (g_idset G) (g_peer_first G) (pe_offer_clk E) t ct = Inr (r, ct')"
      "trade_keeps ct t ct' t"
      using send_offer_safe [where sched = "g_peer_first G" and B = "g_chunkbuf G" and I = "g_idset G" and clk = "pe_offer_clk E" and ct = ct, OF sched t(2) meta']
      by (elim exE conjE)
    define ps1 where ps1: "ps1 = ps\<lparr>ps_trader := Some ct'\<rparr>"
    have cfg: "ct_dist_type ct' = ct_dist_type ct" "offer_per_period ct' = offer_per_period ct"
      using o(2) by (simp_all add: trade_keeps_def trader_cfg_def)
    let ?i = "chunk_trader_offer_interval (g_peersets G) (chunk_interval_measure m) t ct'"
    have run: "poll_offer G E ps = c_bind ?i (\<lambda>i. Inr (ps1\<lparr>chunk_offer_interval := i, ps_timers := streaming_timers_update_offer_time (ps_timers ps1) i\<rparr>))"
      using t(1) ct(1) m o(1)
      by (simp add: poll_offer_def psinstance_send_offer_def ps1 psinstance_trader_def psinstance_topology_def psinstance_measures_def)
    have meta2: "ct_dist_type ct' = DIST_TURBO \<longrightarrow> (\<forall>a \<in> ps_set (g_peersets G) (neighbourhood t). pr_metadata (the (tp_peers t a)) \<noteq> None)"
      using meta' cfg by simp
    note ivl = offer_interval_cases [OF t(2) meta2, of "chunk_interval_measure m"]
    show ?thesis
    proof (cases "offer_per_period ct = 0 \<or> ct_dist_type ct = DIST_TURBO \<and> ps_peers (g_peersets G) (neighbourhood t) = []")
      case True
      then have "?i = Inl Div_By_Zero" using ivl cfg by simp
      then show ?thesis
        unfolding run using True poll_hazard.no_offers [OF ct(1), of G E] poll_hazard.turbo_alone [OF ct(1) _ t(1), of G E] by auto
    next
      case False
      then obtain i where "?i = Inr i" using ivl cfg by auto
      then show ?thesis
        unfolding run using inv o(2) ct by (simp add: ps1 ps_inv_def ps_same_def trade_keeps_def)
    qed
  qed
qed

lemma set_bmap_keeps:
  assumes "set_bmap a f ts t = Inr t'"
  shows "data_only t t'"
proof -
  obtain p u where "tp_peers t a = Some p" "pr_user_data p = Some u"
    using assms by (auto simp: set_bmap_def peer_at_def c_bind_Inr_conv split: option.split_asm)
  then show ?thesis using set_bmap_data [of t a p u f ts] assms by auto
qed

lemma chunk_send_loop_keeps:
  "chunk_send_loop B I sres tid i res pairs ct t = Inr (r, ct', t') \<Longrightarrow> trade_keeps ct t ct' t'"
proof (induction pairs arbitrary: i res ct t)
  case (Cons pr pairs)
  obtain a c where pr: "pr = (a, c)" by (cases pr)
  obtain p k t1 where s: "tp_peers t a = Some p" "cb_get_chunk B (ct_cb ct) c = Some k"
    "(if sres i \<ge> 0 then set_bmap a (\<lambda>b. is_add I b (gc_id k)) None t else Inr t) = Inr t1"
    "chunk_send_loop B I sres tid (Suc i) (sres i) pairs (ct\<lparr>ct_sent := ct_sent ct @ [Send_chunk (pr_id p) k tid]\<rparr>) t1 = Inr (r, ct', t')"
    using Cons.prems by (auto simp: pr peer_at_def Let_def c_bind_Inr_conv split: option.split_asm)
  have "data_only t t1" using s(3) set_bmap_keeps by (auto split: if_split_asm)
  then have "trade_keeps ct t (ct\<lparr>ct_sent := ct_sent ct @ [Send_chunk (pr_id p) k tid]\<rparr>) t1"
    by (simp add: trade_keeps_def trader_cfg_def)
  then show ?case using Cons.IH [OF s(4)] trade_keeps_trans by blast
qed simp

lemma push_chunk_keeps:
  "chunk_trader_push_chunk A B I sched sres ct c m t = Inr (r, ct', t') \<Longrightarrow> trade_keeps ct t ct' t'"
  by (auto simp: chunk_trader_push_chunk_def peer_chunk_send_def Let_def c_bind_Inr_conv dest!: chunk_send_loop_keeps
      split: option.split_asm if_split_asm)

lemma input_chunk_attributes: "input_chunk ch now s = Some (Some k, delta, s') \<Longrightarrow> ac_attributes k = Attr 0"
  by (auto simp: input_chunk_def chunk_attributes_init_def split: prod.split_asm if_split_asm)

text \<open>Seeding a chunk that the buffer has taken.\<close>

lemma inject_push_post:
  assumes G: "grapes_ok G b V" and inv: "ps_inv G ps" and t: "ps_topology ps = Some t" and ct: "ps_trader ps = Some ct"
    and same: "ps_inv G ps1" "ps_same ps ps1" and k2: "trade_keeps ct t ct2 t" and cb: "cb_get_chunk (g_chunkbuf G) (ct_cb ct2) (gc_id k) \<noteq> None"
  shows "ps_post (poll_hazard G E ps)
    (ps_bind (ps_ret (chunk_trader_push_chunk (g_peersets G) (g_chunkbuf G) (g_idset G) (g_chunk_first G) sres ct2 (Some k) m t))
       (\<lambda>(_, ct', t'). Inr (Returned (0 :: int, Some (ps1\<lparr>ps_trader := Some ct', ps_topology := Some t'\<rparr>)))))
    (\<lambda>(r, pso). \<exists>ps'. pso = Some ps' \<and> ps_inv G ps' \<and> ps_same ps ps')"
proof (cases "chunk_trader_push_chunk (g_peersets G) (g_chunkbuf G) (g_idset G) (g_chunk_first G) sres ct2 (Some k) m t")
  case (Inr x)
  obtain q ct3 t3 where x: "x = (q, ct3, t3)" by (cases x)
  have k3: "trade_keeps ct t ct3 t3" using trade_keeps_trans [OF k2] push_chunk_keeps Inr x by blast
  have i: "topo_inv (g_peersets G) t" "cl_wf (ch_locks ct)" using inv t ct by (simp_all add: ps_inv_def)
  then have "topo_inv (g_peersets G) t3" "cl_wf (ch_locks ct3)" "trader_cfg ct3 = trader_cfg ct"
    using k3 data_only_inv by (auto simp: trade_keeps_def)
  then show ?thesis using Inr x same ct by (auto simp: ps_inv_def ps_same_def)
next
  case (Inl e)
  have inv_t: "topo_inv (g_peersets G) t" using inv t by (simp add: ps_inv_def)
  have sched: "sched_ok (g_chunk_first G)" using G by (simp add: grapes_ok_def)
  have cfg: "ct_dist_type ct2 = ct_dist_type ct" using k2 by (simp add: trade_keeps_def trader_cfg_def)
  have "\<not> (ct_dist_type ct2 = DIST_TURBO \<longrightarrow> (\<forall>a \<in> ps_set (g_peersets G) (neighbourhood t). pr_metadata (the (tp_peers t a)) \<noteq> None))"
  proof
    assume "ct_dist_type ct2 = DIST_TURBO \<longrightarrow> (\<forall>a \<in> ps_set (g_peersets G) (neighbourhood t). pr_metadata (the (tp_peers t a)) \<noteq> None)"
    from push_chunk_safe [where I = "g_idset G" and sres = sres and m = m, OF sched inv_t cb this]
    show False using Inl by auto
  qed
  then obtain a where "ct_dist_type ct = DIST_TURBO" "a \<in> ps_set (g_peersets G) (neighbourhood t)" "pr_metadata (the (tp_peers t a)) = None"
    using cfg by auto
  then have "poll_hazard G E ps e" by (rule poll_hazard.turbo_unknown [OF ct _ t])
  then show ?thesis using Inl by simp
qed

lemma inject_post:
  assumes G: "grapes_ok G b V" and inv: "ps_inv G ps"
  shows "ps_post (poll_hazard G E ps) (psinstance_inject_chunk G now sres (Some ps)) (\<lambda>(r, pso). \<exists>ps'. pso = Some ps' \<and> ps_inv G ps' \<and> ps_same ps ps')"
proof (cases "chunk_out ps = None")
  case False
  then obtain co where "chunk_out ps = Some co" by auto
  then show ?thesis using inv by (simp add: psinstance_inject_chunk_def psinstance_is_source_def ps_same_def)
next
  case src: True
  obtain t ct where t: "ps_topology ps = Some t" "topo_inv (g_peersets G) t" and ct: "ps_trader ps = Some ct" "cl_wf (ch_locks ct)"
    using inv unfolding ps_inv_def by blast
  show ?thesis
  proof (cases "ps_input ps")
    case None
    then show ?thesis
      using src poll_hazard.no_input [OF src None, of G E] by (simp add: psinstance_inject_chunk_def psinstance_is_source_def)
  next
    case (Some inp)
    show ?thesis
    proof (cases "input_chunk (g_chunkise G) now inp")
      case None
      then show ?thesis using src Some by (simp add: psinstance_inject_chunk_def psinstance_is_source_def)
    next
      case (Some res)
      then obtain c delta inp' where i: "input_chunk (g_chunkise G) now inp = Some (c, delta, inp')" by (cases res) auto
      define ps1 where ps1: "ps1 = ps\<lparr>ps_input := Some inp', chunk_time_interval := delta\<rparr>"
      have inv1: "ps_inv G ps1" "ps_same ps ps1" using inv \<open>ps_input ps = Some inp\<close> by (simp_all add: ps1 ps_inv_def ps_same_def)
      show ?thesis
      proof (cases c)
        case None
        then show ?thesis
          using src \<open>ps_input ps = Some inp\<close> i inv1 by (simp add: psinstance_inject_chunk_def psinstance_is_source_def ps1 [symmetric] Let_def)
      next
        case (Some k)
        obtain r ct2 where add: "chunk_trader_add_chunk (g_chunkbuf G) (Some ct) (Some k) = (r, Some ct2)" "trade_keeps ct t ct2 t"
          "r = 0 \<longleftrightarrow> fst (cb_add_chunk (g_chunkbuf G) (ct_cb ct) k) \<ge> 0" "ct_cb ct2 = snd (cb_add_chunk (g_chunkbuf G) (ct_cb ct) k)"
          using add_chunk_keeps by blast
        have d: "\<exists>x. chunk_destroy (Some k) = Inr x"
          using input_chunk_attributes [OF i [unfolded Some]] by (simp add: chunk_destroy_def chunk_attributes_deinit_def)
        let ?push = "chunk_trader_push_chunk (g_peersets G) (g_chunkbuf G) (g_idset G) (g_chunk_first G) sres ct2 (Some k) (source_multiplicity ps1) t"
        have run: "psinstance_inject_chunk G now sres (Some ps) =
          (if r = 0 then ps_bind (ps_ret ?push) (\<lambda>(_, ct', t'). Inr (Returned (0, Some (ps1\<lparr>ps_trader := Some ct', ps_topology := Some t'\<rparr>))))
           else Inr (Returned (0, Some (ps1\<lparr>ps_trader := Some ct2\<rparr>))))"
          using src \<open>ps_input ps = Some inp\<close> i Some add(1) d t(1) ct(1)
          by (auto simp: psinstance_inject_chunk_def psinstance_is_source_def ps1 Let_def)
        show ?thesis
        proof (cases "r = 0")
          case False
          then show ?thesis unfolding run using inv1 add(2) ct by (auto simp: ps1 ps_inv_def ps_same_def trade_keeps_def)
        next
          case True
          have cb: "cb_get_chunk (g_chunkbuf G) (ct_cb ct2) (gc_id k) \<noteq> None"
            using G add(3,4) True by (simp add: grapes_ok_def chunkbuf_ok_def)
          show ?thesis
            unfolding run if_P [OF True] by (rule inject_push_post [OF G inv t(1) ct(1) inv1 add(2) cb])
        qed
      qed
    qed
  qed
qed

lemma topology_update_post:
  assumes G: "grapes_ok G b V" and inv: "ps_inv G ps" and rand: "\<And>i. pe_rand1 E i \<le> RAND_MAX" "\<And>i. pe_rand2 E i \<le> RAND_MAX"
  shows "ps_post (\<lambda>_. False) (run_topology_update G E ps) (\<lambda>ps'. ps_inv G ps' \<and> ps_same ps ps')"
proof -
  obtain t ct where t: "ps_topology ps = Some t" "topo_inv (g_peersets G) t" and ct: "ps_trader ps = Some ct"
    using inv unfolding ps_inv_def by blast
  have laws: "peerset_ok (g_peersets G) b" "\<And>c xs. mset (g_qsort G c xs) = mset xs" "\<And>p. length (sa_cache (g_psample G) p) \<le> length (sa_metadata (g_psample G) p)"
    using G by (simp_all add: grapes_ok_def qsort_ok_def samples_ok_def)
  define size where size: "size = (if psinstance_is_source ps then 0 else chunk_trader_buffer_size ct)"
  obtain N W L where v: "topo_view (g_peersets G) t = (N, W, L)" by (cases "topo_view (g_peersets G) t") auto
  obtain t' where t': "topology_update (g_peersets G) (g_psample G) (g_coding G) (g_qsort G) (pe_topo_now E) (pe_rand1 E) (pe_rand2 E)
      (psinstance_is_source ps) size t = Some (Inr t')" "topo_inv (g_peersets G) t'"
    using topology_update_lemma [where ?r1.0 = "pe_rand1 E" and ?r2.0 = "pe_rand2 E" and qsort = "g_qsort G" and S = "g_psample G" and ic = "g_coding G" and
        tnow = "pe_topo_now E" and src = "psinstance_is_source ps" and bs = size, OF laws(1) t(2) v rand laws(2,3)] by blast
  have "run_topology_update G E ps = Inr (Returned (ps\<lparr>ps_topology := Some t'\<rparr>))"
    using t(1) ct t'(1) by (cases "psinstance_is_source ps") (simp_all add: run_topology_update_def psinstance_trader_def size)
  then show ?thesis using inv t'(2) by (simp add: ps_inv_def ps_same_def)
qed

lemma wait4data_safe:
  assumes "int_coding_ok ic" and "node_inv s" and "nd_fd (ln_id s) < FD_SETSIZE" and "fds \<noteq> []" and "fds ! 0 = -1"
  shows "\<exists>w. wait4data ic rounds isset s tout (Some fds) = Inr w \<and>
    (case w of None \<Rightarrow> True | Some (st, s', tout', fds', out) \<Rightarrow> node_inv s' \<and> ln_id s' = ln_id s \<and> fds' = Some fds)"
proof -
  obtain rest where fds: "fds = -1 # rest" using assms(4,5) by (cases fds) auto
  obtain s' tout' out r where l: "wait4data_loop ic rounds s tout [] = Inr (s', tout', out, r)" "node_inv s'" "ln_id s' = ln_id s"
    using wait4data_loop_inv [OF assms(1,2)] by blast
  have "\<exists>st. wait4data_result (Some (ln_id s')) x isset (Some []) = Inr (st, Some [])" for x
    by (simp add: wait4data_result_def)
  moreover have "wait4data ic rounds isset s tout (Some fds) =
      (case r of None \<Rightarrow> Inr None
       | Some x \<Rightarrow> c_bind (wait4data_result (Some (ln_id s')) x isset (Some [])) (\<lambda>(state, fds').
            Inr (Some (state, s', tout', user_fds_after (Some fds) fds', out))))"
    using l(1) assms(3) by (cases r) (simp_all add: wait4data_def fds)
  ultimately have w: "wait4data ic rounds isset s tout (Some fds) =
      (case r of None \<Rightarrow> Inr None
       | Some x \<Rightarrow> c_bind (wait4data_result (Some (ln_id s')) x isset (Some [])) (\<lambda>(state, fds').
            Inr (Some (state, s', tout', user_fds_after (Some fds) fds', out))))"
    and res: "\<And>x. \<exists>st. wait4data_result (Some (ln_id s')) x isset (Some []) = Inr (st, Some [])"
    by blast+
  show ?thesis
  proof (cases r)
    case (Some x)
    obtain st where "wait4data_result (Some (ln_id s')) x isset (Some []) = Inr (st, Some [])" using res by blast
    then show ?thesis using w l(2,3) by (simp add: Some fds user_fds_after_def)
  qed (simp add: w)
qed

lemma ps_inv_sock:
  "ps_inv G ps \<Longrightarrow> node_inv s' \<Longrightarrow> my_sock ps = Some s \<Longrightarrow> ln_id s' = ln_id s \<Longrightarrow>
    ps_inv G (ps\<lparr>my_sock := Some s', ps_timers := tm\<rparr>) \<and> ps_same ps (ps\<lparr>my_sock := Some s', ps_timers := tm\<rparr>)"
  by (simp add: ps_inv_def ps_same_def)

lemma ps_timers_inv [simp]:
  "ps_inv G (ps\<lparr>ps_timers := tm\<rparr>) = ps_inv G ps" "ps_same ps0 (ps\<lparr>ps_timers := tm\<rparr>) = ps_same ps0 ps"
  by (simp_all add: ps_inv_def ps_same_def)

lemma poll_inject_post:
  assumes "grapes_ok G b V" and "ps_inv G ps"
  shows "ps_post (poll_hazard G E ps) (poll_inject G E ps) (\<lambda>ps'. ps_inv G ps' \<and> ps_same ps ps')"
  unfolding poll_inject_def
  by (rule ps_post_bind [OF inject_post [OF assms]]) auto

lemma poll_action_post:
  assumes "grapes_ok G b V" and "ps_inv G ps"
  shows "ps_post (poll_hazard G E ps) (poll_action G E a ps) (\<lambda>ps'. ps_inv G ps' \<and> ps_same ps ps')"
proof (cases a)
  case PARSE_MSG_ACTION
  show ?thesis
    unfolding poll_action_def PARSE_MSG_ACTION streaming_action.case
    by (rule ps_post_bind [OF handle_msg_post [OF assms]]) auto
qed (simp_all add: poll_action_def poll_inject_post [OF assms] poll_offer_post [OF assms] assms)

lemma poll_post:
  assumes G: "grapes_ok G b V" and inv: "ps_inv G ps" and rand: "\<And>i. pe_rand1 E i \<le> RAND_MAX" "\<And>i. pe_rand2 E i \<le> RAND_MAX"
  shows "ps_post (poll_hazard G E ps) (psinstance_poll G E (Some ps) delta) (\<lambda>(r, ps', out). ps_inv G ps' \<and> ps_same ps ps')"
proof -
  obtain s where s: "my_sock ps = Some s" "node_inv s" "nd_fd (ln_id s) < FD_SETSIZE" using inv unfolding ps_inv_def by blast
  have fds: "inc_fds (ps_inc ps) \<noteq> []" "inc_fds (ps_inc ps) ! 0 = -1" using inv unfolding ps_inv_def by simp_all
  define timers where tm: "timers = streaming_timers_set_timeout (pe_now E) (ps_timers ps) delta (psinstance_is_source ps \<and> inc_fds (ps_inc ps) ! 0 = -1)"
  obtain w where w: "wait4data (g_coding G) (pe_rounds E) (pe_isset E) s (sleep_timer timers) (Some (inc_fds (ps_inc ps))) = Inr w"
    "case w of None \<Rightarrow> True | Some (st, s', tout', fds', out) \<Rightarrow> node_inv s' \<and> ln_id s' = ln_id s \<and> fds' = Some (inc_fds (ps_inc ps))"
    using wait4data_safe [OF _ s(2,3) fds] G unfolding grapes_ok_def by blast
  show ?thesis
  proof (cases w)
    case None
    then show ?thesis using s w(1) by (simp add: psinstance_poll_def Let_def tm [symmetric])
  next
    case (Some res)
    then obtain st s' tout' out where res: "w = Some (st, s', tout', Some (inc_fds (ps_inc ps)), out)" "node_inv s'" "ln_id s' = ln_id s"
      using w(2) by (cases res) auto
    obtain a tm2 where a: "streaming_timers_state_handler (pe_epoch E) (timers\<lparr>sleep_timer := tout'\<rparr>) st (psinstance_is_source ps) = (a, tm2)"
      by (cases "streaming_timers_state_handler (pe_epoch E) (timers\<lparr>sleep_timer := tout'\<rparr>) st (psinstance_is_source ps)")
    define ps1 where ps1: "ps1 = ps\<lparr>my_sock := Some s', ps_timers := tm2\<rparr>"
    have inv1: "ps_inv G ps1" "ps_same ps ps1" using ps_inv_sock [OF inv res(2) s(1) res(3)] by (simp_all add: ps1)
    have eq: "ps\<lparr>my_sock := Some s', ps_inc := (ps_inc ps)\<lparr>inc_fds := inc_fds (ps_inc ps)\<rparr>, ps_timers := tm2\<rparr> = ps1"
      by (simp add: ps1)
    have haz: "poll_hazard G E ps e" if "poll_hazard G E ps1 e" for e
      by (rule poll_hazard_cong [OF that inv1(2)]) (simp_all add: ps1)
    have act: "ps_post (poll_hazard G E ps) (poll_action G E a ps1) (\<lambda>ps'. ps_inv G ps' \<and> ps_same ps ps')"
      by (rule ps_post_weaken [OF poll_action_post [OF G inv1(1)] _ haz]) (use inv1(2) ps_same_trans in blast)
    have tail: "ps_post (poll_hazard G E ps)
        (case streaming_timers_update_flag (ps_timers ps2) of
           (flag, timers2) \<Rightarrow>
             ps_bind (if flag \<noteq> 0 then run_topology_update G E (ps2\<lparr>ps_timers := timers2\<rparr>) else Inr (Returned (ps2\<lparr>ps_timers := timers2\<rparr>)))
               (\<lambda>ps3. Inr (Returned (st, ps3, out))))
        (\<lambda>(r, ps', out). ps_inv G ps' \<and> ps_same ps ps')" if i2: "ps_inv G ps2 \<and> ps_same ps ps2" for ps2
    proof -
      obtain flag timers2 where f: "streaming_timers_update_flag (ps_timers ps2) = (flag, timers2)" by (cases "streaming_timers_update_flag (ps_timers ps2)")
      have i3: "ps_inv G (ps2\<lparr>ps_timers := timers2\<rparr>)" "ps_same ps (ps2\<lparr>ps_timers := timers2\<rparr>)" using i2 by simp_all
      have "ps_post (poll_hazard G E ps)
          (if flag \<noteq> 0 then run_topology_update G E (ps2\<lparr>ps_timers := timers2\<rparr>) else Inr (Returned (ps2\<lparr>ps_timers := timers2\<rparr>)))
          (\<lambda>ps'. ps_inv G ps' \<and> ps_same ps ps')"
      proof (cases "flag \<noteq> 0")
        case True
        show ?thesis
          unfolding if_P [OF True]
          by (rule ps_post_weaken [OF topology_update_post [OF G i3(1) rand]]) (use i3(2) ps_same_trans in blast)+
      qed (use i3 in simp)
      then show ?thesis unfolding f prod.case by (rule ps_post_bind) simp
    qed
    have "psinstance_poll G E (Some ps) delta = ps_bind (poll_action G E a ps1) (\<lambda>ps2.
        case streaming_timers_update_flag (ps_timers ps2) of
           (flag, timers2) \<Rightarrow>
             ps_bind (if flag \<noteq> 0 then run_topology_update G E (ps2\<lparr>ps_timers := timers2\<rparr>) else Inr (Returned (ps2\<lparr>ps_timers := timers2\<rparr>)))
               (\<lambda>ps3. Inr (Returned (st, ps3, out))))"
      using s w(1) a eq by (simp add: psinstance_poll_def Let_def tm [symmetric] res(1))
    then show ?thesis using ps_post_bind [OF act tail] by simp
  qed
qed

lemma send_all_keeps:
  "node_inv s \<Longrightarrow> send_all_to_peers clk j ms s = Inr s' \<Longrightarrow> node_inv s' \<and> ln_id s' = ln_id s"
proof (induction ms arbitrary: s j)
  case (Cons m ms)
  obtain to msg where m: "m = (to, msg)" by (cases m)
  obtain r so where s: "send_to_peer (fst (clk j)) (snd (clk j)) (Some s) (Some to) (Some msg) = Inr (r, so)"
    "c_bind (deref so) (send_all_to_peers clk (Suc j) ms) = Inr s'"
    using Cons.prems(2) by (auto simp: m c_bind_Inr_conv)
  obtain s1 where s1: "so = Some s1" "node_inv s1" "ln_id s1 = ln_id s" by (rule send_to_peer_ok [OF Cons.prems(1) s(1)])
  then show ?case using Cons.IH [OF s1(2), of "Suc j"] s(2) by simp
qed simp

lemma topo_inv_sent [simp]: "topo_inv A (t\<lparr>tp_sent := xs\<rparr>) = topo_inv A t"
  by (simp add: topo_inv_def)

lemma hand_over_keeps:
  assumes "ps_inv G ps" and "ps_hand_over G clk ps = Inr ps'"
  shows "ps_inv G ps' \<and> ps_same ps ps'"
proof -
  obtain s where s: "my_sock ps = Some s" "node_inv s" using assms(1) unfolding ps_inv_def by blast
  then obtain s' where s': "send_all_to_peers clk 0 (ps_pending G ps) s = Inr s'"
    and ps': "ps' = ps\<lparr>my_sock := Some s', ps_trader := map_option (\<lambda>ct. ct\<lparr>ct_sent := []\<rparr>) (ps_trader ps),
                 ps_topology := map_option (\<lambda>t. t\<lparr>tp_sent := []\<rparr>) (ps_topology ps)\<rparr>"
    using assms(2) by (auto simp: ps_hand_over_def c_bind_Inr_conv)
  have "node_inv s'" "ln_id s' = ln_id s" using send_all_keeps [OF s(2) s'] by simp_all
  then show ?thesis
    using assms(1) s unfolding ps' by (auto simp: ps_inv_def ps_same_def trader_cfg_def option.map_comp o_def)
qed

section \<open>Creation\<close>

text \<open>What the configuration and the system must give: fragments that are not empty, an output window that is not empty, and a
  descriptor that fits into an \<open>fd_set\<close>.\<close>

definition create_ok :: "('s, 'p, 'k, 'i, 'src) host \<Rightarrow> config \<Rightarrow> bool" where
  "create_ok H cfg \<longleftrightarrow>
     config_int (Some (cfg_int cfg)) ''frag_size'' DEFAULT_FRAG_SIZE mod 2 ^ 64 \<noteq> 0 \<and>
     (\<forall>v. cfg_int cfg ''outbuff_size'' = Some v \<longrightarrow> v \<le> 0 \<or> v mod 2 ^ 16 \<noteq> 0) \<and>
     h_socket H < FD_SETSIZE \<and> finite (dom (tp_peers (h_raw_topology H)))"

lemma init_descriptor:
  "net_helper_init nh sock bind_res bound tv addr port ci cd = Inr (Some s) \<Longrightarrow> nd_fd (ln_id s) = sock"
  by (auto simp: net_helper_init_def Let_def split: if_splits option.splits sock_addr.splits)

lemma copy_fds_nonempty: "copy_fds xs k fds = Inr fds' \<Longrightarrow> length fds' = length fds"
  by (induction xs k fds rule: copy_fds.induct) (auto split: if_split_asm)

lemma input_open_length: "input_open so gf tv fn fds sz = Inr (inp, fds') \<Longrightarrow> length fds' = length fds"
  by (auto simp: input_open_def c_bind_Inr_conv copy_fds_nonempty split: option.split_asm prod.split_asm if_split_asm)

lemma output_create_inv:
  assumes "create_ok H cfg" and "output_create (cfg_int cfg ''outbuff_size'') re ok raw = Some co"
  shows "out_inv co"
proof -
  define v where "v = (case cfg_int cfg ''outbuff_size'' of Some v \<Rightarrow> v | None \<Rightarrow> 75)"
  have "(if v > 0 then v else 75) mod 2 ^ 16 \<noteq> 0"
    using assms(1) by (cases "cfg_int cfg ''outbuff_size''") (auto simp: create_ok_def v_def)
  then have "unat (of_int (if v > 0 then v else 75) :: u16) \<noteq> 0"
    by (simp add: unat_eq_0 word_of_int_eq_0_iff dvd_eq_mod_eq_0)
  moreover have "co_buff_length co = unat (of_int (if v > 0 then v else 75) :: u16)"
    using assms(2) by (auto simp: output_create_def Let_def v_def split: if_split_asm)
  ultimately show ?thesis using co_fresh_create [OF assms(2)] by (simp add: out_inv_def)
qed

text \<open>The common parts.\<close>

lemma create_components_inv:
  assumes "peerset_ok (g_peersets G) b" and "create_ok H cfg"
    and "my_sock ps = Some s" "node_inv s" "nd_fd (ln_id s) < FD_SETSIZE"
  defines "ps2 \<equiv> create_components G H cfg ps"
  shows "\<exists>s. my_sock ps2 = Some s \<and> node_inv s \<and> nd_fd (ln_id s) < FD_SETSIZE"
    and "\<exists>t. ps_topology ps2 = Some t \<and> topo_inv (g_peersets G) t"
    and "\<exists>ct. ps_trader ps2 = Some ct \<and> cl_wf (ch_locks ct)"
    and "\<exists>m. ps_measure ps2 = Some m \<and> cie_state m \<noteq> Ready"
    and "ps_inc ps2 = ps_inc ps" "chunk_out ps2 = None"
  using assms
  by (simp_all add: ps2_def create_components_def create_ok_def chunk_trader_create_def measures_create_def topo_inv_create [OF assms(1)])

lemma node_init_ok:
  assumes "create_ok H cfg" and "node_init H cfg ps = Inr (0, ps1)"
  shows "ps_inc ps1 = ps_inc ps \<and> (\<exists>s. my_sock ps1 = Some s \<and> node_inv s \<and> nd_fd (ln_id s) < FD_SETSIZE)"
proof -
  obtain addr so where so: "net_helper_init (h_numeric_host H) (h_socket H) (h_bind H) (h_bound_port H) (h_shaper_now H) addr (ps_port ps)
      (Some (cfg_int cfg)) (Some (cfg_double cfg)) = Inr so" "so \<noteq> None" "ps1 = ps\<lparr>my_sock := so\<rparr>"
    using assms(2) by (auto simp: node_init_def c_bind_Inr_conv split: if_split_asm option.split_asm)
  obtain s where s: "so = Some s" using so(2) by auto
  have "node_inv s" "nd_fd (ln_id s) < FD_SETSIZE"
    using net_helper_init_inv [OF so(1) [unfolded s]] init_descriptor [OF so(1) [unfolded s]] assms(1) by (simp_all add: create_ok_def)
  then show ?thesis using so(3) s by simp
qed

definition start_psinstance :: "('s, 'p, 'k, 'i, 'src) psinstance" where
  "start_psinstance = zero_psinstance\<lparr>chunk_time_interval := 0, chunk_offer_interval := 1000000 div 25\<rparr>"

lemma ps_bind_returned: "ps_bind r f = Inr (Returned x) \<longleftrightarrow> (\<exists>y. r = Inr (Returned y) \<and> f y = Inr (Returned x))"
  by (auto simp: ps_bind_def c_bind_def split: sum.split outcome.split)

lemma ps_ret_returned: "ps_ret r = Inr (Returned x) \<longleftrightarrow> r = Inr x"
  by (cases r) simp_all

lemma create_cases:
  assumes "psinstance_create G H cfg clk srv_ip srv_port = Inr (Returned (Some ps))"
  obtains ps0 ps1 where "config_parse cfg start_psinstance = Inr (0, ps0)" and "node_init H cfg ps0 = Inr (0, ps1)"
    and "(srv_port = 0 \<and> create_source H (create_components G H cfg ps1) = Inr ps) \<or>
         (\<exists>srv. srv_port \<noteq> 0 \<and> create_peer G H cfg srv (create_components G H cfg ps1) = Inr ps)"
proof -
  have g: "srv_ip \<noteq> None \<and> 0 \<le> srv_port \<and> srv_port < 65536"
  proof (rule ccontr)
    assume n: "\<not> (srv_ip \<noteq> None \<and> 0 \<le> srv_port \<and> srv_port < 65536)"
    show False using assms unfolding psinstance_create_def if_not_P [OF n] by simp
  qed
  obtain x where x: "config_parse cfg start_psinstance = Inr x" "(case x of (_, ps0) \<Rightarrow>
        ps_bind (ps_ret (node_init H cfg ps0)) (\<lambda>(res, ps1).
          if res = 0 then
            (let ps2 = create_components G H cfg ps1 in
             if srv_port \<noteq> 0 then
               (case create_node (h_numeric_host H) srv_ip srv_port of
                  Some srv \<Rightarrow> ps_bind (ps_ret (create_peer G H cfg srv ps2)) (\<lambda>ps3. Inr (Returned (Some ps3)))
                | None \<Rightarrow> ps_bind (psinstance_destroy G clk (Some ps2)) (\<lambda>_. Inr (Returned None)))
             else ps_bind (ps_ret (create_source H ps2)) (\<lambda>ps3. Inr (Returned (Some ps3))))
          else ps_bind (psinstance_destroy G clk (Some ps1)) (\<lambda>_. Inr (Returned None)))) = Inr (Returned (Some ps))"
    using assms unfolding psinstance_create_def start_psinstance_def [symmetric] if_P [OF g] ps_bind_returned [of "ps_ret (config_parse cfg start_psinstance)"]
    by (simp only: ps_ret_returned) (elim exE conjE)
  obtain r ps0 where r0: "x = (r, ps0)" by (cases x)
  obtain y where y: "node_init H cfg ps0 = Inr y" "(case y of (res, ps1) \<Rightarrow>
          if res = 0 then
            (let ps2 = create_components G H cfg ps1 in
             if srv_port \<noteq> 0 then
               (case create_node (h_numeric_host H) srv_ip srv_port of
                  Some srv \<Rightarrow> ps_bind (ps_ret (create_peer G H cfg srv ps2)) (\<lambda>ps3. Inr (Returned (Some ps3)))
                | None \<Rightarrow> ps_bind (psinstance_destroy G clk (Some ps2)) (\<lambda>_. Inr (Returned None)))
             else ps_bind (ps_ret (create_source H ps2)) (\<lambda>ps3. Inr (Returned (Some ps3))))
          else ps_bind (psinstance_destroy G clk (Some ps1)) (\<lambda>_. Inr (Returned None))) = Inr (Returned (Some ps))"
    using x(2) unfolding r0 prod.case ps_bind_returned [of "ps_ret (node_init H cfg ps0)"] by (simp only: ps_ret_returned) (elim exE conjE)
  obtain res ps1 where y0: "y = (res, ps1)" by (cases y)
  note p = x(1) [unfolded r0] y(1) [unfolded y0] and c = y(2) [unfolded y0 prod.case]
  have "r = 0" using p(1) by (auto simp: config_parse_def Let_def split: if_split_asm)
  moreover have "res = 0" using c by (simp add: ps_bind_returned split: if_split_asm)
  ultimately show ?thesis
    using that p c by (auto simp: ps_bind_returned ps_ret_returned Let_def split: if_split_asm option.split_asm)
qed

lemma config_parse_fds:
  "config_parse cfg ps = Inr (r, ps0) \<Longrightarrow> inc_fds (ps_inc ps0) = inc_fds (ps_inc ps) \<and> inc_fds_size (ps_inc ps0) = inc_fds_size (ps_inc ps)"
  by (auto simp: config_parse_def Let_def split: if_split_asm)

lemma create_inv:
  assumes G: "grapes_ok G b V" and ok: "create_ok H cfg" and c: "psinstance_create G H cfg clk srv_ip srv_port = Inr (Returned (Some ps))"
  shows "ps_inv G ps \<and> (psinstance_is_source ps \<longleftrightarrow> srv_port = 0 \<or> \<not> h_stream_ok H)"
proof -
  have A: "peerset_ok (g_peersets G) b" using G by (simp add: grapes_ok_def)
  obtain ps0 ps1 where p: "config_parse cfg start_psinstance = Inr (0, ps0)"
    and n: "node_init H cfg ps0 = Inr (0, ps1)"
    and cs: "(srv_port = 0 \<and> create_source H (create_components G H cfg ps1) = Inr ps) \<or>
         (\<exists>srv. srv_port \<noteq> 0 \<and> create_peer G H cfg srv (create_components G H cfg ps1) = Inr ps)"
    by (rule create_cases [OF c])
  obtain s where s: "my_sock ps1 = Some s" "node_inv s" "nd_fd (ln_id s) < FD_SETSIZE" "ps_inc ps1 = ps_inc ps0"
    using node_init_ok [OF ok n] by blast
  note comp = create_components_inv [OF A ok s(1-3)]
  have fds: "length (inc_fds (ps_inc ps1)) = FDSSIZE" "inc_fds_size (ps_inc ps1) = 0"
    using config_parse_fds [OF p] s(4) by (simp_all add: start_psinstance_def zero_psinstance_def)
  have F: "FDSSIZE > 0" by (simp add: FDSSIZE_def)
  from cs show ?thesis
  proof (elim disjE exE conjE)
    assume port: "srv_port = 0" and "create_source H (create_components G H cfg ps1) = Inr ps"
    then obtain inp fds' where i: "input_open (h_input_open H) (h_input_fds H) (h_input_now H) (inc_filename (ps_inc ps1)) (inc_fds (ps_inc ps1)) 0 = Inr (inp, fds')"
      and ps: "ps = (create_components G H cfg ps1)\<lparr>ps_input := inp, ps_inc := (ps_inc ps1)\<lparr>inc_filename := takeWhile (\<lambda>c. c \<noteq> CHR '','') (inc_filename (ps_inc ps1)), inc_fds := fds'[0 := -1]\<rparr>\<rparr>"
      using comp(5) fds(2) by (auto simp: create_source_def c_bind_Inr_conv)
    have "fds' \<noteq> []" using input_open_length [OF i] fds(1) F by auto
    then show ?thesis using comp port unfolding ps by (auto simp: ps_inv_def psinstance_is_source_def)
  next
    fix srv assume port: "srv_port \<noteq> 0" and "create_peer G H cfg srv (create_components G H cfg ps1) = Inr ps"
    then obtain t where t: "ps_topology (create_components G H cfg ps1) = Some t"
      and ps: "ps = (create_components G H cfg ps1)\<lparr>ps_inc := (ps_inc ps1)\<lparr>inc_fds := (inc_fds (ps_inc ps1))[0 := -1]\<rparr>, ps_input := None,
               ps_topology := Some (snd (topology_node_insert (g_peersets G) (g_psample G) srv t)),
               chunk_out := output_create (cfg_int cfg ''outbuff_size'') (cfg_int cfg ''outbuff_reorder'') (h_stream_ok H) (h_raw_chunk H)\<rparr>"
      using comp(5) by (auto simp: create_peer_def c_bind_Inr_conv deref_def split: option.split_asm)
    have "topo_inv (g_peersets G) (snd (topology_node_insert (g_peersets G) (g_psample G) srv t))"
      using node_insert_view(1) [OF A] comp(2) t by auto
    moreover have "inc_fds (ps_inc ps1) \<noteq> []" using fds(1) F by auto
    moreover have "chunk_out ps = None \<longleftrightarrow> \<not> h_stream_ok H" by (simp add: ps output_create_def Let_def)
    ultimately show ?thesis
      using comp port output_create_inv [OF ok] unfolding ps by (auto simp: ps_inv_def psinstance_is_source_def)
  qed
qed

section \<open>Running\<close>

text \<open>The turns of the program, with whatever the clocks, the network and the random numbers deliver.\<close>

inductive ps_run ::
  "('s, 'p, 'k, 'i, 'src) grapes \<Rightarrow> ('s, 'p, 'k, 'i, 'src) psinstance \<Rightarrow> ('s, 'p, 'k, 'i, 'src) psinstance \<Rightarrow> bool" for G ps0 where
  run_start: "ps_run G ps0 ps0"
| run_turn: "ps_run G ps0 ps \<Longrightarrow> \<forall>i. pe_rand1 E i \<le> RAND_MAX \<and> pe_rand2 E i \<le> RAND_MAX \<Longrightarrow>
    psinstance_turn G E clk ps delta = Inr (Returned (ps', out)) \<Longrightarrow> ps_run G ps0 ps'"

lemma run_inv:
  assumes G: "grapes_ok G b V" and "ps_run G ps0 ps" and "ps_inv G ps0"
  shows "ps_inv G ps \<and> ps_same ps0 ps"
  using assms(2)
proof induction
  case (run_turn ps E clk delta ps' out)
  have rand: "\<And>i. pe_rand1 E i \<le> RAND_MAX" "\<And>i. pe_rand2 E i \<le> RAND_MAX" using run_turn.hyps(2) by simp_all
  have post: "ps_post (poll_hazard G E ps) (psinstance_poll G E (Some ps) delta) (\<lambda>(r, ps', out). ps_inv G ps' \<and> ps_same ps ps')"
    using poll_post [OF G _ rand] run_turn.IH by blast
  obtain r ps1 o1 where p: "psinstance_poll G E (Some ps) delta = Inr (Returned (r, ps1, o1))" and h: "ps_hand_over G clk ps1 = Inr ps'"
    using run_turn.hyps(3)
    by (auto simp: psinstance_turn_def ps_bind_returned ps_ret_returned)
  have "ps_inv G ps1" "ps_same ps ps1" using post p by simp_all
  then show ?case using hand_over_keeps [OF _ h] run_turn.IH ps_same_trans by blast
qed (use assms(3) in simp)

section \<open>A concrete engine\<close>

definition sample_grapes :: "(nat list, unit, gchunk list, int list, unit) grapes" where
  "sample_grapes =
     \<lparr>g_peersets = list_peerset [], g_psample = no_samples, g_coding = big_endian, g_chunkbuf = list_chunkbuf, g_idset = list_idset,
      g_parse_chunk = (\<lambda>_. None), g_parse_signaling = (\<lambda>_. None), g_chunkise = (\<lambda>_ c. (0, c, ())),
      g_peer_first = (\<lambda>_. first_pair_sched), g_chunk_first = first_pair_sched, g_encode = (\<lambda>_. [0x12]),
      g_qsort = (\<lambda>_ xs. xs), MSG_TYPE_TMAN = 0x11, MSG_TYPE_CHUNK = 0x13, MSG_TYPE_SIGNALLING = 0x12\<rparr>"

definition sample_config :: config where
  "sample_config = \<lparr>cfg_str = (\<lambda>k. if k = ''iface'' then Some ''lo'' else None), cfg_int = (\<lambda>_. None), cfg_double = (\<lambda>_. None)\<rparr>"

definition sample_host :: "(nat list, unit, gchunk list, int list, unit) host" where
  "sample_host =
     \<lparr>h_route = None, h_if_addr = Some [(''lo'', Some (Fam_inet, ''127.0.0.1''))],
      h_numeric_host = (\<lambda>a. Some (Fam_inet, a)), h_socket = 3, h_bind = 0, h_bound_port = 6000, h_shaper_now = Timeval 1 0,
      h_raw_measures = \<lparr>first_index = 0, last_index = 0, first_timestamp = 0, chunk_interval = 0, cie_state = Deinit\<rparr>,
      h_raw_topology = empty_topology, h_psample = (), h_cb_init = (\<lambda>_. []), h_timers_now = Timeval 1 0, h_stream_ok = True,
      h_raw_chunk = \<lparr>ch_id = 0, ch_data = [], ch_timestamp = 0, ch_attributes = []\<rparr>, h_input_open = (\<lambda>_. Some ((), 0)),
      h_input_fds = (\<lambda>_. [7, -1]), h_input_now = Timeval 1 0\<rparr>"

lemma sample_grapes_ok: "grapes_ok sample_grapes [] list_idset_valid"
proof -
  have s: "sched_ok first_pair_sched" by (auto simp: sched_ok_def first_pair_sched_def split: list.split nat.split)
  have "chunkbuf_ok list_chunkbuf"
    by (auto simp: chunkbuf_ok_def list_chunkbuf_def find_None_iff)
  then show ?thesis
    using s by (simp add: grapes_ok_def sample_grapes_def qsort_ok_def list_peerset_ok samples_ok_none int_coding_ok_big_endian list_idset_ok)
qed

lemma sample_create_ok: "create_ok sample_host sample_config"
  by (simp add: create_ok_def sample_host_def sample_config_def config_int_def DEFAULT_FRAG_SIZE_def FD_SETSIZE_def empty_topology_def)

text \<open>A peer of the server \<open>10.0.0.1\<close>, port 7000, and a source.\<close>

lemma sample_creates:
  "\<exists>ps. psinstance_create sample_grapes sample_host sample_config clk (Some ''10.0.0.1'') 7000 = Inr (Returned (Some ps))"
  "\<exists>ps. psinstance_create sample_grapes sample_host sample_config clk (Some ''10.0.0.1'') 0 = Inr (Returned (Some ps))"
  by (simp_all add: psinstance_create_def config_parse_def node_init_def create_components_def create_peer_def create_source_def
      sample_host_def sample_config_def sample_grapes_def zero_psinstance_def FILENAME_LEN_def iface_addr_def create_node_def net_helper_init_def
      config_default_def empty_node_def input_open_def FDSSIZE_def Let_def)

definition quiet_call :: poll_env where
  "quiet_call =
     \<lparr>pe_now = Timeval 1 0, pe_rounds = [(Timeval 1 0, Timeval 1 10, 0)], pe_isset = (\<lambda>_. False), pe_epoch = Timeval 1 0, pe_incoming = None,
      pe_recv_now = 1, pe_pop_now = 1,
      pe_trade = \<lparr>te_now = Timeval 1 0, te_islocked = (\<lambda>_ _. Timeval 1 0), te_lock = (\<lambda>_. Timeval 1 0), te_sres = (\<lambda>_. 0)\<rparr>,
      pe_offer_clk = (\<lambda>_. (Timeval 1 0, Timeval 1 0)), pe_input_now = Timeval 1 0, pe_push_res = (\<lambda>_. 0), pe_topo_now = Timeval 1 0,
      pe_rand1 = (\<lambda>_. 0), pe_rand2 = (\<lambda>_. 0)\<rparr>"

definition quiet_node :: local_node where
  "quiet_node =
     \<lparr>ln_id = \<lparr>nd_addr = AF_INET ''127.0.0.1'' 6000, nd_fd = 3\<rparr>, ln_nm = network_manager_create (Some (\<lambda>_. None)),
      ln_shaper = network_shaper_create (Timeval 1 0) (Some (\<lambda>_. None)), ln_buffer_len = 1300\<rparr>"

lemma sample_peer:
  assumes "psinstance_create sample_grapes sample_host sample_config clk (Some ''10.0.0.1'') 7000 = Inr (Returned (Some ps))"
  shows "my_sock ps = Some quiet_node" and "chunk_out ps \<noteq> None"
    and "ps_timers ps = \<lparr>sleep_timer = Timeval 0 0, awake_epoch = Timeval 1 0, offer_epoch = Timeval 1 40000, chunk_epoch = Timeval 1 0, loop_counter = 0\<rparr>"
    and "\<exists>t ct. ps_topology ps = Some t \<and> ps_trader ps = Some ct \<and> tp_sent t = [] \<and> ct_sent ct = [] \<and> topo_in t"
  using assms
  by (auto simp: psinstance_create_def config_parse_def node_init_def create_components_def create_peer_def create_source_def
      sample_host_def sample_config_def sample_grapes_def zero_psinstance_def FILENAME_LEN_def iface_addr_def create_node_def net_helper_init_def
      config_default_def empty_node_def input_open_def FDSSIZE_def Let_def quiet_node_def config_int_def DEFAULT_FRAG_SIZE_def
      streaming_timers_init_def output_create_def chunk_trader_create_def topology_node_insert_def swarm_add_def topology_create_def topology_init_def
      update_metadata_def empty_topology_def timeradd_interval_def timeradd_def usec2timeval_def split: prod.split if_split)

lemma sample_wait:
  "wait4data big_endian [(Timeval 1 0, Timeval 1 10, 0)] (\<lambda>_. False) quiet_node (Timeval 0 10) (Some (-1 # rest)) =
    Inr (Some (0, quiet_node, Timeval 0 10, Some (-1 # rest), []))"
  by (simp add: wait4data_def net_helper_send_attempt_def network_manager_outgoing_queue_ready_def FD_SETSIZE_def wait4data_result_def
        timersub_def less_timeval_def quiet_node_def network_manager_create_def user_fds_after_def)

lemma sample_turn:
  assumes c: "psinstance_create sample_grapes sample_host sample_config clk (Some ''10.0.0.1'') 7000 = Inr (Returned (Some ps))"
  shows "\<exists>ps'. psinstance_turn sample_grapes quiet_call clk ps 10 = Inr (Returned (ps', []))"
proof -
  note s = sample_peer [OF c]
  obtain rest where fds: "inc_fds (ps_inc ps) = -1 # rest"
    using create_inv [OF sample_grapes_ok sample_create_ok c] by (cases "inc_fds (ps_inc ps)") (auto simp: ps_inv_def)
  obtain t ct where t: "ps_topology ps = Some t" "ps_trader ps = Some ct" "tp_sent t = []" "ct_sent ct = []" using s(4) by blast
  have src: "\<not> psinstance_is_source ps" using s(2) by (simp add: psinstance_is_source_def)
  define timers where "timers = streaming_timers_set_timeout (pe_now quiet_call) (ps_timers ps) 10 False"
  have tm: "sleep_timer timers = Timeval 0 10" "loop_counter timers = 0" "offer_epoch timers = Timeval 1 40000"
    by (simp_all add: timers_def s(3) src quiet_call_def streaming_timers_set_timeout_def usec2timeval_def timersub_def less_timeval_def Let_def)
  have w: "wait4data (g_coding sample_grapes) (pe_rounds quiet_call) (pe_isset quiet_call) quiet_node (sleep_timer timers) (Some (inc_fds (ps_inc ps))) =
      Inr (Some (0, quiet_node, Timeval 0 10, Some (inc_fds (ps_inc ps)), []))"
    using sample_wait by (simp add: tm fds sample_grapes_def quiet_call_def)
  have h: "streaming_timers_state_handler (pe_epoch quiet_call) (timers\<lparr>sleep_timer := Timeval 0 10\<rparr>) 0 False =
      (NO_ACTION, timers\<lparr>sleep_timer := Timeval 0 10, loop_counter := 1\<rparr>)"
    by (simp add: streaming_timers_state_handler_def quiet_call_def tm less_timeval_def)
  show ?thesis
    using s(1,2) t w h
    by (simp add: psinstance_turn_def psinstance_poll_def src Let_def timers_def [symmetric] poll_action_def streaming_timers_update_flag_def
        UPDATE_EPOCH_def word_le_nat_alt ps_hand_over_def ps_pending_def)
qed

section \<open>Properties\<close>

text \<open>C6: Whatever the configuration says (fragments and output window not empty) and the system delivers, an instance that
  \<open>psinstance_create\<close> returns is well formed: every component is there and satisfies its own invariant, and the descriptors
  start with the terminator, so no input descriptor is watched; it is a source iff the port of the server is 0 or the output
  stream could not be opened.\<close>

theorem create_wellformed:
  assumes "grapes_ok G b V" and "create_ok H cfg"
    and "psinstance_create G H cfg clk srv_ip srv_port = Inr (Returned (Some ps))"
  shows "ps_inv G ps \<and> (psinstance_is_source ps \<longleftrightarrow> srv_port = 0 \<or> \<not> h_stream_ok H)"
  by (rule create_inv [OF assms])

theorem create_wellformed_witness:
  "\<exists>peer src. psinstance_create sample_grapes sample_host sample_config (\<lambda>_. (1, Timeval 1 0)) (Some ''10.0.0.1'') 7000 = Inr (Returned (Some peer)) \<and>
     ps_inv sample_grapes peer \<and> \<not> psinstance_is_source peer \<and>
     psinstance_create sample_grapes sample_host sample_config (\<lambda>_. (1, Timeval 1 0)) (Some ''10.0.0.1'') 0 = Inr (Returned (Some src)) \<and>
     ps_inv sample_grapes src \<and> psinstance_is_source src"
proof -
  obtain peer src where c: "psinstance_create sample_grapes sample_host sample_config (\<lambda>_. (1, Timeval 1 0)) (Some ''10.0.0.1'') 7000 = Inr (Returned (Some peer))"
    "psinstance_create sample_grapes sample_host sample_config (\<lambda>_. (1, Timeval 1 0)) (Some ''10.0.0.1'') 0 = Inr (Returned (Some src))"
    using sample_creates by blast
  have ok: "h_stream_ok sample_host" by (simp add: sample_host_def)
  show ?thesis
    using c create_wellformed [OF sample_grapes_ok sample_create_ok c(1)] create_wellformed [OF sample_grapes_ok sample_create_ok c(2)] ok by simp
qed



end
