(* ===== verification/Engine_Departure.thy ===== *)
theory Engine_Departure
  imports Engine_Safety
begin

text \<open>
  An engine that leaves: \<open>psinstance_destroy\<close> tells every peer it knows that it quits, and what the socket layer still holds is
  sent before the socket is closed.  The lemmas follow these messages through the send queue (\<open>queued\<close>) to the datagrams, and
  at a receiver to its topology.
\<close>

section \<open>The queue while messages are handed over\<close>

text \<open>A fragment waits in the queue, for the endpoint of the key.\<close>

definition queued :: "local_node \<Rightarrow> node_name \<Rightarrow> fragment \<Rightarrow> bool" where
  "queued s k f \<longleftrightarrow> (\<exists>pid fid. Frag_ref (Outgoing k) pid fid \<in> set (nm_outqueue (ln_nm s)) \<and>
     nm_message (ln_nm s) (Frag_ref (Outgoing k) pid fid) = Some (Fragment_msg f))"

lemma age_enqueue:
  "network_manager_enqueue_outgoing_packet now nm src dst data = Inr (r, nm') \<Longrightarrow> nm_max_pkt_age nm' = nm_max_pkt_age nm"
  by (auto simp: network_manager_enqueue_outgoing_packet_def nm_endpoint_def nm_store_def Let_def c_bind_Inr_conv
      split: option.splits if_splits prod.splits)

text \<open>What a message that is handed over leaves behind.\<close>

lemma send_to_peer_effect:
  fixes s :: local_node and t :: nodeID
  defines "e \<equiv> the_endpoint (ln_nm s) t"
  assumes inv: "nm_inv (ln_nm s)" and d: "d \<noteq> []" and fs: "0 < nm_frag_size (ln_nm s)"
    and free: "ep_out_id e \<notin> live_packets now (ep_outgoing e)" and tv: "tv_us tv \<noteq> tv_us (ns_last_update_time (ln_shaper s))"
  obtains s1 fp where "send_to_peer now tv (Some s) (Some t) (Some d) = Inr (int (length d), Some s1)" and "nm_inv (ln_nm s1)"
    and "fragmented_packet_create now (ep_out_id e) (ln_id s) (ep_node e) (Some d) (nm_frag_size (ln_nm s)) = Some fp"
    and "ln_id s1 = ln_id s \<and> ln_buffer_len s1 = ln_buffer_len s \<and> nm_frag_size (ln_nm s1) = nm_frag_size (ln_nm s)"
    and "ns_last_update_time (ln_shaper s1) = tv"
    and "\<forall>u. node_key u \<noteq> node_key t \<longrightarrow> the_endpoint (ln_nm s1) u = the_endpoint (ln_nm s) u"
    and "\<forall>f \<in> set (fp_frags fp). queued s1 (node_key t) f" and "\<forall>k f. k \<noteq> node_key t \<longrightarrow> queued s k f \<longrightarrow> queued s1 k f"
proof -
  note free' = free [unfolded live_packets_def e_def]
  obtain nm' pb' pb'' fp where
    r: "network_manager_enqueue_outgoing_packet now (ln_nm s) (Some (ln_id s)) (Some t) (Some d) = Inr (0, nm')" "nm_inv nm'"
    and fp: "fragmented_packet_create now (ep_out_id e) (ln_id s) (ep_node e) (Some d) (nm_frag_size (ln_nm s)) = Some fp"
    and c: "nm_content nm' = (nm_content (ln_nm s))(node_key t \<mapsto> e\<lparr>ep_outgoing := pb'', ep_out_id := ep_out_id e + 1\<rparr>)"
    and pb: "pb_deref pb'' = (pb_deref pb')(ep_out_id e \<mapsto> fp)"
    and q: "nm_outqueue nm' = fragment_refs (Outgoing (node_key t)) (ep_out_id e) (fp_frag_num fp) @
      filter (keep_ref (Outgoing (node_key t)) (\<lambda>p. p \<in> set (pb_list pb'))) (nm_outqueue (ln_nm s))"
    by (rule enqueue_outgoing_packet_spec [OF inv d fs free', of "ln_id s"]) (simp add: e_def)
  let ?dt = "timersub tv (ns_last_update_time (ln_shaper s))"
  have "of_int (tv_sec ?dt) + of_int (tv_usec ?dt) / 1000000 \<noteq> (0 :: rat)"
    unfolding period_us using tv by (simp add: tv_us_timersub)
  then obtain sh where sh: "network_shaper_update_bitrate tv (Some (ln_shaper s)) (length d) = Inr (0, Some sh)"
    "ns_last_update_time sh = tv"
    using d by (simp add: network_shaper_update_bitrate_def Let_def)
  let ?s1 = "s\<lparr>ln_nm := nm', ln_shaper := sh\<rparr>"
  have run: "send_to_peer now tv (Some s) (Some t) (Some d) = Inr (int (length d), Some ?s1)"
    using d r sh by (simp add: send_to_peer_def)
  note sizes = frag_size_enqueue [OF r(1)] age_enqueue [OF r(1)]
  have ends: "\<forall>u. node_key u \<noteq> node_key t \<longrightarrow> the_endpoint nm' u = the_endpoint (ln_nm s) u"
    using sizes c by (simp add: the_endpoint_def split: option.split)
  have new: "queued ?s1 (node_key t) f" if f: "f \<in> set (fp_frags fp)" for f
  proof -
    obtain i where i: "i < fp_frag_num fp" "fp_frags fp ! i = f" using f by (auto simp: in_set_conv_nth)
    then have "unat (of_nat i :: u16) = i" using created_frag_num [OF fp] by (simp add: unat_of_nat take_bit_nat_eq_self)
    then have "nm_message nm' (Frag_ref (Outgoing (node_key t)) (ep_out_id e) (of_nat i)) = Some (Fragment_msg f)"
      using i c pb by (simp add: nm_message_def fragmented_packet_fragment_def)
    moreover have "Frag_ref (Outgoing (node_key t)) (ep_out_id e) (of_nat i) \<in> set (nm_outqueue nm')"
      using i(1) by (auto simp: q fragment_refs_def)
    ultimately show ?thesis unfolding queued_def by (auto intro!: exI)
  qed
  have old: "queued ?s1 k f" if k: "k \<noteq> node_key t" "queued s k f" for k f
  proof -
    obtain pid fid where f: "Frag_ref (Outgoing k) pid fid \<in> set (nm_outqueue (ln_nm s))"
      "nm_message (ln_nm s) (Frag_ref (Outgoing k) pid fid) = Some (Fragment_msg f)"
      using k(2) unfolding queued_def by blast
    have "nm_message nm' (Frag_ref (Outgoing k) pid fid) = Some (Fragment_msg f)"
      using f(2) that(1) by (simp add: nm_message_def c)
    moreover have "Frag_ref (Outgoing k) pid fid \<in> set (nm_outqueue nm')" using f(1) that(1) by (simp add: q)
    ultimately show ?thesis unfolding queued_def by (auto intro!: exI)
  qed
  show ?thesis
    by (rule that [OF run _ fp]) (use r(2) sizes sh(2) ends new old in simp_all)
qed

text \<open>When a list of messages to different endpoints can be handed over: the packet numbers are free, and the clock moves.\<close>

definition can_send :: "(nat \<Rightarrow> int \<times> timeval) \<Rightarrow> nat \<Rightarrow> nodeID list \<Rightarrow> local_node \<Rightarrow> bool" where
  "can_send clk j ids s \<longleftrightarrow> distinct (map node_key ids) \<and>
     (\<forall>k < length ids. let e = the_endpoint (ln_nm s) (ids ! k) in ep_out_id e \<notin> live_packets (fst (clk (j + k))) (ep_outgoing e)) \<and>
     (\<forall>k < length ids. tv_us (snd (clk (j + k))) \<noteq> tv_us (if k = 0 then ns_last_update_time (ln_shaper s) else snd (clk (j + k - 1))))"

lemma can_send_Cons:
  assumes "can_send clk j (to # ids) s" and "ns_last_update_time (ln_shaper s1) = snd (clk j)"
    and "\<forall>u. node_key u \<noteq> node_key to \<longrightarrow> the_endpoint (ln_nm s1) u = the_endpoint (ln_nm s) u"
  shows "can_send clk (Suc j) ids s1"
proof -
  have "the_endpoint (ln_nm s1) (ids ! k) = the_endpoint (ln_nm s) (ids ! k)" if "k < length ids" for k
  proof -
    have "node_key (ids ! k) \<in> node_key ` set ids" using that by simp
    then show ?thesis using assms(1,3) unfolding can_send_def by (metis distinct.simps(2) list.simps(9) list.set_map)
  qed
  moreover have "let e = the_endpoint (ln_nm s) (ids ! k) in ep_out_id e \<notin> live_packets (fst (clk (Suc j + k))) (ep_outgoing e)"
    if "k < length ids" for k
    using assms(1) that unfolding can_send_def by (elim conjE) (drule spec [of _ "Suc k"], simp)
  moreover have "tv_us (snd (clk (Suc j + k))) \<noteq> tv_us (if k = 0 then ns_last_update_time (ln_shaper s1) else snd (clk (Suc j + k - 1)))"
    if "k < length ids" for k
  proof -
    have "tv_us (snd (clk (j + Suc k))) \<noteq> tv_us (if Suc k = 0 then ns_last_update_time (ln_shaper s) else snd (clk (j + Suc k - 1)))"
      using assms(1) that unfolding can_send_def by (metis Suc_less_eq length_Cons)
    then show ?thesis using assms(2) by (cases "k = 0") simp_all
  qed
  ultimately show ?thesis using assms(1) unfolding can_send_def by simp
qed

lemma send_all_queues:
  fixes msg :: bytes
  assumes "msg \<noteq> []"
  shows "can_send clk j ids s \<Longrightarrow> nm_inv (ln_nm s) \<Longrightarrow> 0 < nm_frag_size (ln_nm s) \<Longrightarrow>
   \<exists>s'. send_all_to_peers clk j (map (\<lambda>i. (i, msg)) ids) s = Inr s' \<and>
     ln_id s' = ln_id s \<and> ln_buffer_len s' = ln_buffer_len s \<and> nm_frag_size (ln_nm s') = nm_frag_size (ln_nm s) \<and>
     (\<forall>k f. k \<notin> node_key ` set ids \<longrightarrow> queued s k f \<longrightarrow> queued s' k f) \<and>
     (\<forall>to \<in> set ids. \<exists>now fp. fragmented_packet_create now (ep_out_id (the_endpoint (ln_nm s) to)) (ln_id s) (ep_node (the_endpoint (ln_nm s) to)) (Some msg)
          (nm_frag_size (ln_nm s)) = Some fp \<and> (\<forall>f \<in> set (fp_frags fp). queued s' (node_key to) f))"
proof (induction ids arbitrary: j s)
  case (Cons to ids)
  have free: "ep_out_id (the_endpoint (ln_nm s) to) \<notin> live_packets (fst (clk j)) (ep_outgoing (the_endpoint (ln_nm s) to))"
    and tv: "tv_us (snd (clk j)) \<noteq> tv_us (ns_last_update_time (ln_shaper s))"
    using Cons.prems(1) unfolding can_send_def by (auto simp: Let_def dest: spec [of _ 0])
  obtain s1 fp where s1: "send_to_peer (fst (clk j)) (snd (clk j)) (Some s) (Some to) (Some msg) = Inr (int (length msg), Some s1)" "nm_inv (ln_nm s1)"
    "fragmented_packet_create (fst (clk j)) (ep_out_id (the_endpoint (ln_nm s) to)) (ln_id s) (ep_node (the_endpoint (ln_nm s) to)) (Some msg) (nm_frag_size (ln_nm s)) = Some fp"
    "ln_id s1 = ln_id s \<and> ln_buffer_len s1 = ln_buffer_len s \<and> nm_frag_size (ln_nm s1) = nm_frag_size (ln_nm s)"
    "ns_last_update_time (ln_shaper s1) = snd (clk j)"
    "\<forall>u. node_key u \<noteq> node_key to \<longrightarrow> the_endpoint (ln_nm s1) u = the_endpoint (ln_nm s) u"
    "\<forall>f \<in> set (fp_frags fp). queued s1 (node_key to) f" "\<forall>k f. k \<noteq> node_key to \<longrightarrow> queued s k f \<longrightarrow> queued s1 k f"
    by (rule send_to_peer_effect [OF Cons.prems(2) assms Cons.prems(3) free tv])
  have fs: "0 < nm_frag_size (ln_nm s1)" using s1(4) Cons.prems(3) by simp
  obtain s' where s': "send_all_to_peers clk (Suc j) (map (\<lambda>i. (i, msg)) ids) s1 = Inr s'"
    "ln_id s' = ln_id s1" "ln_buffer_len s' = ln_buffer_len s1" "nm_frag_size (ln_nm s') = nm_frag_size (ln_nm s1)"
    "\<forall>k f. k \<notin> node_key ` set ids \<longrightarrow> queued s1 k f \<longrightarrow> queued s' k f"
    "\<forall>to \<in> set ids. \<exists>now fp. fragmented_packet_create now (ep_out_id (the_endpoint (ln_nm s1) to)) (ln_id s1) (ep_node (the_endpoint (ln_nm s1) to)) (Some msg)
          (nm_frag_size (ln_nm s1)) = Some fp \<and> (\<forall>f \<in> set (fp_frags fp). queued s' (node_key to) f)"
    using Cons.IH [OF can_send_Cons [OF Cons.prems(1) s1(5,6)] s1(2) fs] by (elim exE conjE)
  have dist: "node_key to \<notin> node_key ` set ids" using Cons.prems(1) by (simp add: can_send_def)
  have run: "send_all_to_peers clk j (map (\<lambda>i. (i, msg)) (to # ids)) s = Inr s'" using s1(1) s'(1) by simp
  have rest: "\<exists>now fp. fragmented_packet_create now (ep_out_id (the_endpoint (ln_nm s) u)) (ln_id s) (ep_node (the_endpoint (ln_nm s) u)) (Some msg)
      (nm_frag_size (ln_nm s)) = Some fp \<and> (\<forall>f \<in> set (fp_frags fp). queued s' (node_key u) f)" if "u \<in> set (to # ids)" for u
  proof (cases "u \<in> set ids")
    case True
    then have "node_key u \<noteq> node_key to" using dist by (metis imageI)
    then have "the_endpoint (ln_nm s1) u = the_endpoint (ln_nm s) u" using s1(6) by simp
    then show ?thesis using s'(6) [rule_format, OF True] s1(4) by simp
  next
    case False
    then have "u = to" using that by simp
    then show ?thesis using s1(3,7) s'(5) dist by blast
  qed
  show ?case
    using run s1(4) s'(2-4) rest s1(8) s'(5) by (intro exI [of _ s']) auto
qed simp

section \<open>The queue is sent when the socket closes\<close>

lemma flush_loop_sends:
  "flush_loop ic s nm q = Inr out \<Longrightarrow> r \<in> set q \<Longrightarrow> nm_message nm r = Some m \<Longrightarrow> net_helper_send_msg ic s m = Inr o1 \<Longrightarrow> set o1 \<subseteq> set out"
proof (induction q arbitrary: out)
  case (Cons r' q)
  obtain m' o1' o2 where m: "nm_message nm r' = Some m'" "net_helper_send_msg ic s m' = Inr o1'" "flush_loop ic s nm q = Inr o2" "out = o1' @ o2"
    using Cons.prems(1) by (auto simp: c_bind_Inr_conv split: option.split_asm)
  then show ?case using Cons.IH [OF m(3)] Cons.prems by (cases "r = r'") auto
qed simp

lemma deinit_sends:
  assumes "int_coding_ok ic" and "net_helper_deinit ic s = Some (Inr out)" and "queued s k f" and "fragment_wf f"
    and "FRAGMENT_HEADER_LEN + f_data_size f \<le> ln_buffer_len s"
  shows "fragment_datagram ic f \<in> set out"
proof -
  obtain r where r: "r \<in> set (nm_outqueue (ln_nm s))" "nm_message (ln_nm s) r = Some (Fragment_msg f)"
    using assms(3) unfolding queued_def by blast
  have "flush_loop ic s (ln_nm s) (nm_outqueue (ln_nm s)) = Inr out"
    using assms(2) by (cases "flush_loop ic s (ln_nm s) (nm_outqueue (ln_nm s))")
      (auto simp: net_helper_deinit_def split: sum.split_asm option.split_asm)
  moreover have "net_helper_send_msg ic s (Fragment_msg f) = Inr [fragment_datagram ic f]"
    using assms(1,4,5) by (simp add: net_helper_send_msg_def net_msg_send_def fragment_send_bytes fragment_datagram_def)
  ultimately show ?thesis using flush_loop_sends r by fastforce
qed

section \<open>Quitting\<close>

definition quit_msg :: "int_coding \<Rightarrow> ('s, 'p, 'n, 'b) topology \<Rightarrow> bytes" where
  "quit_msg ic t = [MSG_TYPE_NEIGHBOURHOOD, NEIGHBOURHOOD_QUIT] @ int16_cpy ic (md_cb_size (my_metadata t)) @ [md_neigh_size (my_metadata t)]"

text \<open>Whom an engine knows: its neighbours, then the swarm.\<close>

definition known_ids :: "('s, 'n, 'b) peerset_api \<Rightarrow> ('s, 'p, 'n, 'b) topology \<Rightarrow> 'n list" where
  "known_ids A t = map (pid (tp_peers t)) (ps_peers A (neighbourhood t) @ ps_peers A (swarm_bucket t))"

lemma outgoing_quit: "topo_outgoing (map (neigh_msg ic NEIGHBOURHOOD_QUIT t) ids) = map (\<lambda>i. (i, quit_msg ic t)) ids"
  by (induction ids) (simp_all add: neigh_msg_def quit_msg_def)

lemma destroy_result_known:
  assumes "peerset_ok A b" and "topo_inv A t"
  shows "\<exists>h. topology_destroy A ic (Some t) = Some (Inr (h, tp_sent t @ map (neigh_msg ic NEIGHBOURHOOD_QUIT t) (known_ids A t)))"
  using destroy_result [OF assms] by (auto simp: known_ids_def)

lemma destroy_announces:
  assumes G: "grapes_ok G b V" and inv: "ps_inv G ps" and t: "ps_topology ps = Some t" and s: "my_sock ps = Some s"
    and can: "can_send clk 0 (known_ids (g_peersets G) t) s" and buf: "FRAGMENT_HEADER_LEN + nm_frag_size (ln_nm s) \<le> ln_buffer_len s"
  shows "\<exists>out. psinstance_destroy G clk (Some ps) = Inr (Returned out) \<and>
    (\<forall>to \<in> set (known_ids (g_peersets G) t). \<exists>now fp.
       fragmented_packet_create now (ep_out_id (the_endpoint (ln_nm s) to)) (ln_id s) (ep_node (the_endpoint (ln_nm s) to)) (Some (quit_msg (g_coding G) t))
         (nm_frag_size (ln_nm s)) = Some fp \<and> (\<forall>f \<in> set (fp_frags fp). fragment_datagram (g_coding G) f \<in> set out))"
proof -
  have laws: "peerset_ok (g_peersets G) b" "int_coding_ok (g_coding G)" using G by (simp_all add: grapes_ok_def)
  have tinv: "topo_inv (g_peersets G) t" and n: "node_inv s" using inv t s by (simp_all add: ps_inv_def)
  then have nm: "nm_inv (ln_nm s)" "0 < nm_frag_size (ln_nm s)" by (simp_all add: node_inv_def)
  have ne: "quit_msg (g_coding G) t \<noteq> []" by (simp add: quit_msg_def)
  obtain s' where s': "send_all_to_peers clk 0 (map (\<lambda>i. (i, quit_msg (g_coding G) t)) (known_ids (g_peersets G) t)) s = Inr s'"
    "ln_buffer_len s' = ln_buffer_len s"
    "\<forall>to \<in> set (known_ids (g_peersets G) t). \<exists>now fp.
       fragmented_packet_create now (ep_out_id (the_endpoint (ln_nm s) to)) (ln_id s) (ep_node (the_endpoint (ln_nm s) to)) (Some (quit_msg (g_coding G) t))
         (nm_frag_size (ln_nm s)) = Some fp \<and> (\<forall>f \<in> set (fp_frags fp). queued s' (node_key to) f)"
    using send_all_queues [OF ne can nm] by (elim exE conjE)
  have n': "node_inv s'" using send_all_keeps [OF n s'(1)] by simp
  obtain out where out: "net_helper_deinit (g_coding G) s' = Some (Inr out)" using net_helper_deinit_ok [OF laws(2) n'] by blast
  obtain h where h: "topology_destroy (g_peersets G) (g_coding G) (Some t) =
      Some (Inr (h, tp_sent t @ map (neigh_msg (g_coding G) NEIGHBOURHOOD_QUIT t) (known_ids (g_peersets G) t)))"
    using destroy_result_known [OF laws(1) tinv] by blast
  have run: "psinstance_destroy G clk (Some ps) = Inr (Returned out)"
    using t s h s'(1) out by (simp add: psinstance_destroy_def outgoing_quit)
  have "\<exists>now fp. fragmented_packet_create now (ep_out_id (the_endpoint (ln_nm s) to)) (ln_id s) (ep_node (the_endpoint (ln_nm s) to)) (Some (quit_msg (g_coding G) t))
         (nm_frag_size (ln_nm s)) = Some fp \<and> (\<forall>f \<in> set (fp_frags fp). fragment_datagram (g_coding G) f \<in> set out)"
    if to: "to \<in> set (known_ids (g_peersets G) t)" for to
  proof -
    obtain now fp where fp: "fragmented_packet_create now (ep_out_id (the_endpoint (ln_nm s) to)) (ln_id s) (ep_node (the_endpoint (ln_nm s) to)) (Some (quit_msg (g_coding G) t))
         (nm_frag_size (ln_nm s)) = Some fp" "\<forall>f \<in> set (fp_frags fp). queued s' (node_key to) f" using s'(3) to by blast
    have "fragment_datagram (g_coding G) f \<in> set out" if "f \<in> set (fp_frags fp)" for f
      by (rule deinit_sends [OF laws(2) out]) (use fp that created_frag_fields [OF fp(1) that] buf s'(2) in auto)
    then show ?thesis using fp(1) by blast
  qed
  then show ?thesis using run by blast
qed

section \<open>A message in one fragment\<close>

lemma single_fragment:
  assumes "fragmented_packet_create now pn from to (Some d) fs = Some fp" and "length d \<le> fs" and "fs < 2 ^ 32"
  obtains f where "fp_frags fp = [f]" and "packet_frags pn [f]" and "f_from f = from" and "f_to f = to" and "frag_payload f = d" and "f_data_size f = length d"
proof -
  have d: "0 < length d" "0 < fs" using assms(1) by (auto simp: fragmented_packet_create_def split: if_splits)
  have le: "length d \<le> 65535 * fs" using assms(2) by simp
  have e: "length d + fs - 1 = (length d - 1) + fs" and lt: "length d - 1 < fs" using d assms(2) by linarith+
  have "(length d + fs - 1) div fs = 1" unfolding e div_add_self2 [OF d(2) [THEN less_imp_neq, symmetric]] using lt by simp
  then have "fp_frag_num fp = 1" using created_frag_count [OF assms(1) le] by simp
  then obtain f where f: "fp_frags fp = [f]" by (auto simp: length_Suc_conv)
  have c: "packet_frags pn [f]" "concat (map frag_payload [f]) = d" "sum_list (map f_data_size [f]) = length d"
    using created_packet_frags [OF assms(1) le assms(3)] f by simp_all
  show ?thesis using that [OF f c(1)] c(2,3) created_frag_fields [OF assms(1), of f] f by simp
qed

lemma receive_single_fragment:
  assumes ic: "int_coding_ok ic" and f: "packet_frags pn [f]" and inv: "nm_inv (ln_nm r)" "0 < nm_max_pkt_age (ln_nm r)"
    and fresh: "pb_deref (ep_incoming (the_endpoint (ln_nm r) (empty_node\<lparr>nd_addr := addr\<rparr>))) pn = None" and sz: "f_data_size f < sz"
  shows "\<exists>r'. recv_from_peer ic now now r (Some (addr, fragment_bytes ic f)) sz = Inr (int (f_data_size f), Some (empty_node\<lparr>nd_addr := addr\<rparr>), frag_payload f, r')"
proof -
  have rec: "receiving (ln_nm r) (empty_node\<lparr>nd_addr := addr\<rparr>) pn now [f] {}" using fresh by (simp add: receiving_def)
  show ?thesis
    by (rule recv_fragment [OF ic f _ inv rec, of 0 sz]) (use sz in auto)
qed

text \<open>A QUIT message makes the receiver forget the sender.\<close>

lemma handle_quit_message:
  assumes G: "grapes_ok G b V" and inv: "ps_inv G ps" and t: "ps_topology ps = Some t2" "topo_in t2"
    and m: "length msg \<ge> 2" "length msg \<noteq> 4" "msg ! 0 = MSG_TYPE_NEIGHBOURHOOD" "msg ! 1 = NEIGHBOURHOOD_QUIT"
    and s: "my_sock ps = Some r" "recv_from_peer (g_coding G) now now r incoming MSG_BUFFSIZE = Inr (len, Some i, msg, r')" "len > 0"
    and v: "topo_view (g_peersets G) t2 = (N, W, L)"
  shows "\<exists>ps' t'. psinstance_handle_msg G now now incoming E ps = Inr (Returned (1, ps')) \<and> ps_topology ps' = Some t' \<and>
    topo_view (g_peersets G) t' = (N - {i}, W - {i}, L - {i})"
proof -
  have ok: "peerset_ok (g_peersets G) b" using G by (simp add: grapes_ok_def)
  have tinv: "topo_inv (g_peersets G) t2" and ct: "\<exists>ct. ps_trader ps = Some ct" using inv t(1) by (auto simp: ps_inv_def)
  then obtain ct where ct: "ps_trader ps = Some ct" by blast
  have c: "\<not> (msg = [] \<or> msg ! 0 = MSG_TYPE_NEIGHBOURHOOD \<and> topo_in t2 \<and> \<not> neigh_complete msg)"
    using m by (auto simp: neigh_complete_def)
  obtain t' where t': "topology_message_parse (g_peersets G) (g_psample G) (g_coding G) (Some i) msg t2 = Inr t'"
    "topo_view (g_peersets G) t' = view_message i (msg ! 1) (topo_view (g_peersets G) t2)"
    using message_parse_view [OF ok tinv, of msg "g_psample G" "g_coding G" i] unfolding if_not_P [OF c] using m(3) t(2) by auto
  obtain ct' where "send_bmaps G (psinstance_is_source ps) (drop (length (tp_sent t2)) (tp_sent t')) (Some ct) = Inr (Some ct')"
    using send_bmaps_safe by blast
  then have h: "handle_topology_msg G (Some i) msg (ps\<lparr>my_sock := Some r'\<rparr>) = Inr (ps\<lparr>my_sock := Some r', ps_topology := Some t', ps_trader := Some ct'\<rparr>)"
    using t(1) ct t'(1) by (simp add: handle_topology_msg_def psinstance_is_source_def)
  have "msg \<noteq> []" using m(1) by auto
  then have "psinstance_handle_msg G now now incoming E ps = Inr (Returned (1, ps\<lparr>my_sock := Some r', ps_topology := Some t', ps_trader := Some ct'\<rparr>))"
    using s m(3) h by (simp add: psinstance_handle_msg_def Let_def)
  moreover have "topo_view (g_peersets G) t' = (N - {i}, W - {i}, L - {i})"
    using t'(2) m(4) v neigh_type_distinct by (simp add: view_message_def)
  ultimately show ?thesis by auto
qed

section \<open>The sample engine leaves\<close>

text \<open>The peer of the sample configuration knows its server.\<close>

lemma fresh_in_empty: "fresh_address (\<lambda>_. None) = 0"
  unfolding fresh_address_def by (subst while_unfold) simp

lemma sample_peer_knows:
  assumes "psinstance_create sample_grapes sample_host sample_config clk (Some ''10.0.0.1'') 7000 = Inr (Returned (Some ps))" and "ps_topology ps = Some t"
  shows "known_ids (g_peersets sample_grapes) t = [\<lparr>nd_addr = AF_INET ''10.0.0.1'' 7000, nd_fd = -1\<rparr>]"
  using assms
  by (auto simp: psinstance_create_def config_parse_def node_init_def create_components_def create_peer_def
      sample_host_def sample_config_def sample_grapes_def zero_psinstance_def FILENAME_LEN_def iface_addr_def create_node_def net_helper_init_def
      config_default_def empty_node_def FDSSIZE_def Let_def config_int_def DEFAULT_FRAG_SIZE_def
      topology_node_insert_def swarm_add_def topology_create_def topology_init_def
      update_metadata_def empty_topology_def topology_get_peer_def fresh_in_empty known_ids_def list_peerset_def pid_def peer_data_init_def split: prod.split_asm if_split_asm)

lemma quiet_node_parts:
  "ln_nm quiet_node = network_manager_create (Some (\<lambda>_. None))" "ns_last_update_time (ln_shaper quiet_node) = Timeval 1 0"
  by (simp_all add: quiet_node_def network_shaper_create_def)

lemma quiet_node_sizes:
  "5 \<le> nm_frag_size (ln_nm quiet_node)" "nm_frag_size (ln_nm quiet_node) < 2 ^ 32" "0 < nm_max_pkt_age (ln_nm quiet_node)"
  "FRAGMENT_HEADER_LEN + nm_frag_size (ln_nm quiet_node) \<le> ln_buffer_len quiet_node"
  by (simp_all add: quiet_node_def network_manager_create_def config_int_def DEFAULT_FRAG_SIZE_def DEFAULT_PKT_MAX_AGE_def FRAGMENT_HEADER_LEN_def)

lemma sample_can_send:
  assumes "psinstance_create sample_grapes sample_host sample_config clk (Some ''10.0.0.1'') 7000 = Inr (Returned (Some ps))" and "ps_topology ps = Some t"
  shows "can_send (\<lambda>_. (2, Timeval 2 0)) 0 (known_ids (g_peersets sample_grapes) t) quiet_node"
  unfolding sample_peer_knows [OF assms] by (simp add: can_send_def live_packets_def endpoint_create_def quiet_node_parts tv_us_def Let_def)

lemma sample_departure:
  assumes c: "psinstance_create sample_grapes sample_host sample_config clk (Some ''10.0.0.1'') 7000 = Inr (Returned (Some ps))"
  obtains out dg where "psinstance_destroy sample_grapes (\<lambda>_. (2, Timeval 2 0)) (Some ps) = Inr (Returned out)" and "dg \<in> set out"
    and "length (dg_bytes dg) = 16"
proof -
  note s = sample_peer [OF c]
  have inv: "ps_inv sample_grapes ps" using create_inv [OF sample_grapes_ok sample_create_ok c] by blast
  obtain t where t: "ps_topology ps = Some t" using s(4) by blast
  have ic: "int_coding_ok (g_coding sample_grapes)" using sample_grapes_ok by (simp add: grapes_ok_def)
  have len: "length (quit_msg (g_coding sample_grapes) t) = 5" using ic by (simp add: quit_msg_def)
  obtain out now fp where out: "psinstance_destroy sample_grapes (\<lambda>_. (2, Timeval 2 0)) (Some ps) = Inr (Returned out)"
    and fp: "fragmented_packet_create now (ep_out_id (the_endpoint (ln_nm quiet_node) \<lparr>nd_addr = AF_INET ''10.0.0.1'' 7000, nd_fd = -1\<rparr>)) (ln_id quiet_node)
         (ep_node (the_endpoint (ln_nm quiet_node) \<lparr>nd_addr = AF_INET ''10.0.0.1'' 7000, nd_fd = -1\<rparr>)) (Some (quit_msg (g_coding sample_grapes) t))
         (nm_frag_size (ln_nm quiet_node)) = Some fp" "\<forall>f \<in> set (fp_frags fp). fragment_datagram (g_coding sample_grapes) f \<in> set out"
    using destroy_announces [OF sample_grapes_ok inv t s(1) sample_can_send [OF c t] quiet_node_sizes(4)]
    unfolding sample_peer_knows [OF c t] by auto
  have le: "length (quit_msg (g_coding sample_grapes) t) \<le> nm_frag_size (ln_nm quiet_node)" using len quiet_node_sizes(1) by simp
  obtain f where f: "fp_frags fp = [f]" "f_data_size f = 5"
    by (rule single_fragment [OF fp(1) le quiet_node_sizes(2)]) (simp add: len)
  have "length (dg_bytes (fragment_datagram (g_coding sample_grapes) f)) = 16"
    using length_fragment_bytes [OF ic] created_frag_fields [OF fp(1), of f] f by (simp add: fragment_datagram_def FRAGMENT_HEADER_LEN_def)
  then show ?thesis using that out fp(2) f(1) by simp
qed

section \<open>Properties\<close>

text \<open>C4: An engine that leaves is forgotten.  \<open>psinstance_destroy\<close> returns, and among the datagrams it sends there is one for every
  peer it knows, neighbour or not, from its own socket to the address of the peer's endpoint; whichever engine handles it next
  (in its topology the sender appears under the address the socket sees) has the sender neither in its neighbourhood nor in its
  swarm nor among its locked neighbours, and everybody else where they were.  Needed are a fragment size of at least 5 and
  packet numbers and clocks with which messages can be sent (\<open>can_send\<close>).\<close>

theorem engine_leaves:
  assumes "grapes_ok G b V" and "ps_inv G ps" and "ps_topology ps = Some t" and "my_sock ps = Some s" and "can_send clk 0 (known_ids (g_peersets G) t) s"
    and "5 \<le> nm_frag_size (ln_nm s)" and "nm_frag_size (ln_nm s) < 2 ^ 32" and "FRAGMENT_HEADER_LEN + nm_frag_size (ln_nm s) \<le> ln_buffer_len s"
    and "to \<in> set (known_ids (g_peersets G) t)"
    and "ps_inv G ps2" and "my_sock ps2 = Some r" and "0 < nm_max_pkt_age (ln_nm r)"
    and "pb_deref (ep_incoming (the_endpoint (ln_nm r) (empty_node\<lparr>nd_addr := addr\<rparr>))) (ep_out_id (the_endpoint (ln_nm s) to)) = None"
    and "ps_topology ps2 = Some t2" and "topo_in t2" and "topo_view (g_peersets G) t2 = (N, W, L)"
  shows "\<exists>out dg ps2' t2'. psinstance_destroy G clk (Some ps) = Inr (Returned out) \<and> dg \<in> set out \<and>
    dg_fd dg = nd_fd (ln_id s) \<and> dg_to dg = nd_addr (ep_node (the_endpoint (ln_nm s) to)) \<and>
    psinstance_handle_msg G now now (Some (addr, dg_bytes dg)) E ps2 = Inr (Returned (1, ps2')) \<and> ps_topology ps2' = Some t2' \<and>
    topo_view (g_peersets G) t2' = (N - {empty_node\<lparr>nd_addr := addr\<rparr>}, W - {empty_node\<lparr>nd_addr := addr\<rparr>}, L - {empty_node\<lparr>nd_addr := addr\<rparr>})"
proof -
  have ic: "int_coding_ok (g_coding G)" using assms(1) by (simp add: grapes_ok_def)
  let ?q = "quit_msg (g_coding G) t"
  have q: "length ?q = 5" "?q ! 0 = MSG_TYPE_NEIGHBOURHOOD" "?q ! 1 = NEIGHBOURHOOD_QUIT" using ic by (simp_all add: quit_msg_def)
  obtain out c fp where out: "psinstance_destroy G clk (Some ps) = Inr (Returned out)"
    and fp: "fragmented_packet_create c (ep_out_id (the_endpoint (ln_nm s) to)) (ln_id s) (ep_node (the_endpoint (ln_nm s) to)) (Some ?q)
         (nm_frag_size (ln_nm s)) = Some fp" "\<forall>f \<in> set (fp_frags fp). fragment_datagram (g_coding G) f \<in> set out"
    using destroy_announces [OF assms(1-5,8)] assms(9) by blast
  have le: "length ?q \<le> nm_frag_size (ln_nm s)" using q(1) assms(6) by simp
  obtain f where f: "fp_frags fp = [f]" "packet_frags (ep_out_id (the_endpoint (ln_nm s) to)) [f]" "f_from f = ln_id s"
    "f_to f = ep_node (the_endpoint (ln_nm s) to)" "frag_payload f = ?q" "f_data_size f = length ?q"
    by (rule single_fragment [OF fp(1) le assms(7)])
  have rinv: "nm_inv (ln_nm r)" using assms(10,11) by (simp add: ps_inv_def node_inv_def)
  have sz: "f_data_size f < MSG_BUFFSIZE" using f(6) q(1) by (simp add: MSG_BUFFSIZE_def)
  obtain r' where r': "recv_from_peer (g_coding G) now now r (Some (addr, fragment_bytes (g_coding G) f)) MSG_BUFFSIZE =
      Inr (5, Some (empty_node\<lparr>nd_addr := addr\<rparr>), ?q, r')"
    using receive_single_fragment [OF ic f(2) rinv assms(12,13) sz] f(5,6) q(1) by auto
  have m: "length ?q \<ge> 2" "length ?q \<noteq> 4" using q(1) by simp_all
  obtain ps2' t2' where h: "psinstance_handle_msg G now now (Some (addr, fragment_bytes (g_coding G) f)) E ps2 = Inr (Returned (1, ps2'))" "ps_topology ps2' = Some t2'"
    "topo_view (g_peersets G) t2' = (N - {empty_node\<lparr>nd_addr := addr\<rparr>}, W - {empty_node\<lparr>nd_addr := addr\<rparr>}, L - {empty_node\<lparr>nd_addr := addr\<rparr>})"
    using handle_quit_message [OF assms(1,10,14,15) m q(2,3) assms(11) r' _ assms(16), of E] by auto
  show ?thesis
    by (intro exI [of _ out] exI [of _ "fragment_datagram (g_coding G) f"] exI [of _ ps2'] exI [of _ t2'])
      (use out fp(2) f h in \<open>simp add: fragment_datagram_def\<close>)
qed

theorem engine_leaves_witness:
  "\<exists>ps out dg ps2' t2'. psinstance_create sample_grapes sample_host sample_config (\<lambda>_. (1, Timeval 1 0)) (Some ''10.0.0.1'') 7000 = Inr (Returned (Some ps)) \<and>
     psinstance_destroy sample_grapes (\<lambda>_. (2, Timeval 2 0)) (Some ps) = Inr (Returned out) \<and> dg \<in> set out \<and>
     dg_to dg = AF_INET ''10.0.0.1'' 7000 \<and>
     psinstance_handle_msg sample_grapes 2 2 (Some (AF_INET ''127.0.0.1'' 6000, dg_bytes dg)) (pe_trade quiet_call) ps = Inr (Returned (1, ps2')) \<and>
     ps_topology ps2' = Some t2' \<and> \<lparr>nd_addr = AF_INET ''127.0.0.1'' 6000, nd_fd = -1\<rparr> \<notin> fst (topo_view (g_peersets sample_grapes) t2')"
proof -
  let ?addr = "AF_INET ''127.0.0.1'' 6000" and ?srv = "\<lparr>nd_addr = AF_INET ''10.0.0.1'' 7000, nd_fd = -1\<rparr>" and ?clk = "\<lambda>_ :: nat. (2 :: int, Timeval 2 0)"
  obtain ps where c: "psinstance_create sample_grapes sample_host sample_config (\<lambda>_. (1, Timeval 1 0)) (Some ''10.0.0.1'') 7000 = Inr (Returned (Some ps))"
    using sample_creates by blast
  note s = sample_peer [OF c]
  have inv: "ps_inv sample_grapes ps" using create_inv [OF sample_grapes_ok sample_create_ok c] by blast
  obtain t where t: "ps_topology ps = Some t" "topo_in t" using s(4) by blast
  note k = sample_peer_knows [OF c t(1)]
  note q = quiet_node_parts and sz = quiet_node_sizes
  note can = sample_can_send [OF c t(1)]
  have none: "pb_deref (ep_incoming (the_endpoint (ln_nm quiet_node) (empty_node\<lparr>nd_addr := ?addr\<rparr>))) (ep_out_id (the_endpoint (ln_nm quiet_node) ?srv)) = None"
    by (simp add: q endpoint_create_def)
  have to: "?srv \<in> set (known_ids (g_peersets sample_grapes) t)" by (simp add: k)
  obtain N W L where v: "topo_view (g_peersets sample_grapes) t = (N, W, L)" by (cases "topo_view (g_peersets sample_grapes) t")
  have e: "nd_addr (ep_node (the_endpoint (ln_nm quiet_node) ?srv)) = AF_INET ''10.0.0.1'' 7000" by (simp add: q endpoint_create_def)
  have n: "empty_node\<lparr>nd_addr := ?addr\<rparr> = \<lparr>nd_addr = ?addr, nd_fd = -1\<rparr>" by (simp add: empty_node_def)
  obtain out dg ps2' t2' where r: "psinstance_destroy sample_grapes ?clk (Some ps) = Inr (Returned out)" "dg \<in> set out" "dg_to dg = AF_INET ''10.0.0.1'' 7000"
    "psinstance_handle_msg sample_grapes 2 2 (Some (?addr, dg_bytes dg)) (pe_trade quiet_call) ps = Inr (Returned (1, ps2'))" "ps_topology ps2' = Some t2'"
    "topo_view (g_peersets sample_grapes) t2' = (N - {\<lparr>nd_addr = ?addr, nd_fd = -1\<rparr>}, W - {\<lparr>nd_addr = ?addr, nd_fd = -1\<rparr>}, L - {\<lparr>nd_addr = ?addr, nd_fd = -1\<rparr>})"
    using engine_leaves [OF sample_grapes_ok inv t(1) s(1) can sz(1,2,4) to inv s(1) sz(3) none t v, of 2 "pe_trade quiet_call"]
    unfolding e n by (elim exE conjE)
  show ?thesis
    by (intro exI conjI, rule c, rule r(1), rule r(2), rule r(3), rule r(4), rule r(5)) (simp add: r(6))
qed

end
