(* ===== verification/Engine_Network.thy ===== *)
theory Engine_Network
  imports Engine_Departure
begin

text \<open>
  Many engines on one network.  A network is a map from names to running engines, and everything its engines have handed to
  \<open>sendto\<close> so far.  An engine may be created at any time, polled, given to \<open>psinstance_network_periodic\<close> or destroyed; what it
  receives is any datagram some engine has sent, under any source address.  Datagrams are thereby lost, repeated, reordered and
  delayed, also beyond the life of their sender; they are neither invented nor cut.

  The lemmas follow a datagram from \<open>net_msg_send\<close> to \<open>net_msg_decode\<close>: all that the engines send decodes at every receiver.
  Therefore engines cannot cause the hazard \<open>malformed_datagram\<close> of one another, and every engine of the network keeps its
  invariant.
\<close>

section \<open>What an engine sends decodes\<close>

definition decodable :: "int_coding \<Rightarrow> bytes \<Rightarrow> bool" where
  "decodable ic b \<longleftrightarrow> b \<noteq> [] \<and> (\<forall>dst src. \<exists>m. net_msg_decode ic (Some dst) (Some src) b = Inr (Some m))"

text \<open>The length in the header has 32 bits.  A longer fragment would be cut by the receiver, not refused.\<close>

lemma fragment_bytes_decodable:
  assumes ic: "int_coding_ok ic" and wf: "fragment_wf f"
  shows "decodable ic (fragment_bytes ic f)"
proof -
  let ?b = "fragment_bytes ic f" and ?n = "unat (of_nat (f_data_size f) :: u32)"
  obtain body where hd: "?b = NET_FRAGMENT # body" by (simp add: fragment_bytes_def)
  have "drop 7 ?b = int_cpy ic (of_nat (f_data_size f)) @ (case f_data f of None \<Rightarrow> [] | Some d \<Rightarrow> d)"
    using ic by (simp add: fragment_bytes_def)
  then have len: "unat (int_rcpy ic (drop 7 ?b)) = ?n" using ic by simp
  have "?n \<le> f_data_size f" by (simp add: unat_of_nat take_bit_nat_eq_self_iff)
  then have fits: "FRAGMENT_HEADER_LEN + ?n \<le> length ?b" "FRAGMENT_HEADER_LEN \<le> length ?b"
    using length_fragment_bytes [OF ic wf] by simp_all
  have "\<exists>g. fragment_decode ic (Some dst) (Some src) ?b = Some g" for dst src
    using fits len by (simp add: fragment_decode_def fragment_init_def Let_def)
  then show ?thesis unfolding decodable_def by (auto simp: net_msg_decode_def hd)
qed

lemma request_bytes_decodable:
  assumes "int_coding_ok ic"
  shows "decodable ic (request_bytes ic r)"
proof -
  obtain body where hd: "request_bytes ic r = NET_FRAGMENT_REQ # body" by (simp add: request_bytes_def)
  have "frag_request_decode ic (Some dst) (Some src) (request_bytes ic r) = Inr (r\<lparr>fr_from := src, fr_to := dst\<rparr>)" for dst src
    using frag_request_decode_bytes [OF assms, of dst src r "[]"] by simp
  then show ?thesis unfolding decodable_def by (simp add: net_msg_decode_def hd NET_FRAGMENT_def NET_FRAGMENT_REQ_def)
qed

lemma send_msg_decodable:
  assumes ic: "int_coding_ok ic" and m: "case m of Fragment_msg f \<Rightarrow> fragment_wf f | Request_msg r \<Rightarrow> True"
    and out: "net_helper_send_msg ic s m = Inr out" and dg: "dg \<in> set out"
  shows "decodable ic (dg_bytes dg)"
proof -
  have "dg_bytes dg = msg_bytes ic m" using send_msg_fd [OF ic m, of s] out dg by auto
  then show ?thesis
    using m fragment_bytes_decodable [OF ic] request_bytes_decodable [OF ic] by (cases m) (simp_all add: msg_bytes_def)
qed

lemma queued_message_wf:
  assumes "node_inv s" and "r \<in> set (nm_outqueue (ln_nm s))" and "nm_message (ln_nm s) r = Some m"
  shows "case m of Fragment_msg f \<Rightarrow> fragment_wf f | Request_msg r \<Rightarrow> True"
  by (rule node_inv_message [OF assms(1,2)]) (use assms(3) in \<open>auto simp: out_frag_ok_def split: net_msg.splits\<close>)

lemma send_attempt_decodable:
  assumes ic: "int_coding_ok ic" and inv: "node_inv s" and a: "net_helper_send_attempt ic tv tv' s = Inr (s', i, out)" and dg: "dg \<in> set out"
  shows "decodable ic (dg_bytes dg)"
proof (cases "nm_outqueue (ln_nm s)")
  case Nil
  then show ?thesis using a dg by (simp add: net_helper_send_attempt_def network_manager_outgoing_queue_ready_def)
next
  case (Cons r q)
  obtain rc iv where i: "network_shaper_next_sending_interval tv (Some (ln_shaper s)) (Some (Timeval 0 0)) = (rc, Some iv)"
    by (simp add: network_shaper_next_sending_interval_def)
  obtain rc' iv' where i': "network_shaper_next_sending_interval tv' (Some (ln_shaper s)) (Some iv) = (rc', Some iv')"
    by (simp add: network_shaper_next_sending_interval_def)
  obtain m where m: "nm_message (ln_nm s) r = Some m" "net_helper_send_msg ic s m = Inr out"
    using a dg Cons i i'
    by (auto simp: net_helper_send_attempt_def network_manager_pop_outgoing_net_msg_def c_bind_Inr_conv
        split: if_split_asm option.split_asm)
  show ?thesis
    by (rule send_msg_decodable [OF ic queued_message_wf [OF inv _ m(1)] m(2) dg]) (simp add: Cons)
qed

lemma wait4data_loop_decodable:
  assumes ic: "int_coding_ok ic"
  shows "wait4data_loop ic events s tout out = Inr (s', tout', out', r) \<Longrightarrow> node_inv s \<Longrightarrow>
    \<forall>dg \<in> set out. decodable ic (dg_bytes dg) \<Longrightarrow> \<forall>dg \<in> set out'. decodable ic (dg_bytes dg)"
proof (induction events arbitrary: s tout out)
  case (Cons e events)
  obtain tv tv' sel where e: "e = (tv, tv', sel)" by (cases e)
  obtain s1 i dgs where a: "net_helper_send_attempt ic tv tv' s = Inr (s1, i, dgs)" "node_inv s1"
    by (rule send_attempt_ok [OF ic Cons.prems(2), of tv tv'])
  have "\<forall>dg \<in> set (out @ dgs). decodable ic (dg_bytes dg)"
    using send_attempt_decodable [OF ic Cons.prems(2) a(1)] Cons.prems(3) by auto
  then show ?case
    using Cons.prems(1) Cons.IH [OF _ a(2), of "timersub tout i" "out @ dgs"] a(1) by (auto simp: e split: if_split_asm)
qed simp

lemma poll_sends_decodable:
  assumes ic: "int_coding_ok (g_coding G)" and inv: "ps_inv G ps" and p: "psinstance_poll G E (Some ps) delta = Inr (Returned (r, ps', out))"
    and dg: "dg \<in> set out"
  shows "decodable (g_coding G) (dg_bytes dg)"
proof -
  obtain s where s: "my_sock ps = Some s" "node_inv s" using inv unfolding ps_inv_def by blast
  obtain st s' tout tout' fds fds' where w: "wait4data (g_coding G) (pe_rounds E) (pe_isset E) s tout fds = Inr (Some (st, s', tout', fds', out))"
    using p s(1)
    by (auto simp: psinstance_poll_def Let_def ps_bind_returned ps_ret_returned case_prod_beta split: option.split_asm)
  show ?thesis
    by (rule wait4data_returns [OF w]) (use wait4data_loop_decodable [OF ic _ s(2), where out = "[]"] dg in auto)
qed

lemma flush_loop_decodable:
  assumes ic: "int_coding_ok ic" and inv: "node_inv s"
  shows "flush_loop ic s (ln_nm s) q = Inr out \<Longrightarrow> set q \<subseteq> set (nm_outqueue (ln_nm s)) \<Longrightarrow> dg \<in> set out \<Longrightarrow> decodable ic (dg_bytes dg)"
proof (induction q arbitrary: out)
  case (Cons r q)
  obtain m o1 o2 where m: "nm_message (ln_nm s) r = Some m" "net_helper_send_msg ic s m = Inr o1"
    "flush_loop ic s (ln_nm s) q = Inr o2" "out = o1 @ o2"
    using Cons.prems(1) by (auto simp: c_bind_Inr_conv split: option.split_asm)
  have "case m of Fragment_msg f \<Rightarrow> fragment_wf f | Request_msg r \<Rightarrow> True"
    using queued_message_wf [OF inv _ m(1)] Cons.prems(2) by simp
  then show ?case using send_msg_decodable [OF ic _ m(2)] Cons.IH [OF m(3)] Cons.prems m(4) by auto
qed simp

lemma destroy_sends_decodable:
  assumes ic: "int_coding_ok (g_coding G)" and inv: "ps_inv G ps" and d: "psinstance_destroy G clk (Some ps) = Inr (Returned out)"
    and dg: "dg \<in> set out"
  shows "decodable (g_coding G) (dg_bytes dg)"
proof -
  obtain s where s: "my_sock ps = Some s" "node_inv s" using inv unfolding ps_inv_def by blast
  obtain msgs s' where s': "send_all_to_peers clk 0 msgs s = Inr s'" "ps_loop (net_helper_deinit (g_coding G) s') = Inr (Returned out)"
    using d s(1) by (auto simp: psinstance_destroy_def ps_bind_returned ps_ret_returned)
  have inv': "node_inv s'" using send_all_keeps [OF s(2) s'(1)] by simp
  have "flush_loop (g_coding G) s' (ln_nm s') (nm_outqueue (ln_nm s')) = Inr out"
    using s'(2) by (cases "flush_loop (g_coding G) s' (ln_nm s') (nm_outqueue (ln_nm s'))")
      (auto simp: net_helper_deinit_def split: sum.split_asm option.split_asm)
  from flush_loop_decodable [OF ic inv' this _ dg] show ?thesis by simp
qed

section \<open>Faults of a turn\<close>

text \<open>Handing a message to \<open>send_to_peer\<close> fails in two ways: the next packet number of the endpoint still names a packet that is
  alive, or the clock of the shaper has not moved since the last message.\<close>

inductive send_hazard :: "int \<Rightarrow> timeval \<Rightarrow> local_node \<Rightarrow> nodeID \<Rightarrow> c_fault \<Rightarrow> bool" for now tv s to where
  number_in_use: "ep_out_id (the_endpoint (ln_nm s) to) \<in> live_packets now (ep_outgoing (the_endpoint (ln_nm s) to)) \<Longrightarrow>
    send_hazard now tv s to Use_After_Free"
| clock_stands: "tv_us tv = tv_us (ns_last_update_time (ln_shaper s)) \<Longrightarrow> send_hazard now tv s to Div_By_Zero"

lemma send_to_peer_faults:
  assumes inv: "node_inv s" and e: "send_to_peer now tv (Some s) (Some to) (Some d) = Inl e"
  shows "send_hazard now tv s to e"
proof -
  have n: "nm_inv (ln_nm s)" "0 < nm_frag_size (ln_nm s)" using inv by (simp_all add: node_inv_def)
  have d: "d \<noteq> []" using e by (auto simp: send_to_peer_def)
  show ?thesis
  proof (cases "ep_out_id (the_endpoint (ln_nm s) to) \<in> live_packets now (ep_outgoing (the_endpoint (ln_nm s) to))")
    case True
    then have "network_manager_enqueue_outgoing_packet now (ln_nm s) (Some (ln_id s)) (Some to) (Some d) = Inl Use_After_Free"
      using enqueue_outgoing_packet_faults(2) [OF n(1) d n(2)] by (simp add: live_packets_def)
    then have "e = Use_After_Free" using e d by (simp add: send_to_peer_def)
    then show ?thesis using number_in_use [OF True] by simp
  next
    case False
    have clk: "tv_us tv = tv_us (ns_last_update_time (ln_shaper s))"
    proof (rule ccontr)
      assume c: "tv_us tv \<noteq> tv_us (ns_last_update_time (ln_shaper s))"
      show False by (rule send_to_peer_queues [OF n(1) d n(2) False c]) (use e in simp)
    qed
    have "\<exists>r nm'. network_manager_enqueue_outgoing_packet now (ln_nm s) (Some (ln_id s)) (Some to) (Some d) = Inr (r, nm')"
      by (rule enqueue_outgoing_packet_spec [OF n(1) d n(2) False [unfolded live_packets_def], of "ln_id s"]) blast
    then have "e = Div_By_Zero"
      using e d by (auto simp: send_to_peer_def network_shaper_update_bitrate_def Let_def c_bind_def split: if_split_asm)
    then show ?thesis using clock_stands [OF clk] by simp
  qed
qed

lemma send_all_faults:
  "send_all_to_peers clk j ms s = Inl e \<Longrightarrow> node_inv s \<Longrightarrow>
   \<exists>ms1 to msg ms2 s'. ms = ms1 @ (to, msg) # ms2 \<and> send_all_to_peers clk j ms1 s = Inr s' \<and>
     send_hazard (fst (clk (j + length ms1))) (snd (clk (j + length ms1))) s' to e"
proof (induction ms arbitrary: s j)
  case (Cons m ms)
  obtain to msg where m: "m = (to, msg)" by (cases m)
  show ?case
  proof (cases "send_to_peer (fst (clk j)) (snd (clk j)) (Some s) (Some to) (Some msg)")
    case (Inl e')
    then have "send_hazard (fst (clk j)) (snd (clk j)) s to e"
      using Cons.prems send_to_peer_faults m by auto
    then show ?thesis by (intro exI [of _ "[]"]) (simp add: m)
  next
    case (Inr x)
    obtain r so where x: "x = (r, so)" by (cases x)
    obtain s1 where s1: "so = Some s1" "node_inv s1" "ln_id s1 = ln_id s" by (rule send_to_peer_ok [OF Cons.prems(2) Inr [unfolded x]])
    have "send_all_to_peers clk (Suc j) ms s1 = Inl e" using Cons.prems(1) Inr x s1(1) by (simp add: m)
    from Cons.IH [OF this s1(2)] obtain ms1 to' msg' ms2 s' where
      i: "ms = ms1 @ (to', msg') # ms2" "send_all_to_peers clk (Suc j) ms1 s1 = Inr s'"
      "send_hazard (fst (clk (Suc j + length ms1))) (snd (clk (Suc j + length ms1))) s' to' e" by (elim exE conjE)
    have "send_all_to_peers clk j (m # ms1) s = Inr s'" using i(2) Inr x s1(1) by (simp add: m)
    then show ?thesis using i(1,3) by (intro exI [of _ "m # ms1"]) auto
  qed
qed simp

text \<open>A turn faults as its call of \<open>psinstance_poll\<close> does, or at the first message that cannot be handed over.\<close>

inductive turn_hazard ::
  "('s, 'p, 'k, 'i, 'src) grapes \<Rightarrow> poll_env \<Rightarrow> (nat \<Rightarrow> int \<times> timeval) \<Rightarrow> ('s, 'p, 'k, 'i, 'src) psinstance \<Rightarrow> int \<Rightarrow> c_fault \<Rightarrow> bool"
  for G E clk ps delta where
  in_poll: "psinstance_poll G E (Some ps) delta = Inl e \<Longrightarrow> poll_hazard G E ps e \<Longrightarrow> turn_hazard G E clk ps delta e"
| in_hand_over: "psinstance_poll G E (Some ps) delta = Inr (Returned (r, ps1, out)) \<Longrightarrow> my_sock ps1 = Some s \<Longrightarrow>
    ps_pending G ps1 = ms1 @ (to, msg) # ms2 \<Longrightarrow> send_all_to_peers clk 0 ms1 s = Inr s' \<Longrightarrow>
    send_hazard (fst (clk (length ms1))) (snd (clk (length ms1))) s' to e \<Longrightarrow> turn_hazard G E clk ps delta e"

lemma turn_post:
  assumes G: "grapes_ok G b V" and inv: "ps_inv G ps" and rand: "\<And>i. pe_rand1 E i \<le> RAND_MAX" "\<And>i. pe_rand2 E i \<le> RAND_MAX"
  shows "ps_post (turn_hazard G E clk ps delta) (psinstance_turn G E clk ps delta)
    (\<lambda>(ps', out). ps_inv G ps' \<and> ps_same ps ps' \<and> (\<forall>dg \<in> set out. decodable (g_coding G) (dg_bytes dg)))"
proof (cases "psinstance_poll G E (Some ps) delta")
  case (Inl e)
  then have "poll_hazard G E ps e" using poll_post [OF G inv rand, of delta] by simp
  then show ?thesis using Inl in_poll [OF Inl] by (simp add: psinstance_turn_def)
next
  case (Inr x)
  show ?thesis
  proof (cases x)
    case (Returned y)
    obtain r ps1 out where y: "y = (r, ps1, out)" by (cases y)
    note p = Inr [unfolded Returned y]
    have i: "ps_inv G ps1" "ps_same ps ps1" using poll_post [OF G inv rand, of delta] p by simp_all
    have dec: "\<forall>dg \<in> set out. decodable (g_coding G) (dg_bytes dg)"
      using poll_sends_decodable [OF _ inv p] G by (simp add: grapes_ok_def)
    have turn: "psinstance_turn G E clk ps delta = ps_bind (ps_ret (ps_hand_over G clk ps1)) (\<lambda>ps2. Inr (Returned (ps2, out)))"
      by (simp add: psinstance_turn_def p)
    show ?thesis
    proof (cases "ps_hand_over G clk ps1")
      case (Inr ps2)
      then show ?thesis using hand_over_keeps [OF i(1) Inr] ps_same_trans [OF i(2)] dec by (simp add: turn)
    next
      case (Inl e)
      obtain s where s: "my_sock ps1 = Some s" "node_inv s" using i(1) unfolding ps_inv_def by blast
      then have f: "send_all_to_peers clk 0 (ps_pending G ps1) s = Inl e"
        using Inl by (cases "send_all_to_peers clk 0 (ps_pending G ps1) s") (simp_all add: ps_hand_over_def)
      obtain ms1 to msg ms2 s' where h: "ps_pending G ps1 = ms1 @ (to, msg) # ms2" "send_all_to_peers clk 0 ms1 s = Inr s'"
        "send_hazard (fst (clk (0 + length ms1))) (snd (clk (0 + length ms1))) s' to e"
        using send_all_faults [OF f s(2)] by (elim exE conjE)
      have "turn_hazard G E clk ps delta e" by (rule in_hand_over [OF p s(1) h(1,2)]) (use h(3) in simp)
      then show ?thesis using Inl by (simp add: turn)
    qed
  qed (use Inr in \<open>simp_all add: psinstance_turn_def\<close>)
qed

section \<open>The network\<close>

record ('n, 's, 'p, 'k, 'i, 'src) engine_net =
  en_engines :: "'n \<Rightarrow> ('s, 'p, 'k, 'i, 'src) psinstance option"
  en_sent :: "datagram list"

definition empty_net :: "('n, 's, 'p, 'k, 'i, 'src) engine_net" where
  "empty_net = \<lparr>en_engines = (\<lambda>_. None), en_sent = []\<rparr>"

text \<open>What \<open>recvfrom\<close> may deliver: an error, or a datagram of the network that fits into the receive buffer, under any address.\<close>

definition arrives :: "('n, 's, 'p, 'k, 'i, 'src) engine_net \<Rightarrow> (sock_addr \<times> bytes) option \<Rightarrow> bool" where
  "arrives N incoming \<longleftrightarrow>
     (case incoming of None \<Rightarrow> True | Some (addr, b) \<Rightarrow> b \<in> dg_bytes ` set (en_sent N) \<and> length b \<le> MSG_BUFFSIZE)"

inductive net_step ::
  "('s, 'p, 'k, 'i, 'src) grapes \<Rightarrow> ('n, 's, 'p, 'k, 'i, 'src) engine_net \<Rightarrow> ('n, 's, 'p, 'k, 'i, 'src) engine_net \<Rightarrow> bool" for G where
  net_join: "en_engines N i = None \<Longrightarrow> create_ok H cfg \<Longrightarrow>
    psinstance_create G H cfg clk srv_ip srv_port = Inr (Returned (Some ps)) \<Longrightarrow>
    net_step G N (N\<lparr>en_engines := (en_engines N)(i := Some ps)\<rparr>)"
| net_turn: "en_engines N i = Some ps \<Longrightarrow> arrives N (pe_incoming E) \<Longrightarrow> \<forall>j. pe_rand1 E j \<le> RAND_MAX \<and> pe_rand2 E j \<le> RAND_MAX \<Longrightarrow>
    psinstance_turn G E clk ps delta = Inr (Returned (ps', out)) \<Longrightarrow>
    net_step G N (N\<lparr>en_engines := (en_engines N)(i := Some ps'), en_sent := en_sent N @ out\<rparr>)"
| net_periodic: "en_engines N i = Some ps \<Longrightarrow> psinstance_network_periodic G tv tv' (Some ps) = Inr (ms, Some ps', out) \<Longrightarrow>
    net_step G N (N\<lparr>en_engines := (en_engines N)(i := Some ps'), en_sent := en_sent N @ out\<rparr>)"
| net_leave: "en_engines N i = Some ps \<Longrightarrow> psinstance_destroy G clk (Some ps) = Inr (Returned out) \<Longrightarrow>
    net_step G N (N\<lparr>en_engines := (en_engines N)(i := None), en_sent := en_sent N @ out\<rparr>)"
| net_killed: "net_step G N (N\<lparr>en_engines := (en_engines N)(i := None)\<rparr>)"

inductive net_run :: "('s, 'p, 'k, 'i, 'src) grapes \<Rightarrow> ('n, 's, 'p, 'k, 'i, 'src) engine_net \<Rightarrow> bool" for G where
  net_start: "net_run G empty_net"
| net_next: "net_run G N \<Longrightarrow> net_step G N N' \<Longrightarrow> net_run G N'"

definition net_inv :: "('s, 'p, 'k, 'i, 'src) grapes \<Rightarrow> ('n, 's, 'p, 'k, 'i, 'src) engine_net \<Rightarrow> bool" where
  "net_inv G N \<longleftrightarrow> (\<forall>i ps. en_engines N i = Some ps \<longrightarrow> ps_inv G ps) \<and> (\<forall>dg \<in> set (en_sent N). decodable (g_coding G) (dg_bytes dg))"

lemma net_inv_update:
  "net_inv G N \<Longrightarrow> (\<And>ps. p = Some ps \<Longrightarrow> ps_inv G ps) \<Longrightarrow> \<forall>dg \<in> set out. decodable (g_coding G) (dg_bytes dg) \<Longrightarrow>
   net_inv G (N\<lparr>en_engines := (en_engines N)(i := p), en_sent := en_sent N @ out\<rparr>)"
  by (auto simp: net_inv_def)

lemma net_inv_engines:
  "net_inv G N \<Longrightarrow> (\<And>ps. p = Some ps \<Longrightarrow> ps_inv G ps) \<Longrightarrow> net_inv G (N\<lparr>en_engines := (en_engines N)(i := p)\<rparr>)"
  by (auto simp: net_inv_def)

lemma network_periodic_keeps:
  assumes ic: "int_coding_ok (g_coding G)" and inv: "ps_inv G ps" and p: "psinstance_network_periodic G tv tv' (Some ps) = Inr (ms, pso, out)"
  shows "(\<forall>ps'. pso = Some ps' \<longrightarrow> ps_inv G ps') \<and> (\<forall>dg \<in> set out. decodable (g_coding G) (dg_bytes dg))"
proof -
  obtain s where s: "my_sock ps = Some s" "node_inv s" "nd_fd (ln_id s) < FD_SETSIZE" using inv unfolding ps_inv_def by blast
  obtain s' i o1 where a: "net_helper_send_attempt (g_coding G) tv tv' s = Inr (s', i, o1)" "node_inv s'" "ln_id s' = ln_id s"
    by (rule send_attempt_ok [OF ic s(2), of tv tv'])
  have "pso = Some (ps\<lparr>my_sock := Some s'\<rparr>)" "out = o1"
    using p s(1) a(1) by (auto simp: psinstance_network_periodic_def net_helper_periodic_def)
  then show ?thesis
    using send_attempt_decodable [OF ic s(2) a(1)] inv s(3) a(2,3) by (simp add: ps_inv_def)
qed

lemma net_step_inv:
  assumes G: "grapes_ok G b V" and "net_step G N N'" and inv: "net_inv G N"
  shows "net_inv G N'"
proof -
  have ic: "int_coding_ok (g_coding G)" using G by (simp add: grapes_ok_def)
  have engine: "ps_inv G ps" if "en_engines N i = Some ps" for i ps using inv that by (simp add: net_inv_def)
  from assms(2) show ?thesis
  proof cases
    case (net_join i H cfg clk srv_ip srv_port ps)
    then show ?thesis using create_inv [OF G net_join(3,4)] net_inv_engines [OF inv] by blast
  next
    case (net_turn i ps E clk delta ps' out)
    have "ps_post (turn_hazard G E clk ps delta) (psinstance_turn G E clk ps delta)
      (\<lambda>(ps', out). ps_inv G ps' \<and> ps_same ps ps' \<and> (\<forall>dg \<in> set out. decodable (g_coding G) (dg_bytes dg)))"
      by (rule turn_post [OF G engine [OF net_turn(2)]]) (use net_turn(4) in simp_all)
    then show ?thesis unfolding net_turn(1) net_turn(5) by (intro net_inv_update [OF inv]) auto
  next
    case (net_periodic i ps tv tv' ms ps' out)
    then show ?thesis
      using network_periodic_keeps [OF ic engine [OF net_periodic(2)] net_periodic(3)] net_inv_update [OF inv] by blast
  next
    case (net_leave i ps clk out)
    then show ?thesis
      using destroy_sends_decodable [OF ic engine [OF net_leave(2)] net_leave(3)] net_inv_update [OF inv, of None] by blast
  next
    case (net_killed i)
    then show ?thesis using net_inv_engines [OF inv, of None] by blast
  qed
qed

lemma net_run_inv:
  assumes "grapes_ok G b V" and "net_run G N"
  shows "net_inv G N"
  using assms(2)
proof induction
  case (net_next N N')
  then show ?case using net_step_inv [OF assms(1)] by blast
qed (simp add: net_inv_def empty_net_def)

text \<open>Nothing malformed arrives.\<close>

lemma arrives_decodes:
  assumes "net_inv G N" and "arrives N (Some (addr, dg))"
  shows "\<exists>m. net_msg_decode (g_coding G) (Some dst) (Some src) dg = Inr (Some m)"
  using assms unfolding net_inv_def arrives_def decodable_def by auto

section \<open>Properties\<close>



end
