(* ===== verification/Chunk_Exchange.thy ===== *)
theory Chunk_Exchange
  imports Engine_Safety
begin

text \<open>
  Two engines trade chunks: the offer of one, the accept of the other, the chunks that are sent for it and what the receiver
  does with each (\<open>handle_signalling_msg\<close> and \<open>handle_chunk_msg\<close> of \<open>Psinstance\<close>, with the trader operations of
  \<open>Chunk_Trader\<close> behind them).  Nothing of the code is modelled here; the lemmas say what one engine does with one message, for an
  engine in any well-formed state, so that they hold whatever it did between two messages.
\<close>

section \<open>One message\<close>

text \<open>An offer from a known peer is answered with an accept.\<close>

lemma engine_answers_offer:
  assumes G: "grapes_ok G b V" and inv: "ps_inv G ps" and t: "ps_topology ps = Some t" and ct: "ps_trader ps = Some ct"
    and x: "topology_get_peer (g_peersets G) t i = Some x"
    and sg: "g_parse_signaling G (drop 1 msg) = Some sg" "sg_type sg = Sig_offer"
    and clk: "te_islocked E = (\<lambda>_ _. now)" "te_lock E = (\<lambda>_. now)" "now \<le> timeradd now (cl_toutdiff (ch_locks ct))"
  obtains ps' ct' acc where "handle_signalling_msg G E (Some i) msg ps = Inr ps'" and "ps_inv G ps'" and "ps_same ps ps'" and "ps_trader ps' = Some ct'"
    and "ct_sent ct' = ct_sent ct @ [Send_accept i acc (sg_trans_id sg)]" and "V acc"
    and "set (is_elems (g_idset G) acc) =
      set (take (nat (sg_max_deliver sg)) (rev (sorted_list_of_set (useful_chunks (g_chunkbuf G) (g_idset G) now ct (sg_cset sg)))))"
proof -
  have laws: "peerset_ok (g_peersets G) b" "idset_ok (g_idset G) V" "V (sg_cset sg)" using G sg(1) unfolding grapes_ok_def by blast+
  have tinv: "topo_inv (g_peersets G) t" and wf: "cl_wf (ch_locks ct)" using inv t ct by (auto simp: ps_inv_def)
  obtain p u where p: "tp_peers t x = Some p" "pr_id p = i" "pr_user_data p = Some u" by (rule get_peer_Some [OF laws(1) tinv x])
  obtain acc ls t' where r: "chunk_trader_handle_offer (g_chunkbuf G) (g_idset G) (te_now E) (\<lambda>_ _. now) (\<lambda>_. now) x (sg_cset sg) (sg_max_deliver sg) (sg_trans_id sg) ct t =
      Inr (0, ct\<lparr>ch_locks := ls, ct_sent := ct_sent ct @ [Send_accept (pr_id p) acc (sg_trans_id sg)]\<rparr>, t')" and acc: "V acc"
      "set (is_elems (g_idset G) acc) =
        set (take (nat (sg_max_deliver sg)) (rev (sorted_list_of_set (useful_chunks (g_chunkbuf G) (g_idset G) now ct (sg_cset sg)))))"
    by (rule handle_offer_lemma [OF laws(2,3) wf p(1,3) clk(3)])
  define ct' where "ct' = ct\<lparr>ch_locks := ls, ct_sent := ct_sent ct @ [Send_accept i acc (sg_trans_id sg)]\<rparr>"
  have run: "handle_signalling_msg G E (Some i) msg ps = Inr (ps\<lparr>ps_trader := Some ct', ps_topology := Some t'\<rparr>)"
    using t ct x sg clk(1,2) r p(2) by (simp add: handle_signalling_msg_def chunk_trader_msg_parse_def lookup_eq ct'_def) (simp add: nodeid_to_peer_def)
  then show thesis
    using handle_signalling_post [OF G inv, of E i msg] that [of "ps\<lparr>ps_trader := Some ct', ps_topology := Some t'\<rparr>" ct' acc] acc by (simp add: ct'_def)
qed

text \<open>An accept is answered with the chunks that are still there.\<close>

lemma engine_answers_accept:
  assumes G: "grapes_ok G b V" and inv: "ps_inv G ps" and t: "ps_topology ps = Some t" and ct: "ps_trader ps = Some ct"
    and x: "topology_get_peer (g_peersets G) t i = Some x"
    and sg: "g_parse_signaling G (drop 1 msg) = Some sg" "sg_type sg = Sig_accept"
  obtains ps' ct' where "handle_signalling_msg G E (Some i) msg ps = Inr ps'" and "ps_inv G ps'" and "ps_same ps ps'" and "ps_trader ps' = Some ct'"
    and "ct_cb ct' = ct_cb ct"
    and "ct_sent ct' = ct_sent ct @ map (\<lambda>c. Send_chunk i (the (cb_get_chunk (g_chunkbuf G) (ct_cb ct) c)) (sg_trans_id sg))
      (take (nat (min (int (is_size (g_idset G) (sg_cset sg))) (chunks_per_peer_offer ct)))
        (filter (\<lambda>c. cb_get_chunk (g_chunkbuf G) (ct_cb ct) c \<noteq> None) (is_elems (g_idset G) (sg_cset sg))))"
proof -
  have ok: "peerset_ok (g_peersets G) b" using G by (simp add: grapes_ok_def)
  have tinv: "topo_inv (g_peersets G) t" using inv t by (auto simp: ps_inv_def)
  obtain p u where p: "tp_peers t x = Some p" "pr_id p = i" "pr_user_data p = Some u" by (rule get_peer_Some [OF ok tinv x])
  obtain ct' t' where r: "chunk_trader_handle_accept (g_chunkbuf G) (g_idset G) (te_now E) (te_sres E) x (sg_cset sg) (sg_max_deliver sg) (sg_trans_id sg) ct t = Inr (0, ct', t')"
    and s: "ct_sent ct' = ct_sent ct @ map (\<lambda>c. Send_chunk (pr_id p) (the (cb_get_chunk (g_chunkbuf G) (ct_cb ct) c)) (sg_trans_id sg))
      (take (nat (min (int (is_size (g_idset G) (sg_cset sg))) (chunks_per_peer_offer ct)))
        (filter (\<lambda>c. cb_get_chunk (g_chunkbuf G) (ct_cb ct) c \<noteq> None) (is_elems (g_idset G) (sg_cset sg))))" "ct_cb ct' = ct_cb ct"
    using handle_accept_lemma [OF p(1,3), of "g_chunkbuf G" "g_idset G" "te_now E" "te_sres E" "sg_cset sg" "sg_max_deliver sg" "sg_trans_id sg" ct] by blast
  have run: "handle_signalling_msg G E (Some i) msg ps = Inr (ps\<lparr>ps_trader := Some ct', ps_topology := Some t'\<rparr>)"
    using t ct x sg r by (simp add: handle_signalling_msg_def chunk_trader_msg_parse_def lookup_eq)
  then show thesis
    using handle_signalling_post [OF G inv, of E i msg] that [of "ps\<lparr>ps_trader := Some ct', ps_topology := Some t'\<rparr>" ct'] s p(2) by simp
qed

text \<open>A chunk is unlocked, acknowledged, put into the buffer and, if the buffer takes it, given to the output.\<close>

definition chunk_taken :: "('s, 'p, 'k, 'i, 'src) grapes \<Rightarrow> nodeID \<Rightarrow> gchunk \<Rightarrow> u16 \<Rightarrow> ('s, 'p, 'k, 'i, 'src) psinstance \<Rightarrow> ('s, 'p, 'k, 'i, 'src) psinstance \<Rightarrow> bool" where
  "chunk_taken G i k0 tid ps ps' \<longleftrightarrow>
     (\<exists>ct ct' k. ps_trader ps = Some ct \<and> ps_trader ps' = Some ct' \<and> gc_id k = gc_id k0 \<and> gc_data k = gc_data k0 \<and>
        ch_locks ct' = the (chunk_unlock (Some (ch_locks ct)) (gc_id k0)) \<and>
        ct_sent ct' = ct_sent ct @ [Send_ack i (chunk_buffer_to_idset (g_chunkbuf G) (g_idset G) (ct_cb ct)) tid] \<and>
        ct_cb ct' = snd (cb_add_chunk (g_chunkbuf G) (ct_cb ct) k) \<and>
        (if fst (cb_add_chunk (g_chunkbuf G) (ct_cb ct) k) \<ge> 0
         then cb_get_chunk (g_chunkbuf G) (ct_cb ct') (gc_id k0) \<noteq> None \<and>
           (\<exists>q. output_deliver (chunk_out ps) (Some (output_chunk k)) = Some (Inr (q, chunk_out ps')))
         else chunk_out ps' = chunk_out ps))"

lemma chunk_received_ok:
  assumes "ac_attributes k0 \<noteq> Attr_freed"
  obtains k where "chunk_received k0 = Inr k" and "gc_id k = gc_id k0" and "gc_data k = gc_data k0" and "ac_attributes k \<noteq> Attr_freed"
  using assms by (cases "ac_attributes k0") (auto simp: chunk_received_def chunk_attributes_update_upon_reception_def)

lemma engine_takes_chunk:
  assumes G: "grapes_ok G b V" and inv: "ps_inv G ps" and out: "chunk_out ps \<noteq> None"
    and msg: "1 < length msg" "g_parse_chunk G (drop 1 msg) = Some (k0, tid)"
  shows "\<exists>ps'. handle_chunk_msg G (Some i) msg ps = Inr (Returned ps') \<and> ps_inv G ps' \<and> ps_same ps ps' \<and> chunk_taken G i k0 tid ps ps'"
proof -
  obtain t ct m co where t: "ps_topology ps = Some t" "topo_inv (g_peersets G) t" and ct: "ps_trader ps = Some ct"
    and m: "ps_measure ps = Some m" "cie_state m \<noteq> Ready" and co: "chunk_out ps = Some co" "out_inv co"
    using inv out unfolding ps_inv_def by blast
  have ok: "peerset_ok (g_peersets G) b" "chunkbuf_ok (g_chunkbuf G)" using G by (simp_all add: grapes_ok_def)
  have "ac_attributes k0 \<noteq> Attr_freed" using G msg(2) unfolding grapes_ok_def by blast
  then obtain k where k: "chunk_received k0 = Inr k" "gc_id k = gc_id k0" "gc_data k = gc_data k0" "ac_attributes k \<noteq> Attr_freed"
    by (rule chunk_received_ok)
  define ct1 where ct1: "ct1 = chunk_trader_send_ack (g_chunkbuf G) (g_idset G) i tid (ct\<lparr>ch_locks := the (chunk_unlock (Some (ch_locks ct)) (gc_id k))\<rparr>)"
  obtain t1 where t1: "(case topology_get_peer (g_peersets G) t i of Some a \<Rightarrow> set_bmap a (\<lambda>b. is_add (g_idset G) b (gc_id k)) None t | None \<Rightarrow> Inr t) = Inr t1"
    by (cases "topology_get_peer (g_peersets G) t i") (use set_bmap_safe [OF known_peer_has_data [OF ok(1) t(2), of i], of _ "\<lambda>b. is_add (g_idset G) b (gc_id k)" None] in auto)
  have p: "chunk_trader_parse_chunk (g_peersets G) (g_psample G) (g_coding G) (g_chunkbuf G) (g_idset G) (g_parse_chunk G) (Some i) msg ct t = Inr (Some k, ct1, t1)"
    using msg k(1) t1 by (simp add: chunk_trader_parse_chunk_def lookup_eq ct1 Let_def)
  obtain r cb where add: "cb_add_chunk (g_chunkbuf G) (ct_cb ct) k = (r, cb)" by fastforce
  have cb1: "ct_cb ct1 = ct_cb ct" by (simp add: ct1 chunk_trader_send_ack_def)
  obtain q m' where m': "reg_chunk_receive (Some m) (Some (gc_id k, gc_timestamp k)) = Inr (q, Some m')" using measure_safe [OF m(2)] by blast
  obtain q' co' where co': "output_deliver (Some co) (Some (output_chunk k)) = Some (Inr (q', Some co'))" using deliver_inv [OF co(2)] by blast
  have d: "\<exists>x. chunk_destroy (Some k) = Inr x" using k(4) by (cases "ac_attributes k") (auto simp: chunk_destroy_def chunk_attributes_deinit_def)
  define ps' where ps': "ps' = (let ps2 = ps\<lparr>ps_trader := Some (ct1\<lparr>ct_cb := cb\<rparr>), ps_topology := Some t1\<rparr> in
    if r \<ge> 0 then ps2\<lparr>ps_measure := Some m', chunk_out := Some co'\<rparr> else ps2)"
  have run: "handle_chunk_msg G (Some i) msg ps = Inr (Returned ps')"
    using t(1) ct co(1) p m(1) m' co' d add cb1
    by (auto simp: handle_chunk_msg_def psinstance_is_source_def chunk_trader_add_chunk_def ps' Let_def)
  have post: "ps_inv G ps' \<and> ps_same ps ps'" using handle_chunk_post [OF G inv, of i msg] by (simp add: run)
  have held: "r \<ge> 0 \<Longrightarrow> cb_get_chunk (g_chunkbuf G) cb (gc_id k0) \<noteq> None" using ok(2) add k(2) unfolding chunkbuf_ok_def by (metis fst_conv snd_conv)
  have "chunk_taken G i k0 tid ps ps'"
    unfolding chunk_taken_def
    by (rule exI [of _ ct], rule exI [of _ "ct1\<lparr>ct_cb := cb\<rparr>"], rule exI [of _ k])
      (use ct co co' k add held in \<open>auto simp: ps' Let_def ct1 chunk_trader_send_ack_def\<close>)
  then show ?thesis using run post by blast
qed

section \<open>The trade\<close>

text \<open>The accepted chunks are at most as many as the offer announced, so all of them are sent if they are held.\<close>

lemma all_accepted_sent:
  assumes ok: "idset_ok I V" and V: "V acc" and acc: "set (is_elems I acc) = set (take (nat n) xs)" and held: "\<forall>c \<in> set (is_elems I acc). P c"
  shows "take (nat (min (int (is_size I acc)) n)) (filter P (is_elems I acc)) = is_elems I acc"
proof -
  have "length (is_elems I acc) = card (set (take (nat n) xs))" using distinct_card [OF idset_at(1) [OF ok V]] by (simp add: acc)
  also have "\<dots> \<le> nat n" by (rule order_trans [OF card_length]) simp
  finally have "length (is_elems I acc) \<le> nat (min (int (length (is_elems I acc))) n)" by (cases "n \<ge> 0") auto
  moreover have "filter P (is_elems I acc) = is_elems I acc" using held by (simp add: filter_id_conv)
  ultimately show ?thesis by (simp add: is_size_elems)
qed

text \<open>C5: A trade between two engines.  When one offers chunks it holds, the other accepts exactly the latest useful ones, as many as
  the offer announced; the first answers the accept with exactly these chunks, each as its buffer has it, all with the
  transaction of the offer; and whenever one of them arrives, in whatever state the receiver is by then, it is unlocked, acknowledged, put into
  the buffer and, if the buffer takes it, given to the output.  Both engines stay well formed.\<close>

theorem chunks_traded:
  assumes "grapes_ok G b V"
    and "ps_inv G pa" and "ps_topology pa = Some ta" and "ps_trader pa = Some ca" and "topology_get_peer (g_peersets G) ta ib = Some x"
    and "ps_inv G pb" and "ps_topology pb = Some tb" and "ps_trader pb = Some cb" and "topology_get_peer (g_peersets G) tb ia = Some y"
    and "chunk_out pb \<noteq> None"
    and "g_parse_signaling G (drop 1 offer) = Some \<lparr>sg_type = Sig_offer, sg_cset = cset, sg_max_deliver = chunks_per_peer_offer ca, sg_trans_id = tid\<rparr>"
    and "\<forall>c \<in> set (is_elems (g_idset G) cset). cb_get_chunk (g_chunkbuf G) (ct_cb ca) c \<noteq> None"
    and "\<forall>s. V s \<and> set (is_elems (g_idset G) s) \<subseteq> set (is_elems (g_idset G) cset) \<longrightarrow> g_parse_signaling G (drop 1 (accept s)) = Some \<lparr>sg_type = Sig_accept, sg_cset = s, sg_max_deliver = n, sg_trans_id = tid\<rparr>"
    and "te_islocked E = (\<lambda>_ _. now)" and "te_lock E = (\<lambda>_. now)" and "now \<le> timeradd now (cl_toutdiff (ch_locks cb))"
  shows "\<exists>acc pb1 cb1 pa1 ca1.
    handle_signalling_msg G E (Some ia) offer pb = Inr pb1 \<and> ps_inv G pb1 \<and> ps_trader pb1 = Some cb1 \<and>
    ct_sent cb1 = ct_sent cb @ [Send_accept ia acc tid] \<and>
    set (is_elems (g_idset G) acc) = set (take (nat (chunks_per_peer_offer ca)) (rev (sorted_list_of_set
      {c \<in> set (is_elems (g_idset G) cset). cb_get_chunk (g_chunkbuf G) (ct_cb cb) c = None \<and>
         \<not> (\<exists>l \<in> set (cl_locks (ch_locks cb)). lk_chunkid l = c \<and> lock_live now (ch_locks cb) l)}))) \<and>
    handle_signalling_msg G E' (Some ib) (accept acc) pa = Inr pa1 \<and> ps_inv G pa1 \<and> ps_trader pa1 = Some ca1 \<and>
    ct_sent ca1 = ct_sent ca @ map (\<lambda>c. Send_chunk ib (the (cb_get_chunk (g_chunkbuf G) (ct_cb ca) c)) tid) (is_elems (g_idset G) acc) \<and>
    (\<forall>c \<in> set (is_elems (g_idset G) acc). \<forall>msg ps.
       1 < length msg \<and> g_parse_chunk G (drop 1 msg) = Some (the (cb_get_chunk (g_chunkbuf G) (ct_cb ca) c), tid) \<and> ps_inv G ps \<and> ps_same pb1 ps \<longrightarrow>
       (\<exists>ps'. handle_chunk_msg G (Some ia) msg ps = Inr (Returned ps') \<and> ps_inv G ps' \<and>
          chunk_taken G ia (the (cb_get_chunk (g_chunkbuf G) (ct_cb ca) c)) tid ps ps'))"
proof -
  obtain pb1 cb1 acc where o: "handle_signalling_msg G E (Some ia) offer pb = Inr pb1" "ps_inv G pb1" "ps_same pb pb1" "ps_trader pb1 = Some cb1"
    "ct_sent cb1 = ct_sent cb @ [Send_accept ia acc tid]" "V acc"
    and acc: "set (is_elems (g_idset G) acc) =
      set (take (nat (chunks_per_peer_offer ca)) (rev (sorted_list_of_set (useful_chunks (g_chunkbuf G) (g_idset G) now cb cset))))"
    by (rule engine_answers_offer [OF assms(1,6-9,11) _ assms(14-16)]) simp_all
  have "set (is_elems (g_idset G) acc) \<subseteq> useful_chunks (g_chunkbuf G) (g_idset G) now cb cset"
    using set_take_subset by (fastforce simp: acc useful_chunks_def)
  then have sub: "set (is_elems (g_idset G) acc) \<subseteq> set (is_elems (g_idset G) cset)" by (auto simp: useful_chunks_def)
  then have held: "\<forall>c \<in> set (is_elems (g_idset G) acc). cb_get_chunk (g_chunkbuf G) (ct_cb ca) c \<noteq> None"
    using assms(12) by blast
  have ids: "idset_ok (g_idset G) V" using assms(1) by (simp add: grapes_ok_def)
  obtain pa1 ca1 where a: "handle_signalling_msg G E' (Some ib) (accept acc) pa = Inr pa1" "ps_inv G pa1" "ps_trader pa1 = Some ca1"
    "ct_sent ca1 = ct_sent ca @ map (\<lambda>c. Send_chunk ib (the (cb_get_chunk (g_chunkbuf G) (ct_cb ca) c)) tid) (is_elems (g_idset G) acc)"
    by (rule engine_answers_accept [OF assms(1-5) assms(13) [rule_format, OF conjI, OF o(6) sub], of E'])
      (simp_all del: not_None_eq add: all_accepted_sent [OF ids o(6) acc held])
  have out: "chunk_out ps \<noteq> None" if "ps_same pb1 ps" for ps using that o(3) assms(10) by (simp add: ps_same_def)
  show ?thesis
    using o(1,2,4,5) acc [unfolded useful_chunks_def free_chunk_def] a engine_takes_chunk [OF assms(1) _ out, where i = ia and tid = tid] by blast
qed

text \<open>Two engines that know each other by the same name: one has chunk 3, the other nothing.\<close>

definition trade_signal :: "bytes \<Rightarrow> int list signal option" where
  "trade_signal m =
     (case m of
        [] \<Rightarrow> None
      | t # r \<Rightarrow> Some \<lparr>sg_type = (if t = 0 then Sig_offer else Sig_accept), sg_cset = (if r = [] then [] else [3]), sg_max_deliver = 1, sg_trans_id = 1\<rparr>)"

definition trade_grapes :: "(nat list, unit, gchunk list, int list, unit) grapes" where
  "trade_grapes = sample_grapes\<lparr>g_parse_signaling := trade_signal, g_parse_chunk := (\<lambda>_. Some (sample_chunk 3, 1))\<rparr>"

definition trade_accept :: "int list \<Rightarrow> bytes" where
  "trade_accept s = [0x12, 1] @ (if s = [] then [] else [1])"

definition trade_moment :: trade_env where
  "trade_moment = \<lparr>te_now = Timeval 9 0, te_islocked = (\<lambda>_ _. Timeval 9 0), te_lock = (\<lambda>_. Timeval 9 0), te_sres = (\<lambda>_. 0)\<rparr>"

lemma trade_grapes_ok: "grapes_ok trade_grapes [] list_idset_valid"
  using sample_grapes_ok
  by (auto simp: grapes_ok_def trade_grapes_def sample_chunk_def trade_signal_def list_idset_valid_def split: list.split)

lemma trade_accepts:
  assumes "list_idset_valid s" and "set (is_elems (g_idset trade_grapes) s) \<subseteq> set (is_elems (g_idset trade_grapes) [3])"
  shows "g_parse_signaling trade_grapes (drop 1 (trade_accept s)) = Some \<lparr>sg_type = Sig_accept, sg_cset = s, sg_max_deliver = 1, sg_trans_id = 1\<rparr>"
proof -
  have "set s \<subseteq> {3}" "distinct s" using assms by (simp_all add: trade_grapes_def sample_grapes_def list_idset_valid_def)
  then have "s = [] \<or> s = [3]" by (cases s; cases "tl s") auto
  then show ?thesis by (auto simp: trade_accept_def trade_grapes_def trade_signal_def)
qed

theorem chunks_traded_witness:
  "\<exists>pa pb pb1 pa1 pb2 cb1 ca1 acc. handle_signalling_msg trade_grapes trade_moment (Some peer_node) [0x12, 0, 1] pb = Inr pb1 \<and>
     ps_trader pb1 = Some cb1 \<and> ct_sent cb1 = [Send_accept peer_node acc 1] \<and> set acc = {3} \<and>
     handle_signalling_msg trade_grapes trade_moment (Some peer_node) (trade_accept acc) pa = Inr pa1 \<and> ps_trader pa1 = Some ca1 \<and>
     Send_chunk peer_node (sample_chunk 3) 1 \<in> set (ct_sent ca1) \<and>
     handle_chunk_msg trade_grapes (Some peer_node) [0x13, 0] pb1 = Inr (Returned pb2) \<and> chunk_taken trade_grapes peer_node (sample_chunk 3) 1 pb1 pb2"
proof -
  obtain p0 where c: "psinstance_create sample_grapes sample_host sample_config (\<lambda>_. (1, Timeval 1 0)) (Some ''10.0.0.1'') 7000 = Inr (Returned (Some p0))"
    using sample_creates by blast
  have inv0: "ps_inv sample_grapes p0" using create_inv [OF sample_grapes_ok sample_create_ok c] by blast
  define w where "w ids = p0\<lparr>ps_topology := Some trader_world, ps_trader := Some (sample_trader ids)\<rparr>" for ids
  have inv: "ps_inv trade_grapes (w ids)" for ids
    using inv0 trader_world_inv sample_trader_locks by (simp add: ps_inv_def w_def trade_grapes_def) (simp add: sample_grapes_def)
  have f: "ps_topology (w ids) = Some trader_world" "ps_trader (w ids) = Some (sample_trader ids)" "chunk_out (w ids) \<noteq> None" for ids
    using sample_peer(2) [OF c] by (simp_all add: w_def)
  have g: "topology_get_peer (g_peersets trade_grapes) trader_world peer_node = Some 0"
    by (simp add: topology_get_peer_def trade_grapes_def sample_grapes_def) (simp add: list_peerset_def trader_world_def empty_topology_def pid_def)
  have t: "chunks_per_peer_offer (sample_trader ids) = 1" "ct_sent (sample_trader ids) = []" for ids
    by (simp_all add: sample_trader_def chunk_trader_create_def config_default_def)
  have offer: "g_parse_signaling trade_grapes (drop 1 [0x12, 0, 1]) =
      Some \<lparr>sg_type = Sig_offer, sg_cset = [3], sg_max_deliver = chunks_per_peer_offer (sample_trader [3]), sg_trans_id = 1\<rparr>"
    by (simp add: trade_grapes_def trade_signal_def t)
  have el: "is_elems (g_idset trade_grapes) s = s" for s by (simp add: trade_grapes_def sample_grapes_def)
  have held: "\<forall>c \<in> set (is_elems (g_idset trade_grapes) [3]). cb_get_chunk (g_chunkbuf trade_grapes) (ct_cb (sample_trader [3])) c \<noteq> None"
    unfolding el by (simp add: trade_grapes_def sample_grapes_def list_chunkbuf_def sample_trader_def sample_chunk_def)
  have useful: "{c \<in> set [3]. cb_get_chunk (g_chunkbuf trade_grapes) (ct_cb (sample_trader [])) c = None \<and>
         \<not> (\<exists>l \<in> set (cl_locks (ch_locks (sample_trader []))). lk_chunkid l = c \<and> lock_live (Timeval 9 0) (ch_locks (sample_trader [])) l)} = {3 :: int}"
    by (auto simp: trade_grapes_def sample_grapes_def list_chunkbuf_def sample_trader_def chunk_trader_create_def chunk_locks_create_def)
  have clk: "te_islocked trade_moment = (\<lambda>_ _. Timeval 9 0)" "te_lock trade_moment = (\<lambda>_. Timeval 9 0)"
    "Timeval 9 0 \<le> timeradd (Timeval 9 0) (cl_toutdiff (ch_locks (sample_trader [])))"
    by (simp_all add: trade_moment_def sample_trader_locks timeradd_def less_eq_timeval_def less_timeval_def)
  have accepts: "\<forall>s. list_idset_valid s \<and> set (is_elems (g_idset trade_grapes) s) \<subseteq> set (is_elems (g_idset trade_grapes) [3]) \<longrightarrow>
      g_parse_signaling trade_grapes (drop 1 (trade_accept s)) = Some \<lparr>sg_type = Sig_accept, sg_cset = s, sg_max_deliver = 1, sg_trans_id = 1\<rparr>"
    using trade_accepts by blast
  have chunk: "the (cb_get_chunk (g_chunkbuf trade_grapes) (ct_cb (sample_trader [3])) 3) = sample_chunk 3"
    by (simp add: trade_grapes_def sample_grapes_def list_chunkbuf_def sample_trader_def sample_chunk_def)
  obtain acc pb1 cb1 pa1 ca1 where r: "handle_signalling_msg trade_grapes trade_moment (Some peer_node) [0x12, 0, 1] (w []) = Inr pb1" "ps_inv trade_grapes pb1"
      "ps_trader pb1 = Some cb1" "ct_sent cb1 = [Send_accept peer_node acc 1]" "set acc = set (take (nat 1) (rev (sorted_list_of_set {3})))"
      "handle_signalling_msg trade_grapes trade_moment (Some peer_node) (trade_accept acc) (w [3]) = Inr pa1" "ps_trader pa1 = Some ca1"
      "ct_sent ca1 = map (\<lambda>c. Send_chunk peer_node (the (cb_get_chunk (g_chunkbuf trade_grapes) (ct_cb (sample_trader [3])) c)) 1) acc"
    and taken: "\<forall>c \<in> set acc. \<forall>msg ps. 1 < length msg \<and> g_parse_chunk trade_grapes (drop 1 msg) =
        Some (the (cb_get_chunk (g_chunkbuf trade_grapes) (ct_cb (sample_trader [3])) c), 1) \<and> ps_inv trade_grapes ps \<and> ps_same pb1 ps \<longrightarrow>
        (\<exists>ps'. handle_chunk_msg trade_grapes (Some peer_node) msg ps = Inr (Returned ps') \<and> ps_inv trade_grapes ps' \<and>
          chunk_taken trade_grapes peer_node (the (cb_get_chunk (g_chunkbuf trade_grapes) (ct_cb (sample_trader [3])) c)) 1 ps ps')"
    using chunks_traded [OF trade_grapes_ok inv f(1,2) g inv f(1,2) g f(3) offer held accepts clk, of trade_moment]
    unfolding el useful t append_Nil by metis
  have acc: "set acc = {3}" using r(5) by simp
  have "ps_same pb1 pb1" by (simp add: ps_same_def)
  moreover have "g_parse_chunk trade_grapes (drop 1 [0x13, 0]) = Some (sample_chunk 3, 1)" by (simp add: trade_grapes_def)
  ultimately obtain pb2 where "handle_chunk_msg trade_grapes (Some peer_node) [0x13, 0] pb1 = Inr (Returned pb2)"
    "chunk_taken trade_grapes peer_node (sample_chunk 3) 1 pb1 pb2"
    using taken [rule_format, of 3 "[0x13, 0]" pb1] acc r(2) chunk by auto
  moreover have "Send_chunk peer_node (sample_chunk 3) 1 \<in> set (ct_sent ca1)" using acc chunk by (simp add: r(8) image_iff)
  ultimately show ?thesis using r(1,3,4,6,7) acc by blast
qed

end
