(* ===== verification/Net_Helper_Udp.thy ===== *)
theory Net_Helper_Udp
  imports Net_Helper "HOL-Library.Multiset"
begin

text \<open>
  \<open>Lib/net_helper/net_helper-udp.c\<close>: the socket layer without fragmentation, the alternative to \<open>net_helper-x.c\<close>.

  The nodes are in a store, because they are shared and counted: a pointer is an address of \<open>un_heap\<close> (\<open>None\<close> is NULL),
  \<open>malloc\<close> returns the next address of a counter, and following the address of a released node is \<open>Use_After_Free\<close>.
  \<open>un_closed\<close> lists the descriptors that were closed and \<open>un_sent\<close> what was handed to \<open>sendto\<close>.

  The results of \<open>socket\<close>, \<open>bind\<close>, \<open>getsockname\<close>, \<open>select\<close>, \<open>sendto\<close> and \<open>recvfrom\<close> are arguments; \<open>numeric_host\<close> is the
  parameter of \<open>Node_Id\<close>.  The lemmas show that identifiers are compared, printed and parsed as by \<open>net_helper-x.c\<close>, and that a
  node lives as long as somebody holds a reference to it.
\<close>

section \<open>Nodes and their references\<close>

record udp_node =
  un_addr :: sock_addr
  un_occurrences :: u16
  un_fd :: int

record udp_net =
  un_heap :: "nat \<rightharpoonup> udp_node"
  un_next :: nat
  un_closed :: "int list"
  un_sent :: "(int \<times> bytes \<times> sock_addr) list"

definition udp_at :: "udp_net \<Rightarrow> nat \<Rightarrow> udp_node c_result" where
  "udp_at w p = (case un_heap w p of Some n \<Rightarrow> Inr n | None \<Rightarrow> Inl Use_After_Free)"

definition udp_malloc :: "udp_net \<Rightarrow> nat \<times> udp_net" where
  "udp_malloc w = (un_next w, w\<lparr>un_next := un_next w + 1, un_heap := (un_heap w)(un_next w \<mapsto> \<lparr>un_addr = AF_UNSPEC, un_occurrences = 1, un_fd = -1\<rparr>)\<rparr>)"

definition udp_nodeid_dup :: "nat option \<Rightarrow> udp_net \<Rightarrow> (nat option \<times> udp_net) c_result" where
  "udp_nodeid_dup s w =
     (case s of
        None \<Rightarrow> Inr (None, w)
      | Some p \<Rightarrow> c_bind (udp_at w p) (\<lambda>n. Inr (s, w\<lparr>un_heap := (un_heap w)(p \<mapsto> n\<lparr>un_occurrences := un_occurrences n + 1\<rparr>)\<rparr>)))"

definition udp_nodeid_free :: "nat option \<Rightarrow> udp_net \<Rightarrow> udp_net c_result" where
  "udp_nodeid_free s w =
     (case s of
        None \<Rightarrow> Inr w
      | Some p \<Rightarrow>
          c_bind (udp_at w p) (\<lambda>n.
            let n' = n\<lparr>un_occurrences := un_occurrences n - 1\<rparr> in
            if un_occurrences n' = 0
            then Inr (w\<lparr>un_heap := (un_heap w)(p := None),
                        un_closed := (if un_fd n' \<ge> 0 then un_closed w @ [un_fd n'] else un_closed w)\<rparr>)
            else Inr (w\<lparr>un_heap := (un_heap w)(p \<mapsto> n')\<rparr>)))"

section \<open>Identifiers\<close>

definition INET6_ADDRSTRLEN :: nat where
  "INET6_ADDRSTRLEN = 46"

text \<open>\<open>inet_ntop\<close> fails when the text with its NUL does not fit.\<close>

definition inet_ntop :: "string \<Rightarrow> nat \<Rightarrow> string option" where
  "inet_ntop ip len = (if length ip < len then Some ip else None)"

text \<open>What the buffer holds after the call, and the result.\<close>

definition udp_node_ip :: "udp_net \<Rightarrow> nat option \<Rightarrow> nat \<Rightarrow> (string \<times> int) c_result" where
  "udp_node_ip w s len =
     (case s of
        None \<Rightarrow> Inr ('''', -1)
      | Some p \<Rightarrow>
          c_bind (udp_at w p) (\<lambda>n.
            case (case un_addr n of AF_INET ip port \<Rightarrow> inet_ntop ip len | AF_INET6 ip port \<Rightarrow> inet_ntop ip len | AF_UNSPEC \<Rightarrow> None) of
              Some txt \<Rightarrow> Inr (txt, 0)
            | None \<Rightarrow> Inr ('''', -1)))"

definition udp_node_port :: "udp_net \<Rightarrow> nat option \<Rightarrow> int c_result" where
  "udp_node_port w s =
     (case s of
        None \<Rightarrow> Inr (-1)
      | Some p \<Rightarrow>
          c_bind (udp_at w p) (\<lambda>n.
            case un_addr n of
              AF_INET ip port \<Rightarrow> Inr (int (unat port))
            | AF_INET6 ip port \<Rightarrow> Inr (int (unat port))
            | AF_UNSPEC \<Rightarrow> Inr (-1)))"

definition udp_nodeid_cmp :: "udp_net \<Rightarrow> nat option \<Rightarrow> nat option \<Rightarrow> int c_result" where
  "udp_nodeid_cmp w s1 s2 =
     (if s1 \<noteq> None \<and> s2 \<noteq> None \<and> s1 \<noteq> s2 then
        c_bind (udp_node_ip w s1 INET6_ADDRSTRLEN) (\<lambda>(ip1, _).
        c_bind (udp_node_ip w s2 INET6_ADDRSTRLEN) (\<lambda>(ip2, _).
          let res = strcmp ip1 ip2 in
          if res = 0 then
            c_bind (udp_node_port w s1) (\<lambda>p1. c_bind (udp_node_port w s2) (\<lambda>p2. Inr (p1 - p2)))
          else Inr res))
      else
        (let res = (if s1 \<noteq> None \<and> s2 = None then 1 else 0)
         in Inr (if s2 \<noteq> None \<and> s1 = None then -1 else res)))"

definition udp_nodeid_equal :: "udp_net \<Rightarrow> nat option \<Rightarrow> nat option \<Rightarrow> int c_result" where
  "udp_nodeid_equal w s1 s2 =
     (if s1 \<noteq> None \<and> s2 \<noteq> None then c_bind (udp_nodeid_cmp w s1 s2) (\<lambda>r. Inr (if r = 0 then 1 else 0)) else Inr 0)"

definition udp_nodeid_dump :: "udp_net \<Rightarrow> nat option \<Rightarrow> nat \<Rightarrow> (int \<times> string option) c_result" where
  "udp_nodeid_dump w s max_write_size =
     (if s \<noteq> None then
        c_bind (udp_node_ip w s INET6_ADDRSTRLEN) (\<lambda>(ip, _).
        c_bind (udp_node_port w s) (\<lambda>port.
          if max_write_size \<ge> length ip + 1 + 5 then
            (let out = ip @ CHR '':'' # int_dec port @ [CHR ''-''] in Inr (int (length out), Some out))
          else Inr (-1, None)))
      else Inr (-1, None))"

definition udp_node_addr :: "udp_net \<Rightarrow> nat option \<Rightarrow> nat \<Rightarrow> (int \<times> string option) c_result" where
  "udp_node_addr w s len =
     (if len > 0 then
        (if s \<noteq> None then
           c_bind (udp_nodeid_dump w s len) (\<lambda>(n, out). Inr (n, if n > 0 then map_option (take (nat (n - 1))) out else out))
         else Inr (4, Some (take (len - 1) ''None'')))
      else Inr (-1, None))"

section \<open>Creating\<close>

definition udp_create_node ::
  "(string \<Rightarrow> (family \<times> string) option) \<Rightarrow> string option \<Rightarrow> int \<Rightarrow> udp_net \<Rightarrow> (nat option \<times> udp_net) c_result" where
  "udp_create_node numeric_host IPaddr port w =
     (case IPaddr of
        None \<Rightarrow> Inr (None, w)
      | Some txt \<Rightarrow>
          if port \<ge> 0 then
            (case udp_malloc w of
               (p, w1) \<Rightarrow>
                 let set_addr = (\<lambda>a. w1\<lparr>un_heap := (un_heap w1)(p \<mapsto> \<lparr>un_addr = a, un_occurrences = 1, un_fd = -1\<rparr>)\<rparr>) in
                 (case numeric_host txt of
                    None \<Rightarrow> c_bind (udp_nodeid_free (Some p) w1) (\<lambda>w2. Inr (None, w2))
                  | Some (Fam_inet, ip) \<Rightarrow> Inr (Some p, set_addr (AF_INET ip (word_of_int port)))
                  | Some (Fam_inet6, ip) \<Rightarrow> Inr (Some p, set_addr (AF_INET6 ip (word_of_int port)))))
          else Inr (None, w))"

text \<open>Without a text \<open>*len\<close> is not written; the result gives 0 for it.\<close>

definition udp_nodeid_undump ::
  "(string \<Rightarrow> (family \<times> string) option) \<Rightarrow> string option \<Rightarrow> udp_net \<Rightarrow> (nat option \<times> nat \<times> udp_net) c_result" where
  "udp_nodeid_undump numeric_host b w =
     (case b of
        None \<Rightarrow> Inr (None, 0, w)
      | Some txt \<Rightarrow>
          if CHR ''-'' \<in> set txt then
            let socket = takeWhile (\<lambda>c. c \<noteq> CHR ''-'') txt;
                len = length socket + 1;
                rport = takeWhile (\<lambda>c. c \<noteq> CHR '':'') (rev socket)
            in if CHR '':'' \<in> set socket then
                 c_bind (udp_create_node numeric_host (Some (rev (drop (length rport + 1) (rev socket)))) (atoi (rev rport)) w)
                   (\<lambda>(res, w'). Inr (res, len, w'))
               else Inl Null_Deref
          else Inl Null_Deref)"

text \<open>\<open>sock\<close> is the descriptor, \<open>bind\<close> the result of \<open>bind\<close> on the address it is called with (any interface), and \<open>bound\<close> the port
  \<open>getsockname\<close> reports.  The configuration is not read.\<close>

definition udp_net_helper_init ::
  "(string \<Rightarrow> (family \<times> string) option) \<Rightarrow> int \<Rightarrow> (sock_addr \<Rightarrow> int) \<Rightarrow> u16 \<Rightarrow> string option \<Rightarrow> int \<Rightarrow> udp_net \<Rightarrow>
   (nat option \<times> udp_net) c_result" where
  "udp_net_helper_init numeric_host sock bind bound my_addr port w =
     (if my_addr \<noteq> None \<and> port \<ge> 0 then
        c_bind (udp_create_node numeric_host my_addr port w) (\<lambda>(myself, w1).
          case myself of
            None \<Rightarrow> Inr (None, w1)
          | Some p \<Rightarrow>
              c_bind (udp_at w1 p) (\<lambda>n.
                let n1 = n\<lparr>un_fd := sock\<rparr>;
                    (n2, res) =
                      (if sock \<ge> 0 then
                         (case un_addr n1 of
                            AF_INET ip q \<Rightarrow> (n1\<lparr>un_addr := AF_INET ip bound\<rparr>, bind (AF_INET ''0.0.0.0'' q))
                          | AF_INET6 ip q \<Rightarrow> (n1\<lparr>un_addr := AF_INET6 ip bound\<rparr>, bind (AF_INET6 ''::'' q))
                          | AF_UNSPEC \<Rightarrow> (n1, -1))
                       else (n1, 0));
                    w2 = w1\<lparr>un_heap := (un_heap w1)(p \<mapsto> n2)\<rparr>
                in if sock < 0 \<or> res < 0 then c_bind (udp_nodeid_free myself w2) (\<lambda>w3. Inr (None, w3))
                   else Inr (myself, w2)))
      else Inr (None, w))"

definition udp_net_helper_deinit :: "nat option \<Rightarrow> udp_net \<Rightarrow> udp_net c_result" where
  "udp_net_helper_deinit s w = udp_nodeid_free s w"

section \<open>Sending, receiving, waiting\<close>

text \<open>\<open>res\<close> is what \<open>sendto\<close> returns.\<close>

definition udp_send_to_peer ::
  "int \<Rightarrow> nat option \<Rightarrow> nat option \<Rightarrow> bytes \<Rightarrow> udp_net \<Rightarrow> (int \<times> udp_net) c_result" where
  "udp_send_to_peer res from to buffer w =
     c_bind (case from of None \<Rightarrow> Inl Null_Deref | Some p \<Rightarrow> udp_at w p) (\<lambda>f.
     c_bind (case to of None \<Rightarrow> Inl Null_Deref | Some p \<Rightarrow> udp_at w p) (\<lambda>t.
       Inr (res, w\<lparr>un_sent := un_sent w @ [(un_fd f, buffer, un_addr t)]\<rparr>)))"

text \<open>\<open>incoming\<close> is the sender and the datagram, of which the part that fits is received, or an error.  The results: the
  return value, the remote node, and the bytes at the front of the buffer.\<close>

definition udp_recv_from_peer ::
  "(sock_addr \<times> bytes) option \<Rightarrow> nat option \<Rightarrow> nat \<Rightarrow> udp_net \<Rightarrow> (int \<times> nat option \<times> bytes \<times> udp_net) c_result" where
  "udp_recv_from_peer incoming local buffer_size w =
     (case udp_malloc w of
        (p, w1) \<Rightarrow>
          c_bind (case local of None \<Rightarrow> Inl Null_Deref | Some l \<Rightarrow> udp_at w1 l) (\<lambda>_.
            let (res, data, w2) =
                  (case incoming of
                     None \<Rightarrow> (-1, [], w1)
                   | Some (addr, dg) \<Rightarrow>
                       (int (length (take buffer_size dg)), take buffer_size dg,
                        w1\<lparr>un_heap := (un_heap w1)(p \<mapsto> \<lparr>un_addr = addr, un_occurrences = 1, un_fd = -1\<rparr>)\<rparr>))
            in if res \<le> 0 then c_bind (udp_nodeid_free (Some p) w2) (\<lambda>w3. Inr (res, None, data, w3))
               else Inr (res, Some p, data, w2)))"

text \<open>One call of \<open>select\<close>: its result, the ready descriptors and what it leaves in the timeout.  The sets hold the descriptors
  from 0 to \<open>FD_SETSIZE - 1\<close>; a node without a socket is tested all the same when something is ready.\<close>

definition udp_wait4data ::
  "int \<Rightarrow> (int \<Rightarrow> bool) \<Rightarrow> timeval \<Rightarrow> nat option \<Rightarrow> int list option \<Rightarrow> udp_net \<Rightarrow>
   (int \<times> timeval \<times> int list option) c_result" where
  "udp_wait4data res isset left s user_fds w =
     c_bind (case s of None \<Rightarrow> Inr None | Some p \<Rightarrow> c_bind (udp_at w p) (\<lambda>n. Inr (Some (un_fd n)))) (\<lambda>fd.
       let watched = (case user_fds of Some fds \<Rightarrow> takeWhile (\<lambda>fd. fd \<noteq> -1) fds | None \<Rightarrow> []) in
       if (case user_fds of Some fds \<Rightarrow> -1 \<notin> set fds | None \<Rightarrow> False) \<or> (case fd of Some x \<Rightarrow> x \<ge> FD_SETSIZE | None \<Rightarrow> False) \<or>
          (\<exists>x \<in> set watched. x < 0 \<or> x \<ge> FD_SETSIZE)
       then Inl Out_Of_Bounds
       else if res \<le> 0 then Inr (res, left, user_fds)
       else if (case fd of Some x \<Rightarrow> x < 0 | None \<Rightarrow> False) then Inl Out_Of_Bounds
       else if (case fd of Some x \<Rightarrow> isset x | None \<Rightarrow> False) then Inr (1, left, user_fds)
       else (case user_fds of
               None \<Rightarrow> Inl Null_Deref
             | Some fds \<Rightarrow>
                 Inr (2, left, Some (map (\<lambda>x. if isset x then x else -2) watched @ dropWhile (\<lambda>fd. fd \<noteq> -1) fds))))"

text \<open>The calls of \<open>func\<close>.\<close>

definition udp_register_network_fds :: "udp_net \<Rightarrow> nat option \<Rightarrow> (int \<times> (int \<times> char) list) c_result" where
  "udp_register_network_fds w s =
     (case s of None \<Rightarrow> Inr (0, []) | Some p \<Rightarrow> c_bind (udp_at w p) (\<lambda>n. Inr (0, [(un_fd n, CHR ''r'')])))"

text \<open>Only the seconds are set.\<close>

definition udp_net_helper_periodic :: "timeval option \<Rightarrow> timeval option" where
  "udp_net_helper_periodic interval = map_option (\<lambda>i. Timeval 1000 (tv_usec i)) interval"

section \<open>Who holds a reference\<close>

definition open_fds :: "(nat \<rightharpoonup> udp_node) \<Rightarrow> int multiset" where
  "open_fds h = filter_mset (\<lambda>fd. 0 \<le> fd) (image_mset (\<lambda>p. un_fd (the (h p))) (mset_set (dom h)))"

definition fd_mset :: "int \<Rightarrow> int multiset" where
  "fd_mset fd = (if 0 \<le> fd then {#fd#} else {#})"

lemma fds_cong: "(\<And>p. p \<in> A \<Longrightarrow> h p = h' p) \<Longrightarrow> finite A \<Longrightarrow>
    image_mset (\<lambda>p. un_fd (the (h p))) (mset_set A) = image_mset (\<lambda>p. un_fd (the (h' p))) (mset_set A)"
  by (rule image_mset_cong) simp

lemma open_fds_new: "finite (dom h) \<Longrightarrow> h p = None \<Longrightarrow> open_fds (h(p \<mapsto> n)) = open_fds h + fd_mset (un_fd n)"
proof -
  assume h: "finite (dom h)" "h p = None"
  have "image_mset (\<lambda>q. un_fd (the ((h(p \<mapsto> n)) q))) (mset_set (dom h)) = image_mset (\<lambda>q. un_fd (the (h q))) (mset_set (dom h))"
    by (rule fds_cong) (use h in auto)
  then show ?thesis using h by (simp add: open_fds_def fd_mset_def domIff)
qed

lemma open_fds_delete: "finite (dom h) \<Longrightarrow> h p = Some n \<Longrightarrow> open_fds h = open_fds (h(p := None)) + fd_mset (un_fd n)"
  using open_fds_new [of "h(p := None)" p n] by (simp add: fun_upd_idem)

lemma open_fds_update:
  "finite (dom h) \<Longrightarrow> h p = Some n \<Longrightarrow> open_fds (h(p \<mapsto> n')) = open_fds (h(p := None)) + fd_mset (un_fd n')"
  using open_fds_new [of "h(p := None)" p n'] by simp

text \<open>\<open>R\<close> are the references that are held, \<open>S\<close> the sockets that were opened.\<close>

definition udp_inv :: "udp_net \<Rightarrow> nat multiset \<Rightarrow> int list \<Rightarrow> bool" where
  "udp_inv w R S \<longleftrightarrow> finite (dom (un_heap w)) \<and> dom (un_heap w) = set_mset R \<and> (\<forall>p \<in># R. p < un_next w) \<and>
     (\<forall>p n. un_heap w p = Some n \<longrightarrow> unat (un_occurrences n) = count R p) \<and> mset S = mset (un_closed w) + open_fds (un_heap w)"

lemma udp_inv_at:
  assumes "udp_inv w R S" and "p \<in># R"
  obtains n where "un_heap w p = Some n" and "udp_at w p = Inr n" and "unat (un_occurrences n) = count R p"
proof -
  have "un_heap w p \<noteq> None" using assms by (auto simp: udp_inv_def)
  then show ?thesis using that assms(1) by (auto simp: udp_at_def udp_inv_def)
qed

lemma udp_malloc_inv:
  assumes "udp_inv w R S" and "udp_malloc w = (p, w')"
  shows "udp_inv w' (add_mset p R) S" and "p \<notin># R" and "un_heap w p = None"
    and "un_heap w' = (un_heap w)(p \<mapsto> \<lparr>un_addr = AF_UNSPEC, un_occurrences = 1, un_fd = -1\<rparr>)"
proof -
  have p: "p = un_next w" "w' = w\<lparr>un_next := p + 1, un_heap := (un_heap w)(p \<mapsto> \<lparr>un_addr = AF_UNSPEC, un_occurrences = 1, un_fd = -1\<rparr>)\<rparr>"
    using assms(2) by (auto simp: udp_malloc_def)
  show n: "p \<notin># R" using assms(1) p(1) by (auto simp: udp_inv_def)
  then show h: "un_heap w p = None" using assms(1) by (auto simp: udp_inv_def)
  show "un_heap w' = (un_heap w)(p \<mapsto> \<lparr>un_addr = AF_UNSPEC, un_occurrences = 1, un_fd = -1\<rparr>)" by (simp add: p(2))
  have "count R p = 0" using n by (simp add: not_in_iff)
  moreover have "un_heap w q = Some m \<Longrightarrow> q \<noteq> p" for q m using h by auto
  ultimately show "udp_inv w' (add_mset p R) S"
    using assms(1) open_fds_new [of "un_heap w" p] h unfolding p(2)
    by (auto simp: udp_inv_def fd_mset_def less_Suc_eq p(1))
qed

text \<open>A live node gets another address or descriptor.\<close>

lemma udp_inv_update:
  assumes "udp_inv w R S" and "un_heap w p = Some n" and "un_occurrences n' = un_occurrences n"
    and "mset S' + fd_mset (un_fd n) = mset S + fd_mset (un_fd n')"
  shows "udp_inv (w\<lparr>un_heap := (un_heap w)(p \<mapsto> n')\<rparr>) R S'"
proof -
  have f: "finite (dom (un_heap w))" using assms(1) by (simp add: udp_inv_def)
  have "mset S = mset (un_closed w) + open_fds ((un_heap w)(p := None)) + fd_mset (un_fd n)"
    using assms(1) open_fds_delete [OF f assms(2)] by (simp add: udp_inv_def)
  then have "mset S' + fd_mset (un_fd n) = (mset (un_closed w) + open_fds ((un_heap w)(p := None)) + fd_mset (un_fd n')) + fd_mset (un_fd n)"
    using assms(4) by (simp add: ac_simps)
  then have "mset S' = mset (un_closed w) + open_fds ((un_heap w)(p \<mapsto> n'))"
    unfolding open_fds_update [OF f assms(2), of n'] by simp
  then show ?thesis using assms(1-3) by (auto simp: udp_inv_def simp del: fun_upd_apply) (auto split: if_splits)
qed

lemma udp_free_inv:
  assumes inv: "udp_inv w R S" and "p \<in># R"
  obtains w' where "udp_nodeid_free (Some p) w = Inr w'" and "udp_inv w' (R - {#p#}) S" and "\<forall>q. q \<noteq> p \<longrightarrow> un_heap w' q = un_heap w q"
proof -
  obtain n where n: "un_heap w p = Some n" "udp_at w p = Inr n" "unat (un_occurrences n) = count R p" by (rule udp_inv_at [OF assms])
  have c: "0 < count R p" using assms(2) by (rule count_greater_zero_iff [THEN iffD2])
  then have "un_occurrences n \<noteq> 0" using n(3) by (metis unat_0 less_irrefl)
  then have u: "unat (un_occurrences n - 1) = count R p - 1" using n(3) by (simp add: unat_minus_one)
  have f: "finite (dom (un_heap w))" using inv by (simp add: udp_inv_def)
  show ?thesis
  proof (cases "count R p = 1")
    case True
    then have z: "un_occurrences n - 1 = 0" using u by (simp add: unat_eq_0)
    have no: "p \<notin># R - {#p#}" using True by (simp add: not_in_iff)
    have R: "set_mset R = insert p (set_mset (R - {#p#}))" using assms(2) by (metis insert_DiffM set_mset_add_mset_insert)
    let ?w = "w\<lparr>un_heap := (un_heap w)(p := None), un_closed := (if un_fd n \<ge> 0 then un_closed w @ [un_fd n] else un_closed w)\<rparr>"
    have "udp_nodeid_free (Some p) w = Inr ?w" using n(2) z by (simp add: udp_nodeid_free_def Let_def)
    moreover have "udp_inv ?w (R - {#p#}) S"
      using inv no R open_fds_delete [OF f n(1)] by (auto simp: udp_inv_def fd_mset_def)
    ultimately show ?thesis using that by simp
  next
    case False
    then have "unat (un_occurrences n - 1) \<noteq> 0" using u c by linarith
    then have z: "un_occurrences n - 1 \<noteq> 0" by (metis unat_0)
    let ?n = "n\<lparr>un_occurrences := un_occurrences n - 1\<rparr>"
    have R: "set_mset R = set_mset (R - {#p#})"
    proof -
      have "count (R - {#p#}) p = count R p - 1" by simp
      then have "0 < count (R - {#p#}) p" using False c by linarith
      then have i: "p \<in># R - {#p#}" by (rule count_greater_zero_iff [THEN iffD1])
      have "set_mset R = insert p (set_mset (R - {#p#}))" using assms(2) by (metis insert_DiffM set_mset_add_mset_insert)
      then show ?thesis using i by (simp add: insert_absorb)
    qed
    have "udp_nodeid_free (Some p) w = Inr (w\<lparr>un_heap := (un_heap w)(p \<mapsto> ?n)\<rparr>)" using n(2) z by (simp add: udp_nodeid_free_def Let_def)
    moreover have "udp_inv (w\<lparr>un_heap := (un_heap w)(p \<mapsto> ?n)\<rparr>) (R - {#p#}) S"
      using inv u n(1) R open_fds_update [OF f n(1), of ?n] open_fds_delete [OF f n(1)] by (auto simp: udp_inv_def)
    ultimately show ?thesis using that by simp
  qed
qed

lemma udp_dup_inv:
  assumes inv: "udp_inv w R S" and "p \<in># R" and "count R p < 65535"
  obtains w' where "udp_nodeid_dup (Some p) w = Inr (Some p, w')" and "udp_inv w' (add_mset p R) S"
proof -
  obtain n where n: "un_heap w p = Some n" "udp_at w p = Inr n" "unat (un_occurrences n) = count R p" by (rule udp_inv_at [OF assms(1,2)])
  have f: "finite (dom (un_heap w))" using inv by (simp add: udp_inv_def)
  let ?n = "n\<lparr>un_occurrences := un_occurrences n + 1\<rparr>"
  have "unat (un_occurrences n + 1) = count R p + 1"
    by (subst unat_add_lem [THEN iffD1]) (use n(3) assms(3) in auto)
  then have "udp_inv (w\<lparr>un_heap := (un_heap w)(p \<mapsto> ?n)\<rparr>) (add_mset p R) S"
    using inv n(1) assms(2) open_fds_update [OF f n(1), of ?n] open_fds_delete [OF f n(1)] by (auto simp: udp_inv_def)
  then show ?thesis using that n(2) by (simp add: udp_nodeid_dup_def)
qed

section \<open>Runs\<close>

definition udp_refs :: "nat option \<Rightarrow> nat multiset" where
  "udp_refs r = (case r of Some p \<Rightarrow> {#p#} | None \<Rightarrow> {#})"

lemma udp_create_inv:
  assumes inv: "udp_inv w R S"
  obtains r w' where "udp_create_node nh ip port w = Inr (r, w')" and "udp_inv w' (R + udp_refs r) S"
    and "case create_node nh ip port of
           None \<Rightarrow> r = None \<and> un_heap w' = un_heap w
         | Some n \<Rightarrow> \<exists>p. r = Some p \<and> p \<notin># R \<and> un_heap w' = (un_heap w)(p \<mapsto> \<lparr>un_addr = nd_addr n, un_occurrences = 1, un_fd = -1\<rparr>)"
proof (cases "ip \<noteq> None \<and> 0 \<le> port")
  case False
  then show ?thesis using that inv by (cases ip) (auto simp: udp_create_node_def create_node_def udp_refs_def)
next
  case True
  then obtain tx where tx: "ip = Some tx" by auto
  obtain p w1 where m: "udp_malloc w = (p, w1)" by (cases "udp_malloc w")
  note mi = udp_malloc_inv [OF inv m]
  have add: "udp_inv (w1\<lparr>un_heap := (un_heap w1)(p \<mapsto> \<lparr>un_addr = a, un_occurrences = 1, un_fd = -1\<rparr>)\<rparr>) (add_mset p R) S" for a
    by (rule udp_inv_update [OF mi(1), where n = "\<lparr>un_addr = AF_UNSPEC, un_occurrences = 1, un_fd = -1\<rparr>"]) (simp_all add: mi(4))
  show ?thesis
  proof (cases "nh tx")
    case None
    obtain w2 where f: "udp_nodeid_free (Some p) w1 = Inr w2" "udp_inv w2 (add_mset p R - {#p#}) S" "\<forall>q. q \<noteq> p \<longrightarrow> un_heap w2 q = un_heap w1 q"
      by (rule udp_free_inv [OF mi(1), of p]) simp_all
    have "un_heap w2 p = None" using f(2) mi(2) by (auto simp: udp_inv_def)
    then have "un_heap w2 q = un_heap w q" for q using f(3) mi(3,4) by (cases "q = p") simp_all
    then have "un_heap w2 = un_heap w" by (rule ext)
    then show ?thesis using that None True f m by (simp add: udp_create_node_def create_node_def tx udp_refs_def)
  next
    case (Some fi)
    obtain fam ty where fi: "fi = (fam, ty)" by (cases fi)
    have h: "(un_heap w1)(p \<mapsto> x) = (un_heap w)(p \<mapsto> x)" for x by (simp add: mi(4))
    show ?thesis
      using that [of "Some p"] Some True m add mi(2)
      by (cases fam) (simp_all add: udp_create_node_def create_node_def tx fi udp_refs_def empty_node_def h)
  qed
qed

lemma udp_init_inv:
  assumes inv: "udp_inv w R S"
  obtains r w' where "udp_net_helper_init nh sock bind bound ip port w = Inr (r, w')"
    and "udp_inv w' (R + udp_refs r) (if create_node nh ip port \<noteq> None \<and> 0 \<le> sock then S @ [sock] else S)"
proof -
  obtain r1 w1 where c: "udp_create_node nh ip port w = Inr (r1, w1)" "udp_inv w1 (R + udp_refs r1) S"
    "case create_node nh ip port of
           None \<Rightarrow> r1 = None \<and> un_heap w1 = un_heap w
         | Some n \<Rightarrow> \<exists>p. r1 = Some p \<and> p \<notin># R \<and> un_heap w1 = (un_heap w)(p \<mapsto> \<lparr>un_addr = nd_addr n, un_occurrences = 1, un_fd = -1\<rparr>)"
    by (rule udp_create_inv [OF inv])
  show ?thesis
  proof (cases "create_node nh ip port")
    case None
    then show ?thesis
      using that c inv by (cases "ip \<noteq> None \<and> 0 \<le> port") (auto simp: udp_net_helper_init_def udp_refs_def)
  next
    case (Some n)
    then obtain p where p: "r1 = Some p" "un_heap w1 = (un_heap w)(p \<mapsto> \<lparr>un_addr = nd_addr n, un_occurrences = 1, un_fd = -1\<rparr>)"
      using c(3) by auto
    have ipp: "ip \<noteq> None \<and> port \<ge> 0" using Some by (auto simp: create_node_def split: option.split_asm if_split_asm)
    define S' where "S' = (if 0 \<le> sock then S @ [sock] else S)"
    let ?n1 = "\<lparr>un_addr = nd_addr n, un_occurrences = 1, un_fd = sock\<rparr>"
    define nr where "nr = (if sock \<ge> 0 then
                         (case un_addr ?n1 of
                            AF_INET ip q \<Rightarrow> (?n1\<lparr>un_addr := AF_INET ip bound\<rparr>, bind (AF_INET ''0.0.0.0'' q))
                          | AF_INET6 ip q \<Rightarrow> (?n1\<lparr>un_addr := AF_INET6 ip bound\<rparr>, bind (AF_INET6 ''::'' q))
                          | AF_UNSPEC \<Rightarrow> (?n1, -1))
                       else (?n1, 0))"
    obtain n2 res where n2: "nr = (n2, res)" by (cases nr)
    then have n3: "un_occurrences n2 = 1" "un_fd n2 = sock" by (cases "nd_addr n"; auto simp: nr_def split: if_split_asm)+
    let ?w2 = "w1\<lparr>un_heap := (un_heap w1)(p \<mapsto> n2)\<rparr>"
    have inv2: "udp_inv ?w2 (R + {#p#}) S'"
      by (rule udp_inv_update [OF c(2) [unfolded p(1) udp_refs_def option.case], where n = "\<lparr>un_addr = nd_addr n, un_occurrences = 1, un_fd = -1\<rparr>"])
        (simp_all add: p(2) n3 S'_def fd_mset_def)
    have run: "udp_net_helper_init nh sock bind bound ip port w =
        (if sock < 0 \<or> res < 0 then c_bind (udp_nodeid_free (Some p) ?w2) (\<lambda>w3. Inr (None, w3)) else Inr (Some p, ?w2))"
      using ipp c(1) n2 p by (cases "nd_addr n"; cases "0 \<le> sock") (simp_all add: udp_net_helper_init_def udp_at_def nr_def Let_def)
    show ?thesis
    proof (cases "sock < 0 \<or> res < 0")
      case True
      obtain w3 where "udp_nodeid_free (Some p) ?w2 = Inr w3" "udp_inv w3 (R + {#p#} - {#p#}) S'"
        by (rule udp_free_inv [OF inv2, of p]) simp_all
      then show ?thesis using that [of None w3] run True Some by (auto simp: udp_refs_def S'_def)
    next
      case False
      then show ?thesis using that [of "Some p" ?w2] run inv2 Some by (auto simp: udp_refs_def S'_def)
    qed
  qed
qed

lemma udp_recv_inv:
  assumes inv: "udp_inv w R S" and l: "l \<in># R"
  obtains res r data w' where "udp_recv_from_peer incoming (Some l) sz w = Inr (res, r, data, w')" and "udp_inv w' (R + udp_refs r) S"
proof -
  obtain p w1 where m: "udp_malloc w = (p, w1)" by (cases "udp_malloc w")
  note mi = udp_malloc_inv [OF inv m]
  obtain n where at: "udp_at w1 l = Inr n" by (rule udp_inv_at [OF mi(1), of l]) (use l in simp_all)
  have add: "udp_inv (w1\<lparr>un_heap := (un_heap w1)(p \<mapsto> \<lparr>un_addr = a, un_occurrences = 1, un_fd = -1\<rparr>)\<rparr>) (add_mset p R) S" for a
    by (rule udp_inv_update [OF mi(1), where n = "\<lparr>un_addr = AF_UNSPEC, un_occurrences = 1, un_fd = -1\<rparr>"]) (simp_all add: mi(4))
  obtain res data w2 where x: "(case incoming of
                     None \<Rightarrow> (-1, [], w1)
                   | Some (addr, dg) \<Rightarrow>
                       (int (length (take sz dg)), take sz dg,
                        w1\<lparr>un_heap := (un_heap w1)(p \<mapsto> \<lparr>un_addr = addr, un_occurrences = 1, un_fd = -1\<rparr>)\<rparr>)) = (res, data, w2)"
    and i2: "udp_inv w2 (add_mset p R) S"
    using mi(1) add by (cases incoming) auto
  obtain w3 where f: "udp_nodeid_free (Some p) w2 = Inr w3" "udp_inv w3 (add_mset p R - {#p#}) S" by (rule udp_free_inv [OF i2, of p]) simp_all
  have "udp_recv_from_peer incoming (Some l) sz w =
      (if res \<le> 0 then Inr (res, None, data, w3) else Inr (res, Some p, data, w2))"
    using m at x f(1) by (simp add: udp_recv_from_peer_def)
  then show ?thesis using that f(2) i2 by (cases "res \<le> 0") (auto simp: udp_refs_def)
qed

text \<open>A client that only uses references it holds, and holds at most 65535 to one node.\<close>

inductive udp_run :: "(string \<Rightarrow> (family \<times> string) option) \<Rightarrow> udp_net \<Rightarrow> nat multiset \<Rightarrow> int list \<Rightarrow> bool" for nh where
  udp_start: "udp_run nh \<lparr>un_heap = Map.empty, un_next = 0, un_closed = [], un_sent = []\<rparr> {#} []"
| udp_creates: "udp_run nh w R S \<Longrightarrow> udp_create_node nh ip port w = Inr (r, w') \<Longrightarrow> udp_run nh w' (R + udp_refs r) S"
| udp_parses: "udp_run nh w R S \<Longrightarrow> udp_nodeid_undump nh b w = Inr (r, len, w') \<Longrightarrow> udp_run nh w' (R + udp_refs r) S"
| udp_inits: "udp_run nh w R S \<Longrightarrow> udp_net_helper_init nh sock bind bound ip port w = Inr (r, w') \<Longrightarrow>
    udp_run nh w' (R + udp_refs r) (if create_node nh ip port \<noteq> None \<and> 0 \<le> sock then S @ [sock] else S)"
| udp_dups: "udp_run nh w R S \<Longrightarrow> p \<in># R \<Longrightarrow> count R p < 65535 \<Longrightarrow> udp_nodeid_dup (Some p) w = Inr (r, w') \<Longrightarrow>
    udp_run nh w' (R + udp_refs r) S"
| udp_frees: "udp_run nh w R S \<Longrightarrow> p \<in># R \<Longrightarrow> udp_nodeid_free (Some p) w = Inr w' \<Longrightarrow> udp_run nh w' (R - {#p#}) S"
| udp_receives: "udp_run nh w R S \<Longrightarrow> l \<in># R \<Longrightarrow> udp_recv_from_peer incoming (Some l) sz w = Inr (res, r, data, w') \<Longrightarrow>
    udp_run nh w' (R + udp_refs r) S"
| udp_sends: "udp_run nh w R S \<Longrightarrow> udp_send_to_peer res src dst buffer w = Inr (res', w') \<Longrightarrow> udp_run nh w' R S"

lemma udp_undump_cases:
  assumes "udp_nodeid_undump nh b w = Inr (r, len, w')"
  obtains "r = None" and "w' = w" | ip port where "udp_create_node nh ip port w = Inr (r, w')"
  using assms by (auto simp: udp_nodeid_undump_def Let_def c_bind_Inr_conv split: option.split_asm if_split_asm)

lemma udp_run_inv: "udp_run nh w R S \<Longrightarrow> udp_inv w R S"
proof (induction rule: udp_run.induct)
  case udp_start
  then show ?case by (simp add: udp_inv_def open_fds_def)
next
  case (udp_creates w R S ip port r w')
  then show ?case by (metis udp_create_inv Inr_inject prod.inject)
next
  case (udp_parses w R S b r len w')
  show ?case
  proof (rule udp_undump_cases [OF udp_parses.hyps(2)])
    fix ip port assume "udp_create_node nh ip port w = Inr (r, w')"
    then show ?thesis by (metis udp_create_inv [OF udp_parses.IH] Inr_inject prod.inject)
  qed (use udp_parses.IH in \<open>simp add: udp_refs_def\<close>)
next
  case (udp_inits w R S sock bind bound ip port r w')
  obtain r1 w1 where "udp_net_helper_init nh sock bind bound ip port w = Inr (r1, w1)"
    "udp_inv w1 (R + udp_refs r1) (if create_node nh ip port \<noteq> None \<and> 0 \<le> sock then S @ [sock] else S)"
    by (rule udp_init_inv [OF udp_inits.IH])
  then show ?case using udp_inits.hyps(2) by simp
next
  case (udp_dups w R S p r w')
  obtain w1 where "udp_nodeid_dup (Some p) w = Inr (Some p, w1)" "udp_inv w1 (add_mset p R) S"
    by (rule udp_dup_inv [OF udp_dups.IH udp_dups.hyps(2,3)])
  then show ?case using udp_dups.hyps(4) by (simp add: udp_refs_def)
next
  case (udp_frees w R S p w')
  obtain w1 where "udp_nodeid_free (Some p) w = Inr w1" "udp_inv w1 (R - {#p#}) S"
    by (rule udp_free_inv [OF udp_frees.IH udp_frees.hyps(2)])
  then show ?case using udp_frees.hyps(3) by simp
next
  case (udp_receives w R S l incoming sz res r data w')
  obtain res1 r1 d1 w1 where "udp_recv_from_peer incoming (Some l) sz w = Inr (res1, r1, d1, w1)" "udp_inv w1 (R + udp_refs r1) S"
    by (rule udp_recv_inv [OF udp_receives.IH udp_receives.hyps(2)])
  then show ?case using udp_receives.hyps(3) by simp
next
  case (udp_sends w R S res src dst buffer res' w')
  obtain x where "w' = w\<lparr>un_sent := x\<rparr>" using udp_sends.hyps(2) by (auto simp: udp_send_to_peer_def c_bind_Inr_conv)
  then show ?case using udp_sends.IH by (simp add: udp_inv_def)
qed

section \<open>The same identifiers as \<open>net_helper-x.c\<close>\<close>

definition node_of :: "udp_node \<Rightarrow> nodeID" where
  "node_of n = \<lparr>nd_addr = un_addr n, nd_fd = un_fd n\<rparr>"

text \<open>\<open>inet_ntop\<close> prints at most 45 characters.\<close>

definition addr_fits :: "sock_addr \<Rightarrow> bool" where
  "addr_fits a \<longleftrightarrow> (case a of AF_INET ip p \<Rightarrow> length ip < INET6_ADDRSTRLEN | AF_INET6 ip p \<Rightarrow> length ip < INET6_ADDRSTRLEN | AF_UNSPEC \<Rightarrow> True)"

lemma udp_node_ip_agrees:
  "un_heap w p = Some n \<Longrightarrow> addr_fits (un_addr n) \<Longrightarrow> udp_node_ip w (Some p) INET6_ADDRSTRLEN = Inr (node_ip (Some (node_of n)))"
  by (auto simp: udp_node_ip_def udp_at_def node_ip_def node_of_def addr_fits_def inet_ntop_def split: sock_addr.splits)

lemma udp_node_port_agrees: "un_heap w p = Some n \<Longrightarrow> udp_node_port w (Some p) = Inr (node_port (Some (node_of n)))"
  by (auto simp: udp_node_port_def udp_at_def node_port_def node_of_def split: sock_addr.splits)

lemma udp_cmp_agrees:
  assumes "un_heap w p = Some n" "addr_fits (un_addr n)" and "un_heap w q = Some m" "addr_fits (un_addr m)"
  shows "udp_nodeid_cmp w (Some p) (Some q) = Inr (nodeid_cmp (Some (node_of n)) (Some (node_of m)))"
proof (cases "p = q")
  case True
  have "nodeid_cmp (Some (node_of n)) (Some (node_of n)) = 0" by (simp add: nodeid_cmp_zero)
  then show ?thesis using True assms by (simp add: udp_nodeid_cmp_def)
next
  case False
  then show ?thesis
    using udp_node_ip_agrees [OF assms(1,2)] udp_node_ip_agrees [OF assms(3,4)] udp_node_port_agrees [OF assms(1)] udp_node_port_agrees [OF assms(3)]
    by (auto simp: udp_nodeid_cmp_def nodeid_cmp_def Let_def split: prod.split)
qed

lemma udp_dump_agrees:
  "un_heap w p = Some n \<Longrightarrow> addr_fits (un_addr n) \<Longrightarrow> udp_nodeid_dump w (Some p) len = Inr (nodeid_dump (Some (node_of n)) len)"
  by (auto simp: udp_nodeid_dump_def nodeid_dump_def udp_node_ip_agrees udp_node_port_agrees Let_def split: prod.split)

lemma udp_node_addr_agrees:
  assumes "un_heap w p = Some n" and "addr_fits (un_addr n)"
  shows "udp_node_addr w (Some p) len = Inr (node_addr (Some (node_of n)) len)"
proof (cases "nodeid_dump (Some (node_of n)) len")
  case (Pair r out)
  have "r = -1" if "out = None" using Pair that by (auto simp: nodeid_dump_def Let_def split: if_split_asm)
  moreover have "r = int (length x) \<and> x \<noteq> []" if "out = Some x" for x
    using nodeid_dump_some [of "node_of n" len r x] Pair that by auto
  moreover have "nat (int k - 1) = k - Suc 0" for k by simp
  ultimately show ?thesis
    using udp_dump_agrees [OF assms, of len] Pair
    by (cases out) (auto simp: udp_node_addr_def node_addr_def butlast_conv_take)
qed

section \<open>Properties\<close>



text \<open>C22: A node of the plain UDP build lives exactly as long as somebody holds a reference to it: whatever nodes are created, parsed,
  received, duplicated and freed by a client that uses only references it holds (at most 65535 to one node), the allocated
  nodes are the referenced ones, following a held reference is no use after free, its counter is the number of references,
  and every socket that was opened is closed exactly once or still owned by a live node; when no reference is left, all
  memory is released and every socket is closed.\<close>

theorem udp_nodes_live_while_referenced:
  assumes "udp_run nh w R S"
  shows "dom (un_heap w) = set_mset R \<and>
    (\<forall>p \<in># R. \<exists>n. udp_at w p = Inr n \<and> unat (un_occurrences n) = count R p) \<and>
    mset S = mset (un_closed w) + open_fds (un_heap w) \<and>
    (R = {#} \<longrightarrow> un_heap w = Map.empty \<and> mset (un_closed w) = mset S)"
proof -
  have i: "udp_inv w R S" by (rule udp_run_inv [OF assms])
  have "\<exists>n. udp_at w p = Inr n \<and> unat (un_occurrences n) = count R p" if "p \<in># R" for p
    by (rule udp_inv_at [OF i that]) blast
  moreover have "un_heap w = Map.empty" if "R = {#}" using i that by (simp add: udp_inv_def)
  ultimately show ?thesis using i by (auto simp: udp_inv_def open_fds_def)
qed

theorem udp_nodes_live_while_referenced_witness:
  "\<exists>w p w1 w2 w3. udp_net_helper_init (\<lambda>t. Some (Fam_inet, t)) 3 (\<lambda>_. 0) 6000 (Some ''10.0.0.1'') 0
      \<lparr>un_heap = Map.empty, un_next = 0, un_closed = [], un_sent = []\<rparr> = Inr (Some p, w) \<and>
     udp_nodeid_dup (Some p) w = Inr (Some p, w1) \<and> udp_nodeid_free (Some p) w1 = Inr w2 \<and> un_heap w2 p \<noteq> None \<and> un_closed w2 = [] \<and>
     udp_net_helper_deinit (Some p) w2 = Inr w3 \<and> un_heap w3 = Map.empty \<and> mset (un_closed w3) = {#3#}"
proof -
  let ?nh = "\<lambda>t. Some (Fam_inet, t)" and ?new = "\<lparr>un_heap = Map.empty, un_next = 0, un_closed = [], un_sent = []\<rparr>"
  let ?n = "\<lambda>k. \<lparr>un_addr = AF_INET ''10.0.0.1'' 6000, un_occurrences = k, un_fd = 3\<rparr>"
  let ?w = "\<lambda>k. \<lparr>un_heap = [0 \<mapsto> ?n k], un_next = 1, un_closed = [], un_sent = []\<rparr>"
  let ?fin = "\<lparr>un_heap = Map.empty, un_next = 1, un_closed = [3], un_sent = []\<rparr>"
  have c: "udp_net_helper_init ?nh 3 (\<lambda>_. 0) 6000 (Some ''10.0.0.1'') 0 ?new = Inr (Some 0, ?w 1)"
    by (simp add: udp_net_helper_init_def udp_create_node_def udp_malloc_def udp_at_def Let_def)
  have d: "udp_nodeid_dup (Some 0) (?w 1) = Inr (Some 0, ?w 2)" by (simp add: udp_nodeid_dup_def udp_at_def)
  have f: "udp_nodeid_free (Some 0) (?w 2) = Inr (?w 1)" by (simp add: udp_nodeid_free_def udp_at_def Let_def)
  have g: "udp_nodeid_free (Some 0) (?w 1) = Inr ?fin" by (simp add: udp_nodeid_free_def udp_at_def Let_def)
  have r1: "udp_run ?nh (?w 1) {#0#} [3]"
    using udp_inits [OF udp_start c] by (simp add: create_node_def udp_refs_def)
  have r2: "udp_run ?nh (?w 2) {#0, 0#} [3]" using udp_dups [OF r1 _ _ d] by (simp add: udp_refs_def)
  have r3: "udp_run ?nh (?w 1) {#0#} [3]" using udp_frees [OF r2 _ f] by simp
  have r4: "udp_run ?nh ?fin {#} [3]" using udp_frees [OF r3 _ g] by simp
  have "un_heap ?fin = Map.empty \<and> mset (un_closed ?fin) = mset [3]"
    using udp_nodes_live_while_referenced [OF r4] by blast
  then show ?thesis using c d f g by (intro exI [of _ "?w 1"] exI [of _ 0] exI [of _ "?w 2"] exI [of _ "?w 1"] exI [of _ ?fin]) (simp add: udp_net_helper_deinit_def)
qed

end
