(* ===== verification/Overlay_Channel.thy ===== *)
theory Overlay_Channel
  imports Topology Net_Helper_Udp
begin

text \<open>
  What the overlay needs of the socket layer.  \<open>net_helper.h\<close> declares \<open>send_to_peer\<close> and \<open>recv_from_peer\<close> once; \<open>net_helper-x.c\<close>
  implements them with fragments and a send queue, \<open>net_helper-udp.c\<close> with one datagram per message.  The locale
  \<open>message_channel\<close> is the part of that contract the topology relies on: a message that can be carried arrives whole, under a name
  that has the address the socket saw.  The lemmas about the neighbourhood messages are proved once from it, and both
  layers are shown to provide it.
\<close>

section \<open>The contract\<close>

text \<open>\<open>carries s r to addr msg remote got\<close>: the message is given to the sender \<open>s\<close> for the node \<open>to\<close>, everything it sends for it
  reaches \<open>r\<close> from the address \<open>addr\<close>, and \<open>r\<close> is handed \<open>got\<close> from the node \<open>remote\<close>.\<close>

locale message_channel =
  fixes can_carry :: "'s \<Rightarrow> 'r \<Rightarrow> nodeID \<Rightarrow> sock_addr \<Rightarrow> bytes \<Rightarrow> bool"
    and carries :: "'s \<Rightarrow> 'r \<Rightarrow> nodeID \<Rightarrow> sock_addr \<Rightarrow> bytes \<Rightarrow> nodeID \<Rightarrow> bytes \<Rightarrow> bool"
  assumes carried: "can_carry s r to addr msg \<Longrightarrow> \<exists>remote got. carries s r to addr msg remote got"
    and whole: "can_carry s r to addr msg \<Longrightarrow> carries s r to addr msg remote got \<Longrightarrow> got = msg"
    and named: "can_carry s r to addr msg \<Longrightarrow> carries s r to addr msg remote got \<Longrightarrow> remote = empty_node\<lparr>nd_addr := addr\<rparr>"
begin

lemma exactly: "can_carry s r to addr msg \<Longrightarrow> carries s r to addr msg remote got \<longleftrightarrow> remote = empty_node\<lparr>nd_addr := addr\<rparr> \<and> got = msg"
  using carried whole named by blast

text \<open>A neighbourhood message of the sender does to the receiver's topology what it says.\<close>

lemma neighbour_told:
  assumes "peerset_ok A b" and "topo_inv A t2" and "topo_in t2" and "neigh_complete msg" and "msg ! 0 = MSG_TYPE_NEIGHBOURHOOD"
    and can: "can_carry s r to addr msg"
  shows "\<exists>remote got t2'. carries s r to addr msg remote got \<and> nd_addr remote = addr \<and>
    topology_message_parse A S ic (Some remote) got t2 = Inr t2' \<and> topo_inv A t2' \<and>
    topo_view A t2' = view_message remote (msg ! 1) (topo_view A t2)"
proof -
  let ?n = "empty_node\<lparr>nd_addr := addr\<rparr>"
  have c: "carries s r to addr msg ?n msg" using exactly [OF can] by simp
  have ok: "\<not> (msg = [] \<or> msg ! 0 = MSG_TYPE_NEIGHBOURHOOD \<and> topo_in t2 \<and> \<not> neigh_complete msg)"
    using assms(4) by (auto simp: neigh_complete_def)
  obtain t2' where t2': "topology_message_parse A S ic (Some ?n) msg t2 = Inr t2'" "topo_inv A t2'"
    "topo_view A t2' = view_message ?n (msg ! 1) (topo_view A t2)"
    using message_parse_view [OF assms(1,2), of msg S ic ?n] unfolding if_not_P [OF ok] using assms(3,5) by auto
  then show ?thesis using c by (intro exI conjI) (assumption | simp)+
qed

end

section \<open>The layer with fragments\<close>

text \<open>The size of the receive buffer of \<open>psinstance_handle_msg\<close> is an argument.  \<open>clocks\<close> are the clocks of the periodic sends, one for each
  fragment, and \<open>ids\<close> the order in which the fragments arrive.\<close>

definition x_can_carry ::
  "int_coding \<Rightarrow> int \<Rightarrow> timeval \<Rightarrow> timeval list \<Rightarrow> nat list \<Rightarrow> nat \<Rightarrow> local_node \<Rightarrow> local_node \<Rightarrow> nodeID \<Rightarrow> sock_addr \<Rightarrow> bytes \<Rightarrow> bool" where
  "x_can_carry ic now tv clocks ids sz s r to addr msg \<longleftrightarrow>
     (let e = the_endpoint (ln_nm s) to; fs = nm_frag_size (ln_nm s) in
      int_coding_ok ic \<and> msg \<noteq> [] \<and> length msg < sz \<and> nm_inv (ln_nm s) \<and> nm_inv (ln_nm r) \<and> 0 < nm_max_pkt_age (ln_nm r) \<and>
      0 < fs \<and> fs < 2 ^ 32 \<and> length msg \<le> 65535 * fs \<and> FRAGMENT_HEADER_LEN + fs \<le> ln_buffer_len s \<and>
      ep_out_id e \<notin> live_packets now (ep_outgoing e) \<and> tv_us tv \<noteq> tv_us (ns_last_update_time (ln_shaper s)) \<and>
      (\<forall>c \<in> set clocks. ns_next_sending_event (ln_shaper s) \<le> c) \<and> length clocks = (length msg + fs - 1) div fs \<and>
      distinct ids \<and> set ids = {..<length clocks} \<and>
      pb_deref (ep_incoming (the_endpoint (ln_nm r) (empty_node\<lparr>nd_addr := addr\<rparr>))) (ep_out_id e) = None)"

definition x_carries ::
  "int_coding \<Rightarrow> int \<Rightarrow> timeval \<Rightarrow> timeval list \<Rightarrow> nat list \<Rightarrow> nat \<Rightarrow> local_node \<Rightarrow> local_node \<Rightarrow> nodeID \<Rightarrow> sock_addr \<Rightarrow> bytes \<Rightarrow> nodeID \<Rightarrow> bytes \<Rightarrow> bool" where
  "x_carries ic now tv clocks ids sz s r to addr msg remote got \<longleftrightarrow>
     (\<exists>s1 s2 dgs ds d rs r1 r2.
        send_to_peer now tv (Some s) (Some to) (Some msg) = Inr (int (length msg), Some s1) \<and> send_all ic clocks s1 = Inr (s2, dgs) \<and>
        map (\<lambda>i. dg_bytes (dgs ! i)) ids = ds @ [d] \<and> recv_all ic now addr sz ds r = Inr (rs, r1) \<and> (\<forall>x \<in> set rs. fst x = 0) \<and>
        recv_from_peer ic now now r1 (Some (addr, d)) sz = Inr (int (length got), Some remote, got, r2))"

lemma recv_all_append:
  "recv_all ic now addr sz (ds @ es) s = c_bind (recv_all ic now addr sz ds s) (\<lambda>(rs, s1).
     c_bind (recv_all ic now addr sz es s1) (\<lambda>(rs', s2). Inr (rs @ rs', s2)))"
proof (induction ds arbitrary: s)
  case (Cons d ds)
  show ?case
  proof (cases "recv_from_peer ic now now s (Some (addr, d)) sz")
    case (Inr x)
    then show ?thesis using Cons by (cases x) (auto simp: c_bind_def split: sum.split prod.split)
  qed simp
qed (auto simp: c_bind_def split: sum.split prod.split)

lemma x_delivery:
  assumes "x_can_carry ic now tv clocks ids sz s r to addr msg"
  shows "\<exists>s1 s2 dgs r'. send_to_peer now tv (Some s) (Some to) (Some msg) = Inr (int (length msg), Some s1) \<and> send_all ic clocks s1 = Inr (s2, dgs) \<and>
    recv_all ic now addr sz (map (\<lambda>i. dg_bytes (dgs ! i)) ids) r = Inr (replicate (length ids - 1) (0, []) @ [(int (length msg), msg)], r') \<and> ids \<noteq> []"
proof -
  have fs: "0 < nm_frag_size (ln_nm s)" "msg \<noteq> []" using assms by (simp_all add: x_can_carry_def Let_def)
  have "nm_frag_size (ln_nm s) \<le> length msg + nm_frag_size (ln_nm s) - 1" using fs by (cases msg) simp_all
  then have "0 < (length msg + nm_frag_size (ln_nm s) - 1) div nm_frag_size (ln_nm s)" using fs(1) by (simp add: div_greater_zero_iff)
  then have "0 < length clocks" using assms by (simp add: x_can_carry_def Let_def)
  then have ids: "ids \<noteq> []" using assms by (auto simp: x_can_carry_def Let_def)
  show ?thesis
    using packet_delivery [where s = s and r = r and t = to and addr = addr and clocks = clocks and ids = ids and sz = sz and now' = now and now = now and tv = tv
        and d = msg and ic = ic] assms ids unfolding x_can_carry_def Let_def by (elim conjE) blast
qed

interpretation x_channel: message_channel "x_can_carry ic now tv clocks ids sz" "x_carries ic now tv clocks ids sz"
proof
  fix s r to addr msg
  assume can: "x_can_carry ic now tv clocks ids sz s r to addr msg"
  obtain s1 s2 dgs r' where d: "send_to_peer now tv (Some s) (Some to) (Some msg) = Inr (int (length msg), Some s1)" "send_all ic clocks s1 = Inr (s2, dgs)"
    "recv_all ic now addr sz (map (\<lambda>i. dg_bytes (dgs ! i)) ids) r = Inr (replicate (length ids - 1) (0, []) @ [(int (length msg), msg)], r')" "ids \<noteq> []"
    using x_delivery [OF can] by (elim exE conjE)
  have len: "0 < length msg" using can by (simp add: x_can_carry_def Let_def)
  let ?L = "map (\<lambda>i. dg_bytes (dgs ! i)) ids"
  have split: "\<exists>rs r1 rem r2. recv_all ic now addr sz ds r = Inr (rs, r1) \<and> (\<forall>x \<in> set rs. fst x = 0) \<and>
      recv_from_peer ic now now r1 (Some (addr, e)) sz = Inr (int (length msg), rem, msg, r2)" if e: "?L = ds @ [e]" for ds e
    using d(3) unfolding e recv_all_append by (auto simp: c_bind_Inr_conv)
  {
    have e: "?L = butlast ?L @ [last ?L]" using d(4) by simp
    obtain rs r1 rem r2 where c: "recv_all ic now addr sz (butlast ?L) r = Inr (rs, r1)" "\<forall>x \<in> set rs. fst x = 0"
      "recv_from_peer ic now now r1 (Some (addr, last ?L)) sz = Inr (int (length msg), rem, msg, r2)" using split [OF e] by (elim exE conjE)
    have rem: "rem = Some (empty_node\<lparr>nd_addr := addr\<rparr>)" using recv_from_node [OF c(3)] len by simp
    have "x_carries ic now tv clocks ids sz s r to addr msg (empty_node\<lparr>nd_addr := addr\<rparr>) msg"
      unfolding x_carries_def by (intro exI conjI; (rule d(1) d(2) e c(1) c(2) c(3) [unfolded rem])?)
    then show "\<exists>remote got. x_carries ic now tv clocks ids sz s r to addr msg remote got" by blast
  next
    fix remote got
    assume "x_carries ic now tv clocks ids sz s r to addr msg remote got"
    then obtain ds e rs r1 r2 where g: "?L = ds @ [e]" "recv_all ic now addr sz ds r = Inr (rs, r1)"
      "recv_from_peer ic now now r1 (Some (addr, e)) sz = Inr (int (length got), Some remote, got, r2)"
      unfolding x_carries_def using d(1,2) by auto
    have m: "Inr (int (length got), Some remote, got, r2) = Inr (int (length msg), rem, msg, r3)"
      if "recv_from_peer ic now now r1 (Some (addr, e)) sz = Inr (int (length msg), rem, msg, r3)" for rem r3
      using g(3) that by simp
    show "got = msg" using split [OF g(1)] g(2,3) by auto
    show "remote = empty_node\<lparr>nd_addr := addr\<rparr>"
      using split [OF g(1)] g(2,3) len recv_from_node by fastforce
  }
qed

section \<open>The layer without fragments\<close>

text \<open>A sender is a store of nodes, its own pointer and the pointer to the destination; a receiver a store and its own pointer.\<close>

definition udp_can_carry :: "nat \<Rightarrow> udp_net \<times> nat \<times> nat \<Rightarrow> udp_net \<times> nat \<Rightarrow> nodeID \<Rightarrow> sock_addr \<Rightarrow> bytes \<Rightarrow> bool" where
  "udp_can_carry sz s r to addr msg \<longleftrightarrow>
     (case (s, r) of ((w, p, q), (w', l)) \<Rightarrow>
        msg \<noteq> [] \<and> length msg \<le> sz \<and> un_heap w p \<noteq> None \<and> map_option un_addr (un_heap w q) = Some (nd_addr to) \<and> un_heap w' l \<noteq> None)"

definition udp_carries :: "nat \<Rightarrow> udp_net \<times> nat \<times> nat \<Rightarrow> udp_net \<times> nat \<Rightarrow> nodeID \<Rightarrow> sock_addr \<Rightarrow> bytes \<Rightarrow> nodeID \<Rightarrow> bytes \<Rightarrow> bool" where
  "udp_carries sz s r to addr msg remote got \<longleftrightarrow>
     (case (s, r) of ((w, p, q), (w', l)) \<Rightarrow>
        (\<exists>w1 fd d w2 i n. udp_send_to_peer (int (length msg)) (Some p) (Some q) msg w = Inr (int (length msg), w1) \<and>
           un_sent w1 = un_sent w @ [(fd, d, nd_addr to)] \<and>
           udp_recv_from_peer (Some (addr, d)) (Some l) sz w' = Inr (int (length got), Some i, got, w2) \<and>
           un_heap w2 i = Some n \<and> remote = node_of n))"

lemma udp_receive_whole:
  assumes "un_heap w l \<noteq> None" and "d \<noteq> []" and "length d \<le> sz"
  shows "\<exists>w2. udp_recv_from_peer (Some (addr, d)) (Some l) sz w = Inr (int (length d), Some (un_next w), d, w2) \<and>
    un_heap w2 (un_next w) = Some \<lparr>un_addr = addr, un_occurrences = 1, un_fd = -1\<rparr>"
  using assms by (auto simp: udp_recv_from_peer_def udp_malloc_def udp_at_def)

interpretation udp_channel: message_channel "udp_can_carry sz" "udp_carries sz"
proof
  fix s :: "udp_net \<times> nat \<times> nat" and r :: "udp_net \<times> nat" and to addr msg
  obtain w p q where s: "s = (w, p, q)" by (cases s)
  obtain w' l where r: "r = (w', l)" by (cases r)
  assume can: "udp_can_carry sz s r to addr msg"
  then obtain f t where ft: "un_heap w p = Some f" "un_heap w q = Some t" "un_addr t = nd_addr to" and m: "un_heap w' l \<noteq> None" "msg \<noteq> []" "length msg \<le> sz"
    unfolding udp_can_carry_def s r by auto
  have send: "udp_send_to_peer res (Some p) (Some q) msg w = Inr (res, w\<lparr>un_sent := un_sent w @ [(un_fd f, msg, nd_addr to)]\<rparr>)" for res
    using ft by (simp add: udp_send_to_peer_def udp_at_def)
  obtain w2 where recv: "udp_recv_from_peer (Some (addr, msg)) (Some l) sz w' = Inr (int (length msg), Some (un_next w'), msg, w2)"
    "un_heap w2 (un_next w') = Some \<lparr>un_addr = addr, un_occurrences = 1, un_fd = -1\<rparr>"
    using udp_receive_whole [OF m] by blast
  have n: "node_of \<lparr>un_addr = addr, un_occurrences = 1, un_fd = -1\<rparr> = empty_node\<lparr>nd_addr := addr\<rparr>" by (simp add: node_of_def empty_node_def)
  have c: "udp_carries sz s r to addr msg remote got \<longleftrightarrow> remote = empty_node\<lparr>nd_addr := addr\<rparr> \<and> got = msg" for remote got
    unfolding udp_carries_def s r using send recv n by auto
  show "\<exists>remote got. udp_carries sz s r to addr msg remote got" unfolding c by simp
  fix remote got
  assume "udp_carries sz s r to addr msg remote got"
  then show "got = msg" "remote = empty_node\<lparr>nd_addr := addr\<rparr>" unfolding c by simp_all
qed

section \<open>Properties\<close>

text \<open>C12: The overlay works over either socket layer.  A neighbourhood message of one node (ADD, REMOVE or QUIT with its metadata) that the
  layer can carry, in fragments that arrive in any order with \<open>net_helper-x.c\<close>, in one datagram with \<open>net_helper-udp.c\<close>, is received
  whole, from a node with the sender's address, and does to the three sets of the receiver's topology exactly what its type says.\<close>

theorem neighbour_told_either_layer:
  fixes t1 :: "('s1, 'p1, nodeID, 'b1) topology" and t2 :: "('s, 'p, nodeID, 'b) topology" and ty :: u8
  assumes "int_coding_ok ic" and "peerset_ok A b" and "topo_inv A t2" and "topo_in t2"
  defines "msg \<equiv> [MSG_TYPE_NEIGHBOURHOOD, ty] @ int16_cpy ic (md_cb_size (my_metadata t1)) @ [md_neigh_size (my_metadata t1)]"
  shows "tp_sent (neighbourhood_send_msg ic q ty t1) = tp_sent t1 @ [Neigh_msg (pr_id q) msg] \<and>
    (x_can_carry ic now tv clocks ids sz s r (pr_id q) addr msg \<longrightarrow>
      (\<exists>remote got t2'. x_carries ic now tv clocks ids sz s r (pr_id q) addr msg remote got \<and> nd_addr remote = addr \<and>
         topology_message_parse A S ic (Some remote) got t2 = Inr t2' \<and> topo_inv A t2' \<and> topo_view A t2' = view_message remote ty (topo_view A t2))) \<and>
    (udp_can_carry sz us ur (pr_id q) addr msg \<longrightarrow>
      (\<exists>remote got t2'. udp_carries sz us ur (pr_id q) addr msg remote got \<and> nd_addr remote = addr \<and>
         topology_message_parse A S ic (Some remote) got t2 = Inr t2' \<and> topo_inv A t2' \<and> topo_view A t2' = view_message remote ty (topo_view A t2)))"
proof -
  have m: "neigh_complete msg" "msg ! 0 = MSG_TYPE_NEIGHBOURHOOD" "msg ! 1 = ty" using assms(1) by (simp_all add: msg_def neigh_complete_def)
  have sent: "tp_sent (neighbourhood_send_msg ic q ty t1) = tp_sent t1 @ [Neigh_msg (pr_id q) msg]" by (simp add: neighbourhood_send_msg_def msg_def)
  show ?thesis
    using sent x_channel.neighbour_told [OF assms(2-4) m(1,2), where S = S and ic = ic, unfolded m(3)]
      udp_channel.neighbour_told [OF assms(2-4) m(1,2), where S = S and ic = ic, unfolded m(3)] by blast
qed

text \<open>A QUIT reaches a node of either build.\<close>

theorem neighbour_told_either_layer_witness:
  defines "peer \<equiv> \<lparr>pr_id = \<lparr>nd_addr = AF_INET ''10.0.0.2'' 6000, nd_fd = -1\<rparr>, pr_creation_timestamp = Timeval 1 0, pr_metadata = None, pr_user_data = None\<rparr> :: (nodeID, unit) peer"
    and "t \<equiv> topology_create (list_peerset ()) no_samples () True 0 None None empty_topology :: (nat list, unit, nodeID, unit) topology" and "addr \<equiv> AF_INET ''10.0.0.1'' 6000"
    and "un \<equiv> \<lparr>un_heap = [0 \<mapsto> \<lparr>un_addr = AF_INET ''10.0.0.1'' 6000, un_occurrences = 1, un_fd = 3\<rparr>, 1 \<mapsto> \<lparr>un_addr = AF_INET ''10.0.0.2'' 6000, un_occurrences = 1, un_fd = -1\<rparr>],
      un_next = 2, un_closed = [], un_sent = []\<rparr>"
  shows "\<exists>msg rx gx tx ru gu tu.
    x_carries big_endian 100 (Timeval 20 0) [Timeval 20 0] [0] 100 sample_node sample_node (pr_id peer) addr msg rx gx \<and>
    topology_message_parse (list_peerset ()) no_samples big_endian (Some rx) gx t = Inr tx \<and>
    udp_carries 100 (un, 0, 1) (un, 0) (pr_id peer) addr msg ru gu \<and> topology_message_parse (list_peerset ()) no_samples big_endian (Some ru) gu t = Inr tu \<and>
    topo_view (list_peerset ()) tx = view_message \<lparr>nd_addr = addr, nd_fd = -1\<rparr> NEIGHBOURHOOD_ADD (topo_view (list_peerset ()) t)"
proof -
  let ?msg = "[MSG_TYPE_NEIGHBOURHOOD, NEIGHBOURHOOD_ADD] @ int16_cpy big_endian (md_cb_size (my_metadata t)) @ [md_neigh_size (my_metadata t)]"
  have len: "length ?msg = 5" using int_coding_ok_big_endian by simp
  have i: "topo_in t" by (simp add: t_def topology_create_def topology_init_def update_metadata_def Let_def)
  have x: "x_can_carry big_endian 100 (Timeval 20 0) [Timeval 20 0] [0] 100 sample_node sample_node (pr_id peer) addr ?msg"
    using len int_coding_ok_big_endian
    by (simp add: x_can_carry_def Let_def FRAGMENT_HEADER_LEN_def tv_us_def less_eq_timeval_def less_timeval_def live_packets_def endpoint_create_def lessThan_Suc)
  have u: "udp_can_carry 100 (un, 0, 1) (un, 0) (pr_id peer) addr ?msg"
    using len by (simp add: udp_can_carry_def un_def peer_def)
  have inv: "topo_inv (list_peerset ()) t" unfolding t_def by (rule topo_inv_create [OF list_peerset_ok]) (simp add: empty_topology_def)
  note told = neighbour_told_either_layer [where ?t1.0 = t and ty = NEIGHBOURHOOD_ADD and q = peer and S = no_samples, OF int_coding_ok_big_endian list_peerset_ok inv i]
  obtain rx gx tx where a: "x_carries big_endian 100 (Timeval 20 0) [Timeval 20 0] [0] 100 sample_node sample_node (pr_id peer) addr ?msg rx gx"
    "topology_message_parse (list_peerset ()) no_samples big_endian (Some rx) gx t = Inr tx" "topo_view (list_peerset ()) tx = view_message rx NEIGHBOURHOOD_ADD (topo_view (list_peerset ()) t)"
    using told x by blast
  obtain ru gu tu where b: "udp_carries 100 (un, 0, 1) (un, 0) (pr_id peer) addr ?msg ru gu" "topology_message_parse (list_peerset ()) no_samples big_endian (Some ru) gu t = Inr tu"
    using told u by blast
  have "rx = \<lparr>nd_addr = addr, nd_fd = -1\<rparr>" using x_channel.named [OF x a(1)] by (simp add: empty_node_def)
  then show ?thesis using a b by blast
qed

end
