(* ===== verification/Pstreamer.thy ===== *)
theory Pstreamer
  imports Engine_Safety
begin

text \<open>
  \<open>src/pstreamer.c\<close>: the program around the engine.  It reads the options, creates an instance, polls it until a signal clears
  \<open>running\<close>, and destroys it.

  \<open>getopt\<close> is the list of what it returns, an option with its argument at a time; \<open>read_config\<close> reads the configuration
  string.  A turn comes with what its call of \<open>psinstance_poll\<close> meets and whether a signal arrives during it; the list of
  turns is the observation, and a loop that is still running at its end has not returned.
\<close>

record program =
  srv_port :: int
  srv_ip :: string
  prog_config :: string
  running :: bool
  ip_override :: bool
  config_override :: bool

definition program_start :: program where
  "program_start =
     \<lparr>srv_port = 7000, srv_ip = ''127.0.0.1'', prog_config = ''iface=lo'', running = True, ip_override = False, config_override = False\<rparr>"

definition leave :: "program \<Rightarrow> program" where
  "leave P = P\<lparr>running := False\<rparr>"

text \<open>An unknown option ends the program.\<close>

fun cmdline_parse :: "(char \<times> string) list \<Rightarrow> program \<Rightarrow> program option" where
  "cmdline_parse [] P = Some P"
| "cmdline_parse ((c, optarg) # os) P =
     (if c = CHR ''p'' then cmdline_parse os (P\<lparr>srv_port := atoi optarg\<rparr>)
      else if c = CHR ''i'' then cmdline_parse os (P\<lparr>srv_ip := optarg, ip_override := True\<rparr>)
      else if c = CHR ''c'' then cmdline_parse os (P\<lparr>prog_config := optarg, config_override := True\<rparr>)
      else if c = CHR ''h'' then cmdline_parse os (P\<lparr>running := False\<rparr>)
      else None)"

fun main_loop ::
  "('s, 'p, 'k, 'i, 'src) grapes \<Rightarrow> (poll_env \<times> (nat \<Rightarrow> int \<times> timeval) \<times> bool) list \<Rightarrow> program \<Rightarrow>
   ('s, 'p, 'k, 'i, 'src) psinstance \<Rightarrow> datagram list \<Rightarrow> (program \<times> ('s, 'p, 'k, 'i, 'src) psinstance \<times> datagram list) ps_result" where
  "main_loop G [] P ps out = (if running P then Inr Not_Returned else Inr (Returned (P, ps, out)))"
| "main_loop G ((E, clk, signal) # turns) P ps out =
     (if running P then
        ps_bind (psinstance_turn G E clk ps 5000000) (\<lambda>(ps', dgs).
          main_loop G turns (if signal then leave P else P) ps' (out @ dgs))
      else Inr (Returned (P, ps, out)))"

definition program_main ::
  "('s, 'p, 'k, 'i, 'src) grapes \<Rightarrow> ('s, 'p, 'k, 'i, 'src) host \<Rightarrow> (string \<Rightarrow> config) \<Rightarrow> (nat \<Rightarrow> int \<times> timeval) \<Rightarrow>
   (char \<times> string) list \<Rightarrow> (poll_env \<times> (nat \<Rightarrow> int \<times> timeval) \<times> bool) list \<Rightarrow> (int \<times> datagram list) ps_result" where
  "program_main G H read_config clk args turns =
     (case cmdline_parse args program_start of
        None \<Rightarrow> Inr Exited
      | Some P \<Rightarrow>
          ps_bind (psinstance_create G H (read_config (prog_config P)) clk (Some (srv_ip P)) (srv_port P)) (\<lambda>pso.
          ps_bind (case pso of
                     None \<Rightarrow> Inr (Returned (None, []))
                   | Some ps \<Rightarrow> ps_bind (main_loop G turns P ps []) (\<lambda>(_, ps', out). Inr (Returned (Some ps', out)))) (\<lambda>(pso', out).
          ps_bind (psinstance_destroy G clk pso') (\<lambda>dgs. Inr (Returned (0, out @ dgs))))))"

section \<open>The loop\<close>

lemma main_loop_stopped: "\<not> running P \<Longrightarrow> main_loop G turns P ps out = Inr (Returned (P, ps, out))"
  by (cases turns) auto

text \<open>A loop that returns has polled up to the first signal and no further; its instance is reached by the turns it made.\<close>

lemma main_loop_returns:
  assumes "main_loop G turns P ps out = Inr (Returned (P', ps', out'))" and "running P" and "ps_run G ps0 ps"
    and "\<forall>(E, clk, signal) \<in> set turns. \<forall>i. pe_rand1 E i \<le> RAND_MAX \<and> pe_rand2 E i \<le> RAND_MAX"
  shows "\<exists>k < length turns. snd (snd (turns ! k)) \<and> (\<forall>j < k. \<not> snd (snd (turns ! j))) \<and> ps_run G ps0 ps' \<and> \<not> running P' \<and>
    main_loop G (take (Suc k) turns) P ps out = Inr (Returned (P', ps', out'))"
  using assms
proof (induction turns arbitrary: ps out)
  case (Cons t turns)
  obtain E clk sg where t: "t = (E, clk, sg)" by (cases t) auto
  obtain ps1 dgs where turn: "psinstance_turn G E clk ps 5000000 = Inr (Returned (ps1, dgs))"
    and rest: "main_loop G turns (if sg then leave P else P) ps1 (out @ dgs) = Inr (Returned (P', ps', out'))"
    using Cons.prems(1,2) by (auto simp: t ps_bind_returned)
  have run: "ps_run G ps0 ps1"
    by (rule run_turn [OF Cons.prems(3) _ turn]) (use Cons.prems(4) t in auto)
  show ?case
  proof (cases sg)
    case True
    have P: "\<not> running (leave P)" by (simp add: leave_def)
    then have "P' = leave P" "ps' = ps1" "out' = out @ dgs" using rest True main_loop_stopped [OF P, of G turns ps1 "out @ dgs"] by simp_all
    then show ?thesis using True P run turn Cons.prems(2) by (intro exI [of _ 0]) (simp add: t main_loop_stopped)
  next
    case False
    obtain k where k: "k < length turns" "snd (snd (turns ! k))" "\<forall>j < k. \<not> snd (snd (turns ! j))" "ps_run G ps0 ps'" "\<not> running P'"
      "main_loop G (take (Suc k) turns) P ps1 (out @ dgs) = Inr (Returned (P', ps', out'))"
      using Cons.IH [OF _ Cons.prems(2) run, of "out @ dgs"] rest False Cons.prems(4) by (simp, elim exE conjE) simp
    have "\<not> snd (snd ((t # turns) ! j))" if "j < Suc k" for j
      using that k(3) False by (cases j) (simp_all add: t)
    then show ?thesis using k turn Cons.prems(2) False by (intro exI [of _ "Suc k"]) (simp add: t)
  qed
qed simp

end
