(* ===== verification/Debug_Log.thy ===== *)
theory Debug_Log
  imports Psinstance
begin

text \<open>
  \<open>src/dbg.c\<close>: the lines that are logged.  A line is the text \<open>fprintf\<close> writes to the standard error, without its
  newline; the clock is an argument, as are the error codes of the
  chunk buffer, which are not in the repository.
\<close>

datatype stream = Stderr | Other_stream nat

text \<open>The time goes to the given stream, the message always to the standard error.  \<open>body\<close> is the formatted message.\<close>

definition ftprintf :: "timeval \<Rightarrow> stream \<Rightarrow> string \<Rightarrow> int \<times> (stream \<times> string) list" where
  "ftprintf tnow strm body =
     (let ms = int_dec (tv_usec tnow sdiv 1000)
      in (int (length body),
          [(strm, int_dec (tv_sec tnow) @ ''.'' @ replicate (3 - length ms) CHR ''0'' @ ms @ '' ''), (Stderr, body)]))"

definition gettimeofday_in_us :: "timeval \<Rightarrow> u64" where
  "gettimeofday_in_us what_time = word_of_int (tv_sec what_time) * 1000000 + word_of_int (tv_usec what_time)"

datatype signal_kind =
  sig_offer | sig_accept | sig_request | sig_deliver | sig_send_buffermap | sig_request_buffermap | sig_ack | sig_unknown

fun signal_str :: "signal_kind \<Rightarrow> string" where
  "signal_str sig_offer = ''OFFER_SIG''"
| "signal_str sig_accept = ''ACCEPT_SIG''"
| "signal_str sig_request = ''REQUEST_SIG''"
| "signal_str sig_deliver = ''DELIVER_SIG''"
| "signal_str sig_send_buffermap = ''SEND_BMAP_SIG''"
| "signal_str sig_request_buffermap = ''REQUEST_BMAP_SIG''"
| "signal_str sig_ack = ''CHUNK_ACK_SIG''"
| "signal_str sig_unknown = ''UNKNOWN_SIG''"

definition NODE_STR_LENGTH :: nat where
  "NODE_STR_LENGTH = 80"

text \<open>A buffer \<open>node_addr\<close> did not fill is read uninitialised.\<close>

definition node_name :: "nodeID option \<Rightarrow> string c_result" where
  "node_name i = (case snd (node_addr i NODE_STR_LENGTH) of Some str \<Rightarrow> Inr str | None \<Rightarrow> Inl Uninit_Read)"

fun csv :: "string list \<Rightarrow> string" where
  "csv [] = []"
| "csv [x] = x"
| "csv (x # y # xs) = x @ CHR '','' # csv (y # xs)"

definition log_signal ::
  "timeval \<Rightarrow> nodeID option \<Rightarrow> nodeID option \<Rightarrow> int \<Rightarrow> u16 \<Rightarrow> signal_kind \<Rightarrow> string \<Rightarrow> string c_result" where
  "log_signal tnow fromid toid cidset_size trans_id type flag =
     c_bind (node_name fromid) (\<lambda>sndr.
     c_bind (node_name toid) (\<lambda>rcvr.
       Inr (csv [''[SIGNAL_LOG]'', nat_dec (unat (gettimeofday_in_us tnow)), sndr, rcvr, nat_dec (unat trans_id), signal_str type, flag])))"

definition log_chunk ::
  "timeval \<Rightarrow> nodeID option \<Rightarrow> nodeID option \<Rightarrow> gchunk option \<Rightarrow> string \<Rightarrow> string c_result" where
  "log_chunk tnow from_node to_node c note_str =
     c_bind (if from_node \<noteq> None then node_name from_node else Inr ''ND'') (\<lambda>sndr.
     c_bind (if to_node \<noteq> None then node_name to_node else Inr ''ND'') (\<lambda>rcvr.
     let line = (\<lambda>fs. Inr (csv ([''[CHUNK_LOG]'', nat_dec (unat (gettimeofday_in_us tnow)), sndr, rcvr] @ fs @ [note_str]))) in
       case c of
         Some k \<Rightarrow>
           c_bind (chunk_attributes_get_hopcount \<lparr>ac_attributes_size = ac_attributes_size k, ac_attributes = ac_attributes k\<rparr>) (\<lambda>hops.
             line [int_dec (gc_id k), int_dec (case gc_data k of Some d \<Rightarrow> int (length d) | None \<Rightarrow> 0),
                   nat_dec (unat (gc_timestamp k)), nat_dec (unat hops)])
       | None \<Rightarrow> line [''-1'', ''-1'', ''0'', ''0'']))"

fun neighbourhood_lines :: "string \<Rightarrow> string \<Rightarrow> nat \<Rightarrow> (nodeID, 'b) peer_store \<Rightarrow> nat list \<Rightarrow> string list c_result" where
  "neighbourhood_lines now me n h [] = Inr []"
| "neighbourhood_lines now me n h (a # as) =
     c_bind (peer_at h a) (\<lambda>p.
     c_bind (case nodeid_static_str (Some (pr_id p)) of Some x \<Rightarrow> Inr x | None \<Rightarrow> Inl Uninit_Read) (\<lambda>name.
     c_bind (neighbourhood_lines now me n h as) (\<lambda>ls.
       Inr (csv [''[NEIGHBOURHOOD]'', now, me, name, nat_dec n] # ls))))"

definition log_neighbourhood ::
  "('s, 'p, 'k, 'i, 'src) grapes \<Rightarrow> timeval \<Rightarrow> ('s, 'p, 'k, 'i, 'src) psinstance \<Rightarrow> string list c_result" where
  "log_neighbourhood G tnow ps =
     c_bind (node_name (psinstance_nodeid ps)) (\<lambda>me.
     c_bind (deref (psinstance_topology ps)) (\<lambda>t.
       let pset = topology_get_neighbours t in
       neighbourhood_lines (nat_dec (unat (gettimeofday_in_us tnow))) me (ps_size (g_peersets G) pset) (tp_peers t) (ps_peers (g_peersets G) pset)))"

record chunk_error_codes =
  E_CB_OLD :: int
  E_CB_DUPLICATE :: int
  E_CANNOT_PARSE :: int
  E_CACHE_MISS :: int

definition log_chunk_error ::
  "chunk_error_codes \<Rightarrow> timeval \<Rightarrow> nodeID option \<Rightarrow> nodeID option \<Rightarrow> gchunk option \<Rightarrow> int \<Rightarrow> string c_result" where
  "log_chunk_error codes tnow from_node to_node c err =
     (if err = E_CB_OLD codes then log_chunk tnow from_node to_node c ''TOO_OLD''
      else if err = E_CB_DUPLICATE codes then log_chunk tnow from_node to_node c ''DUPLICATED''
      else if err = E_CANNOT_PARSE codes then log_chunk tnow from_node to_node None ''CANNOT_PARSE''
      else if err = E_CACHE_MISS codes then log_chunk tnow from_node to_node None ''CACHE_MISS''
      else log_chunk tnow from_node to_node c ''ERROR'')"

section \<open>What the other components print\<close>

text \<open>\<open>peerset_print\<close> of \<open>topology.c\<close>, \<open>network_manager_print_outqueue\<close> of \<open>network_manager.c\<close> and \<open>output_buffer_print\<close> of
  \<open>output-grapes.c\<close>, as the lines they write.  An identifier is printed as the \<open>struct fragment\<close> has it also when the queue holds a request: both
  structures have it at the same place.  The counter of the lines is a \<open>uint16_t\<close>.\<close>

fun peer_lines :: "(nodeID, 'b) peer_store \<Rightarrow> nat list \<Rightarrow> string list c_result" where
  "peer_lines h [] = Inr []"
| "peer_lines h (a # as) =
     c_bind (peer_at h a) (\<lambda>p.
     c_bind (case nodeid_static_str (Some (pr_id p)) of Some x \<Rightarrow> Inr x | None \<Rightarrow> Inl Uninit_Read) (\<lambda>name.
     c_bind (peer_lines h as) (\<lambda>ls.
       Inr ((CHR 0x09 # name @ '', cbsize: '' @ nat_dec (unat (peer_cb_size (Some p))) @
             '', neighsize: '' @ nat_dec (unat (peer_neigh_size (Some p)))) # ls))))"

definition peerset_print ::
  "('s, nodeID, 'b) peerset_api \<Rightarrow> (nodeID, 'b) peer_store \<Rightarrow> 's option \<Rightarrow> string option \<Rightarrow> string list c_result" where
  "peerset_print A h pset name =
     c_bind (case pset of Some s \<Rightarrow> peer_lines h (ps_peers A s) | None \<Rightarrow> Inr []) (\<lambda>ls.
       Inr ((case name of Some x \<Rightarrow> [x] | None \<Rightarrow> []) @ ls))"

definition net_msg_id :: "net_msg \<Rightarrow> u16" where
  "net_msg_id m = (case m of Fragment_msg f \<Rightarrow> f_id f | Request_msg r \<Rightarrow> fr_id r)"

fun outqueue_lines :: "network_manager \<Rightarrow> u16 \<Rightarrow> send_queue \<Rightarrow> string list c_result" where
  "outqueue_lines nm i [] = Inr []"
| "outqueue_lines nm i (r # rs) =
     (case nm_message nm r of
        None \<Rightarrow> Inl Use_After_Free
      | Some msg \<Rightarrow>
          c_bind (outqueue_lines nm (i + 1) rs) (\<lambda>ls.
            Inr ((nat_dec (unat i) @ '') frag_id = '' @ nat_dec (unat (net_msg_id msg))) # ls)))"

definition network_manager_print_outqueue :: "network_manager \<Rightarrow> string list c_result" where
  "network_manager_print_outqueue nm =
     c_bind (outqueue_lines nm 0 (nm_outqueue nm)) (\<lambda>ls. Inr (''=== Outqueue ==='' # ls))"

definition output_buffer_print :: "chunk_output \<Rightarrow> string" where
  "output_buffer_print co = ''['' @ concat (map (\<lambda>c. ''| '' @ int_dec (ch_id c) @ '' |'') (co_buff co)) @ '']''"

section \<open>What is logged\<close>

text \<open>The names of the signals fit into the 24 characters of \<open>typestr\<close>.\<close>

lemma signal_str_fits: "length (signal_str k) < 24"
  by (cases k) simp_all

lemma node_name_ok:
  assumes "\<forall>n. i = Some n \<longrightarrow> length (fst (node_ip (Some n))) + 6 \<le> 80"
  shows "\<exists>x. node_name i = Inr x"
  using assms by (cases i) (auto simp: node_name_def NODE_STR_LENGTH_def node_addr_def nodeid_dump_def Let_def)

text \<open>With buffers that hold every name, and a chunk that has its attributes, no log line reads what was not written.\<close>

lemma log_chunk_ok:
  assumes "\<And>n. n \<in> {x. from_node = Some x \<or> to_node = Some x} \<Longrightarrow> length (fst (node_ip (Some n))) + 6 \<le> 80"
    and "\<forall>k. c = Some k \<longrightarrow> (\<exists>h. ac_attributes k = Attr h)"
  shows "\<exists>x. log_chunk tnow from_node to_node c note_str = Inr x"
proof -
  obtain x y where "node_name from_node = Inr x" "node_name to_node = Inr y"
    using node_name_ok [of from_node] node_name_ok [of to_node] assms(1) by auto
  then show ?thesis
    using assms(2) by (cases c) (auto simp: log_chunk_def chunk_attributes_get_hopcount_def Let_def)
qed

text \<open>Every error is logged.\<close>

lemma log_chunk_error_ok:
  assumes "\<And>n. n \<in> {x. from_node = Some x \<or> to_node = Some x} \<Longrightarrow> length (fst (node_ip (Some n))) + 6 \<le> 80"
    and "\<forall>k. c = Some k \<longrightarrow> (\<exists>h. ac_attributes k = Attr h)"
  shows "\<exists>x. log_chunk_error codes tnow from_node to_node c err = Inr x"
  using log_chunk_ok [OF assms(1)] assms(2) by (simp add: log_chunk_error_def)

text \<open>Printing the send queue of a well-formed manager reads no message that is gone: one line per queued message.\<close>

lemma outqueue_lines_ok:
  "\<forall>r \<in> set q. nm_message nm r \<noteq> None \<Longrightarrow> \<exists>ls. outqueue_lines nm i q = Inr ls \<and> length ls = length q"
proof (induction q arbitrary: i)
  case (Cons r q)
  then obtain ls where "outqueue_lines nm (i + 1) q = Inr ls" "length ls = length q" by (meson list.set_intros(2))
  then show ?case using Cons.prems by auto
qed simp

lemma print_outqueue_ok:
  "nm_inv nm \<Longrightarrow> \<exists>ls. network_manager_print_outqueue nm = Inr ls \<and> length ls = Suc (length (nm_outqueue nm))"
  using outqueue_lines_ok [of "nm_outqueue nm" nm 0] by (auto simp: network_manager_print_outqueue_def nm_inv_def)

lemma peer_lines_ok:
  assumes "\<forall>a \<in> set as. \<exists>p. h a = Some p \<and> length (fst (node_ip (Some (pr_id p)))) + 6 \<le> 80"
  shows "\<exists>ls. peer_lines h as = Inr ls \<and> length ls = length as"
  using assms
  by (induction as) (auto simp: peer_at_def nodeid_static_str_def node_addr_def nodeid_dump_def Let_def)

end
