(* ===== verification/Spec2Isabelle.thy ===== *)
theory Spec2Isabelle
  imports Intrusive_List Net_Helper Chunk_Locks Transactions Streaming_Timers Output_Buffer Chunk_Data Topology Chunk_Trader Chunk_Input Host_Address Psinstance Engine_Safety Engine_Departure Engine_Network Chunk_Exchange Net_Helper_Udp Overlay_Channel Pstreamer Debug_Log
begin

text \<open>
  A verification development for the PeerStreamer engine: the packet layer (\<open>Lib/net_helper\<close>), the streaming engine
  (\<open>src/*.c\<close>) and the program around it (\<open>pstreamer.c\<close>).

  \<^bold>\<open>The program.\<close>  \<open>pstreamer.c\<close> creates one \<open>struct psinstance\<close> and calls \<open>psinstance_poll\<close> until a signal arrives.  A call waits for
  the socket (\<open>wait4data\<close>), lets the streaming timers choose an action (receive a message, offer chunks, inject a chunk of
  the input, nothing), performs it, and now and then updates the topology.  Messages are received by \<open>recv_from_peer\<close> and
  dispatched on their first byte to the topology, the chunk trader or the output; the components send with \<open>send_to_peer\<close>, which
  cuts messages into fragments and queues them; \<open>wait4data\<close> and \<open>net_helper_periodic\<close> send the queue.

  \<^bold>\<open>Theories and files.\<close>
  \<^item> \<open>Prelude\<close>: faults of C (\<open>c_fault\<close>, \<open>c_result\<close>, \<open>c_bind\<close>), bytes, \<open>struct timeval\<close> and \<open>compatibility/timer.h\<close>, and the lemmas the
    components share.
  \<^item> \<open>Ord_Set\<close> (\<open>nhx/ord_set.c\<close>): the sorted array.  The locale \<open>cmp_order\<close> states what a comparison function must promise,
    \<open>keyed_store\<close> what a client may rely on, \<open>cmp_key\<close> joins them; interpreted for nodes (\<open>Node_Id\<close>), endpoints
    (\<open>Network_Manager\<close>) and packets (\<open>Packet_Bucket\<close>).
  \<^item> \<open>Intrusive_List\<close> (\<open>nhx/list.h\<close>): the linked lists on an explicit store of pointers; the locale \<open>linked_queue\<close> is their
    contract as a queue.
  \<^item> \<open>Node_Id\<close> (\<open>struct nodeID\<close> of \<open>net_helper-x.c\<close>), \<open>Net_Msg\<close> (\<open>net_msg.c\<close>, \<open>fragment.c\<close>, \<open>frag_request.c\<close>), \<open>Fragmented_Packet\<close>,
    \<open>Packet_Bucket\<close>, \<open>Network_Manager\<close> (with \<open>endpoint.c\<close>), \<open>Network_Shaper\<close>, \<open>Net_Helper\<close> (the rest of \<open>net_helper-x.c\<close>): the packet
    layer from the bytes up.  \<open>Net_Helper_Udp\<close> is \<open>net_helper-udp.c\<close>, the build without fragmentation, on a store of shared and
    counted nodes; \<open>Overlay_Channel\<close> is the contract both builds share, the locale \<open>message_channel\<close>.  \<open>Host_Address\<close> is the detection of the own address in \<open>net_helpers.c\<close>.
  \<^item> \<open>Chunk_Locks\<close>, \<open>Transactions\<close>, \<open>Streaming_Timers\<close>, \<open>Output_Buffer\<close> (\<open>output-grapes.c\<close>), \<open>Chunk_Data\<close> (\<open>chunk_attributes.c\<close>, \<open>measures.c\<close>,
    \<open>peer_metadata.c\<close>), \<open>Chunk_Input\<close> (\<open>input-grapes.c\<close>), \<open>Topology\<close>, \<open>Chunk_Trader\<close>: the components of the engine, each with the names of
    its file.
  \<^item> \<open>Psinstance\<close> (\<open>psinstance.c\<close>): the instance, its creation, the handling of messages, the polling loop, destruction.
    \<open>Engine_Safety\<close> shows what holds of it as a whole, \<open>Engine_Departure\<close> what the others learn when it is destroyed,
    \<open>Engine_Network\<close> what holds of any number of engines that exchange datagrams, \<open>Chunk_Exchange\<close> what an offer leads to.  \<open>Pstreamer\<close> is the program, \<open>Debug_Log\<close> is \<open>dbg.c\<close> and what the other components print.

  \<^bold>\<open>State.\<close>  A \<open>struct\<close> is a record, passed and returned; NULL is \<open>None\<close>.  Where the code shares or frees memory there is a store: the
  fields of list elements, the peers of the topology (\<open>tp_peers\<close>), the fragments the send queue points to (\<open>msg_ref\<close>), the nodes
  of the UDP build (\<open>un_heap\<close>); following a released address is the value \<open>Use_After_Free\<close>.  A NULL pointer that is followed, an
  array index out of range, an uninitialised read, a double free and a division by zero are values of \<open>c_fault\<close> as well, so the
  absence of faults is a theorem and not an assumption.  Machine integers are words where they may wrap; the remaining
  \<open>int\<close> of C is \<open>int\<close>, \<open>double\<close> is a rational without rounding.

  \<^bold>\<open>Parameters.\<close>  GRAPES (peer sets, peer sampling, chunk buffers, identifier sets, scheduling, message encodings, the integer
  codings, media streams) is not in the repository: its functions are records of functions (\<open>peerset_api\<close>, \<open>chunkbuf_api\<close>,
  \<open>idset_api\<close>, \<open>int_coding\<close>, together \<open>grapes\<close>), and what the code relies on is a hypothesis with a name (\<open>peerset_ok\<close>,
  \<open>idset_ok\<close>, \<open>sched_ok\<close>, \<open>int_coding_ok\<close>, together \<open>grapes_ok\<close>), shown to hold of a concrete instance (\<open>list_peerset\<close>, \<open>list_idset\<close>,
  \<open>big_endian\<close>, \<open>sample_grapes\<close>).  The clocks, \<open>select\<close>, \<open>recvfrom\<close>, \<open>socket\<close>, \<open>rand\<close> and the tables of the system are arguments
  (\<open>host\<close>, \<open>poll_env\<close>), one value for each call.

  \<^bold>\<open>Loops and fuel.\<close>  Loops over data are structural recursion or have a measure.  Loops that may not end return an option or
  \<open>Not_Returned\<close>: \<open>wait4data\<close> and the main loop run over the list of their observed rounds; the loops of \<open>topology_update\<close>,
  \<open>topology_destroy\<close> and \<open>net_helper_deinit\<close> are proved to end in every state the invariant allows.

  \<^bold>\<open>What is shown.\<close>
  \<^item> The packet layer: the sorted set refines a finite map; lists refine queues; encodings are read back; a packet whose
    fragments arrive in any order is delivered once, whole and unchanged (\<open>packet_sent_and_delivered\<close>); every run of a node keeps
    its invariant, and faults exactly on malformed datagrams (\<open>node_runs_safe\<close>, \<open>receive_faults_iff_malformed\<close>).  Both socket layers
    name nodes alike and carry the messages of the overlay alike (\<open>neighbour_told_either_layer\<close>), and the nodes of the UDP build
    live exactly as long as they are referenced.
  \<^item> The topology refines three sets of identifiers (\<open>topo_view\<close>); every run keeps \<open>topo_inv\<close> and is free of faults; an update
    leaves exactly the neighbourhood the code means to choose (\<open>topology_update_result\<close>).
  \<^item> Trading: what is accepted, locked, sent and offered for each message, and that no chunk is requested twice while its lock
    lasts.  The output writes chunks in order, each at most once, and completely while they arrive within the window.
  \<^item> The engine: \<open>psinstance_create\<close> establishes \<open>ps_inv\<close>, every turn keeps it, and the only ways to fault are the six of
    \<open>poll_hazard\<close> (\<open>engine_runs_safely\<close>).  Two engines become neighbours over the network (\<open>engines_become_neighbours\<close>, below), and one that
    leaves is forgotten by whoever receives its farewell (\<open>engine_leaves\<close>).
  \<^item> The network: engines join, leave and vanish, datagrams are lost, repeated, reordered and delayed.  Every datagram an engine
    sends decodes at every other one, so the first of the six hazards only comes from hosts that are no engines, and every
    running engine keeps its invariant (\<open>network_delivers_wellformed\<close>).

  \<^bold>\<open>Not modelled.\<close>  \<open>show_help\<close> and functions that only free (\<open>output_destroy\<close>, \<open>chunk_locks_destroy\<close> and the
  like); the Windows branches of \<open>net_helpers.c\<close>; rounding of floating point
  numbers; failing \<open>malloc\<close>; the test programs.
\<close>

section \<open>From one engine to another\<close>

text \<open>A topology message that is parsed, and adds a neighbour, in the engine.\<close>

lemma handle_add_message:
  assumes "ps_topology ps = Some t" and "ps_trader ps = Some ct"
    and "topology_message_parse (g_peersets G) (g_psample G) (g_coding G) (Some i) msg t = Inr t'" and "tp_sent t' = tp_sent t @ [Bmap_to i]"
  shows "handle_topology_msg G (Some i) msg ps =
    Inr (ps\<lparr>ps_topology := Some t', ps_trader := Some (chunk_trader_send_bmap (g_chunkbuf G) (g_idset G) (psinstance_is_source ps) i ct)\<rparr>)"
  using assms by (simp add: handle_topology_msg_def)

lemma handle_delivered_message:
  assumes "my_sock ps = Some r" and "recv_from_peer (g_coding G) now now' r incoming MSG_BUFFSIZE = Inr (len, Some i, msg, r')" and "len > 0"
    and "msg \<noteq> []" and "msg ! 0 = MSG_TYPE_NEIGHBOURHOOD" and "handle_topology_msg G (Some i) msg (ps\<lparr>my_sock := Some r'\<rparr>) = Inr ps'"
  shows "psinstance_handle_msg G now now' incoming E ps = Inr (Returned (1, ps'))"
  using assms by (simp add: psinstance_handle_msg_def Let_def)

text \<open>C1: Two engines become neighbours over the network.  When the topology of one engine tells a peer ADD, and the message is
  given to \<open>send_to_peer\<close>, the next \<open>net_helper_periodic\<close> sends it as one datagram to the address of the peer's endpoint; when the
  engine that receives this datagram handles it, it has the sender (as the socket sees it) in its neighbourhood with exactly the
  buffer size and neighbourhood size the sender announced, has queued its buffer map for the sender, and is well formed.\<close>

theorem engines_become_neighbours:
  assumes "grapes_ok G b V" and "ps_inv G ps" and "my_sock ps = Some r" and "ps_topology ps = Some t2" and "topo_in t2" and "ps_trader ps = Some ct"
    and "nm_inv (ln_nm s)" and "5 \<le> nm_frag_size (ln_nm s)" and "nm_frag_size (ln_nm s) < 2 ^ 32" and "FRAGMENT_HEADER_LEN + nm_frag_size (ln_nm s) \<le> ln_buffer_len s"
    and "ep_out_id (the_endpoint (ln_nm s) (pr_id p)) \<notin> live_packets now (ep_outgoing (the_endpoint (ln_nm s) (pr_id p)))"
    and "tv_us tv \<noteq> tv_us (ns_last_update_time (ln_shaper s))" and "ns_next_sending_event (ln_shaper s) \<le> c"
    and "nm_inv (ln_nm r)" and "0 < nm_max_pkt_age (ln_nm r)"
    and "pb_deref (ep_incoming (the_endpoint (ln_nm r) (empty_node\<lparr>nd_addr := addr\<rparr>))) (ep_out_id (the_endpoint (ln_nm s) (pr_id p))) = None"
  shows "\<exists>msg s1 s2 i dg ps' t2' a q.
    tp_sent (neighbourhood_send_msg (g_coding G) p NEIGHBOURHOOD_ADD t1) = tp_sent t1 @ [Neigh_msg (pr_id p) msg] \<and>
    send_to_peer now tv (Some s) (Some (pr_id p)) (Some msg) = Inr (5, Some s1) \<and>
    net_helper_periodic (g_coding G) c c (Some s1) (Some (Timeval 0 0)) = Inr (Some s2, i, [dg]) \<and>
    dg_fd dg = nd_fd (ln_id s) \<and> dg_to dg = nd_addr (ep_node (the_endpoint (ln_nm s) (pr_id p))) \<and>
    psinstance_handle_msg G now' now' (Some (addr, dg_bytes dg)) E ps = Inr (Returned (1, ps')) \<and>
    ps_inv G ps' \<and> ps_same ps ps' \<and> ps_topology ps' = Some t2' \<and> a \<in> ps_set (g_peersets G) (neighbourhood t2') \<and>
    tp_peers t2' a = Some q \<and> pr_id q = (empty_node\<lparr>nd_addr := addr\<rparr>) \<and>
    peer_cb_size (Some q) = md_cb_size (my_metadata t1) \<and> peer_neigh_size (Some q) = ucast (md_neigh_size (my_metadata t1)) \<and>
    ps_trader ps' = Some (chunk_trader_send_bmap (g_chunkbuf G) (g_idset G) (psinstance_is_source ps) (empty_node\<lparr>nd_addr := addr\<rparr>) ct)"
proof -
  have laws: "int_coding_ok (g_coding G)" "peerset_ok (g_peersets G) b" using assms(1) by (simp_all add: grapes_ok_def)
  have inv2: "topo_inv (g_peersets G) t2" using assms(2,4) by (simp add: ps_inv_def)
  obtain msg t2' a q where msg: "length msg = 5" "msg ! 0 = MSG_TYPE_NEIGHBOURHOOD"
    "tp_sent (neighbourhood_send_msg (g_coding G) p NEIGHBOURHOOD_ADD t1) = tp_sent t1 @ [Neigh_msg (pr_id p) msg]"
    and parse: "topology_message_parse (g_peersets G) (g_psample G) (g_coding G) (Some (empty_node\<lparr>nd_addr := addr\<rparr>)) msg t2 = Inr t2'" "topo_inv (g_peersets G) t2'"
    "tp_sent t2' = tp_sent t2 @ [Bmap_to (empty_node\<lparr>nd_addr := addr\<rparr>)]"
    and nb: "a \<in> ps_set (g_peersets G) (neighbourhood t2')" "tp_peers t2' a = Some q" "pr_id q = (empty_node\<lparr>nd_addr := addr\<rparr>)"
    "peer_cb_size (Some q) = md_cb_size (my_metadata t1)" "peer_neigh_size (Some q) = ucast (md_neigh_size (my_metadata t1))"
    using handshake_result [OF laws inv2 assms(5), of p t1 "g_psample G" "empty_node\<lparr>nd_addr := addr\<rparr>"] by blast
  have ne: "msg \<noteq> []" using msg(1) by auto
  have one: "length [c] = (length msg + nm_frag_size (ln_nm s) - 1) div nm_frag_size (ln_nm s)" using assms(8) msg(1) by (simp add: div_add_self2 less_imp_diff_less)
  have sz: "length msg < MSG_BUFFSIZE" using msg(1) by (simp add: MSG_BUFFSIZE_def)
  have len: "length msg \<le> 65535 * nm_frag_size (ln_nm s)" using msg(1) assms(8) by simp
  have fs0: "0 < nm_frag_size (ln_nm s)" using assms(8) by simp
  obtain s1 s2 dgs r' where net: "send_to_peer now tv (Some s) (Some (pr_id p)) (Some msg) = Inr (int (length msg), Some s1)"
    "send_all (g_coding G) [c] s1 = Inr (s2, dgs)" "length dgs = length [c]"
    "\<forall>dg \<in> set dgs. dg_fd dg = nd_fd (ln_id s) \<and> dg_to dg = nd_addr (ep_node (the_endpoint (ln_nm s) (pr_id p)))"
    "recv_all (g_coding G) now' addr MSG_BUFFSIZE (map (\<lambda>i. dg_bytes (dgs ! i)) [0]) r =
      Inr (replicate (length [0] - 1) (0, []) @ [(int (length msg), msg)], r')"
    using packet_delivery [where s = s and r = r and t = "pr_id p" and addr = addr and clocks = "[c]" and ids = "[0]" and sz = MSG_BUFFSIZE and now' = now',
        OF laws(1) ne assms(7) fs0 assms(9) len assms(10) assms(11)
          assms(12) _ one assms(14,15) sz assms(16)] assms(13) by (auto simp: lessThan_Suc)
  obtain dg where dg: "dgs = [dg]" using net(3) by (cases dgs) auto
  have r: "recv_from_peer (g_coding G) now' now' r (Some (addr, dg_bytes dg)) MSG_BUFFSIZE = Inr (5, Some (empty_node\<lparr>nd_addr := addr\<rparr>), msg, r')"
  proof -
    obtain rem where "recv_from_peer (g_coding G) now' now' r (Some (addr, dg_bytes dg)) MSG_BUFFSIZE = Inr (5, rem, msg, r')"
      using net(5) msg(1) by (auto simp: dg c_bind_Inr_conv)
    then show ?thesis using recv_from_node by fastforce
  qed
  obtain i where p: "net_helper_periodic (g_coding G) c c (Some s1) (Some (Timeval 0 0)) = Inr (Some s2, i, [dg])"
    using net(2) unfolding dg by (auto simp: c_bind_Inr_conv net_helper_periodic_def)
  let ?ps' = "ps\<lparr>my_sock := Some r', ps_topology := Some t2', ps_trader := Some (chunk_trader_send_bmap (g_chunkbuf G) (g_idset G) (psinstance_is_source ps) (empty_node\<lparr>nd_addr := addr\<rparr>) ct)\<rparr>"
  have h: "handle_topology_msg G (Some (empty_node\<lparr>nd_addr := addr\<rparr>)) msg (ps\<lparr>my_sock := Some r'\<rparr>) = Inr ?ps'"
    using handle_add_message [of "ps\<lparr>my_sock := Some r'\<rparr>" t2 ct G "empty_node\<lparr>nd_addr := addr\<rparr>" msg t2'] assms(4,6) parse(1,3) by (simp add: psinstance_is_source_def)
  have run: "psinstance_handle_msg G now' now' (Some (addr, dg_bytes dg)) E ps = Inr (Returned (1, ?ps'))"
    by (rule handle_delivered_message [OF assms(3) r _ ne msg(2) h]) simp
  have "ps_inv G ?ps' \<and> ps_same ps ?ps'"
    using handle_msg_post [OF assms(1,2), of "quiet_call\<lparr>pe_recv_now := now', pe_pop_now := now', pe_incoming := Some (addr, dg_bytes dg), pe_trade := E\<rparr>"] run
    by simp
  then show ?thesis using msg net(1,4) p run nb unfolding dg
    by (intro exI [of _ msg] exI [of _ s1] exI [of _ s2] exI [of _ i] exI [of _ dg] exI [of _ ?ps'] exI [of _ t2'] exI [of _ a] exI [of _ q]) simp
qed

theorem engines_become_neighbours_witness:
  "\<exists>ps (dg :: datagram) ps' t2' a q. psinstance_create sample_grapes sample_host sample_config (\<lambda>_. (1, Timeval 1 0)) (Some ''10.0.0.1'') 7000 = Inr (Returned (Some ps)) \<and>
     dg_fd dg = 3 \<and> dg_to dg = AF_INET ''10.0.0.2'' 6000 \<and>
     psinstance_handle_msg sample_grapes 100 100 (Some (AF_INET ''10.0.0.1'' 6000, dg_bytes dg)) (pe_trade quiet_call) ps = Inr (Returned (1, ps')) \<and>
     ps_topology ps' = Some t2' \<and> a \<in> set (neighbourhood t2') \<and> tp_peers t2' a = Some q \<and>
     pr_id q = empty_node\<lparr>nd_addr := AF_INET ''10.0.0.1'' 6000\<rparr> \<and> peer_cb_size (Some q) = 7 \<and> peer_neigh_size (Some q) = 5"
proof -
  let ?t1 = "empty_topology\<lparr>my_metadata := \<lparr>md_cb_size = 7, md_neigh_size = 5\<rparr>\<rparr> :: (nat list, unit, nodeID, int list) topology"
  let ?p = "\<lparr>pr_id = \<lparr>nd_addr = AF_INET ''10.0.0.2'' 6000, nd_fd = -1\<rparr>, pr_creation_timestamp = Timeval 1 0, pr_metadata = None, pr_user_data = None\<rparr> :: (nodeID, int list) peer"
  let ?addr = "AF_INET ''10.0.0.1'' 6000"
  obtain ps where c: "psinstance_create sample_grapes sample_host sample_config (\<lambda>_. (1, Timeval 1 0)) (Some ''10.0.0.1'') 7000 = Inr (Returned (Some ps))"
    using sample_creates by blast
  note s = sample_peer [OF c]
  have inv: "ps_inv sample_grapes ps" using create_inv [OF sample_grapes_ok sample_create_ok c] by blast
  obtain t ct where t: "ps_topology ps = Some t" "ps_trader ps = Some ct" "topo_in t" using s(4) by blast
  have live: "ep_out_id (the_endpoint (ln_nm sample_node) (pr_id ?p)) \<notin> live_packets 100 (ep_outgoing (the_endpoint (ln_nm sample_node) (pr_id ?p)))"
    by (simp add: live_packets_def endpoint_create_def)
  have snd: "nm_inv (ln_nm sample_node)" "5 \<le> nm_frag_size (ln_nm sample_node)" "nm_frag_size (ln_nm sample_node) < 2 ^ 32"
    "FRAGMENT_HEADER_LEN + nm_frag_size (ln_nm sample_node) \<le> ln_buffer_len sample_node"
    and clk: "tv_us (Timeval 20 0) \<noteq> tv_us (ns_last_update_time (ln_shaper sample_node))" "ns_next_sending_event (ln_shaper sample_node) \<le> Timeval 20 0"
    by (simp_all add: FRAGMENT_HEADER_LEN_def tv_us_def less_eq_timeval_def less_timeval_def)
  have q: "ln_nm quiet_node = network_manager_create (Some (\<lambda>_. None))" by (simp add: quiet_node_def)
  have age: "0 < nm_max_pkt_age (ln_nm quiet_node)" by (simp add: q network_manager_create_def config_int_def DEFAULT_PKT_MAX_AGE_def)
  have rcv: "nm_inv (ln_nm quiet_node)"
    "pb_deref (ep_incoming (the_endpoint (ln_nm quiet_node) (empty_node\<lparr>nd_addr := ?addr\<rparr>))) (ep_out_id (the_endpoint (ln_nm sample_node) (pr_id ?p))) = None"
    unfolding q by (simp_all add: endpoint_create_def)
  note nb = engines_become_neighbours [where p = ?p and ?t1.0 = ?t1 and E = "pe_trade quiet_call", OF sample_grapes_ok inv s(1) t(1,3,2) snd live clk rcv(1) age rcv(2), of 100]
  have p: "ps_set (g_peersets sample_grapes) x = set x" for x by (simp add: sample_grapes_def)
  have e: "nd_fd (ln_id sample_node) = 3" "nd_addr (ep_node (the_endpoint (ln_nm sample_node) (pr_id ?p))) = AF_INET ''10.0.0.2'' 6000"
    by (simp_all add: sample_node_def endpoint_create_def)
  have m: "md_cb_size (my_metadata ?t1) = 7" "ucast (md_neigh_size (my_metadata ?t1)) = (5 :: 16 word)" by simp_all
  from nb [unfolded p e m] show ?thesis
    by (elim exE conjE) (intro exI conjI; (assumption | rule c))
qed

end
